(* ===== verification/Tds_Error.thy ===== *)
theory Tds_Error
  imports Main "HOL-Library.Word"
begin

text \<open>
  The machine types of the Rust sources and the error type of \<^verbatim>\<open>src/src/error.rs\<close>.

  A Rust \<^verbatim>\<open>String\<close> is a list of Unicode scalar values, each a natural number.
  \<^verbatim>\<open>usize\<close> is \<^typ>\<open>nat\<close>; every narrowing cast is written out where the
  code has it. A message text of \<^verbatim>\<open>Error::Protocol(...)\<close> is one constructor of
  the message type of its source file, carrying the values the text interpolates;
  the text stands beside it.
\<close>

section \<open>Machine types\<close>

type_synonym u8 = "8 word"
type_synonym u16 = "16 word"
type_synonym u32 = "32 word"
type_synonym u64 = "64 word"
type_synonym u128 = "128 word"
type_synonym bytes = "u8 list"
type_synonym rchar = nat
type_synonym rstring = "rchar list"

section \<open>Messages of protocol errors, one type per source file\<close>

text \<open>\<^verbatim>\<open>tds/codec/header.rs\<close> and \<^verbatim>\<open>tds/codec/decode.rs\<close>\<close>

datatype packet_msg =
    InvalidPacketType u8 \<comment> \<open>header: invalid packet type: {}\<close>
  | InvalidPacketStatus \<comment> \<open>header: invalid packet status\<close>
  | InvalidPacketLength \<comment> \<open>Invalid packet length\<close>

text \<open>\<^verbatim>\<open>tds/codec/pre_login.rs\<close>\<close>

datatype prelogin_msg =
    RejectedInstance rstring rstring \<comment> \<open>server rejected the requested instance {:?} (... got {:?})\<close>
  | EncryptionNotAllowed \<comment> \<open>Server does not allow the requested encryption level.\<close>
  | InvalidEncryptionValue u8 \<comment> \<open>invalid encryption value: {}\<close>
  | InvalidThreadIdLength u16 \<comment> \<open>prelogin: invalid threadid length: {}\<close>
  | UnsupportedPreloginToken u8 \<comment> \<open>unsupported prelogin token: {}\<close>

text \<open>\<^verbatim>\<open>tds/codec/encode.rs\<close>, \<^verbatim>\<open>rpc_request.rs\<close> and \<^verbatim>\<open>type_info.rs\<close>: strings too long for their prefix\<close>

datatype varchar_msg =
    BVarcharTooLong nat \<comment> \<open>string is too long for a B_VARCHAR ({} UTF-16 code units, max 255)\<close>
  | UsVarcharTooLong nat \<comment> \<open>string is too long for a US_VARCHAR ({} UTF-16 code units, max 65535)\<close>
  | ProcNameTooLong nat \<comment> \<open>RPC procedure name is too long ({} UTF-16 code units, max 65535)\<close>

text \<open>\<^verbatim>\<open>tds/codec/token/*.rs\<close>\<close>

datatype token_msg =
    DoneRowCountWidth nat \<comment> \<open>DONE token: unexpected row-count width {} bytes\<close>
  | OrderLengthOdd u16 \<comment> \<open>ORDER token length {} is not a multiple of 2\<close>
  | ErrorInfoUtf16 \<comment> \<open>ERROR/INFO token string is not valid UTF-16\<close>
  | InvalidEnvChangeType u8 \<comment> \<open>invalid envchange type {:x}\<close>
  | EnvChangeDescLength u8 \<comment> \<open>ENVCHANGE transaction descriptor length {}, expected 8\<close>
  | LoginAckTooShort \<comment> \<open>Login ACK: token length shorter than fixed header\<close>
  | LoginAckVersion \<comment> \<open>Login ACK: Invalid TDS version\<close>
  | LoginAckUtf16 \<comment> \<open>Login ACK: ProgName is not valid UTF-16\<close>
  | FeatureAckLength u32 \<comment> \<open>invalid Feature_Ext_Ack token: invalid data length {}\<close>
  | UnsupportedFeature u8 \<comment> \<open>unsupported feature {}\<close>
  | InvalidReturnStatus \<comment> \<open>ReturnValue: invalid status\<close>

datatype token_body_msg =
    FedAuthTooLong nat \<comment> \<open>FEDAUTHINFO token length {} exceeds the maximum\<close>
  | FedAuthDword \<comment> \<open>FEDAUTHINFO token truncated while reading a DWORD\<close>
  | FedAuthOptionId \<comment> \<open>FEDAUTHINFO token truncated while reading an option id\<close>
  | FedAuthOffset \<comment> \<open>FEDAUTHINFO token data offset out of bounds\<close>
  | FedAuthUtf16 \<comment> \<open>FEDAUTHINFO token data is not valid UTF-16\<close>
  | SessionStateTooLong nat \<comment> \<open>SESSIONSTATE token length {} exceeds the maximum\<close>
  | SessionStateTooShort \<comment> \<open>SESSIONSTATE token too short to contain SeqNo and Status\<close>
  | SessionStateEntry nat nat \<comment> \<open>SESSIONSTATE entry length {} exceeds the {} bytes remaining\<close>
  | TabNamePartLength \<comment> \<open>TABNAME token truncated while reading part length\<close>
  | TabNamePartName \<comment> \<open>TABNAME token truncated while reading part name\<close>
  | TabNameUtf16 \<comment> \<open>TABNAME token part is not valid UTF-16\<close>
  | ColInfoHeader \<comment> \<open>COLINFO entry header extends past the token length\<close>
  | ColInfoNameLength \<comment> \<open>COLINFO ColName length byte extends past the token length\<close>
  | ColInfoName \<comment> \<open>COLINFO ColName extends past the token length\<close>
  | ColInfoUtf16 \<comment> \<open>COLINFO ColName is not valid UTF-16\<close>

text \<open>\<^verbatim>\<open>tds/stream/token.rs\<close> and \<^verbatim>\<open>client/connection.rs\<close>\<close>

datatype stream_msg =
    InvalidTokenType u8 \<comment> \<open>invalid token type {:x}\<close>
  | InvalidPacketSize u32 \<comment> \<open>server requested an invalid packet size of {}\<close>
  | UnknownComputeId u16 \<comment> \<open>ALTROW for unknown compute id {}\<close>
  | NeverGotDone \<comment> \<open>Never got DONE token.\<close>
  | NeverGotAttentionDone \<comment> \<open>Never got a DONE token acknowledging the Attention signal.\<close>
  | NeverGotSspi \<comment> \<open>Never got SSPI token.\<close>
  | RowBeforeMetadata \<comment> \<open>ROW token arrived before any COLMETADATA\<close>
  | NbcRowBeforeMetadata \<comment> \<open>NBCROW token arrived before any COLMETADATA\<close>
  | ConnectionPoisoned \<comment> \<open>connection was left in an inconsistent state by a cancelled write ...\<close>
  | ConnectionDesync \<comment> \<open>connection was left out of sync with the server by a command timeout ...\<close>

text \<open>\<^verbatim>\<open>tds/codec/type_info.rs\<close>, \<^verbatim>\<open>tds/codec/column_data.rs\<close> and the files below it, \<^verbatim>\<open>tds/numeric.rs\<close>, \<^verbatim>\<open>tds/time.rs\<close>\<close>

datatype variant_msg =
    VariantTotal nat \<comment> \<open>sql_variant: invalid total length {}\<close>
  | VariantTooSmall nat nat \<comment> \<open>sql_variant: total length {} too small for {} property bytes\<close>
  | VariantTooLong nat \<comment> \<open>sql_variant: value length {} exceeds the maximum\<close>
  | VariantFixedProps u8 \<comment> \<open>sql_variant: fixed base type {:?} must not carry property bytes\<close>
  | VariantUnknownBase u8 \<comment> \<open>sql_variant: unknown base type\<close>
  | VariantUnsupportedBase u8 \<comment> \<open>sql_variant: unsupported base type\<close>
  | VariantProps nat nat \<comment> \<open>sql_variant: expected {} property byte(s), got {}\<close>
  | VariantDataLen nat nat \<comment> \<open>sql_variant: expected value length {}, got {}\<close>
  | VariantNCharLength \<comment> \<open>sql_variant: invalid nchar length\<close>
  | VariantDateTime2Short \<comment> \<open>sql_variant: datetime2 value too short\<close>
  | VariantOffsetShort \<comment> \<open>sql_variant: datetimeoffset value too short\<close>
  | VariantOffsetLong \<comment> \<open>sql_variant: datetimeoffset time length too large\<close>
  | VariantEmptyNumeric \<comment> \<open>sql_variant: empty numeric value\<close>
  | VariantNumericScale u8 \<comment> \<open>sql_variant: invalid numeric scale {}\<close>
  | VariantNumericSign \<comment> \<open>sql_variant: invalid numeric sign\<close>
  | VariantNumericRange \<comment> \<open>sql_variant: numeric magnitude out of range\<close>
  | VariantNumericLength nat \<comment> \<open>sql_variant: invalid numeric magnitude length {}\<close>

datatype value_msg =
    InvalidColumnType u8 \<comment> \<open>invalid or unsupported column type: {:?}\<close>
  | UnsupportedColMetaType u8 \<comment> \<open>unsupported column type in COLMETADATA: {:?}\<close>
  | InvalidPrecision u8 u8 \<comment> \<open>decimal/numeric: invalid precision {} / scale {}\<close>
  | UnsupportedVarLenEncode u8 \<comment> \<open>encoding a {:?} var-len context is not supported\<close>
  | UnsupportedColumnType u8 \<comment> \<open>unsupported column type: {:?}\<close>
  | UnexpectedPrecisionType u8 \<comment> \<open>unexpected type {:?} for a precision/scale-typed column\<close>
  | PlpTooLong \<comment> \<open>PLP value exceeds the maximum supported size of {} bytes\<close>
  | InvalidLength string nat \<comment> \<open>intn / bitn / floatn / guid / money / daten / datetimen: length of {} is invalid\<close>
  | DecimalSign \<comment> \<open>decimal: invalid sign\<close>
  | DecimalRange \<comment> \<open>decimal/numeric: magnitude exceeds the representable range\<close>
  | DecimalLength u8 \<comment> \<open>decimal/numeric: invalid length of {} received\<close>
  | DateOutOfRange u32 \<comment> \<open>date day count {} is out of the 3-byte range\<close>
  | TimeScale u8 \<comment> \<open>timen: invalid scale {}\<close>
  | TimeLength nat \<comment> \<open>timen: invalid length {}\<close>
  | TimeIncrements u64 nat u8 \<comment> \<open>time increments {} do not fit the {}-byte field for scale {}\<close>
  | MissingCollation \<comment> \<open>string column missing collation\<close>
  | NVarcharLength \<comment> \<open>nvarchar: invalid plp length\<close>
  | NVarcharUtf16 \<comment> \<open>nvarchar: invalid UTF-16 sequence\<close>
  | NTextLength nat \<comment> \<open>ntext: odd byte length {} is invalid\<close>
  | ValueLength string u8 \<comment> \<open>timen / datetime2 / datetimeoffset: invalid value length {}\<close>
  | DateTime2Scale u8 \<comment> \<open>invalid datetime2 scale {}, expected 0..=9\<close>
  | XmlTooLong \<comment> \<open>xml payload byte length overflows u32\<close>
  | NumericRescale \<comment> \<open>numeric rescale overflow\<close>
  | Variant variant_msg

text \<open>\<^verbatim>\<open>client.rs\<close>, \<^verbatim>\<open>client/connection.rs\<close> (the login), \<^verbatim>\<open>tds/stream/query.rs\<close>, \<^verbatim>\<open>tds/stream/command.rs\<close> and \<^verbatim>\<open>row.rs\<close>\<close>

datatype client_msg =
    NoGssToken \<comment> \<open>GSSAPI produced no initial token\<close>
  | NoNtlmResponse \<comment> \<open>NTLM handshake produced no response to the server challenge\<close>
  | NoBulkMetadata \<comment> \<open>expecting column metadata from query but not found\<close>
  | InvalidCollationName rstring \<comment> \<open>invalid collation name {:?} for a bulk insert column\<close>
  | RowWithoutColumns \<comment> \<open>ROW token arrived before any column metadata\<close>
  | RowMissingValue nat \<comment> \<open>row has no data for column index {}\<close>
  | RpcNameTooLong nat \<comment> \<open>RPC procedure name is too long ({} UTF-16 code units, max 65535)\<close>

text \<open>\<^verbatim>\<open>tds/time/chrono.rs\<close>, \<^verbatim>\<open>tds/time/time.rs\<close>\<close>

datatype time_msg =
    DayOutOfRange int \<comment> \<open>date day offset {} is out of the representable range\<close>
  | OffsetOutOfRange int \<comment> \<open>datetimeoffset offset {} minutes is outside the valid -14:00..=+14:00 range\<close>
  | SecondsOfDayOutOfRange nat \<comment> \<open>smalldatetime seconds-of-day {} is out of range\<close>
  | InstantOutOfRange \<comment> \<open>datetimeoffset value is out of the representable range\<close>
  | OffsetNotRepresentable \<comment> \<open>datetimeoffset offset is not representable\<close>

datatype protocol_msg =
    PacketMsg packet_msg
  | PreloginMsg prelogin_msg
  | VarcharMsg varchar_msg
  | TokenMsg token_msg
  | TokenBodyMsg token_body_msg
  | StreamMsg stream_msg
  | ValueMsg value_msg
  | ClientMsg client_msg
  | TimeMsg time_msg

section \<open>The error type\<close>

text \<open>\<^verbatim>\<open>std::io::ErrorKind\<close>, the kinds the sources construct or match.\<close>

datatype io_error_kind = UnexpectedEof | InvalidData | InvalidInput | BrokenPipe | TimedOut | NotFound | OtherKind

text \<open>\<^verbatim>\<open>TokenError\<close> of \<^verbatim>\<open>tds/codec/token/token_error.rs\<close>.\<close>

record TokenError =
  te_code :: u32
  te_state :: u8
  te_class :: u8
  te_message :: rstring
  te_server :: rstring
  te_procedure :: rstring
  te_line :: u32

text \<open>
  \<^verbatim>\<open>Error\<close>: the text of an I/O or TLS error is the operating system's or
  the TLS library's and is not kept; the other payloads are.
\<close>

datatype ident_problem =
    ControlChar \<comment> \<open>must not contain NUL or control characters\<close>
  | AfterBracket \<comment> \<open>has trailing characters after a bracket-quoted segment\<close>
  | UnbalancedBracket \<comment> \<open>contains an unbalanced `]` bracket\<close>
  | UnbalancedParen \<comment> \<open>contains an unbalanced `)`\<close>
  | AfterParen \<comment> \<open>has trailing characters after a closing `)`\<close>
  | DisallowedChar \<comment> \<open>contains a disallowed character\<close>
  | UnterminatedBracket \<comment> \<open>has an unterminated `[` bracket-quoted segment\<close>
  | UnclosedParen \<comment> \<open>contains an unbalanced `(`\<close>

datatype bulk_msg =
    MoneyOutOfRange nat \<comment> \<open>money: value {} is out of range for smallmoney / money, by column width\<close>
  | MoneyNotFinite \<comment> \<open>money: value {} is not finite\<close>
  | MoneyOverflow \<comment> \<open>money: value {} overflows while rescaling to money\<close>
  | ColumnCount nat nat \<comment> \<open>Expecting {} columns but {} were given\<close>
  | StringLimit nat nat \<comment> \<open>Encoded string length {} exceed column limit {}\<close>
  | BinaryLimit nat nat \<comment> \<open>Binary length {} exceed column limit {}\<close>
  | TableNameTooLong nat \<comment> \<open>table name is too long ({} UTF-16 code units, max 65535)\<close>
  | BadIdentifier rstring ident_problem \<comment> \<open>{} identifier ...\<close>
  | InvalidTypePair \<comment> \<open>invalid data type, expecting {:?} but found {:?}\<close>

datatype parse_int_error = EmptyDigits | InvalidDigit | PosOverflow

datatype error =
    Io io_error_kind
  | Protocol protocol_msg
  | Encoding rstring
  | Conversion rstring
  | Utf8
  | Utf16
  | ParseInt parse_int_error
  | Server TokenError
  | Tls
  | Routing rstring u16
  | BulkInput bulk_msg

fun Error_code :: "error \<Rightarrow> u32 option" where
  "Error_code (Server e) = Some (te_code e)"
| "Error_code _ = None"

definition Error_is_deadlock :: "error \<Rightarrow> bool" where
  "Error_is_deadlock e = (case map_option (\<lambda>c. c = 1205) (Error_code e) of Some b \<Rightarrow> b | None \<Rightarrow> False)"

section \<open>Results\<close>

text \<open>
  The outcomes of a call: a value, an \<^verbatim>\<open>Err\<close>, a panic (a failed assertion, an
  overflow, an out-of-range slice), or no return at all (a loop whose progress
  measure stopped).
\<close>

datatype 'a res = Ok 'a | Err error | Panic | Diverge

end
