(* ===== verification/Tds_Prelude.thy ===== *)
theory Tds_Prelude
  imports Tds_Error "HOL-Library.Sublist"
begin

text \<open>
  Shared by every component: computations over a byte buffer, the little- and
  big-endian layouts, loops over computations, and the two laws the codec
  components promise each other, the locale \<open>wire_codec\<close> (what was encoded is
  decoded) and the predicate \<open>reader\<close> (a decoder consumes a prefix of its input
  and its result depends on that prefix alone).
\<close>

named_theorems wire_simps "evaluation of readers and writers on concrete layouts"
named_theorems wire_eval "unfolding of layouts down to byte lists, for concrete values"
named_theorems reader_intros "closure rules of the reader predicate"
named_theorems safe_intros "closure rules of the safe predicate"

section \<open>Computations\<close>

text \<open>
  A Rust function that takes \<^verbatim>\<open>&mut\<close> state and returns a \<^verbatim>\<open>Result\<close> is a
  function from the state to the outcome and the state it leaves behind, on
  failure too. For a decoder the state is the unread input, for an encoder the
  output buffer.
\<close>

type_synonym ('s, 'a) comp = "'s \<Rightarrow> 'a res \<times> 's"

definition retR :: "'a \<Rightarrow> ('s, 'a) comp" where
  "retR a s = (Ok a, s)"

definition errR :: "error \<Rightarrow> ('s, 'a) comp" where
  "errR e s = (Err e, s)"

definition panicR :: "('s, 'a) comp" where
  "panicR s = (Panic, s)"

text \<open>Sequencing, the \<^verbatim>\<open>?\<close> operator: a failure ends the computation.\<close>

definition bindR :: "('s, 'a) comp \<Rightarrow> ('a \<Rightarrow> ('s, 'b) comp) \<Rightarrow> ('s, 'b) comp" where
  "bindR m f s =
     (case m s of (r, s') \<Rightarrow>
        (case r of Ok a \<Rightarrow> f a s' | Err e \<Rightarrow> (Err e, s') | Panic \<Rightarrow> (Panic, s') | Diverge \<Rightarrow> (Diverge, s')))"

definition thenR :: "('s, unit) comp \<Rightarrow> ('s, 'b) comp \<Rightarrow> ('s, 'b) comp" where
  "thenR m k = bindR m (\<lambda>_. k)"

text \<open>A result computed without the state (a parse of a local buffer).\<close>

definition liftR :: "'a res \<Rightarrow> ('s, 'a) comp" where
  "liftR r s = (r, s)"

fun map_res :: "('a \<Rightarrow> 'b) \<Rightarrow> 'a res \<Rightarrow> 'b res" where
  "map_res f (Ok a) = Ok (f a)"
| "map_res f (Err e) = Err e"
| "map_res f Panic = Panic"
| "map_res f Diverge = Diverge"

text \<open>\<^verbatim>\<open>ok_or_else\<close>\<close>

definition ok_or :: "'a option \<Rightarrow> error \<Rightarrow> ('s, 'a) comp" where
  "ok_or x e = (case x of None \<Rightarrow> errR e | Some a \<Rightarrow> retR a)"

text \<open>\<^verbatim>\<open>for _ in 0..n { v.push(m?) }\<close> and \<^verbatim>\<open>for x in xs { f(x)? }\<close>\<close>

primrec repeatR :: "nat \<Rightarrow> ('s, 'a) comp \<Rightarrow> ('s, 'a list) comp" where
  "repeatR 0 m = retR []"
| "repeatR (Suc n) m = bindR m (\<lambda>x. bindR (repeatR n m) (\<lambda>xs. retR (x # xs)))"

primrec forR :: "('x \<Rightarrow> ('s, 'a) comp) \<Rightarrow> 'x list \<Rightarrow> ('s, 'a list) comp" where
  "forR f [] = retR []"
| "forR f (x # xs) = bindR (f x) (\<lambda>y. bindR (forR f xs) (\<lambda>ys. retR (y # ys)))"

primrec eachR :: "('x \<Rightarrow> ('s, unit) comp) \<Rightarrow> 'x list \<Rightarrow> ('s, unit) comp" where
  "eachR f [] = retR ()"
| "eachR f (x # xs) = thenR (f x) (eachR f xs)"

declare retR_def [wire_simps] errR_def [wire_simps] panicR_def [wire_simps]
  bindR_def [wire_simps] thenR_def [wire_simps] liftR_def [wire_simps] ok_or_def [wire_simps]
  Let_def [wire_simps]

lemma bindR_eq_Ok:
  "bindR m f s = (Ok b, s'') \<longleftrightarrow> (\<exists>a s'. m s = (Ok a, s') \<and> f a s' = (Ok b, s''))"
  by (auto simp: bindR_def split: prod.splits res.splits)

lemma bindR_eq_Panic:
  "bindR m f s = (Panic, s'') \<longleftrightarrow>
     m s = (Panic, s'') \<or> (\<exists>a s'. m s = (Ok a, s') \<and> f a s' = (Panic, s''))"
  by (auto simp: bindR_def split: prod.splits res.splits)

lemma retR_eq_Ok: "retR a s = (Ok b, s') \<longleftrightarrow> b = a \<and> s' = s"
  by (auto simp: retR_def)

lemma errR_neq_Ok: "errR e s \<noteq> (Ok b, s')"
  by (simp add: errR_def)

lemma repeatR_length: "repeatR n m s = (Ok xs, s') \<Longrightarrow> length xs = n"
  by (induction n arbitrary: s xs) (auto simp: bindR_eq_Ok retR_eq_Ok)

lemma unat_u8_less: "unat (b :: u8) < 2 ^ 8" and unat_u32_less: "unat (d :: u32) < 2 ^ 32"
  using unsigned_less [of b, where ?'a = nat] unsigned_less [of d, where ?'a = nat] by simp_all

lemma unat_u8_le: "unat (b :: u8) \<le> 255"
  using unat_u8_less [of b] by simp

lemma bindR_Ok: "m s = (Ok a, s') \<Longrightarrow> bindR m f s = f a s'"
  by (simp add: bindR_def)

lemma bindR_Err: "m s = (Err e, s') \<Longrightarrow> bindR m f s = (Err e, s')"
  by (simp add: bindR_def)

lemma bindR_assoc: "bindR (bindR m f) g = bindR m (\<lambda>a. bindR (f a) g)"
  by (auto simp: fun_eq_iff bindR_def split: prod.splits res.splits)

lemma bindR_retR [simp]: "bindR (retR a) f = f a" and bindR_retR_right [simp]: "bindR m retR = m"
  by (auto simp: fun_eq_iff bindR_def retR_def split: prod.splits res.splits)

lemma thenR_Ok: "m s = (Ok (), s') \<Longrightarrow> thenR m k s = k s'"
  by (simp add: thenR_def bindR_def)

section \<open>Byte layouts\<close>

primrec nat_le :: "nat \<Rightarrow> nat \<Rightarrow> bytes" where
  "nat_le 0 x = []"
| "nat_le (Suc n) x = of_nat x # nat_le n (x div 256)"

primrec le_nat :: "bytes \<Rightarrow> nat" where
  "le_nat [] = 0"
| "le_nat (b # bs) = unat b + 256 * le_nat bs"

definition nat_be :: "nat \<Rightarrow> nat \<Rightarrow> bytes" where
  "nat_be n x = rev (nat_le n x)"

definition be_nat :: "bytes \<Rightarrow> nat" where
  "be_nat bs = le_nat (rev bs)"

lemma word_eqI_unat: "unat a = unat b \<Longrightarrow> a = b"
  by (simp add: word_unat_eq_iff)

lemma length_nat_le [simp]: "length (nat_le n x) = n"
  by (induction n arbitrary: x) auto

lemma length_nat_be [simp]: "length (nat_be n x) = n"
  by (simp add: nat_be_def)

lemma le_nat_nat_le: "le_nat (nat_le n x) = x mod 256 ^ n"
  by (induction n arbitrary: x) (simp_all add: unat_of_nat mod_mult2_eq)

lemma be_nat_nat_be: "be_nat (nat_be n x) = x mod 256 ^ n"
  by (simp add: be_nat_def nat_be_def le_nat_nat_le)

lemma le_nat_bound: "le_nat bs < 256 ^ length bs"
proof (induction bs)
  case (Cons b bs)
  have "unat b < 256" using unsigned_less [of b, where ?'a = nat] by simp
  with Cons show ?case by simp
qed simp

lemma nat_le_le_nat: "nat_le (length bs) (le_nat bs) = bs"
proof (induction bs)
  case (Cons b bs)
  have b: "unat b < 256" using unsigned_less [of b, where ?'a = nat] by simp
  then have "(unat b + 256 * le_nat bs) div 256 = le_nat bs" by simp
  moreover have "of_nat (unat b + 256 * le_nat bs) = b"
    using b by (intro word_eqI_unat) (simp only: unat_of_nat, simp)
  ultimately show ?case using Cons by simp
qed simp

text \<open>The bytes of a word, low byte first (\<^verbatim>\<open>to_le_bytes\<close>) or high byte first.\<close>

definition le_bytes :: "nat \<Rightarrow> 'a::len word \<Rightarrow> bytes" where
  "le_bytes n w = nat_le n (unat w)"

definition be_bytes :: "nat \<Rightarrow> 'a::len word \<Rightarrow> bytes" where
  "be_bytes n w = nat_be n (unat w)"

definition from_le :: "bytes \<Rightarrow> 'a::len word" where
  "from_le bs = of_nat (le_nat bs)"

definition from_be :: "bytes \<Rightarrow> 'a::len word" where
  "from_be bs = of_nat (be_nat bs)"

lemma nat_le_numeral [simp]: "nat_le (numeral k) x = of_nat x # nat_le (pred_numeral k) (x div 256)"
  by (simp only: numeral_eq_Suc nat_le.simps)

lemma repeatR_numeral [simp]:
  "repeatR (numeral k) m = bindR m (\<lambda>x. bindR (repeatR (pred_numeral k) m) (\<lambda>xs. retR (x # xs)))"
  by (simp only: numeral_eq_Suc repeatR.simps)

declare le_bytes_def [wire_eval] be_bytes_def [wire_eval] nat_be_def [wire_eval]
  from_le_def [wire_eval] from_be_def [wire_eval] be_nat_def [wire_eval]

lemma length_le_bytes [simp]: "length (le_bytes n w) = n"
  and length_be_bytes [simp]: "length (be_bytes n w) = n"
  by (simp_all add: le_bytes_def be_bytes_def)

lemma le_bytes_eq_Nil [simp]: "le_bytes n w = [] \<longleftrightarrow> n = 0"
  using length_le_bytes [of n w] by (cases "le_bytes n w") auto

lemma from_le_le_bytes:
  fixes w :: "'a::len word"
  assumes "LENGTH('a) \<le> 8 * n"
  shows "from_le (le_bytes n w) = w"
proof -
  have "unat w < 2 ^ LENGTH('a)" by simp
  also have "\<dots> \<le> (2::nat) ^ (8 * n)" using assms by (simp add: power_increasing)
  also have "\<dots> = 256 ^ n" by (simp add: power_mult)
  finally show ?thesis by (simp add: from_le_def le_bytes_def le_nat_nat_le)
qed

lemma from_be_be_bytes:
  fixes w :: "'a::len word"
  assumes "LENGTH('a) \<le> 8 * n"
  shows "from_be (be_bytes n w) = w"
  using from_le_le_bytes [OF assms, of w]
  by (simp add: from_le_def le_bytes_def from_be_def be_bytes_def be_nat_def nat_be_def)

lemma le_bytes_from_le:
  assumes "8 * n \<le> LENGTH('a::len)" "length bs = n"
  shows "le_bytes n (from_le bs :: 'a word) = bs"
proof -
  have "le_nat bs < 256 ^ n" using le_nat_bound [of bs] assms(2) by simp
  also have "(256::nat) ^ n = 2 ^ (8 * n)" by (simp add: power_mult)
  also have "\<dots> \<le> 2 ^ LENGTH('a)" using assms(1) by (rule power_increasing) simp
  finally have "unat (of_nat (le_nat bs) :: 'a word) = le_nat bs"
    by (simp add: unat_of_nat)
  then show ?thesis using nat_le_le_nat [of bs] assms(2) by (simp add: le_bytes_def from_le_def)
qed

section \<open>Reading\<close>

text \<open>
  \<^verbatim>\<open>Connection::poll_read\<close> (\<^verbatim>\<open>client/connection.rs\<close>, lines 1223 to 1264) either
  fills the whole destination slice or fails with \<^verbatim>\<open>UnexpectedEof\<close> and leaves
  its buffer as it was, so a fixed-size read is all or nothing.
\<close>

definition read_n :: "nat \<Rightarrow> (bytes, bytes) comp" where
  "read_n n s = (if n \<le> length s then (Ok (take n s), drop n s) else (Err (Io UnexpectedEof), s))"

definition read_le :: "nat \<Rightarrow> (bytes, 'a::len word) comp" where
  "read_le n = bindR (read_n n) (\<lambda>bs. retR (from_le bs))"

definition read_be :: "nat \<Rightarrow> (bytes, 'a::len word) comp" where
  "read_be n = bindR (read_n n) (\<lambda>bs. retR (from_be bs))"

lemma read_n_append [wire_simps]: "length xs = n \<Longrightarrow> read_n n (xs @ ys) = (Ok xs, ys)"
  by (auto simp: read_n_def)

lemma read_n_exact [wire_simps]: "length xs = n \<Longrightarrow> read_n n xs = (Ok xs, [])"
  by (auto simp: read_n_def)

lemma read_le_append [wire_simps]:
  "LENGTH('a::len) \<le> 8 * n \<Longrightarrow> read_le n (le_bytes n (w :: 'a word) @ ys) = (Ok w, ys)"
  by (simp add: read_le_def wire_simps from_le_le_bytes)

lemma read_le_exact [wire_simps]:
  "LENGTH('a::len) \<le> 8 * n \<Longrightarrow> read_le n (le_bytes n (w :: 'a word)) = (Ok w, [])"
  using read_le_append [of n w "[]"] by simp

lemma read_be_append [wire_simps]:
  "LENGTH('a::len) \<le> 8 * n \<Longrightarrow> read_be n (be_bytes n (w :: 'a word) @ ys) = (Ok w, ys)"
  by (simp add: read_be_def wire_simps from_be_be_bytes)

lemma read_be_exact [wire_simps]:
  "LENGTH('a::len) \<le> 8 * n \<Longrightarrow> read_be n (be_bytes n (w :: 'a word)) = (Ok w, [])"
  using read_be_append [of n w "[]"] by simp

lemma read_n_0 [simp]: "read_n 0 s = (Ok [], s)"
  by (simp add: read_n_def)

section \<open>The reader law\<close>

text \<open>
  A reader leaves a suffix of its input behind, and when it succeeds its result
  is determined by the bytes it consumed: it yields the same value on any input
  that starts with them, and leaves exactly what follows them.
\<close>

definition reader :: "(bytes, 'a) comp \<Rightarrow> bool" where
  "reader m \<longleftrightarrow>
     (\<forall>s r s'. m s = (r, s') \<longrightarrow>
        (\<exists>p. s = p @ s' \<and> (\<forall>a. r = Ok a \<longrightarrow> (\<forall>t. m (p @ t) = (Ok a, t)))))"

lemma readerI:
  assumes "\<And>s r s'. m s = (r, s') \<Longrightarrow> \<exists>p. s = p @ s' \<and> (\<forall>a. r = Ok a \<longrightarrow> (\<forall>t. m (p @ t) = (Ok a, t)))"
  shows "reader m"
  using assms unfolding reader_def by blast

lemma readerE:
  assumes "reader m" "m s = (r, s')"
  obtains p where "s = p @ s'" "\<forall>a. r = Ok a \<longrightarrow> (\<forall>t. m (p @ t) = (Ok a, t))"
proof -
  have "\<exists>p. s = p @ s' \<and> (\<forall>a. r = Ok a \<longrightarrow> (\<forall>t. m (p @ t) = (Ok a, t)))"
    using assms(1) [unfolded reader_def, rule_format, OF assms(2)] by simp
  then show ?thesis using that by blast
qed

lemma readerD:
  assumes "reader m" "m s = (Ok a, s')"
  obtains p where "s = p @ s'" "\<And>t. m (p @ t) = (Ok a, t)"
proof -
  obtain p where "s = p @ s'" "\<forall>b. Ok a = Ok b \<longrightarrow> (\<forall>t. m (p @ t) = (Ok b, t))"
    using assms by (rule readerE)
  then show ?thesis using that by simp
qed

lemma reader_suffix: "reader m \<Longrightarrow> m s = (r, s') \<Longrightarrow> suffix s' s"
  unfolding suffix_def by (metis readerE)

lemma reader_extend:
  assumes "reader m" "m s = (Ok a, s')"
  shows "m (s @ t) = (Ok a, s' @ t)"
proof -
  obtain p where "s = p @ s'" "\<And>t. m (p @ t) = (Ok a, t)" using assms by (rule readerD) blast
  then show ?thesis by simp
qed

lemma reader_retR [reader_intros]: "reader (retR a)"
  and reader_errR [reader_intros]: "reader (errR e)"
  and reader_panicR [reader_intros]: "reader panicR"
  and reader_liftR [reader_intros]: "reader (liftR r)"
  by (auto simp: reader_def retR_def errR_def panicR_def liftR_def)

lemma reader_ok_or [reader_intros]: "reader (ok_or x e)"
  by (auto simp: ok_or_def intro: reader_intros split: option.splits)

lemma reader_read_n [reader_intros]: "reader (read_n n)"
proof (rule readerI)
  fix s r s' assume m: "read_n n s = (r, s')"
  show "\<exists>p. s = p @ s' \<and> (\<forall>a. r = Ok a \<longrightarrow> (\<forall>t. read_n n (p @ t) = (Ok a, t)))"
  proof (cases "n \<le> length s")
    case True
    with m have "r = Ok (take n s)" "s' = drop n s" by (auto simp: read_n_def)
    with True show ?thesis by (intro exI [of _ "take n s"]) (simp add: read_n_append)
  qed (use m in \<open>auto simp: read_n_def\<close>)
qed

lemma reader_bindR [reader_intros]:
  assumes m: "reader m" and f: "\<And>a. reader (f a)"
  shows "reader (bindR m f)"
proof (rule readerI)
  fix s r s'' assume run: "bindR m f s = (r, s'')"
  obtain q s' where ms: "m s = (q, s')" by (cases "m s") auto
  show "\<exists>p. s = p @ s'' \<and> (\<forall>b. r = Ok b \<longrightarrow> (\<forall>t. bindR m f (p @ t) = (Ok b, t)))"
  proof (cases q)
    case (Ok a)
    with ms run have fa: "f a s' = (r, s'')" by (simp add: bindR_def)
    obtain p where p: "s = p @ s'" "\<And>t. m (p @ t) = (Ok a, t)"
      using readerD [OF m, of s a s'] ms Ok by metis
    obtain p' where p': "s' = p' @ s''" "\<forall>b. r = Ok b \<longrightarrow> (\<forall>t. f a (p' @ t) = (Ok b, t))"
      using readerE [OF f fa] by metis
    then show ?thesis using p by (intro exI [of _ "p @ p'"]) (simp add: bindR_def)
  qed (use ms run reader_suffix [OF m ms] in \<open>auto simp: bindR_def suffix_def\<close>)
qed

lemma reader_thenR [reader_intros]: "reader m \<Longrightarrow> reader k \<Longrightarrow> reader (thenR m k)"
  unfolding thenR_def by (intro reader_intros)

lemma reader_read_le [reader_intros]: "reader (read_le n)"
  and reader_read_be [reader_intros]: "reader (read_be n)"
  unfolding read_le_def read_be_def by (intro reader_intros)+

lemma reader_repeatR [reader_intros]: "reader m \<Longrightarrow> reader (repeatR n m)"
  by (induction n) (auto intro!: reader_intros)

lemma reader_forR [reader_intros]: "(\<And>x. reader (f x)) \<Longrightarrow> reader (forR f xs)"
  by (induction xs) (auto intro!: reader_intros)

lemma reader_if [reader_intros]: "(b \<Longrightarrow> reader m) \<Longrightarrow> (\<not> b \<Longrightarrow> reader k) \<Longrightarrow> reader (if b then m else k)"
  by simp

lemma reader_option [reader_intros]:
  "(x = None \<Longrightarrow> reader m) \<Longrightarrow> (\<And>a. x = Some a \<Longrightarrow> reader (f a)) \<Longrightarrow> reader (case x of None \<Rightarrow> m | Some a \<Rightarrow> f a)"
  by (cases x) auto

section \<open>The safety law\<close>

text \<open>
  A computation is safe when it always returns: no state makes it panic or loop.
  For a decoder this is the claim that no bytes the peer sends can crash or hang
  the client.
\<close>

definition returns :: "'a res \<Rightarrow> bool" where
  "returns r \<longleftrightarrow> r \<noteq> Panic \<and> r \<noteq> Diverge"

definition safe :: "('s, 'a) comp \<Rightarrow> bool" where
  "safe m \<longleftrightarrow> (\<forall>s. returns (fst (m s)))"

lemma returns_simps [simp]: "returns (Ok a)" "returns (Err e)" "\<not> returns Panic" "\<not> returns Diverge"
  by (simp_all add: returns_def)

lemma safe_retR [safe_intros]: "safe (retR a)"
  and safe_errR [safe_intros]: "safe (errR e)"
  and safe_liftR [safe_intros]: "returns r \<Longrightarrow> safe (liftR r)"
  and safe_read_n [safe_intros]: "safe (read_n n)"
  and safe_ok_or [safe_intros]: "safe (ok_or x e)"
  by (auto simp: safe_def retR_def errR_def liftR_def read_n_def ok_or_def split: option.splits)

lemma safe_bindR [safe_intros]:
  assumes "safe m" "\<And>a. safe (f a)"
  shows "safe (bindR m f)"
  unfolding safe_def
proof
  fix s
  have "returns (fst (m s))" using assms(1) by (simp add: safe_def)
  moreover have "returns (fst (f a s'))" for a s' using assms(2) by (simp add: safe_def)
  ultimately show "returns (fst (bindR m f s))"
    by (cases "m s"; cases "fst (m s)") (auto simp: bindR_def)
qed

lemma safe_bindR_dep:
  assumes "safe m" "\<And>s a s'. m s = (Ok a, s') \<Longrightarrow> safe (f a)"
  shows "safe (bindR m f)"
  unfolding safe_def
proof
  fix s
  obtain r s' where m: "m s = (r, s')" by (cases "m s") auto
  then have "returns r" using assms(1) unfolding safe_def by (metis fst_conv)
  moreover have "returns (fst (f a s'))" if "r = Ok a" for a using assms(2) m that by (simp add: safe_def)
  ultimately show "returns (fst (bindR m f s))" using m by (cases r) (auto simp: bindR_def)
qed

lemma ok_or_Ok: "ok_or x e s = (Ok a, s') \<longleftrightarrow> x = Some a \<and> s' = s"
  by (cases x) (auto simp: ok_or_def retR_def errR_def)

lemma repeatR_all:
  assumes "\<And>s a s'. m s = (Ok a, s') \<Longrightarrow> P a"
  shows "repeatR n m s = (Ok xs, s') \<Longrightarrow> \<forall>x\<in>set xs. P x"
  by (induction n arbitrary: s xs) (auto simp: bindR_eq_Ok retR_eq_Ok dest: assms)

lemma safe_thenR [safe_intros]: "safe m \<Longrightarrow> safe k \<Longrightarrow> safe (thenR m k)"
  unfolding thenR_def by (intro safe_intros)

lemma safe_read_le [safe_intros]: "safe (read_le n)"
  and safe_read_be [safe_intros]: "safe (read_be n)"
  unfolding read_le_def read_be_def by (intro safe_intros)+

lemma safe_repeatR [safe_intros]: "safe m \<Longrightarrow> safe (repeatR n m)"
  by (induction n) (auto intro!: safe_intros)

lemma forR_all2:
  assumes "forR f xs s = (Ok ys, s')" "\<And>x s y s'. x \<in> set xs \<Longrightarrow> f x s = (Ok y, s') \<Longrightarrow> P x y"
  shows "list_all2 P xs ys"
  using assms
proof (induction xs arbitrary: s ys)
  case (Cons x xs)
  then obtain y s1 zs where "f x s = (Ok y, s1)" "forR f xs s1 = (Ok zs, s')" "ys = y # zs"
    by (auto simp: bindR_eq_Ok retR_eq_Ok)
  with Cons show ?case by (auto intro: Cons.IH)
qed (simp add: retR_eq_Ok)

lemma safe_forR [safe_intros]: "(\<And>x. x \<in> set xs \<Longrightarrow> safe (f x)) \<Longrightarrow> safe (forR f xs)"
  by (induction xs) (auto intro!: safe_intros)

lemma safe_if [safe_intros]: "(b \<Longrightarrow> safe m) \<Longrightarrow> (\<not> b \<Longrightarrow> safe k) \<Longrightarrow> safe (if b then m else k)"
  by simp

lemma safe_option [safe_intros]:
  "(x = None \<Longrightarrow> safe m) \<Longrightarrow> (\<And>a. x = Some a \<Longrightarrow> safe (f a)) \<Longrightarrow> safe (case x of None \<Rightarrow> m | Some a \<Rightarrow> f a)"
  by (cases x) auto

section \<open>Loops over the input\<close>

text \<open>
  \<^verbatim>\<open>loop { ... }\<close> around a body that reads: the body yields \<open>Inl\<close> the next loop
  state or \<open>Inr\<close> the result (\<^verbatim>\<open>break\<close>). A body that goes round again without
  having read a byte is the outcome \<open>Diverge\<close>; the rule \<open>loopR_unfold\<close> shows that
  for a body that always reads first the loop is the plain recursion.
\<close>

function loopR :: "('x \<Rightarrow> (bytes, 'x + 'a) comp) \<Rightarrow> 'x \<Rightarrow> (bytes, 'a) comp" where
  "loopR body x s =
     (case body x s of
        (Ok (Inl y), s') \<Rightarrow> if length s' < length s then loopR body y s' else (Diverge, s')
      | (Ok (Inr a), s') \<Rightarrow> (Ok a, s')
      | (Err e, s') \<Rightarrow> (Err e, s')
      | (Panic, s') \<Rightarrow> (Panic, s')
      | (Diverge, s') \<Rightarrow> (Diverge, s'))"
  by auto
termination
  by (relation "measure (\<lambda>(_, _, s). length s)") auto

declare loopR.simps [simp del]

definition consumes :: "(bytes, 'a) comp \<Rightarrow> bool" where
  "consumes m \<longleftrightarrow> (\<forall>s a s'. m s = (Ok a, s') \<longrightarrow> length s' < length s)"

named_theorems consumes_intros "closure rules of the consumes predicate"

lemma reader_length: "reader m \<Longrightarrow> m s = (r, s') \<Longrightarrow> length s' \<le> length s"
  by (rule suffix_length_le, rule reader_suffix)

lemma consumes_bindR [consumes_intros]:
  assumes "consumes m" "\<And>a. reader (f a)"
  shows "consumes (bindR m f)"
  unfolding consumes_def
proof (intro allI impI)
  fix s b s'' assume "bindR m f s = (Ok b, s'')"
  then obtain a s' where m: "m s = (Ok a, s')" and f: "f a s' = (Ok b, s'')" by (auto simp: bindR_eq_Ok)
  have "length s' < length s" using assms(1) m by (simp add: consumes_def)
  moreover have "length s'' \<le> length s'" using reader_length [OF assms(2) f] .
  ultimately show "length s'' < length s" by simp
qed

lemma consumes_read_n: "0 < n \<Longrightarrow> consumes (read_n n)"
  by (auto simp: consumes_def read_n_def split: if_splits)

lemma consumes_read_le [consumes_intros]: "0 < n \<Longrightarrow> consumes (read_le n)"
  unfolding read_le_def by (intro consumes_intros consumes_read_n reader_intros)

lemma loopR_unfold:
  assumes "\<And>x. consumes (body x)"
  shows "loopR body x = bindR (body x) (\<lambda>r. case r of Inl y \<Rightarrow> loopR body y | Inr a \<Rightarrow> retR a)"
proof
  fix s
  show "loopR body x s = bindR (body x) (\<lambda>r. case r of Inl y \<Rightarrow> loopR body y | Inr a \<Rightarrow> retR a) s"
  proof (cases "body x s")
    case (Pair r s')
    show ?thesis
    proof (cases r)
      case (Ok v)
      with Pair assms [of x] have "length s' < length s" by (simp add: consumes_def)
      with Pair Ok show ?thesis by (simp add: loopR.simps [of body x s] bindR_def retR_def split: sum.split)
    qed (use Pair in \<open>simp_all add: loopR.simps [of body x s] bindR_def\<close>)
  qed
qed

lemma reader_loopR [reader_intros]:
  assumes body: "\<And>x. reader (body x)"
  shows "reader (loopR body x)"
proof (rule readerI)
  fix s r s'' assume "loopR body x s = (r, s'')"
  then show "\<exists>p. s = p @ s'' \<and> (\<forall>a. r = Ok a \<longrightarrow> (\<forall>t. loopR body x (p @ t) = (Ok a, t)))"
  proof (induction "length s" arbitrary: s x rule: less_induct)
    case less
    obtain q s' where b: "body x s = (q, s')" by (cases "body x s") auto
    obtain p where p: "s = p @ s'" "\<forall>v. q = Ok v \<longrightarrow> (\<forall>t. body x (p @ t) = (Ok v, t))"
      using readerE [OF body b] by metis
    show ?case
    proof (cases "\<exists>y. q = Ok (Inl y) \<and> length s' < length s")
      case True
      then obtain y where y: "q = Ok (Inl y)" "length s' < length s" by blast
      then have "loopR body y s' = (r, s'')" using less.prems b by (simp add: loopR.simps [of body x])
      from less.hyps [OF y(2) this] obtain p' where p': "s' = p' @ s''"
        "\<forall>a. r = Ok a \<longrightarrow> (\<forall>t. loopR body y (p' @ t) = (Ok a, t))" by blast
      then show ?thesis using p y
        by (intro exI [of _ "p @ p'"]) (auto simp: loopR.simps [of body x])
    next
      case False
      then show ?thesis using less.prems b p
        by (auto simp: loopR.simps [of body x] split: res.splits sum.splits)
    qed
  qed
qed

text \<open>It is enough that the body has read something whenever it goes round again.\<close>

definition advances :: "(bytes, 'x + 'a) comp \<Rightarrow> bool" where
  "advances m \<longleftrightarrow> (\<forall>s y s'. m s = (Ok (Inl y), s') \<longrightarrow> length s' < length s)"

lemma consumes_advances: "consumes m \<Longrightarrow> advances m"
  by (auto simp: consumes_def advances_def)

lemma safe_loopR_advances:
  assumes body: "\<And>x. safe (body x)" and adv: "\<And>x. advances (body x)"
  shows "safe (loopR body x)"
  unfolding safe_def
proof
  fix s show "returns (fst (loopR body x s))"
  proof (induction "length s" arbitrary: s x rule: less_induct)
    case less
    obtain q s' where b: "body x s = (q, s')" by (cases "body x s") auto
    have "returns q" using body [of x] b unfolding safe_def by (metis fst_conv)
    moreover have "length s' < length s" if "q = Ok (Inl y)" for y using adv [of x] b that by (simp add: advances_def)
    ultimately show ?case using less.hyps [of s'] b
      by (cases q) (auto simp: loopR.simps [of body x s] split: sum.split)
  qed
qed

lemma safe_loopR [safe_intros]:
  assumes "\<And>x. safe (body x)" "\<And>x. consumes (body x)"
  shows "safe (loopR body x)"
  using assms by (intro safe_loopR_advances consumes_advances)

lemma reader_sum [reader_intros]:
  "(\<And>a. x = Inl a \<Longrightarrow> reader (f a)) \<Longrightarrow> (\<And>b. x = Inr b \<Longrightarrow> reader (g b)) \<Longrightarrow>
     reader (case x of Inl a \<Rightarrow> f a | Inr b \<Rightarrow> g b)"
  by (cases x) auto

section \<open>Computations that never grow their input\<close>

text \<open>For parsers of a local buffer, which may look at how much of it is left.\<close>

definition shrinks :: "(bytes, 'a) comp \<Rightarrow> bool" where
  "shrinks m \<longleftrightarrow> (\<forall>s r s'. m s = (r, s') \<longrightarrow> length s' \<le> length s)"

named_theorems shrinks_intros "closure rules of the shrinks predicate"

lemma shrinks_reader: "reader m \<Longrightarrow> shrinks m"
  by (auto simp: shrinks_def dest: reader_length)

lemma shrinks_bindR [shrinks_intros]:
  assumes "shrinks m" "\<And>a. shrinks (f a)"
  shows "shrinks (bindR m f)"
  unfolding shrinks_def
proof (intro allI impI)
  fix s r s'' assume b: "bindR m f s = (r, s'')"
  obtain q s' where m: "m s = (q, s')" by (cases "m s") auto
  then have l: "length s' \<le> length s" using assms(1) by (simp add: shrinks_def)
  show "length s'' \<le> length s"
  proof (cases q)
    case (Ok a)
    then have "f a s' = (r, s'')" using b m by (simp add: bindR_def)
    then have "length s'' \<le> length s'" using assms(2) by (simp add: shrinks_def)
    with l show ?thesis by simp
  qed (use b m l in \<open>auto simp: bindR_def\<close>)
qed

lemma shrinks_basic [shrinks_intros]:
  "shrinks (retR a)" "shrinks (errR e)" "shrinks (read_n n)" "shrinks (read_le n)" "shrinks (ok_or x e)"
  by (intro shrinks_reader reader_intros)+

lemma shrinks_if [shrinks_intros]: "shrinks m \<Longrightarrow> shrinks k \<Longrightarrow> shrinks (if b then m else k)"
  by simp

lemma shrinks_repeatR [shrinks_intros]: "shrinks m \<Longrightarrow> shrinks (repeatR n m)"
  by (induction n) (auto intro!: shrinks_intros)

lemma consumes_shrinks:
  assumes "consumes m" "\<And>a. shrinks (f a)"
  shows "consumes (bindR m f)"
  unfolding consumes_def
proof (intro allI impI)
  fix s b s'' assume "bindR m f s = (Ok b, s'')"
  then obtain a s' where "m s = (Ok a, s')" "f a s' = (Ok b, s'')" by (auto simp: bindR_eq_Ok)
  then have "length s' < length s" "length s'' \<le> length s'" using assms unfolding consumes_def shrinks_def by blast+
  then show "length s'' < length s" by simp
qed

text \<open>A check of what is left of the buffer.\<close>

lemma consumes_trivial [consumes_intros]: "consumes (errR e)"
  "consumes m \<Longrightarrow> consumes k \<Longrightarrow> consumes (if b then m else k)"
  by (auto simp: consumes_def errR_def)

lemma reader_split [reader_intros]: "(\<And>a b. reader (f a b)) \<Longrightarrow> reader (case p of (a, b) \<Rightarrow> f a b)"
  by (cases p) auto

lemma buffer_guards [safe_intros, shrinks_intros]:
  "safe (\<lambda>b. (Ok (length b), b))" "shrinks (\<lambda>b. (Ok (length b), b))"
  "safe (\<lambda>b. if length b < n then (Err e, b) else (Ok (), b))"
  "shrinks (\<lambda>b. if length b < n then (Err e, b) else (Ok (), b))"
  by (auto simp: safe_def shrinks_def)

lemma safe_split [safe_intros]: "(\<And>a b. p = (a, b) \<Longrightarrow> safe (f a b)) \<Longrightarrow> safe (case p of (a, b) \<Rightarrow> f a b)"
  by (cases p) auto

text \<open>A loop over the entries of a buffer that ends with the buffer.\<close>

lemma buffer_loop:
  assumes "\<And>x. body x = (\<lambda>buf. if buf = [] then (Ok (Inr (g x)), buf) else step x buf)"
    and "\<And>x. safe (step x)" "\<And>x. consumes (step x)"
  shows "safe (loopR body x)"
proof (rule safe_loopR_advances)
  fix x
  show "safe (body x)" using assms(2) [of x] by (auto simp: assms(1) safe_def)
  show "advances (body x)" using assms(3) [of x] by (auto simp: assms(1) advances_def consumes_def)
qed

lemma returns_map_res [simp]: "returns (map_res f r) \<longleftrightarrow> returns r"
  by (cases r) simp_all

lemma bindR_map_res: "m s = (r, s') \<Longrightarrow> bindR m (\<lambda>b. retR (f b)) s = (map_res f r, s')"
  by (cases r) (simp_all add: bindR_def retR_def)

section \<open>Writing\<close>

definition put_bytes :: "bytes \<Rightarrow> (bytes, unit) comp" where
  "put_bytes bs dst = (Ok (), dst @ bs)"

definition put_u8 :: "u8 \<Rightarrow> (bytes, unit) comp" where
  "put_u8 b = put_bytes [b]"

definition put_le :: "nat \<Rightarrow> 'a::len word \<Rightarrow> (bytes, unit) comp" where
  "put_le n w = put_bytes (le_bytes n w)"

definition put_be :: "nat \<Rightarrow> 'a::len word \<Rightarrow> (bytes, unit) comp" where
  "put_be n w = put_bytes (be_bytes n w)"

declare put_bytes_def [wire_simps] put_u8_def [wire_simps] put_le_def [wire_simps] put_be_def [wire_simps]

section \<open>The codec law\<close>

text \<open>
  An encoder and a decoder of the same wire form: on the values \<open>wf\<close> the encoder
  appends \<open>wire x\<close> to any buffer, and the decoder, given those bytes and anything
  after them, returns the value and leaves what follows. \<close>

locale wire_codec =
  fixes enc :: "'a \<Rightarrow> (bytes, unit) comp"
    and dec :: "(bytes, 'a) comp"
    and wire :: "'a \<Rightarrow> bytes"
    and wf :: "'a \<Rightarrow> bool"
  assumes enc_wire: "wf x \<Longrightarrow> enc x dst = (Ok (), dst @ wire x)"
    and dec_wire: "wf x \<Longrightarrow> dec (wire x @ rest) = (Ok x, rest)"
begin

lemma roundtrip:
  assumes "wf x"
  shows "\<exists>bs. enc x dst = (Ok (), dst @ bs) \<and> dec (bs @ rest) = (Ok x, rest)"
  using enc_wire [OF assms] dec_wire [OF assms] by blast

lemma unambiguous:
  assumes "wf x" "wf y" "wire x @ r = wire y @ r'"
  shows "x = y \<and> r = r'"
proof -
  have "(Ok x, r) = dec (wire y @ r')" using dec_wire [OF assms(1), of r] assms(3) by simp
  then show ?thesis using dec_wire [OF assms(2), of r'] by simp
qed

lemma enc_each:
  assumes "\<forall>x\<in>set xs. wf x"
  shows "eachR enc xs dst = (Ok (), dst @ concat (map wire xs))"
  using assms
  by (induction xs arbitrary: dst) (auto simp: wire_simps enc_wire)

lemma dec_repeat:
  assumes "\<forall>x\<in>set xs. wf x"
  shows "repeatR (length xs) dec (concat (map wire xs) @ rest) = (Ok xs, rest)"
  using assms
  by (induction xs) (auto simp: wire_simps dec_wire)

lemma roundtrip_list:
  assumes "\<forall>x\<in>set xs. wf x"
  shows "\<exists>bs. eachR enc xs dst = (Ok (), dst @ bs) \<and> repeatR (length xs) dec (bs @ rest) = (Ok xs, rest)"
  using enc_each [OF assms] dec_repeat [OF assms] by blast

end

text \<open>The fixed-width integers of the wire are such codecs.\<close>

lemma repeat_read_le [wire_simps]:
  assumes "LENGTH('a::len) \<le> 8 * n" "length ws = k"
  shows "repeatR k (read_le n) (concat (map (le_bytes n) (ws :: 'a word list)) @ rest) = (Ok ws, rest)"
  using assms(2)
  by (induction ws arbitrary: k) (auto simp: wire_simps assms(1))

end
