(* ===== verification/Tds_Strings.thy ===== *)
theory Tds_Strings
  imports Tds_Prelude
begin

text \<open>
  The string operations of Rust's standard library the sources use:
  \<^verbatim>\<open>str::encode_utf16\<close>, \<^verbatim>\<open>char::decode_utf16\<close>, \<^verbatim>\<open>String::from_utf16\<close> and its
  lossy variant, \<^verbatim>\<open>str::as_bytes\<close>, \<^verbatim>\<open>String::from_utf8_lossy\<close>, the decimal
  \<^verbatim>\<open>Display\<close> of integers and \<^verbatim>\<open>u32::from_str\<close>. They are library code, so they
  have no source lines; the round trips proved here carry the codec theorems.
\<close>

section \<open>Scalar values\<close>

definition valid_char :: "rchar \<Rightarrow> bool" where
  "valid_char c \<longleftrightarrow> c < 0xD800 \<or> 0xE000 \<le> c \<and> c < 0x110000"

definition valid_str :: "rstring \<Rightarrow> bool" where
  "valid_str s \<longleftrightarrow> list_all valid_char s"

lemma valid_str_simps [simp]: "valid_str []" "valid_str (c # s) \<longleftrightarrow> valid_char c \<and> valid_str s"
  "valid_str (s @ t) \<longleftrightarrow> valid_str s \<and> valid_str t"
  by (auto simp: valid_str_def)

text \<open>An ASCII literal of the source.\<close>

definition lit :: "string \<Rightarrow> rstring" where
  "lit s = map of_char s"

section \<open>UTF-16\<close>

definition utf16_char :: "rchar \<Rightarrow> u16 list" where
  "utf16_char c =
     (if c < 0x10000 then [of_nat c]
      else [of_nat (0xD800 + (c - 0x10000) div 0x400), of_nat (0xDC00 + (c - 0x10000) mod 0x400)])"

definition encode_utf16 :: "rstring \<Rightarrow> u16 list" where
  "encode_utf16 s = concat (map utf16_char s)"

definition high_surrogate :: "u16 \<Rightarrow> bool" where
  "high_surrogate u \<longleftrightarrow> 0xD800 \<le> unat u \<and> unat u < 0xDC00"

definition low_surrogate :: "u16 \<Rightarrow> bool" where
  "low_surrogate u \<longleftrightarrow> 0xDC00 \<le> unat u \<and> unat u < 0xE000"

definition combine_surrogates :: "u16 \<Rightarrow> u16 \<Rightarrow> rchar" where
  "combine_surrogates u v = 0x10000 + (unat u - 0xD800) * 0x400 + (unat v - 0xDC00)"

text \<open>
  The iterator of \<^verbatim>\<open>char::decode_utf16\<close>: an unpaired surrogate is an error item
  and the unit after it is looked at again.
\<close>

fun decode_utf16 :: "u16 list \<Rightarrow> rchar option list" where
  "decode_utf16 [] = []"
| "decode_utf16 (u # us) =
     (if \<not> high_surrogate u \<and> \<not> low_surrogate u then Some (unat u) # decode_utf16 us
      else if low_surrogate u then None # decode_utf16 us
      else (case us of
              [] \<Rightarrow> [None]
            | v # vs \<Rightarrow>
                if low_surrogate v then Some (combine_surrogates u v) # decode_utf16 vs
                else None # decode_utf16 us))"

definition from_utf16 :: "u16 list \<Rightarrow> rstring option" where
  "from_utf16 us = (if None \<in> set (decode_utf16 us) then None else Some (map the (decode_utf16 us)))"

definition from_utf16_lossy :: "u16 list \<Rightarrow> rstring" where
  "from_utf16_lossy us = map (\<lambda>d. case d of Some c \<Rightarrow> c | None \<Rightarrow> 0xFFFD) (decode_utf16 us)"

lemma encode_utf16_simps [simp]:
  "encode_utf16 [] = []" "encode_utf16 (c # s) = utf16_char c @ encode_utf16 s"
  "encode_utf16 (s @ t) = encode_utf16 s @ encode_utf16 t"
  by (simp_all add: encode_utf16_def)

lemma unat_of_nat_u16 [simp]: "n < 0x10000 \<Longrightarrow> unat (of_nat n :: u16) = n"
  by (simp add: unat_of_nat)

lemma decode_utf16_char:
  assumes "valid_char c"
  shows "decode_utf16 (utf16_char c @ us) = Some c # decode_utf16 us"
proof (cases "c < 0x10000")
  case True
  then have "unat (of_nat c :: u16) = c" by simp
  with True assms show ?thesis
    by (auto simp: utf16_char_def high_surrogate_def low_surrogate_def valid_char_def)
next
  case False
  let ?d = "c - 0x10000"
  from False assms have d: "?d < 0x100000" "c = 0x10000 + ?d" by (auto simp: valid_char_def)
  then have h: "?d div 0x400 < 0x400" by simp
  have l: "?d mod 0x400 < 0x400" by simp
  have "unat (of_nat (0xD800 + ?d div 0x400) :: u16) = 0xD800 + ?d div 0x400" using h by (intro unat_of_nat_u16) simp
  moreover have "unat (of_nat (0xDC00 + ?d mod 0x400) :: u16) = 0xDC00 + ?d mod 0x400" using l by (intro unat_of_nat_u16) simp
  ultimately show ?thesis using False h l d(2)
    by (simp add: utf16_char_def high_surrogate_def low_surrogate_def combine_surrogates_def)
qed

lemma decode_encode_utf16: "valid_str s \<Longrightarrow> decode_utf16 (encode_utf16 s @ us) = map Some s @ decode_utf16 us"
  by (induction s) (simp_all add: decode_utf16_char)

lemma from_utf16_encode [simp, wire_simps]: "valid_str s \<Longrightarrow> from_utf16 (encode_utf16 s) = Some s"
  using decode_encode_utf16 [of s "[]"] by (auto simp: from_utf16_def comp_def)

lemma from_utf16_lossy_encode [simp, wire_simps]: "valid_str s \<Longrightarrow> from_utf16_lossy (encode_utf16 s) = s"
  using decode_encode_utf16 [of s "[]"] by (simp add: from_utf16_lossy_def comp_def)

lemma from_utf16_lossy_strict: "from_utf16 us = Some s \<Longrightarrow> from_utf16_lossy us = s"
proof -
  assume "from_utf16 us = Some s"
  then have n: "None \<notin> set (decode_utf16 us)" and s: "s = map the (decode_utf16 us)"
    by (auto simp: from_utf16_def split: if_splits)
  show ?thesis unfolding s from_utf16_lossy_def using n by (auto split: option.splits)
qed

lemma word_of_nat_unat_eq: "of_nat (unat w) = (w :: 'a::len word)"
  by simp

text \<open>Strict decoding yields scalar values only, and nothing is lost.\<close>

lemma unat_u16_less: "unat (u :: u16) < 0x10000"
  using unsigned_less [of u, where ?'a = nat] by simp

lemma combine_surrogates_char:
  assumes "high_surrogate u" "low_surrogate v"
  shows "valid_char (combine_surrogates u v) \<and> utf16_char (combine_surrogates u v) = [u, v]"
proof -
  obtain a where a: "unat u = 0xD800 + a" "a < 0x400"
    using assms(1) by (auto simp: high_surrogate_def intro: that [of "unat u - 0xD800"])
  obtain b where b: "unat v = 0xDC00 + b" "b < 0x400"
    using assms(2) by (auto simp: low_surrogate_def intro: that [of "unat v - 0xDC00"])
  have c: "combine_surrogates u v = 0x10000 + (a * 0x400 + b)"
    using a b by (simp add: combine_surrogates_def)
  have "(a * 0x400 + b) div 0x400 = a" "(a * 0x400 + b) mod 0x400 = b" using b by simp_all
  moreover have "of_nat (0xD800 + a) = u" "of_nat (0xDC00 + b) = v"
    using word_of_nat_unat_eq [of u] word_of_nat_unat_eq [of v] a b by simp_all
  ultimately show ?thesis using a(2) b(2) by (simp add: c utf16_char_def valid_char_def)
qed

lemma decode_utf16_sound:
  "None \<notin> set (decode_utf16 us) \<Longrightarrow>
     valid_str (map the (decode_utf16 us)) \<and> encode_utf16 (map the (decode_utf16 us)) = us"
proof (induction us rule: decode_utf16.induct)
  case (2 u us)
  show ?case
  proof (cases "high_surrogate u \<or> low_surrogate u")
    case False
    with 2 have "valid_str (map the (decode_utf16 us)) \<and> encode_utf16 (map the (decode_utf16 us)) = us" by simp
    moreover have "valid_char (unat u)" "utf16_char (unat u) = [u]"
      using False unat_u16_less [of u]
      by (auto simp: high_surrogate_def low_surrogate_def valid_char_def utf16_char_def)
    ultimately show ?thesis using False by simp
  next
    case True
    with "2.prems" have hi: "\<not> low_surrogate u" by auto
    with True "2.prems" obtain v vs where us: "us = v # vs" "low_surrogate v"
      by (auto split: list.splits if_splits)
    from "2.prems" hi us True have "None \<notin> set (decode_utf16 vs)" by simp
    with "2.IH" hi us True have
      "valid_str (map the (decode_utf16 vs)) \<and> encode_utf16 (map the (decode_utf16 vs)) = vs" by simp
    then show ?thesis using hi us True combine_surrogates_char [of u v] by simp
  qed
qed simp

lemma from_utf16_sound: "from_utf16 us = Some s \<Longrightarrow> valid_str s \<and> encode_utf16 s = us"
  using decode_utf16_sound [of us] by (auto simp: from_utf16_def split: if_splits)

lemma from_utf16_iff: "from_utf16 us = Some s \<longleftrightarrow> valid_str s \<and> us = encode_utf16 s"
  using from_utf16_sound from_utf16_encode by blast

text \<open>Code units on the wire are little endian.\<close>

definition utf16_bytes :: "rstring \<Rightarrow> bytes" where
  "utf16_bytes s = concat (map (le_bytes 2) (encode_utf16 s))"

lemma length_concat_le [simp]: "length (concat (map (le_bytes n) ws)) = n * length ws"
  by (induction ws) auto

lemma length_utf16_bytes: "length (utf16_bytes s) = 2 * length (encode_utf16 s)"
  by (simp add: utf16_bytes_def)

section \<open>UTF-8\<close>

definition utf8_char :: "rchar \<Rightarrow> nat list" where
  "utf8_char c =
     (if c < 0x80 then [c]
      else if c < 0x800 then [0xC0 + c div 64, 0x80 + c mod 64]
      else if c < 0x10000 then [0xE0 + c div 4096, 0x80 + c div 64 mod 64, 0x80 + c mod 64]
      else [0xF0 + c div 262144, 0x80 + c div 4096 mod 64, 0x80 + c div 64 mod 64, 0x80 + c mod 64])"

text \<open>\<^verbatim>\<open>str::as_bytes\<close>\<close>

definition as_bytes :: "rstring \<Rightarrow> bytes" where
  "as_bytes s = map of_nat (concat (map utf8_char s))"

definition utf8_cont :: "nat \<Rightarrow> bool" where
  "utf8_cont x \<longleftrightarrow> 0x80 \<le> x \<and> x < 0xC0"

definition utf8_second3 :: "nat \<Rightarrow> nat \<Rightarrow> bool" where
  "utf8_second3 b x \<longleftrightarrow>
     (if b = 0xE0 then 0xA0 \<le> x \<and> x < 0xC0 else if b = 0xED then 0x80 \<le> x \<and> x < 0xA0 else utf8_cont x)"

definition utf8_second4 :: "nat \<Rightarrow> nat \<Rightarrow> bool" where
  "utf8_second4 b x \<longleftrightarrow>
     (if b = 0xF0 then 0x90 \<le> x \<and> x < 0xC0 else if b = 0xF4 then 0x80 \<le> x \<and> x < 0x90 else utf8_cont x)"

text \<open>
  One step of \<^verbatim>\<open>from_utf8_lossy\<close>: the character at the front, or nothing for a
  maximal ill-formed prefix, and the bytes after it.
\<close>

definition utf8_next :: "nat \<Rightarrow> nat list \<Rightarrow> rchar option \<times> nat list" where
  "utf8_next b bs =
     (if b < 0x80 then (Some b, bs)
      else if 0xC2 \<le> b \<and> b < 0xE0 then
        (case bs of
           x # r \<Rightarrow> if utf8_cont x then (Some ((b - 0xC0) * 64 + (x - 0x80)), r) else (None, bs)
         | [] \<Rightarrow> (None, []))
      else if 0xE0 \<le> b \<and> b < 0xF0 then
        (case bs of
           x # r \<Rightarrow>
             if utf8_second3 b x then
               (case r of
                  y # q \<Rightarrow>
                    if utf8_cont y then (Some ((b - 0xE0) * 4096 + (x - 0x80) * 64 + (y - 0x80)), q)
                    else (None, r)
                | [] \<Rightarrow> (None, []))
             else (None, bs)
         | [] \<Rightarrow> (None, []))
      else if 0xF0 \<le> b \<and> b < 0xF5 then
        (case bs of
           x # r \<Rightarrow>
             if utf8_second4 b x then
               (case r of
                  y # q \<Rightarrow>
                    if utf8_cont y then
                      (case q of
                         z # p \<Rightarrow>
                           if utf8_cont z then
                             (Some ((b - 0xF0) * 262144 + (x - 0x80) * 4096 + (y - 0x80) * 64 + (z - 0x80)), p)
                           else (None, q)
                       | [] \<Rightarrow> (None, []))
                    else (None, r)
                | [] \<Rightarrow> (None, []))
             else (None, bs)
         | [] \<Rightarrow> (None, []))
      else (None, bs))"

lemma utf8_next_shorter: "length (snd (utf8_next b bs)) \<le> length bs"
  by (auto simp: utf8_next_def split: list.splits)

function utf8_lossy :: "nat list \<Rightarrow> rstring" where
  "utf8_lossy [] = []"
| "utf8_lossy (b # bs) =
     (case utf8_next b bs of (c, r) \<Rightarrow> (case c of Some c \<Rightarrow> c | None \<Rightarrow> 0xFFFD) # utf8_lossy r)"
  by pat_completeness auto
termination
  by (relation "measure length") (auto, metis le_imp_less_Suc snd_conv utf8_next_shorter)

definition from_utf8_lossy :: "bytes \<Rightarrow> rstring" where
  "from_utf8_lossy bs = utf8_lossy (map unat bs)"

lemma as_bytes_Nil [simp]: "as_bytes [] = []"
  by (simp add: as_bytes_def)

lemma as_bytes_eq_Nil [simp]: "as_bytes s = [] \<longleftrightarrow> s = []"
  by (cases s) (auto simp: as_bytes_def utf8_char_def)

lemma utf8_char_byte: "c < 0x110000 \<Longrightarrow> \<forall>x\<in>set (utf8_char c). x < 256"
  by (auto simp: utf8_char_def)

lemma utf8_char_nonzero: "c < 0x110000 \<Longrightarrow> 0 < c \<Longrightarrow> \<forall>x\<in>set (utf8_char c). 0 < x"
  by (auto simp: utf8_char_def)

lemma utf8_next_2:
  "2 \<le> a \<Longrightarrow> a < 32 \<Longrightarrow> b < 64 \<Longrightarrow> utf8_next (0xC0 + a) ((0x80 + b) # r) = (Some (a * 64 + b), r)"
  by (simp add: utf8_next_def utf8_cont_def)

lemma utf8_next_3:
  "a < 16 \<Longrightarrow> b < 64 \<Longrightarrow> d < 64 \<Longrightarrow> (a = 0 \<Longrightarrow> 32 \<le> b) \<Longrightarrow> (a = 13 \<Longrightarrow> b < 32) \<Longrightarrow>
     utf8_next (0xE0 + a) ((0x80 + b) # (0x80 + d) # r) = (Some (a * 4096 + b * 64 + d), r)"
  by (auto simp: utf8_next_def utf8_cont_def utf8_second3_def)

lemma utf8_next_4:
  "a < 5 \<Longrightarrow> b < 64 \<Longrightarrow> d < 64 \<Longrightarrow> e < 64 \<Longrightarrow> (a = 0 \<Longrightarrow> 16 \<le> b) \<Longrightarrow> (a = 4 \<Longrightarrow> b < 16) \<Longrightarrow>
     utf8_next (0xF0 + a) ((0x80 + b) # (0x80 + d) # (0x80 + e) # r) =
       (Some (a * 262144 + b * 4096 + d * 64 + e), r)"
  by (auto simp: utf8_next_def utf8_cont_def utf8_second4_def)

lemma utf8_lossy_char:
  assumes "valid_char c"
  shows "utf8_lossy (utf8_char c @ bs) = c # utf8_lossy bs"
proof -
  consider "c < 0x80" | "0x80 \<le> c" "c < 0x800" | "0x800 \<le> c" "c < 0x10000" | "0x10000 \<le> c" "c < 0x110000"
    using assms unfolding valid_char_def by linarith
  then show ?thesis
  proof cases
    case 2
    then have "2 \<le> c div 64" "c div 64 < 32" by auto
    then show ?thesis using 2 utf8_next_2 [of "c div 64" "c mod 64" bs] by (simp add: utf8_char_def)
  next
    case 3
    let ?a = "c div 4096" and ?b = "c div 64 mod 64" and ?d = "c mod 64"
    have ka: "c div 64 = ?a * 64 + ?b" using div_mult2_eq [of c 64 64] by simp
    then have c: "?a * 4096 + ?b * 64 + ?d = c" using div_mult_mod_eq [of c 64] by linarith
    have bd: "?b < 64" "?d < 64" by simp_all
    have "?a < 16" using 3 c bd by linarith
    moreover have "?a = 0 \<Longrightarrow> 32 \<le> ?b" using 3 c bd by linarith
    moreover have "?a = 13 \<Longrightarrow> ?b < 32" using assms c bd unfolding valid_char_def by linarith
    ultimately show ?thesis using 3 c bd utf8_next_3 [of ?a ?b ?d bs] by (simp add: utf8_char_def)
  next
    case 4
    let ?a = "c div 262144" and ?b = "c div 4096 mod 64" and ?d = "c div 64 mod 64" and ?e = "c mod 64"
    have "c div 64 = c div 4096 * 64 + ?d" "c div 4096 = ?a * 64 + ?b"
      using div_mult2_eq [of c 64 64] div_mult2_eq [of c 4096 64] by simp_all
    then have c: "?a * 262144 + ?b * 4096 + ?d * 64 + ?e = c" using div_mult_mod_eq [of c 64] by linarith
    have bd: "?b < 64" "?d < 64" "?e < 64" by simp_all
    have "?a < 5" "?a = 0 \<Longrightarrow> 16 \<le> ?b" "?a = 4 \<Longrightarrow> ?b < 16" using 4 c bd by linarith+
    then show ?thesis using 4 c bd utf8_next_4 [of ?a ?b ?d ?e bs] by (simp add: utf8_char_def)
  qed (simp add: utf8_char_def utf8_next_def)
qed

lemma utf8_lossy_chars: "valid_str s \<Longrightarrow> utf8_lossy (concat (map utf8_char s)) = s"
  by (induction s) (auto simp: utf8_lossy_char)

lemma utf8_chars_byte: "valid_str s \<Longrightarrow> \<forall>x\<in>set (concat (map utf8_char s)). x < 256"
proof (induction s)
  case (Cons c s)
  then have "c < 0x110000" by (auto simp: valid_char_def)
  with Cons show ?case using utf8_char_byte [of c] by auto
qed simp

lemma from_utf8_lossy_as_bytes [simp]:
  assumes "valid_str s"
  shows "from_utf8_lossy (as_bytes s) = s"
proof -
  have "map unat (as_bytes s) = concat (map utf8_char s)"
    unfolding as_bytes_def using utf8_chars_byte [OF assms]
    by (auto simp: unat_of_nat intro!: map_idI)
  then show ?thesis using utf8_lossy_chars [OF assms] by (simp add: from_utf8_lossy_def)
qed

lemma as_bytes_no_nul:
  assumes "valid_str s" "0 \<notin> set s"
  shows "0 \<notin> set (as_bytes s)"
proof
  assume "0 \<in> set (as_bytes s)"
  then have "(0 :: u8) \<in> of_nat ` set (concat (map utf8_char s))" unfolding as_bytes_def set_map .
  then obtain x where x: "(0 :: u8) = of_nat x" "x \<in> set (concat (map utf8_char s))" by (rule imageE)
  then obtain c where c: "c \<in> set s" "x \<in> set (utf8_char c)" by auto
  with assms have "c < 0x110000" "0 < c"
    by (auto simp: valid_str_def list_all_iff valid_char_def intro!: gr0I)
  with c(2) have "0 < x" "x < 256" using utf8_char_nonzero utf8_char_byte by blast+
  moreover have "unat (of_nat x :: u8) = 0" using x(1) by (metis unsigned_0)
  ultimately show False by (simp add: unat_of_nat)
qed

section \<open>Decimal integers\<close>

fun show_nat :: "nat \<Rightarrow> rstring" where
  "show_nat n = (if n < 10 then [48 + n] else show_nat (n div 10) @ [48 + n mod 10])"

declare show_nat.simps [simp del]

text \<open>
  \<^verbatim>\<open>from_str\<close> of an unsigned type with the values below \<open>bound\<close>: the digit is
  checked before the multiplication overflow, the addition overflow last; a
  leading plus sign is accepted, a lone sign is not.
\<close>

fun parse_digits :: "nat \<Rightarrow> nat \<Rightarrow> rstring \<Rightarrow> parse_int_error + nat" where
  "parse_digits bound acc [] = Inr acc"
| "parse_digits bound acc (c # cs) =
     (if \<not> (48 \<le> c \<and> c \<le> 57) then Inl InvalidDigit
      else if bound \<le> acc * 10 then Inl PosOverflow
      else if bound \<le> acc * 10 + (c - 48) then Inl PosOverflow
      else parse_digits bound (acc * 10 + (c - 48)) cs)"

definition parse_uint :: "nat \<Rightarrow> rstring \<Rightarrow> parse_int_error + nat" where
  "parse_uint bound s =
     (if s = [] then Inl EmptyDigits
      else if s = [43] \<or> s = [45] then Inl InvalidDigit
      else if hd s = 43 then parse_digits bound 0 (tl s)
      else parse_digits bound 0 s)"

definition parse_u32 :: "rstring \<Rightarrow> parse_int_error + u32" where
  "parse_u32 s = map_sum id of_nat (parse_uint (2 ^ 32) s)"

definition parse_u64 :: "rstring \<Rightarrow> parse_int_error + u64" where
  "parse_u64 s = map_sum id of_nat (parse_uint (2 ^ 64) s)"

definition strip_prefix :: "rstring \<Rightarrow> rstring \<Rightarrow> rstring option" where
  "strip_prefix p s = (if take (length p) s = p then Some (drop (length p) s) else None)"

text \<open>\<^verbatim>\<open>str::splitn(n, c)\<close>: at most \<open>n\<close> pieces, the last one unsplit.\<close>

fun splitn_aux :: "nat \<Rightarrow> rchar \<Rightarrow> rstring \<Rightarrow> rstring \<Rightarrow> rstring list" where
  "splitn_aux n sep cur [] = [cur]"
| "splitn_aux n sep cur (c # cs) =
     (if c = sep \<and> 1 < n then cur # splitn_aux (n - 1) sep [] cs else splitn_aux n sep (cur @ [c]) cs)"

definition splitn :: "nat \<Rightarrow> rchar \<Rightarrow> rstring \<Rightarrow> rstring list" where
  "splitn n sep s = (if n = 0 then [] else splitn_aux n sep [] s)"

lemma show_nat_digits: "\<forall>c\<in>set (show_nat n). 48 \<le> c \<and> c \<le> 57"
proof (induction n rule: show_nat.induct)
  case (1 n)
  then show ?case by (subst show_nat.simps) auto
qed

lemma show_nat_nonempty: "show_nat n \<noteq> []"
  by (subst show_nat.simps) simp

lemma parse_digits_append:
  "parse_digits m a (xs @ ys) = (case parse_digits m a xs of Inl e \<Rightarrow> Inl e | Inr b \<Rightarrow> parse_digits m b ys)"
  by (induction xs arbitrary: a) simp_all

lemma parse_digits_show: "n < m \<Longrightarrow> parse_digits m 0 (show_nat n) = Inr n"
proof (induction n rule: show_nat.induct)
  case (1 n)
  show ?case
  proof (cases "n < 10")
    case True
    then show ?thesis using "1.prems" by (simp add: show_nat.simps [of n])
  next
    case False
    have "n div 10 < m" using "1.prems" by (meson div_le_dividend le_less_trans)
    with "1.IH" False have ih: "parse_digits m 0 (show_nat (n div 10)) = Inr (n div 10)" by simp
    have "n div 10 * 10 + n mod 10 = n" by simp
    moreover have "n mod 10 \<le> 9" "n div 10 * 10 \<le> n" by auto
    ultimately have "parse_digits m (n div 10) [48 + n mod 10] = Inr n" using "1.prems" by simp
    then show ?thesis using False ih by (subst show_nat.simps) (simp add: parse_digits_append)
  qed
qed

lemma parse_uint_show:
  assumes "n < m"
  shows "parse_uint m (show_nat n) = Inr n"
proof -
  obtain c cs where s: "show_nat n = c # cs" "48 \<le> c"
    using show_nat_nonempty [of n] show_nat_digits [of n] by (cases "show_nat n") auto
  then show ?thesis using parse_digits_show [OF assms] by (auto simp: parse_uint_def)
qed

lemma parse_u32_show: "n < 2 ^ 32 \<Longrightarrow> parse_u32 (show_nat n) = Inr (of_nat n)"
  using parse_uint_show [of n "2 ^ 32"] by (simp add: parse_u32_def)

end
