(* ===== verification/Tds_Wire.thy ===== *)
theory Tds_Wire
  imports Tds_Strings
begin

text \<open>
  The typed readers of \<^verbatim>\<open>src/src/sql_read_bytes.rs\<close> (the \<^verbatim>\<open>SqlReadBytes\<close> trait over a
  connection), the bulk reader \<^verbatim>\<open>read_bytes_into\<close>, the length-prefixed strings
  in both directions and the request header block of \<^verbatim>\<open>tds/codec/encode.rs\<close>.
  Signed integers are kept as words; \<^verbatim>\<open>f32\<close> and \<^verbatim>\<open>f64\<close> as their bit patterns.
\<close>

section \<open>Fixed-width readers\<close>

definition read_u8 :: "(bytes, u8) comp" where "read_u8 = read_le 1"
definition read_i8 :: "(bytes, u8) comp" where "read_i8 = read_le 1"
definition read_u32 :: "(bytes, u32) comp" where "read_u32 = read_be 4"
definition read_u16_le :: "(bytes, u16) comp" where "read_u16_le = read_le 2"
definition read_u32_le :: "(bytes, u32) comp" where "read_u32_le = read_le 4"
definition read_u64_le :: "(bytes, u64) comp" where "read_u64_le = read_le 8"
definition read_u128_le :: "(bytes, u128) comp" where "read_u128_le = read_le 16"
definition read_i16_le :: "(bytes, u16) comp" where "read_i16_le = read_le 2"
definition read_i32_le :: "(bytes, u32) comp" where "read_i32_le = read_le 4"
definition read_i64_le :: "(bytes, u64) comp" where "read_i64_le = read_le 8"
definition read_i128_le :: "(bytes, u128) comp" where "read_i128_le = read_le 16"
definition read_f32 :: "(bytes, u32) comp" where "read_f32 = read_be 4"
definition read_f64 :: "(bytes, u64) comp" where "read_f64 = read_be 8"
definition read_f32_le :: "(bytes, u32) comp" where "read_f32_le = read_le 4"
definition read_f64_le :: "(bytes, u64) comp" where "read_f64_le = read_le 8"

lemmas fixed_reader_defs =
  read_u8_def read_i8_def read_u32_def read_u16_le_def read_u32_le_def read_u64_le_def
  read_u128_le_def read_i16_le_def read_i32_le_def read_i64_le_def read_i128_le_def
  read_f32_def read_f64_def read_f32_le_def read_f64_le_def

lemma le_bytes_1 [simp]: "le_bytes 1 (b :: u8) = [b]" "le_bytes (Suc 0) (b :: u8) = [b]"
  by (simp_all add: le_bytes_def word_of_nat_unat_eq)

lemma read_u8_Cons [wire_simps]: "read_u8 (b # s) = (Ok b, s)"
  using read_le_append [of 1 b s] by (simp add: read_u8_def)

lemma read_u8_Nil [wire_simps]: "read_u8 [] = (Err (Io UnexpectedEof), [])"
  by (simp add: read_u8_def read_le_def wire_simps read_n_def)

lemma read_fixed_append [wire_simps]:
  "read_u32 (be_bytes 4 a @ s) = (Ok a, s)"
  "read_u16_le (le_bytes 2 b @ s) = (Ok b, s)"
  "read_u32_le (le_bytes 4 c @ s) = (Ok c, s)"
  "read_u64_le (le_bytes 8 d @ s) = (Ok d, s)"
  "read_u128_le (le_bytes 16 e @ s) = (Ok e, s)"
  "read_i16_le (le_bytes 2 b @ s) = (Ok b, s)"
  "read_i32_le (le_bytes 4 c @ s) = (Ok c, s)"
  "read_i64_le (le_bytes 8 d @ s) = (Ok d, s)"
  "read_f32_le (le_bytes 4 c @ s) = (Ok c, s)"
  "read_f64_le (le_bytes 8 d @ s) = (Ok d, s)"
  by (simp_all add: fixed_reader_defs read_le_append read_be_append)

lemma read_fixed_exact [wire_simps]:
  "read_u32 (be_bytes 4 a) = (Ok a, [])"
  "read_u16_le (le_bytes 2 b) = (Ok b, [])"
  "read_u32_le (le_bytes 4 c) = (Ok c, [])"
  "read_u64_le (le_bytes 8 d) = (Ok d, [])"
  "read_u128_le (le_bytes 16 e) = (Ok e, [])"
  "read_i16_le (le_bytes 2 b) = (Ok b, [])"
  "read_i32_le (le_bytes 4 c) = (Ok c, [])"
  "read_i64_le (le_bytes 8 d) = (Ok d, [])"
  "read_f32_le (le_bytes 4 c) = (Ok c, [])"
  "read_f64_le (le_bytes 8 d) = (Ok d, [])"
  by (simp_all add: fixed_reader_defs read_le_exact read_be_exact)

lemma reader_fixed [reader_intros]:
  "reader read_u8" "reader read_i8" "reader read_u32" "reader read_u16_le" "reader read_u32_le"
  "reader read_u64_le" "reader read_u128_le" "reader read_i16_le" "reader read_i32_le"
  "reader read_i64_le" "reader read_i128_le" "reader read_f32" "reader read_f64"
  "reader read_f32_le" "reader read_f64_le"
  unfolding fixed_reader_defs by (intro reader_intros)+

lemma safe_fixed [safe_intros]:
  "safe read_u8" "safe read_i8" "safe read_u32" "safe read_u16_le" "safe read_u32_le"
  "safe read_u64_le" "safe read_u128_le" "safe read_i16_le" "safe read_i32_le"
  "safe read_i64_le" "safe read_i128_le" "safe read_f32" "safe read_f64"
  "safe read_f32_le" "safe read_f64_le"
  unfolding fixed_reader_defs by (intro safe_intros)+

lemma shrinks_fixed [shrinks_intros]: "shrinks read_u8" "shrinks read_u16_le" "shrinks read_u32_le"
  unfolding fixed_reader_defs by (intro shrinks_intros)+

section \<open>The bulk reader\<close>

definition MAX_PREALLOC :: nat where "MAX_PREALLOC = 8192"

text \<open>
  \<^verbatim>\<open>read_bytes_into\<close> grows the destination one window of at most \<open>prealloc_cap\<close>
  bytes at a time. With a zero window the outer loop makes no progress.
\<close>

function read_bytes_into :: "bytes \<Rightarrow> nat \<Rightarrow> nat \<Rightarrow> (bytes, bytes) comp" where
  "read_bytes_into dst remaining prealloc_cap =
     (if remaining = 0 then retR dst
      else if prealloc_cap = 0 then (\<lambda>s. (Diverge, s))
      else bindR (read_n (min remaining prealloc_cap)) (\<lambda>chunk.
             read_bytes_into (dst @ chunk) (remaining - min remaining prealloc_cap) prealloc_cap))"
  by pat_completeness auto
termination
  by (relation "measure (\<lambda>(dst, remaining, cap). remaining)") auto

declare read_bytes_into.simps [simp del]

lemma read_bytes_into_enough:
  assumes "0 < cap"
  shows "len \<le> length s \<Longrightarrow> read_bytes_into dst len cap s = (Ok (dst @ take len s), drop len s)"
proof (induction len arbitrary: dst s rule: less_induct)
  case (less len)
  show ?case
  proof (cases "len = 0")
    case True
    then show ?thesis by (subst read_bytes_into.simps) (simp add: retR_def)
  next
    case False
    let ?w = "min len cap"
    have w: "?w \<le> length s" "len - ?w < len" "len - ?w \<le> length (drop ?w s)"
      using less.prems False assms by auto
    have "read_bytes_into dst len cap s = read_bytes_into (dst @ take ?w s) (len - ?w) cap (drop ?w s)"
      using False assms w(1) by (subst read_bytes_into.simps) (simp add: bindR_def read_n_def)
    also have "\<dots> = (Ok ((dst @ take ?w s) @ take (len - ?w) (drop ?w s)), drop (len - ?w) (drop ?w s))"
      using less.IH [OF w(2) w(3)] .
    also have "\<dots> = (Ok (dst @ take len s), drop len s)"
      using take_add [of ?w "len - ?w" s] by (simp add: drop_drop)
    finally show ?thesis .
  qed
qed

lemma read_bytes_into_short:
  assumes "0 < cap"
  shows "length s < len \<Longrightarrow> fst (read_bytes_into dst len cap s) = Err (Io UnexpectedEof)"
proof (induction len arbitrary: dst s rule: less_induct)
  case (less len)
  let ?w = "min len cap"
  from less.prems have "len \<noteq> 0" by auto
  show ?case
  proof (cases "?w \<le> length s")
    case True
    have "read_bytes_into dst len cap s = read_bytes_into (dst @ take ?w s) (len - ?w) cap (drop ?w s)"
      using \<open>len \<noteq> 0\<close> assms True by (subst read_bytes_into.simps) (simp add: bindR_def read_n_def)
    moreover have "len - ?w < len" "length (drop ?w s) < len - ?w"
      using less.prems True assms \<open>len \<noteq> 0\<close> by auto
    ultimately show ?thesis using less.IH by simp
  next
    case False
    then show ?thesis using \<open>len \<noteq> 0\<close> assms
      by (subst read_bytes_into.simps) (simp add: bindR_def read_n_def)
  qed
qed

lemma reader_read_bytes_into [reader_intros]: "reader (read_bytes_into dst len cap)"
proof (induction len arbitrary: dst rule: less_induct)
  case (less len)
  show ?case
  proof (cases "len = 0 \<or> cap = 0")
    case True
    then show ?thesis by (subst read_bytes_into.simps) (auto simp: reader_def retR_def)
  next
    case False
    then have "len - min len cap < len" by simp
    then show ?thesis using False less.IH by (subst read_bytes_into.simps) (simp add: reader_bindR reader_read_n)
  qed
qed

lemma safe_read_bytes_into [safe_intros]: "0 < cap \<Longrightarrow> safe (read_bytes_into dst len cap)"
proof (unfold safe_def, intro allI)
  fix s assume "0 < cap"
  then show "returns (fst (read_bytes_into dst len cap s))"
    using read_bytes_into_enough [of cap len s dst] read_bytes_into_short [of cap s len dst]
    by (cases "len \<le> length s") auto
qed

lemma read_bytes_into_append [wire_simps]:
  "0 < cap \<Longrightarrow> length xs = n \<Longrightarrow> read_bytes_into [] n cap (xs @ s) = (Ok xs, s)"
  using read_bytes_into_enough [of cap n "xs @ s" "[]"] by auto

lemma consumes_fixed [consumes_intros]:
  "consumes read_u8" "consumes read_u16_le" "consumes read_u32_le" "consumes read_u64_le" "consumes read_i32_le"
  unfolding fixed_reader_defs by (rule consumes_read_le; simp)+

section \<open>Length-prefixed strings\<close>

definition read_utf16_units :: "nat \<Rightarrow> (bytes, u16 list) comp" where
  "read_utf16_units n = repeatR n read_u16_le"

definition read_b_varchar :: "(bytes, rstring) comp" where
  "read_b_varchar =
     bindR read_u8 (\<lambda>len.
     bindR (read_utf16_units (unat len)) (\<lambda>buf.
     ok_or (from_utf16 buf) (Io InvalidData)))"

definition read_us_varchar :: "(bytes, rstring) comp" where
  "read_us_varchar =
     bindR read_u16_le (\<lambda>len.
     bindR (read_utf16_units (unat len)) (\<lambda>buf.
     ok_or (from_utf16 buf) (Io InvalidData)))"

definition encode_b_varchar :: "rstring \<Rightarrow> (bytes, unit) comp" where
  "encode_b_varchar s =
     (let units = encode_utf16 s in
      if length units > 255 then errR (Protocol (VarcharMsg (BVarcharTooLong (length units))))
      else thenR (put_u8 (of_nat (length units))) (eachR (put_le 2) units))"

definition encode_us_varchar :: "rstring \<Rightarrow> (bytes, unit) comp" where
  "encode_us_varchar s =
     (let units = encode_utf16 s in
      if length units > 65535 then errR (Protocol (VarcharMsg (UsVarcharTooLong (length units))))
      else thenR (put_le 2 (of_nat (length units) :: u16)) (eachR (put_le 2) units))"

definition b_varchar_bytes :: "rstring \<Rightarrow> bytes" where
  "b_varchar_bytes s = of_nat (length (encode_utf16 s)) # utf16_bytes s"

definition us_varchar_bytes :: "rstring \<Rightarrow> bytes" where
  "us_varchar_bytes s = le_bytes 2 (of_nat (length (encode_utf16 s)) :: u16) @ utf16_bytes s"

definition b_varchar_ok :: "rstring \<Rightarrow> bool" where
  "b_varchar_ok s \<longleftrightarrow> valid_str s \<and> length (encode_utf16 s) \<le> 255"

definition us_varchar_ok :: "rstring \<Rightarrow> bool" where
  "us_varchar_ok s \<longleftrightarrow> valid_str s \<and> length (encode_utf16 s) \<le> 65535"

lemma eachR_put_le [wire_simps]: "eachR (put_le n) ws dst = (Ok (), dst @ concat (map (le_bytes n) ws))"
  by (induction ws arbitrary: dst) (simp_all add: wire_simps)

lemma read_utf16_units_bytes [wire_simps]:
  "n = length (encode_utf16 s) \<Longrightarrow> read_utf16_units n (utf16_bytes s @ rest) = (Ok (encode_utf16 s), rest)"
  unfolding read_utf16_units_def utf16_bytes_def read_u16_le_def by (simp add: repeat_read_le)

lemma reader_utf16_units [reader_intros]: "reader (read_utf16_units n)"
  unfolding read_utf16_units_def by (intro reader_intros)

lemma reader_varchar [reader_intros]: "reader read_b_varchar" "reader read_us_varchar"
  unfolding read_b_varchar_def read_us_varchar_def by (intro reader_intros)+

lemma safe_varchar [safe_intros]: "safe (read_utf16_units n)" "safe read_b_varchar" "safe read_us_varchar"
  unfolding read_utf16_units_def read_b_varchar_def read_us_varchar_def by (intro safe_intros)+

interpretation b_varchar: wire_codec encode_b_varchar read_b_varchar b_varchar_bytes b_varchar_ok
proof unfold_locales
  fix s dst assume "b_varchar_ok s"
  then show "encode_b_varchar s dst = (Ok (), dst @ b_varchar_bytes s)"
    by (simp add: encode_b_varchar_def b_varchar_ok_def b_varchar_bytes_def utf16_bytes_def wire_simps)
next
  fix s rest assume "b_varchar_ok s"
  then show "read_b_varchar (b_varchar_bytes s @ rest) = (Ok s, rest)"
    by (simp add: read_b_varchar_def b_varchar_bytes_def b_varchar_ok_def wire_simps unat_of_nat)
qed

interpretation us_varchar: wire_codec encode_us_varchar read_us_varchar us_varchar_bytes us_varchar_ok
proof unfold_locales
  fix s dst assume "us_varchar_ok s"
  then show "encode_us_varchar s dst = (Ok (), dst @ us_varchar_bytes s)"
    by (simp add: encode_us_varchar_def us_varchar_ok_def us_varchar_bytes_def utf16_bytes_def wire_simps)
next
  fix s rest assume "us_varchar_ok s"
  then show "read_us_varchar (us_varchar_bytes s @ rest) = (Ok s, rest)"
    by (simp add: read_us_varchar_def us_varchar_bytes_def us_varchar_ok_def wire_simps)
qed

lemmas varchar_wire [wire_simps] =
  b_varchar.enc_wire b_varchar.dec_wire us_varchar.enc_wire us_varchar.dec_wire

lemma b_varchar_too_long:
  "length (encode_utf16 s) > 255 \<Longrightarrow>
     encode_b_varchar s dst = (Err (Protocol (VarcharMsg (BVarcharTooLong (length (encode_utf16 s))))), dst)"
  by (simp add: encode_b_varchar_def wire_simps)

section \<open>The ALL_HEADERS block\<close>

definition ALL_HEADERS_LEN_TX :: nat where "ALL_HEADERS_LEN_TX = 22"

datatype AllHeaderTy = QueryDescriptor | TransactionDescriptor | TraceActivity

fun AllHeaderTy_value :: "AllHeaderTy \<Rightarrow> u16" where
  "AllHeaderTy_value QueryDescriptor = 1"
| "AllHeaderTy_value TransactionDescriptor = 2"
| "AllHeaderTy_value TraceActivity = 3"

text \<open>The transaction descriptor, a \<^verbatim>\<open>[u8; 8]\<close>, is a list of eight bytes.\<close>

definition encode_all_headers_tx :: "bytes \<Rightarrow> (bytes, unit) comp" where
  "encode_all_headers_tx transaction_desc =
     thenR (put_le 4 (of_nat ALL_HEADERS_LEN_TX :: u32))
    (thenR (put_le 4 (of_nat ALL_HEADERS_LEN_TX - 4 :: u32))
    (thenR (put_le 2 (AllHeaderTy_value TransactionDescriptor))
    (thenR (put_bytes transaction_desc)
           (put_le 4 (1 :: u32)))))"

definition all_headers_bytes :: "bytes \<Rightarrow> bytes" where
  "all_headers_bytes desc =
     le_bytes 4 (22 :: u32) @ le_bytes 4 (18 :: u32) @ le_bytes 2 (2 :: u16) @ desc @ le_bytes 4 (1 :: u32)"

lemma encode_all_headers_tx_eq [wire_simps]:
  "encode_all_headers_tx desc dst = (Ok (), dst @ all_headers_bytes desc)"
  by (simp add: encode_all_headers_tx_def ALL_HEADERS_LEN_TX_def all_headers_bytes_def wire_simps)

lemma length_all_headers: "length desc = 8 \<Longrightarrow> length (all_headers_bytes desc) = ALL_HEADERS_LEN_TX"
  by (simp add: all_headers_bytes_def ALL_HEADERS_LEN_TX_def)

end
