(* ===== verification/Tds_Collation.thy ===== *)
theory Tds_Collation
  imports Tds_Wire
begin

text \<open>
  Collations and their code pages (\<^verbatim>\<open>tds/collation.rs\<close>). The encodings of the
  crate \<^verbatim>\<open>encoding_rs\<close> are a parameter of the string codec; the two code pages
  the client implements itself, CP437 and CP850, are modelled in full.
\<close>

unbundle bit_operations_syntax

section \<open>The encodings of encoding_rs\<close>

text \<open>The statics the sources name, and the two decoding functions and the encoder
  the sources call on them; what these compute is the crate's business.\<close>

datatype encoding_rs =
  WINDOWS_1256 | WINDOWS_1251 | WINDOWS_1252 | BIG5 | WINDOWS_1250 | WINDOWS_1253 | WINDOWS_1255 | SHIFT_JIS | EUC_KR | WINDOWS_874 | WINDOWS_1254 | WINDOWS_1257 | WINDOWS_1258 | UTF_16LE | GB18030

record encoding_lib =
  lib_name :: "encoding_rs \<Rightarrow> rstring"
  lib_decode :: "encoding_rs \<Rightarrow> bytes \<Rightarrow> rstring option"
  lib_decode_lossy :: "encoding_rs \<Rightarrow> bytes \<Rightarrow> rstring"
  lib_encode :: "encoding_rs \<Rightarrow> rstring \<Rightarrow> bytes option"

text \<open>A library that knows ASCII only, to evaluate the model with.\<close>

definition ascii_lib :: encoding_lib where
  "ascii_lib = \<lparr>lib_name = (\<lambda>_. lit ''ASCII''),
     lib_decode = (\<lambda>_ bs. if \<forall>b\<in>set bs. b < 0x80 then Some (map unat bs) else None),
     lib_decode_lossy = (\<lambda>_ bs. map (\<lambda>b. if b < 0x80 then unat b else 0xfffd) bs),
     lib_encode = (\<lambda>_ s. if \<forall>c\<in>set s. c < 0x80 then Some (map of_nat s) else None)\<rparr>"

section \<open>Collations\<close>

record Collation =
  col_info :: u32
  col_sort_id :: u8

definition Collation_new :: "u32 \<Rightarrow> u8 \<Rightarrow> Collation" where
  "Collation_new info sort_id = \<lparr>col_info = info, col_sort_id = sort_id\<rparr>"

definition Collation_lcid :: "Collation \<Rightarrow> u16" where
  "Collation_lcid c = ucast (col_info c AND 0xffff)"

definition lcid_table :: "(u16 \<times> encoding_rs) list" where
  "lcid_table = [
     (0x0401, WINDOWS_1256), (0x0402, WINDOWS_1251), (0x0403, WINDOWS_1252), (0x0404, BIG5),
     (0x0c04, BIG5), (0x1404, BIG5), (0x0405, WINDOWS_1250), (0x0406, WINDOWS_1252),
     (0x0407, WINDOWS_1252), (0x0408, WINDOWS_1253), (0x0409, WINDOWS_1252),
     (0x040a, WINDOWS_1252), (0x040b, WINDOWS_1252), (0x040c, WINDOWS_1252),
     (0x040d, WINDOWS_1255), (0x040e, WINDOWS_1250), (0x040f, WINDOWS_1252),
     (0x0410, WINDOWS_1252), (0x0411, SHIFT_JIS), (0x0412, EUC_KR), (0x0413, WINDOWS_1252),
     (0x0414, WINDOWS_1252), (0x0415, WINDOWS_1250), (0x0416, WINDOWS_1252),
     (0x0417, WINDOWS_1252), (0x0418, WINDOWS_1250), (0x0419, WINDOWS_1251),
     (0x041a, WINDOWS_1250), (0x041b, WINDOWS_1250), (0x041c, WINDOWS_1250),
     (0x041d, WINDOWS_1252), (0x041e, WINDOWS_874), (0x041f, WINDOWS_1254), (0x0420, WINDOWS_1256),
     (0x0421, WINDOWS_1252), (0x0422, WINDOWS_1251), (0x0423, WINDOWS_1251),
     (0x0424, WINDOWS_1250), (0x0425, WINDOWS_1257), (0x0426, WINDOWS_1257),
     (0x0427, WINDOWS_1257), (0x0428, WINDOWS_1251), (0x0429, WINDOWS_1256),
     (0x042a, WINDOWS_1258), (0x042b, WINDOWS_1252), (0x042c, WINDOWS_1254),
     (0x042d, WINDOWS_1252), (0x042e, WINDOWS_1252), (0x042f, WINDOWS_1251),
     (0x0432, WINDOWS_1252), (0x0434, WINDOWS_1252), (0x0435, WINDOWS_1252),
     (0x0436, WINDOWS_1252), (0x0437, WINDOWS_1252), (0x0438, WINDOWS_1252), (0x0439, UTF_16LE),
     (0x043a, UTF_16LE), (0x043b, WINDOWS_1252), (0x043e, WINDOWS_1252), (0x043f, WINDOWS_1251),
     (0x0440, WINDOWS_1251), (0x0441, WINDOWS_1252), (0x0442, WINDOWS_1250),
     (0x0443, WINDOWS_1254), (0x0444, WINDOWS_1251), (0x0445, UTF_16LE), (0x0446, UTF_16LE),
     (0x0447, UTF_16LE), (0x0448, UTF_16LE), (0x0449, UTF_16LE), (0x044a, UTF_16LE),
     (0x044b, UTF_16LE), (0x044c, UTF_16LE), (0x044d, UTF_16LE), (0x044e, UTF_16LE),
     (0x044f, UTF_16LE), (0x0450, WINDOWS_1251), (0x0451, UTF_16LE), (0x0452, WINDOWS_1252),
     (0x0453, UTF_16LE), (0x0454, UTF_16LE), (0x0456, WINDOWS_1252), (0x0457, UTF_16LE),
     (0x045a, UTF_16LE), (0x045b, UTF_16LE), (0x045d, WINDOWS_1252), (0x045e, WINDOWS_1252),
     (0x0461, UTF_16LE), (0x0462, WINDOWS_1252), (0x0463, UTF_16LE), (0x0464, WINDOWS_1252),
     (0x0465, UTF_16LE), (0x0468, WINDOWS_1252), (0x046a, WINDOWS_1252), (0x046b, WINDOWS_1252),
     (0x046c, WINDOWS_1252), (0x046d, WINDOWS_1251), (0x046e, WINDOWS_1252),
     (0x046f, WINDOWS_1252), (0x0470, WINDOWS_1252), (0x0478, WINDOWS_1252),
     (0x047a, WINDOWS_1252), (0x047c, WINDOWS_1252), (0x047e, WINDOWS_1252),
     (0x0480, WINDOWS_1256), (0x0481, UTF_16LE), (0x0482, WINDOWS_1252), (0x0483, WINDOWS_1252),
     (0x0484, WINDOWS_1252), (0x0485, WINDOWS_1251), (0x0486, WINDOWS_1252),
     (0x0487, WINDOWS_1252), (0x0488, WINDOWS_1252), (0x048c, WINDOWS_1256),
     (0x0801, WINDOWS_1256), (0x0804, GB18030), (0x1004, GB18030), (0x0807, WINDOWS_1252),
     (0x0809, WINDOWS_1252), (0x080a, WINDOWS_1252), (0x080c, WINDOWS_1252),
     (0x0810, WINDOWS_1252), (0x0813, WINDOWS_1252), (0x0814, WINDOWS_1252),
     (0x0816, WINDOWS_1252), (0x081a, WINDOWS_1250), (0x081d, WINDOWS_1252),
     (0x0827, WINDOWS_1257), (0x082c, WINDOWS_1251), (0x082e, WINDOWS_1252),
     (0x083b, WINDOWS_1252), (0x083c, WINDOWS_1252), (0x083e, WINDOWS_1252),
     (0x0843, WINDOWS_1251), (0x0845, UTF_16LE), (0x0850, WINDOWS_1251), (0x085d, WINDOWS_1252),
     (0x085f, WINDOWS_1252), (0x086b, WINDOWS_1252), (0x0c01, WINDOWS_1256),
     (0x0c07, WINDOWS_1252), (0x0c09, WINDOWS_1252), (0x0c0a, WINDOWS_1252),
     (0x0c0c, WINDOWS_1252), (0x0c1a, WINDOWS_1251), (0x0c3b, WINDOWS_1252),
     (0x0c6b, WINDOWS_1252), (0x1001, WINDOWS_1256), (0x1007, WINDOWS_1252),
     (0x1009, WINDOWS_1252), (0x100a, WINDOWS_1252), (0x100c, WINDOWS_1252),
     (0x101a, WINDOWS_1250), (0x103b, WINDOWS_1252), (0x1401, WINDOWS_1256),
     (0x1407, WINDOWS_1252), (0x1409, WINDOWS_1252), (0x140a, WINDOWS_1252),
     (0x140c, WINDOWS_1252), (0x141a, WINDOWS_1250), (0x143b, WINDOWS_1252),
     (0x1801, WINDOWS_1256), (0x1809, WINDOWS_1252), (0x180a, WINDOWS_1252),
     (0x180c, WINDOWS_1252), (0x181a, WINDOWS_1250), (0x183b, WINDOWS_1252),
     (0x1c01, WINDOWS_1256), (0x1c09, WINDOWS_1252), (0x1c0a, WINDOWS_1252),
     (0x1c1a, WINDOWS_1251), (0x1c3b, WINDOWS_1252), (0x2001, WINDOWS_1256),
     (0x2009, WINDOWS_1252), (0x200a, WINDOWS_1252), (0x201a, WINDOWS_1251),
     (0x203b, WINDOWS_1252), (0x2401, WINDOWS_1256), (0x2409, WINDOWS_1252),
     (0x240a, WINDOWS_1252), (0x243b, WINDOWS_1252), (0x2801, WINDOWS_1256),
     (0x2809, WINDOWS_1252), (0x280a, WINDOWS_1252), (0x2c01, WINDOWS_1256),
     (0x2c09, WINDOWS_1252), (0x2c0a, WINDOWS_1252), (0x3001, WINDOWS_1256),
     (0x3009, WINDOWS_1252), (0x300a, WINDOWS_1252), (0x3401, WINDOWS_1256),
     (0x3409, WINDOWS_1252), (0x340a, WINDOWS_1252), (0x3801, WINDOWS_1256),
     (0x380a, WINDOWS_1252), (0x3c01, WINDOWS_1256), (0x3c0a, WINDOWS_1252),
     (0x4001, WINDOWS_1256), (0x4009, WINDOWS_1252), (0x400a, WINDOWS_1252),
     (0x4409, WINDOWS_1252), (0x440a, WINDOWS_1252), (0x4809, WINDOWS_1252),
     (0x480a, WINDOWS_1252), (0x4c0a, WINDOWS_1252), (0x500a, WINDOWS_1252), (0x540a, WINDOWS_1252)]"

definition lcid_to_encoding :: "u16 \<Rightarrow> encoding_rs option" where
  "lcid_to_encoding locale_id = map_of lcid_table locale_id"

definition sortid_table :: "(u8 \<times> encoding_rs) list" where
  "sortid_table = [
     (50, WINDOWS_1252), (51, WINDOWS_1252), (52, WINDOWS_1252), (53, WINDOWS_1252),
     (54, WINDOWS_1252), (71, WINDOWS_1252), (72, WINDOWS_1252), (73, WINDOWS_1252),
     (74, WINDOWS_1252), (75, WINDOWS_1252), (80, WINDOWS_1250), (81, WINDOWS_1250),
     (82, WINDOWS_1250), (83, WINDOWS_1250), (84, WINDOWS_1250), (85, WINDOWS_1250),
     (86, WINDOWS_1250), (87, WINDOWS_1250), (88, WINDOWS_1250), (89, WINDOWS_1250),
     (90, WINDOWS_1250), (91, WINDOWS_1250), (92, WINDOWS_1250), (93, WINDOWS_1250),
     (94, WINDOWS_1250), (95, WINDOWS_1250), (96, WINDOWS_1250), (97, WINDOWS_1250),
     (98, WINDOWS_1250), (104, WINDOWS_1251), (105, WINDOWS_1251), (106, WINDOWS_1251),
     (107, WINDOWS_1251), (108, WINDOWS_1251), (112, WINDOWS_1253), (113, WINDOWS_1253),
     (114, WINDOWS_1253), (120, WINDOWS_1253), (121, WINDOWS_1253), (122, WINDOWS_1253),
     (124, WINDOWS_1253), (128, WINDOWS_1254), (129, WINDOWS_1254), (130, WINDOWS_1254),
     (136, WINDOWS_1255), (137, WINDOWS_1255), (138, WINDOWS_1255), (144, WINDOWS_1256),
     (145, WINDOWS_1256), (146, WINDOWS_1256), (152, WINDOWS_1257), (153, WINDOWS_1257),
     (154, WINDOWS_1257), (155, WINDOWS_1257), (156, WINDOWS_1257), (157, WINDOWS_1257),
     (158, WINDOWS_1257), (159, WINDOWS_1257), (160, WINDOWS_1257), (183, WINDOWS_1252),
     (184, WINDOWS_1252), (185, WINDOWS_1252), (186, WINDOWS_1252), (192, SHIFT_JIS),
     (193, SHIFT_JIS), (200, SHIFT_JIS), (194, EUC_KR), (195, EUC_KR), (196, BIG5), (197, BIG5),
     (202, BIG5), (198, GB18030), (199, GB18030), (203, GB18030), (201, BIG5), (204, WINDOWS_874),
     (205, WINDOWS_874), (206, WINDOWS_874), (210, WINDOWS_1252), (211, WINDOWS_1252),
     (212, WINDOWS_1252), (213, WINDOWS_1252), (214, WINDOWS_1252), (215, WINDOWS_1252),
     (216, WINDOWS_1252), (217, WINDOWS_1252)]"

definition sortid_to_encoding :: "u8 \<Rightarrow> encoding_rs option" where
  "sortid_to_encoding sort_id = map_of sortid_table sort_id"

text \<open>The text of the error names the LCID and the sort id.\<close>

definition Collation_encoding :: "Collation \<Rightarrow> encoding_rs res" where
  "Collation_encoding c =
     (case (if col_sort_id c = 0 then lcid_to_encoding (Collation_lcid c)
            else sortid_to_encoding (col_sort_id c)) of
        Some e \<Rightarrow> Ok e
      | None \<Rightarrow> Err (Encoding (lit ''encoding: unspported encoding'')))"

datatype CollationCodec = BuiltIn encoding_rs | Cp437 | Cp850

definition Collation_codec :: "Collation \<Rightarrow> CollationCodec res" where
  "Collation_codec c =
     (let s = unat (col_sort_id c) in
      if 30 \<le> s \<and> s \<le> 35 then Ok Cp437
      else if (40 \<le> s \<and> s \<le> 45) \<or> s = 49 \<or> (55 \<le> s \<and> s \<le> 61) then Ok Cp850
      else map_res BuiltIn (Collation_encoding c))"

section \<open>Single-byte code pages\<close>

definition CP437_HIGH :: "rchar list" where
  "CP437_HIGH = [
     0xc7, 0xfc, 0xe9, 0xe2, 0xe4, 0xe0, 0xe5, 0xe7, 0xea, 0xeb, 0xe8, 0xef, 0xee, 0xec, 0xc4,
     0xc5, 0xc9, 0xe6, 0xc6, 0xf4, 0xf6, 0xf2, 0xfb, 0xf9, 0xff, 0xd6, 0xdc, 0xa2, 0xa3, 0xa5,
     0x20a7, 0x192, 0xe1, 0xed, 0xf3, 0xfa, 0xf1, 0xd1, 0xaa, 0xba, 0xbf, 0x2310, 0xac, 0xbd, 0xbc,
     0xa1, 0xab, 0xbb, 0x2591, 0x2592, 0x2593, 0x2502, 0x2524, 0x2561, 0x2562, 0x2556, 0x2555,
     0x2563, 0x2551, 0x2557, 0x255d, 0x255c, 0x255b, 0x2510, 0x2514, 0x2534, 0x252c, 0x251c,
     0x2500, 0x253c, 0x255e, 0x255f, 0x255a, 0x2554, 0x2569, 0x2566, 0x2560, 0x2550, 0x256c,
     0x2567, 0x2568, 0x2564, 0x2565, 0x2559, 0x2558, 0x2552, 0x2553, 0x256b, 0x256a, 0x2518,
     0x250c, 0x2588, 0x2584, 0x258c, 0x2590, 0x2580, 0x3b1, 0xdf, 0x393, 0x3c0, 0x3a3, 0x3c3, 0xb5,
     0x3c4, 0x3a6, 0x398, 0x3a9, 0x3b4, 0x221e, 0x3c6, 0x3b5, 0x2229, 0x2261, 0xb1, 0x2265, 0x2264,
     0x2320, 0x2321, 0xf7, 0x2248, 0xb0, 0x2219, 0xb7, 0x221a, 0x207f, 0xb2, 0x25a0, 0xa0]"

definition CP850_HIGH :: "rchar list" where
  "CP850_HIGH = [
     0xc7, 0xfc, 0xe9, 0xe2, 0xe4, 0xe0, 0xe5, 0xe7, 0xea, 0xeb, 0xe8, 0xef, 0xee, 0xec, 0xc4,
     0xc5, 0xc9, 0xe6, 0xc6, 0xf4, 0xf6, 0xf2, 0xfb, 0xf9, 0xff, 0xd6, 0xdc, 0xf8, 0xa3, 0xd8,
     0xd7, 0x192, 0xe1, 0xed, 0xf3, 0xfa, 0xf1, 0xd1, 0xaa, 0xba, 0xbf, 0xae, 0xac, 0xbd, 0xbc,
     0xa1, 0xab, 0xbb, 0x2591, 0x2592, 0x2593, 0x2502, 0x2524, 0xc1, 0xc2, 0xc0, 0xa9, 0x2563,
     0x2551, 0x2557, 0x255d, 0xa2, 0xa5, 0x2510, 0x2514, 0x2534, 0x252c, 0x251c, 0x2500, 0x253c,
     0xe3, 0xc3, 0x255a, 0x2554, 0x2569, 0x2566, 0x2560, 0x2550, 0x256c, 0xa4, 0xf0, 0xd0, 0xca,
     0xcb, 0xc8, 0x131, 0xcd, 0xce, 0xcf, 0x2518, 0x250c, 0x2588, 0x2584, 0xa6, 0xcc, 0x2580, 0xd3,
     0xdf, 0xd4, 0xd2, 0xf5, 0xd5, 0xb5, 0xfe, 0xde, 0xda, 0xdb, 0xd9, 0xfd, 0xdd, 0xaf, 0xb4,
     0xad, 0xb1, 0x2017, 0xbe, 0xb6, 0xa7, 0xf7, 0xb8, 0xb0, 0xa8, 0xb7, 0xb9, 0xb3, 0xb2, 0x25a0,
     0xa0]"

definition decode_single_byte :: "bytes \<Rightarrow> rchar list \<Rightarrow> rstring" where
  "decode_single_byte bs high =
     map (\<lambda>b. if unat b \<le> 0x7f then unat b else high ! (unat b - 0x80)) bs"

primrec position :: "('a \<Rightarrow> bool) \<Rightarrow> 'a list \<Rightarrow> nat option" where
  "position P [] = None"
| "position P (x # xs) = (if P x then Some 0 else map_option Suc (position P xs))"

primrec encode_single_byte :: "rstring \<Rightarrow> rchar list \<Rightarrow> bytes option" where
  "encode_single_byte [] high = Some []"
| "encode_single_byte (c # cs) high =
     (case (if c \<le> 0x7f then Some (of_nat c :: u8)
            else map_option (\<lambda>i. of_nat i + 0x80) (position (\<lambda>m. m = c) high)) of
        None \<Rightarrow> None
      | Some b \<Rightarrow> map_option (Cons b) (encode_single_byte cs high))"

fun CollationCodec_name :: "encoding_lib \<Rightarrow> CollationCodec \<Rightarrow> rstring" where
  "CollationCodec_name lib (BuiltIn e) = lib_name lib e"
| "CollationCodec_name lib Cp437 = lit ''CP437''"
| "CollationCodec_name lib Cp850 = lit ''CP850''"

fun CollationCodec_decode :: "encoding_lib \<Rightarrow> CollationCodec \<Rightarrow> bytes \<Rightarrow> rstring option" where
  "CollationCodec_decode lib (BuiltIn e) bs = lib_decode lib e bs"
| "CollationCodec_decode lib Cp437 bs = Some (decode_single_byte bs CP437_HIGH)"
| "CollationCodec_decode lib Cp850 bs = Some (decode_single_byte bs CP850_HIGH)"

fun CollationCodec_decode_lossy :: "encoding_lib \<Rightarrow> CollationCodec \<Rightarrow> bytes \<Rightarrow> rstring" where
  "CollationCodec_decode_lossy lib (BuiltIn e) bs = lib_decode_lossy lib e bs"
| "CollationCodec_decode_lossy lib Cp437 bs = decode_single_byte bs CP437_HIGH"
| "CollationCodec_decode_lossy lib Cp850 bs = decode_single_byte bs CP850_HIGH"

fun CollationCodec_encode :: "encoding_lib \<Rightarrow> CollationCodec \<Rightarrow> rstring \<Rightarrow> bytes option" where
  "CollationCodec_encode lib (BuiltIn e) s = lib_encode lib e s"
| "CollationCodec_encode lib Cp437 s = encode_single_byte s CP437_HIGH"
| "CollationCodec_encode lib Cp850 s = encode_single_byte s CP850_HIGH"

definition Collation_display :: "encoding_lib \<Rightarrow> Collation \<Rightarrow> rstring" where
  "Collation_display lib c =
     (case Collation_codec c of Ok codec \<Rightarrow> CollationCodec_name lib codec | _ \<Rightarrow> lit ''None'')"

lemma position_nth: "distinct xs \<Longrightarrow> i < length xs \<Longrightarrow> position (\<lambda>m. m = xs ! i) xs = Some i"
  by (induction xs arbitrary: i) (auto simp: nth_Cons split: nat.splits)

lemma position_Some: "position P xs = Some i \<Longrightarrow> i < length xs \<and> P (xs ! i)"
  by (induction xs arbitrary: i) (auto split: if_splits)

text \<open>A code page: 128 distinct characters above ASCII for the upper half.\<close>

locale code_page =
  fixes high :: "rchar list"
  assumes len: "length high = 128" and dist: "distinct high" and above: "\<forall>c\<in>set high. 0x7f < c"
begin

lemma encode_decode: "encode_single_byte (decode_single_byte bs high) high = Some bs"
proof (induction bs)
  case (Cons b bs)
  show ?case
  proof (cases "unat b \<le> 0x7f")
    case False
    have "unat b < 2 ^ LENGTH(8)" by (rule unsigned_less)
    then have i: "unat b - 0x80 < length high" using len by simp
    then have "position (\<lambda>m. m = high ! (unat b - 0x80)) high = Some (unat b - 0x80)"
      by (rule position_nth [OF dist])
    moreover have "0x7f < high ! (unat b - 0x80)" using above i by simp
    moreover have "of_nat (unat b - 0x80) + 0x80 = b"
    proof -
      have "of_nat (unat b - 0x80) + 0x80 = (of_nat (unat b - 0x80 + 0x80) :: u8)" by simp
      then show ?thesis using False by simp
    qed
    ultimately show ?thesis using Cons False by (simp add: decode_single_byte_def)
  qed (use Cons in \<open>simp add: decode_single_byte_def\<close>)
qed (simp add: decode_single_byte_def)

lemma decode_encode: "encode_single_byte s high = Some bs \<Longrightarrow> decode_single_byte bs high = s"
proof (induction s arbitrary: bs)
  case (Cons c cs)
  then obtain b bs' where bs: "bs = b # bs'" "encode_single_byte cs high = Some bs'"
    and b: "(if c \<le> 0x7f then Some (of_nat c :: u8)
            else map_option (\<lambda>i. of_nat i + 0x80) (position (\<lambda>m. m = c) high)) = Some b"
    by (auto split: option.splits)
  have "(if unat b \<le> 0x7f then unat b else high ! (unat b - 0x80)) = c"
  proof (cases "c \<le> 0x7f")
    case True
    with b show ?thesis by (auto simp: unat_of_nat)
  next
    case False
    with b obtain i where i: "position (\<lambda>m. m = c) high = Some i" "b = of_nat i + 0x80" by auto
    from position_Some [OF i(1)] have "i < 128" "high ! i = c" using len by auto
    moreover have "unat b = i + 128"
    proof -
      have "b = of_nat (i + 128)" using i(2) by simp
      then show ?thesis using \<open>i < 128\<close> by (simp only: unat_of_nat) simp
    qed
    ultimately show ?thesis by simp
  qed
  with Cons bs show ?case by (simp add: decode_single_byte_def)
qed (simp add: decode_single_byte_def)

end

interpretation cp437: code_page CP437_HIGH
  by unfold_locales (simp_all add: CP437_HIGH_def)

interpretation cp850: code_page CP850_HIGH
  by unfold_locales (simp_all add: CP850_HIGH_def)

section \<open>Properties\<close>

text \<open>
  C36: Every collation with a sort id of code page 437 or 850 has a built-in codec
  that decodes every byte string, and encoding the decoded text gives the bytes
  back; conversely a text that it encodes at all is decoded to itself. No byte is
  lost or merged with another.
\<close>

theorem legacy_code_page_bijective:
  assumes "unat (col_sort_id c) \<in> {30..35} \<union> {40..45} \<union> {49} \<union> {55..61}"
  shows "\<exists>codec. Collation_codec c = Ok codec \<and>
     (\<forall>bs. \<exists>s. CollationCodec_decode lib codec bs = Some s \<and> CollationCodec_encode lib codec s = Some bs \<and>
            CollationCodec_decode_lossy lib codec bs = s) \<and>
     (\<forall>s bs. CollationCodec_encode lib codec s = Some bs \<longrightarrow> CollationCodec_decode lib codec bs = Some s)"
proof -
  have "Collation_codec c = Ok Cp437 \<or> Collation_codec c = Ok Cp850"
    using assms by (auto simp: Collation_codec_def Let_def)
  then show ?thesis
    by (auto simp: cp437.encode_decode cp850.encode_decode cp437.decode_encode cp850.decode_encode)
qed

theorem legacy_code_page_bijective_witness:
  "Collation_codec (Collation_new 0x409 30) = Ok Cp437 \<and>
     CollationCodec_decode ascii_lib Cp437 [0x43, 0x82] = Some [0x43, 0xe9] \<and>
     CollationCodec_encode ascii_lib Cp437 [0x43, 0xe9] = Some [0x43, 0x82]"
proof -
  have codec: "Collation_codec (Collation_new 0x409 30) = Ok Cp437"
    by (simp add: Collation_codec_def Collation_new_def)
  have dec: "CollationCodec_decode ascii_lib Cp437 [0x43, 0x82] = Some [0x43, 0xe9]"
    by (simp add: decode_single_byte_def CP437_HIGH_def)
  have "unat (col_sort_id (Collation_new 0x409 30)) \<in> {30..35} \<union> {40..45} \<union> {49} \<union> {55..61}"
    by (simp add: Collation_new_def)
  from legacy_code_page_bijective [OF this, of ascii_lib] codec
  obtain s where "CollationCodec_decode ascii_lib Cp437 [0x43, 0x82] = Some s"
    "CollationCodec_encode ascii_lib Cp437 s = Some [0x43, 0x82]" by auto
  with codec dec show ?thesis by simp
qed

end
