(* ===== verification/Tds_Packet.thy ===== *)
theory Tds_Packet
  imports Tds_Wire
begin

text \<open>
  Packet framing: the \<^verbatim>\<open>uint_enum!\<close> conversion of \<^verbatim>\<open>macros.rs\<close>, the packet header
  (\<^verbatim>\<open>tds/codec/header.rs\<close>), packets (\<^verbatim>\<open>packet.rs\<close>), the framed codec
  (\<^verbatim>\<open>decode.rs\<close>, \<^verbatim>\<open>encode.rs\<close>) and the collection of a message from its packets
  (\<^verbatim>\<open>collect_from\<close> of \<^verbatim>\<open>tds/codec.rs\<close>).
\<close>

section \<open>Enumerations with wire values\<close>

text \<open>\<^verbatim>\<open>TryFrom\<close> of \<^verbatim>\<open>uint_enum!\<close>: the first variant whose value is the number.\<close>

definition uint_enum_try_from :: "('v \<Rightarrow> 'a::len word) \<Rightarrow> 'v list \<Rightarrow> 'a word \<Rightarrow> 'v option" where
  "uint_enum_try_from val variants n = find (\<lambda>v. n = val v) variants"

locale uint_enum =
  fixes val :: "'v \<Rightarrow> 'a::len word" and variants :: "'v list"
  assumes distinct_vals: "distinct (map val variants)"
    and all_variants: "v \<in> set variants"
begin

lemma try_from_val: "uint_enum_try_from val variants (val v) = Some v"
proof -
  have inj: "inj_on val (set variants)" using distinct_vals by (simp add: distinct_map)
  have "find (\<lambda>w. val v = val w) vs = Some v" if "v \<in> set vs" "set vs \<subseteq> set variants" for vs
    using that by (induction vs) (auto dest: inj_onD [OF inj])
  then show ?thesis using all_variants by (simp add: uint_enum_try_from_def)
qed

lemma try_from_Some: "uint_enum_try_from val variants n = Some v \<Longrightarrow> n = val v"
  by (auto simp: uint_enum_try_from_def find_Some_iff)

lemma try_from_iff: "uint_enum_try_from val variants n = Some v \<longleftrightarrow> n = val v"
  using try_from_val try_from_Some by blast

end

datatype PacketType =
    SQLBatch | PreTDSv7Login | Rpc | TabularResult | AttentionSignal | BulkLoad | Fat
  | TransactionManagerReq | TDSv7Login | SspiPacket | PreLoginPacket

fun PacketType_value :: "PacketType \<Rightarrow> u8" where
  "PacketType_value SQLBatch = 1"
| "PacketType_value PreTDSv7Login = 2"
| "PacketType_value Rpc = 3"
| "PacketType_value TabularResult = 4"
| "PacketType_value AttentionSignal = 6"
| "PacketType_value BulkLoad = 7"
| "PacketType_value Fat = 8"
| "PacketType_value TransactionManagerReq = 14"
| "PacketType_value TDSv7Login = 16"
| "PacketType_value SspiPacket = 17"
| "PacketType_value PreLoginPacket = 18"

definition PacketType_variants :: "PacketType list" where
  "PacketType_variants =
     [SQLBatch, PreTDSv7Login, Rpc, TabularResult, AttentionSignal, BulkLoad, Fat,
      TransactionManagerReq, TDSv7Login, SspiPacket, PreLoginPacket]"

datatype PacketStatus = NormalMessage | EndOfMessage | IgnoreEvent | ResetConnection | ResetConnectionSkipTran

fun PacketStatus_value :: "PacketStatus \<Rightarrow> u8" where
  "PacketStatus_value NormalMessage = 0"
| "PacketStatus_value EndOfMessage = 1"
| "PacketStatus_value IgnoreEvent = 3"
| "PacketStatus_value ResetConnection = 8"
| "PacketStatus_value ResetConnectionSkipTran = 16"

definition PacketStatus_variants :: "PacketStatus list" where
  "PacketStatus_variants = [NormalMessage, EndOfMessage, IgnoreEvent, ResetConnection, ResetConnectionSkipTran]"

definition PacketType_try_from :: "u8 \<Rightarrow> PacketType option" where
  "PacketType_try_from = uint_enum_try_from PacketType_value PacketType_variants"

definition PacketStatus_try_from :: "u8 \<Rightarrow> PacketStatus option" where
  "PacketStatus_try_from = uint_enum_try_from PacketStatus_value PacketStatus_variants"

interpretation packet_type: uint_enum PacketType_value PacketType_variants
proof
  show "v \<in> set PacketType_variants" for v by (cases v) (simp_all add: PacketType_variants_def)
qed (simp add: PacketType_variants_def)

interpretation packet_status: uint_enum PacketStatus_value PacketStatus_variants
proof
  show "v \<in> set PacketStatus_variants" for v by (cases v) (simp_all add: PacketStatus_variants_def)
qed (simp add: PacketStatus_variants_def)

section \<open>The packet header\<close>

definition HEADER_BYTES :: nat where "HEADER_BYTES = 8"

record PacketHeader =
  ph_ty :: PacketType
  ph_status :: PacketStatus
  ph_length :: u16
  ph_spid :: u16
  ph_id :: u8
  ph_window :: u8

definition PacketHeader_base :: "nat \<Rightarrow> u8 \<Rightarrow> PacketHeader" where
  "PacketHeader_base len i =
     \<lparr>ph_ty = TDSv7Login, ph_status = ResetConnection, ph_length = of_nat len, ph_spid = 0,
      ph_id = i, ph_window = 0\<rparr>"

text \<open>\<^verbatim>\<open>PacketHeader::new\<close> asserts that the length fits.\<close>

definition PacketHeader_new :: "nat \<Rightarrow> u8 \<Rightarrow> PacketHeader res" where
  "PacketHeader_new len i = (if len \<le> 65535 then Ok (PacketHeader_base len i) else Panic)"

definition PacketHeader_rpc :: "u8 \<Rightarrow> PacketHeader" where
  "PacketHeader_rpc i = (PacketHeader_base 0 i)\<lparr>ph_ty := Rpc, ph_status := NormalMessage\<rparr>"

definition PacketHeader_pre_login :: "u8 \<Rightarrow> PacketHeader" where
  "PacketHeader_pre_login i = (PacketHeader_base 0 i)\<lparr>ph_ty := PreLoginPacket, ph_status := EndOfMessage\<rparr>"

definition PacketHeader_login :: "u8 \<Rightarrow> PacketHeader" where
  "PacketHeader_login i = (PacketHeader_base 0 i)\<lparr>ph_status := EndOfMessage\<rparr>"

definition PacketHeader_sspi :: "u8 \<Rightarrow> PacketHeader" where
  "PacketHeader_sspi i = (PacketHeader_base 0 i)\<lparr>ph_ty := SspiPacket, ph_status := EndOfMessage\<rparr>"

definition PacketHeader_batch :: "u8 \<Rightarrow> PacketHeader" where
  "PacketHeader_batch i = (PacketHeader_base 0 i)\<lparr>ph_ty := SQLBatch, ph_status := NormalMessage\<rparr>"

definition PacketHeader_bulk_load :: "u8 \<Rightarrow> PacketHeader" where
  "PacketHeader_bulk_load i = (PacketHeader_base 0 i)\<lparr>ph_ty := BulkLoad, ph_status := NormalMessage\<rparr>"

definition PacketHeader_attention :: "u8 \<Rightarrow> PacketHeader" where
  "PacketHeader_attention i = (PacketHeader_base 0 i)\<lparr>ph_ty := AttentionSignal, ph_status := EndOfMessage\<rparr>"

definition PacketHeader_transaction_manager :: "u8 \<Rightarrow> PacketHeader" where
  "PacketHeader_transaction_manager i =
     (PacketHeader_base 0 i)\<lparr>ph_ty := TransactionManagerReq, ph_status := EndOfMessage\<rparr>"

definition PacketHeader_set_status :: "PacketStatus \<Rightarrow> PacketHeader \<Rightarrow> PacketHeader" where
  "PacketHeader_set_status st h = h\<lparr>ph_status := st\<rparr>"

definition PacketHeader_set_type :: "PacketType \<Rightarrow> PacketHeader \<Rightarrow> PacketHeader" where
  "PacketHeader_set_type ty h = h\<lparr>ph_ty := ty\<rparr>"

definition PacketHeader_encode :: "PacketHeader \<Rightarrow> (bytes, unit) comp" where
  "PacketHeader_encode h =
     thenR (put_u8 (PacketType_value (ph_ty h)))
    (thenR (put_u8 (PacketStatus_value (ph_status h)))
    (thenR (put_be 2 (ph_length h))
    (thenR (put_be 2 (ph_spid h))
    (thenR (put_u8 (ph_id h))
           (put_u8 (ph_window h))))))"

text \<open>\<^verbatim>\<open>Buf::get_u8\<close> and \<^verbatim>\<open>Buf::get_u16\<close> panic when the buffer is too short.\<close>

definition get_n :: "nat \<Rightarrow> (bytes, bytes) comp" where
  "get_n n s = (if n \<le> length s then (Ok (take n s), drop n s) else (Panic, s))"

definition get_u8 :: "(bytes, u8) comp" where
  "get_u8 = bindR (get_n 1) (\<lambda>bs. retR (from_le bs))"

definition get_u16 :: "(bytes, u16) comp" where
  "get_u16 = bindR (get_n 2) (\<lambda>bs. retR (from_be bs))"

definition PacketHeader_decode :: "(bytes, PacketHeader) comp" where
  "PacketHeader_decode =
     bindR get_u8 (\<lambda>raw_ty.
     bindR (ok_or (PacketType_try_from raw_ty) (Protocol (PacketMsg (InvalidPacketType raw_ty)))) (\<lambda>ty.
     bindR get_u8 (\<lambda>raw_status.
     bindR (ok_or (PacketStatus_try_from raw_status) (Protocol (PacketMsg InvalidPacketStatus))) (\<lambda>status.
     bindR get_u16 (\<lambda>len.
     bindR get_u16 (\<lambda>spid.
     bindR get_u8 (\<lambda>i.
     bindR get_u8 (\<lambda>window.
     retR \<lparr>ph_ty = ty, ph_status = status, ph_length = len, ph_spid = spid, ph_id = i, ph_window = window\<rparr>))))))))"

definition header_bytes :: "PacketHeader \<Rightarrow> bytes" where
  "header_bytes h =
     [PacketType_value (ph_ty h), PacketStatus_value (ph_status h)] @ be_bytes 2 (ph_length h) @
     be_bytes 2 (ph_spid h) @ [ph_id h, ph_window h]"

lemma length_header_bytes [simp]: "length (header_bytes h) = 8"
  by (simp add: header_bytes_def)

lemma get_simps [wire_simps]:
  "get_u8 (b # s) = (Ok b, s)" "get_u16 (be_bytes 2 w @ s) = (Ok w, s)"
  using from_le_le_bytes [of 1 b]
  by (simp_all add: get_u8_def get_u16_def get_n_def wire_simps from_be_be_bytes)

lemma try_from_simps [wire_simps]:
  "PacketType_try_from (PacketType_value t) = Some t"
  "PacketStatus_try_from (PacketStatus_value st) = Some st"
  by (simp_all add: PacketType_try_from_def PacketStatus_try_from_def packet_type.try_from_val packet_status.try_from_val)

interpretation header: wire_codec PacketHeader_encode PacketHeader_decode header_bytes "\<lambda>_. True"
  by unfold_locales (simp_all add: PacketHeader_encode_def PacketHeader_decode_def header_bytes_def wire_simps)

section \<open>Packets\<close>

record Packet =
  pk_header :: PacketHeader
  pk_payload :: bytes

definition Packet_new :: "PacketHeader \<Rightarrow> bytes \<Rightarrow> Packet" where
  "Packet_new h p = \<lparr>pk_header = h, pk_payload = p\<rparr>"

definition Packet_is_last :: "Packet \<Rightarrow> bool" where
  "Packet_is_last p \<longleftrightarrow> ph_status (pk_header p) = EndOfMessage"

definition Packet_into_parts :: "Packet \<Rightarrow> PacketHeader \<times> bytes" where
  "Packet_into_parts p = (pk_header p, pk_payload p)"

definition Packet_extend :: "Packet \<Rightarrow> bytes \<Rightarrow> Packet" where
  "Packet_extend p bs = p\<lparr>pk_payload := pk_payload p @ bs\<rparr>"

text \<open>
  \<^verbatim>\<open>Packet::encode\<close>: the length is computed in \<^verbatim>\<open>u16\<close> (an overflow of the addition
  panics), the header and payload are appended, and bytes 2 and 3 of the buffer
  are overwritten with the length.
\<close>

definition Packet_encode :: "Packet \<Rightarrow> (bytes, unit) comp" where
  "Packet_encode p dst =
     (let len = (of_nat (length (pk_payload p)) :: u16) in
      if unat len + HEADER_BYTES > 65535 then (Panic, dst)
      else
        let size = be_bytes 2 (len + of_nat HEADER_BYTES) in
        thenR (PacketHeader_encode (pk_header p))
       (thenR (put_bytes (pk_payload p))
              (\<lambda>d. (Ok (), d[2 := size ! 0, 3 := size ! 1]))) dst)"

definition Packet_decode :: "(bytes, Packet) comp" where
  "Packet_decode = bindR PacketHeader_decode (\<lambda>h s. (Ok (Packet_new h s), []))"

section \<open>The framed codec\<close>

definition PacketCodec_decode :: "(bytes, Packet option) comp" where
  "PacketCodec_decode src =
     (if length src < HEADER_BYTES then (Ok None, src)
      else
        let len = unat (from_be [src ! 2, src ! 3] :: u16) in
        if length src < len then (Ok None, src)
        else if len < HEADER_BYTES then (Err (Protocol (PacketMsg InvalidPacketLength)), src)
        else
          bindR PacketHeader_decode (\<lambda>h s.
            (Ok (Some (Packet_new h (take (len - HEADER_BYTES) s))), drop (len - HEADER_BYTES) s)) src)"

definition PacketCodec_decode_eof :: "(bytes, Packet option) comp" where
  "PacketCodec_decode_eof =
     bindR PacketCodec_decode (\<lambda>frame buf.
       case frame of
         Some p \<Rightarrow> (Ok (Some p), buf)
       | None \<Rightarrow> if buf = [] then (Ok None, buf) else (Err (Io OtherKind), buf))"

definition PacketCodec_encode :: "Packet \<Rightarrow> (bytes, unit) comp" where
  "PacketCodec_encode item = Packet_encode item"

text \<open>
  \<^verbatim>\<open>collect_from\<close>: payloads are concatenated up to the end-of-message packet, or
  to the end of the stream, and the message is decoded from them. An item of the
  stream is a packet or the error the transport reported.
\<close>

fun collect_payload :: "Packet res list \<Rightarrow> bytes \<Rightarrow> bytes res" where
  "collect_payload [] buf = Ok buf"
| "collect_payload (Ok p # rest) buf =
     (if Packet_is_last p then Ok (buf @ pk_payload p) else collect_payload rest (buf @ pk_payload p))"
| "collect_payload (Err e # rest) buf = Err e"
| "collect_payload (Panic # rest) buf = Panic"
| "collect_payload (Diverge # rest) buf = Diverge"

definition collect_from :: "(bytes, 'a) comp \<Rightarrow> Packet res list \<Rightarrow> 'a res" where
  "collect_from dec stream =
     (case collect_payload stream [] of
        Ok buf \<Rightarrow> fst (dec buf) | Err e \<Rightarrow> Err e | Panic \<Rightarrow> Panic | Diverge \<Rightarrow> Diverge)"

section \<open>Framing lemmas\<close>

definition packet_fits :: "Packet \<Rightarrow> bool" where
  "packet_fits p \<longleftrightarrow> length (pk_payload p) + HEADER_BYTES \<le> 65535"

definition packet_sized :: "Packet \<Rightarrow> Packet" where
  "packet_sized p = p\<lparr>pk_header := (pk_header p)\<lparr>ph_length := of_nat (length (pk_payload p) + HEADER_BYTES)\<rparr>\<rparr>"

definition packet_bytes :: "Packet \<Rightarrow> bytes" where
  "packet_bytes p = header_bytes (pk_header (packet_sized p)) @ pk_payload p"

lemma be_bytes_2E:
  obtains a b where "be_bytes 2 w = [a, b]"
  using that by (simp add: be_bytes_def nat_be_def numeral_2_eq_2)

lemma header_bytes_patch:
  "(header_bytes h @ xs)[2 := be_bytes 2 w ! 0, 3 := be_bytes 2 w ! 1] = header_bytes (h\<lparr>ph_length := w\<rparr>) @ xs"
proof -
  obtain a b where w: "be_bytes 2 w = [a, b]"
    by (rule be_bytes_2E)
  obtain c d where l: "be_bytes 2 (ph_length h) = [c, d]"
    by (rule be_bytes_2E)
  show ?thesis unfolding header_bytes_def using w l by (simp add: list_update_def numeral_3_eq_3 numeral_2_eq_2)
qed

lemma Packet_encode_empty:
  assumes "packet_fits p"
  shows "Packet_encode p [] = (Ok (), packet_bytes p)"
proof -
  let ?n = "length (pk_payload p)"
  have n: "unat (of_nat ?n :: u16) = ?n" "?n + 8 \<le> 65535"
    using assms by (simp_all add: packet_fits_def HEADER_BYTES_def)
  have "(of_nat ?n + 8 :: u16) = of_nat (?n + 8)" by simp
  then show ?thesis using n
    using header_bytes_patch [of "pk_header p" "pk_payload p" "of_nat ?n + 8"]
    by (simp add: Packet_encode_def HEADER_BYTES_def header.enc_wire wire_simps packet_bytes_def packet_sized_def)
qed

lemma packet_bytes_length_field:
  assumes "packet_fits p"
  shows "unat (from_be [(packet_bytes p @ rest) ! 2, (packet_bytes p @ rest) ! 3] :: u16)
           = length (pk_payload p) + HEADER_BYTES"
proof -
  define w :: u16 where "w = of_nat (length (pk_payload p) + HEADER_BYTES)"
  obtain a b where ab: "be_bytes 2 w = [a, b]"
    by (rule be_bytes_2E)
  have "from_be [a, b] = w" using from_be_be_bytes [of 2 w] by (simp add: ab)
  moreover obtain x y zs where "packet_bytes p @ rest = x # y # a # b # zs"
    unfolding packet_bytes_def packet_sized_def header_bytes_def using ab by (simp add: w_def)
  then have "(packet_bytes p @ rest) ! 2 = a" "(packet_bytes p @ rest) ! 3 = b" by simp_all
  moreover have "unat w = length (pk_payload p) + HEADER_BYTES"
    using assms unfolding w_def packet_fits_def by (intro unat_of_nat_u16) simp
  ultimately show ?thesis by simp
qed

lemma length_packet_bytes: "length (packet_bytes p) = length (pk_payload p) + HEADER_BYTES"
  by (simp add: packet_bytes_def HEADER_BYTES_def)

lemma PacketCodec_decode_bytes:
  assumes "packet_fits p"
  shows "PacketCodec_decode (packet_bytes p @ rest) = (Ok (Some (packet_sized p)), rest)"
proof -
  have "PacketHeader_decode (packet_bytes p @ rest) = (Ok (pk_header (packet_sized p)), pk_payload p @ rest)"
    by (simp add: packet_bytes_def header.dec_wire)
  then show ?thesis
    using packet_bytes_length_field [OF assms, of rest] length_packet_bytes [of p]
    by (simp add: PacketCodec_decode_def Let_def bindR_def Packet_new_def packet_sized_def HEADER_BYTES_def)
qed

lemma get_Cons [wire_simps]: "get_u16 (x # y # s) = (Ok (from_be [x, y]), s)"
  by (simp add: get_u16_def get_n_def wire_simps)

lemma list_8E:
  assumes "8 \<le> length s"
  obtains a b c d e f g h r where "s = a # b # c # d # e # f # g # h # r"
  using assms that by (auto simp: eval_nat_numeral Suc_le_length_iff)

text \<open>The header decoder on a full header: what it returns and what it leaves, branch by branch.\<close>

lemma PacketHeader_decode_full:
  "PacketHeader_decode (a # b # c # d # e # f # g # h # r) =
     (case PacketType_try_from a of
        None \<Rightarrow> (Err (Protocol (PacketMsg (InvalidPacketType a))), b # c # d # e # f # g # h # r)
      | Some ty \<Rightarrow>
          (case PacketStatus_try_from b of
             None \<Rightarrow> (Err (Protocol (PacketMsg InvalidPacketStatus)), c # d # e # f # g # h # r)
           | Some st \<Rightarrow>
               (Ok \<lparr>ph_ty = ty, ph_status = st, ph_length = from_be [c, d], ph_spid = from_be [e, f],
                    ph_id = g, ph_window = h\<rparr>, r)))"
  by (auto simp: PacketHeader_decode_def wire_simps split: option.splits)

lemma PacketHeader_decode_8_cases:
  assumes "8 \<le> length s"
  obtains e s' where "PacketHeader_decode s = (Err e, s')"
  | h where "PacketHeader_decode s = (Ok h, drop 8 s)" "ph_length h = from_be [s ! 2, s ! 3]"
proof -
  obtain a b c d e f g h r where s: "s = a # b # c # d # e # f # g # h # r"
    using assms by (rule list_8E)
  show ?thesis using that
    by (cases "PacketType_try_from a"; cases "PacketStatus_try_from b")
       (auto simp: s PacketHeader_decode_full)
qed

lemma PacketCodec_decode_cases:
  obtains (wait) "PacketCodec_decode s = (Ok None, s)" "length s < 8 \<or> length s < unat (from_be [s ! 2, s ! 3] :: u16)"
  | (short) "PacketCodec_decode s = (Err (Protocol (PacketMsg InvalidPacketLength)), s)"
      "8 \<le> length s" "unat (from_be [s ! 2, s ! 3] :: u16) < 8"
  | (bad) e s' where "PacketCodec_decode s = (Err e, s')" "8 \<le> length s"
      "8 \<le> unat (from_be [s ! 2, s ! 3] :: u16)"
  | (packet) p where "PacketCodec_decode s = (Ok (Some p), drop (length (pk_payload p) + 8) s)"
      "unat (ph_length (pk_header p)) = length (pk_payload p) + 8"
      "length (pk_payload p) + 8 \<le> length s"
      "pk_payload p = take (length (pk_payload p)) (drop 8 s)"
proof -
  define n where "n = unat (from_be [s ! 2, s ! 3] :: u16)"
  consider "length s < 8 \<or> length s < n" | "8 \<le> length s" "n < 8" | "8 \<le> length s" "8 \<le> n" "n \<le> length s"
    by linarith
  then show ?thesis
  proof cases
    case 1
    then show ?thesis by (intro wait) (auto simp: PacketCodec_decode_def HEADER_BYTES_def Let_def n_def)
  next
    case 2
    then show ?thesis by (intro short) (auto simp: PacketCodec_decode_def HEADER_BYTES_def Let_def n_def)
  next
    case 3
    from 3(1) show ?thesis
    proof (cases rule: PacketHeader_decode_8_cases)
      case (1 e s')
      then show ?thesis using 3
        by (intro bad [of e s']) (simp_all add: PacketCodec_decode_def HEADER_BYTES_def Let_def n_def bindR_def)
    next
      case (2 h)
      let ?p = "Packet_new h (take (n - 8) (drop 8 s))"
      have len: "length (pk_payload ?p) = n - 8" using 3 by (simp add: Packet_new_def)
      have "PacketCodec_decode s = (Ok (Some ?p), drop (n - 8) (drop 8 s))"
        using 2 3 by (simp add: PacketCodec_decode_def HEADER_BYTES_def Let_def n_def bindR_def)
      then show ?thesis using 2 3 len
        by (intro packet [of ?p]) (simp_all add: Packet_new_def n_def drop_drop)
    qed
  qed
qed

section \<open>Properties\<close>

text \<open>
  C22: Packet framing round trip. Every packet whose size fits the 16-bit length
  field is encoded into an empty buffer without error, as its payload and an
  8-byte header; the framed decoder, given those bytes followed by any others,
  returns the same packet with the length field filled in and leaves exactly the
  bytes that follow.
\<close>

theorem packet_roundtrip:
  assumes "length (pk_payload p) + 8 \<le> 65535"
  shows "\<exists>bs. PacketCodec_encode p [] = (Ok (), bs) \<and> length bs = length (pk_payload p) + 8 \<and>
           PacketCodec_decode (bs @ rest) =
             (Ok (Some (p\<lparr>pk_header := (pk_header p)\<lparr>ph_length := of_nat (length bs)\<rparr>\<rparr>)), rest)"
proof -
  have f: "packet_fits p" using assms by (simp add: packet_fits_def HEADER_BYTES_def)
  show ?thesis
    using Packet_encode_empty [OF f] PacketCodec_decode_bytes [OF f, of rest] length_packet_bytes [of p]
    by (intro exI [of _ "packet_bytes p"])
       (simp add: PacketCodec_encode_def packet_sized_def HEADER_BYTES_def)
qed

theorem packet_roundtrip_witness:
  "length (pk_payload (Packet_new (PacketHeader_batch 1) [7, 8, 9])) + 8 \<le> 65535 \<and>
   (\<exists>bs. PacketCodec_encode (Packet_new (PacketHeader_batch 1) [7, 8, 9]) [] = (Ok (), bs) \<and> length bs = 11 \<and>
      fst (PacketCodec_decode (bs @ [1])) \<noteq> Ok None \<and> snd (PacketCodec_decode (bs @ [1])) = [1])"
  using packet_roundtrip [of "Packet_new (PacketHeader_batch 1) [7, 8, 9]" "[1]"]
  by (auto simp: Packet_new_def)

text \<open>
  C29: The framed decoder is total and exact on every buffer. It never panics and
  never diverges; it waits without consuming anything while the header or the
  announced packet is incomplete; a length below the header size is refused with
  the buffer untouched; and a packet it returns has as payload the announced
  number of bytes after the header, with exactly header and payload consumed.
\<close>

theorem packet_decode_total:
  "case PacketCodec_decode s of
     (Ok None, s') \<Rightarrow> s' = s \<and> (length s < 8 \<or> length s < unat (from_be [s ! 2, s ! 3] :: u16))
   | (Ok (Some p), s') \<Rightarrow>
       unat (ph_length (pk_header p)) = length (pk_payload p) + 8 \<and>
       s = take 8 s @ pk_payload p @ s'
   | (Err e, s') \<Rightarrow>
       8 \<le> length s \<and> (unat (from_be [s ! 2, s ! 3] :: u16) < 8 \<longrightarrow>
         e = Protocol (PacketMsg InvalidPacketLength) \<and> s' = s)
   | (Panic, _) \<Rightarrow> False
   | (Diverge, _) \<Rightarrow> False"
proof (cases rule: PacketCodec_decode_cases [of s])
  case (packet p)
  have "s = take 8 s @ drop 8 s" by simp
  also have "drop 8 s = pk_payload p @ drop (length (pk_payload p) + 8) s"
    using packet(4) append_take_drop_id [of "length (pk_payload p)" "drop 8 s"]
    by (simp add: drop_drop add.commute)
  finally show ?thesis using packet by simp
qed auto

theorem packet_decode_total_witness:
  "case PacketCodec_decode [18, 1, 0, 4, 0, 0, 0, 0] of
     (Err e, s') \<Rightarrow> e = Protocol (PacketMsg InvalidPacketLength) \<and> s' = [18, 1, 0, 4, 0, 0, 0, 0]
   | _ \<Rightarrow> False"
  using packet_decode_total [of "[18, 1, 0, 4, 0, 0, 0, 0]"]
  by (simp add: PacketCodec_decode_def HEADER_BYTES_def from_be_def be_nat_def)

text \<open>
  Framing is independent of how the bytes arrive. On every proper prefix of
  an encoded packet the decoder waits and keeps the prefix, so the packet is
  returned exactly when its last byte is in the buffer, and a packet once
  complete is decoded the same whatever is appended to the buffer.
\<close>

theorem packet_decode_incremental:
  assumes "length (pk_payload p) + 8 \<le> 65535" "PacketCodec_encode p [] = (Ok (), bs)" "k < length bs"
  shows "PacketCodec_decode (take k bs) = (Ok None, take k bs) \<and>
         (\<exists>q. \<forall>rest. PacketCodec_decode (bs @ rest) = (Ok (Some q), rest))"
proof
  have f: "packet_fits p" using assms(1) by (simp add: packet_fits_def HEADER_BYTES_def)
  have bs: "bs = packet_bytes p" using Packet_encode_empty [OF f] assms(2) by (simp add: PacketCodec_encode_def)
  show "\<exists>q. \<forall>rest. PacketCodec_decode (bs @ rest) = (Ok (Some q), rest)"
    unfolding bs using PacketCodec_decode_bytes [OF f] by blast
  show "PacketCodec_decode (take k bs) = (Ok None, take k bs)"
  proof (cases "k < 8")
    case False
    then have "take k bs ! 2 = bs ! 2" "take k bs ! 3 = bs ! 3" by simp_all
    then have "unat (from_be [take k bs ! 2, take k bs ! 3] :: u16) = length bs"
      using packet_bytes_length_field [OF f, of "[]"] length_packet_bytes [of p] bs by simp
    then show ?thesis using assms(3) by (simp add: PacketCodec_decode_def)
  next
    case True
    then have "length (take k bs) < HEADER_BYTES" by (simp add: HEADER_BYTES_def)
    then show ?thesis unfolding PacketCodec_decode_def by (rule if_P)
  qed
qed

theorem packet_decode_incremental_witness:
  "PacketCodec_encode (Packet_new (PacketHeader_rpc 0) [5]) [] = (Ok (), [3, 0, 0, 9, 0, 0, 0, 0, 5]) \<and>
   PacketCodec_decode [3, 0, 0, 9, 0, 0, 0, 0] = (Ok None, [3, 0, 0, 9, 0, 0, 0, 0])"
proof -
  have e: "PacketCodec_encode (Packet_new (PacketHeader_rpc 0) [5]) [] = (Ok (), [3, 0, 0, 9, 0, 0, 0, 0, 5])"
    by (simp add: PacketCodec_encode_def Packet_encode_def PacketHeader_encode_def PacketHeader_rpc_def
        PacketHeader_base_def Packet_new_def HEADER_BYTES_def wire_simps wire_eval)
  show ?thesis
    using e packet_decode_incremental [of "Packet_new (PacketHeader_rpc 0) [5]" _ 8, OF _ e]
    by (simp add: Packet_new_def)
qed

end
