(* ===== verification/Tds_TypeInfo.thy ===== *)
theory Tds_TypeInfo
  imports Tds_Collation Tds_Packet
begin

text \<open>
  Column types (\<^verbatim>\<open>tds/codec/type_info.rs\<close>) and the schema of an XML column
  (\<^verbatim>\<open>tds/xml.rs\<close>): the TYPE_INFO of column metadata, its encoder and decoder,
  for the feature set with TDS 7.3 types.
\<close>

section \<open>Type tags\<close>

datatype FixedLenType =
    FNull | FInt1 | FBit | FInt2 | FInt4 | FDatetime4 | FFloat4 | FMoney | FDatetime | FFloat8 | FMoney4 | FInt8

fun FixedLenType_value :: "FixedLenType \<Rightarrow> u8" where
  "FixedLenType_value FNull = 0x1F"
| "FixedLenType_value FInt1 = 0x30"
| "FixedLenType_value FBit = 0x32"
| "FixedLenType_value FInt2 = 0x34"
| "FixedLenType_value FInt4 = 0x38"
| "FixedLenType_value FDatetime4 = 0x3A"
| "FixedLenType_value FFloat4 = 0x3B"
| "FixedLenType_value FMoney = 0x3C"
| "FixedLenType_value FDatetime = 0x3D"
| "FixedLenType_value FFloat8 = 0x3E"
| "FixedLenType_value FMoney4 = 0x7A"
| "FixedLenType_value FInt8 = 0x7F"

definition FixedLenType_variants :: "FixedLenType list" where
  "FixedLenType_variants =
     [FNull, FInt1, FBit, FInt2, FInt4, FDatetime4, FFloat4, FMoney, FDatetime, FFloat8, FMoney4, FInt8]"

definition FixedLenType_try_from :: "u8 \<Rightarrow> FixedLenType option" where
  "FixedLenType_try_from = uint_enum_try_from FixedLenType_value FixedLenType_variants"

datatype VarLenType =
    VGuid | VIntn | VBitn | VDecimaln | VNumericn | VFloatn | VMoney | VDatetimen
  | VDaten | VTimen | VDatetime2 | VDatetimeOffsetn
  | VBigVarBin | VBigVarChar | VBigBinary | VBigChar | VNVarchar | VNChar | VXml | VUdt
  | VText | VImage | VNText | VSSVariant

fun VarLenType_value :: "VarLenType \<Rightarrow> u8" where
  "VarLenType_value VGuid = 0x24"
| "VarLenType_value VIntn = 0x26"
| "VarLenType_value VBitn = 0x68"
| "VarLenType_value VDecimaln = 0x6A"
| "VarLenType_value VNumericn = 0x6C"
| "VarLenType_value VFloatn = 0x6D"
| "VarLenType_value VMoney = 0x6E"
| "VarLenType_value VDatetimen = 0x6F"
| "VarLenType_value VDaten = 0x28"
| "VarLenType_value VTimen = 0x29"
| "VarLenType_value VDatetime2 = 0x2A"
| "VarLenType_value VDatetimeOffsetn = 0x2B"
| "VarLenType_value VBigVarBin = 0xA5"
| "VarLenType_value VBigVarChar = 0xA7"
| "VarLenType_value VBigBinary = 0xAD"
| "VarLenType_value VBigChar = 0xAF"
| "VarLenType_value VNVarchar = 0xE7"
| "VarLenType_value VNChar = 0xEF"
| "VarLenType_value VXml = 0xF1"
| "VarLenType_value VUdt = 0xF0"
| "VarLenType_value VText = 0x23"
| "VarLenType_value VImage = 0x22"
| "VarLenType_value VNText = 0x63"
| "VarLenType_value VSSVariant = 0x62"

definition VarLenType_variants :: "VarLenType list" where
  "VarLenType_variants =
     [VGuid, VIntn, VBitn, VDecimaln, VNumericn, VFloatn, VMoney, VDatetimen, VDaten, VTimen, VDatetime2,
      VDatetimeOffsetn, VBigVarBin, VBigVarChar, VBigBinary, VBigChar, VNVarchar, VNChar, VXml, VUdt,
      VText, VImage, VNText, VSSVariant]"

definition VarLenType_try_from :: "u8 \<Rightarrow> VarLenType option" where
  "VarLenType_try_from = uint_enum_try_from VarLenType_value VarLenType_variants"

interpretation fixed_len_type: uint_enum FixedLenType_value FixedLenType_variants
proof
  show "v \<in> set FixedLenType_variants" for v by (cases v) (simp_all add: FixedLenType_variants_def)
qed (simp add: FixedLenType_variants_def)

interpretation var_len_type: uint_enum VarLenType_value VarLenType_variants
proof
  show "v \<in> set VarLenType_variants" for v by (cases v) (simp_all add: VarLenType_variants_def)
qed (simp add: VarLenType_variants_def)

lemmas type_tag_simps [simp, wire_simps] =
  fixed_len_type.try_from_val [folded FixedLenType_try_from_def]
  var_len_type.try_from_val [folded VarLenType_try_from_def]

text \<open>No tag is both.\<close>

lemma var_tag_not_fixed [simp, wire_simps]: "FixedLenType_try_from (VarLenType_value v) = None"
  by (cases v) (simp_all add: FixedLenType_try_from_def uint_enum_try_from_def FixedLenType_variants_def)

declare FixedLenType_value.simps [simp del, wire_eval] VarLenType_value.simps [simp del, wire_eval]

lemmas type_tag_eval = FixedLenType_try_from_def VarLenType_try_from_def uint_enum_try_from_def
  FixedLenType_variants_def VarLenType_variants_def

section \<open>Type descriptions\<close>

record XmlSchema =
  xs_db_name :: rstring
  xs_owner :: rstring
  xs_collection :: rstring

definition XmlSchema_new :: "rstring \<Rightarrow> rstring \<Rightarrow> rstring \<Rightarrow> XmlSchema" where
  "XmlSchema_new db ow coll = \<lparr>xs_db_name = db, xs_owner = ow, xs_collection = coll\<rparr>"

record UdtInfo =
  udt_max_byte_size :: u16
  udt_db_name :: rstring
  udt_schema_name :: rstring
  udt_type_name :: rstring
  udt_assembly_qualified_name :: rstring

record VarLenContext =
  vlc_type :: VarLenType
  vlc_len :: nat
  vlc_collation :: "Collation option"

definition VarLenContext_new :: "VarLenType \<Rightarrow> nat \<Rightarrow> Collation option \<Rightarrow> VarLenContext" where
  "VarLenContext_new t len coll = \<lparr>vlc_type = t, vlc_len = len, vlc_collation = coll\<rparr>"

definition VarLenContext_is_empty :: "VarLenContext \<Rightarrow> bool" where
  "VarLenContext_is_empty c \<longleftrightarrow> vlc_len c = 0"

datatype TypeInfo =
    FixedLen FixedLenType
  | VarLenSized VarLenContext
  | VarLenSizedPrecision VarLenType nat u8 u8 \<comment> \<open>ty, size, precision, scale\<close>
  | XmlType "XmlSchema option" nat
  | Udt UdtInfo

section \<open>Encoding\<close>

definition VarLenContext_encode :: "VarLenContext \<Rightarrow> (bytes, unit) comp" where
  "VarLenContext_encode c =
     thenR (put_u8 (VarLenType_value (vlc_type c)))
    (thenR
       (if vlc_type c = VDaten then retR ()
        else if vlc_type c \<in> {VTimen, VDatetimeOffsetn, VDatetime2} then put_u8 (of_nat (vlc_len c))
        else if vlc_type c \<in> {VBitn, VIntn, VFloatn, VDecimaln, VNumericn, VGuid, VMoney, VDatetimen}
          then put_u8 (of_nat (vlc_len c))
        else if vlc_type c \<in> {VNChar, VBigChar, VNVarchar, VBigVarChar, VBigBinary, VBigVarBin}
          then put_le 2 (of_nat (vlc_len c) :: u16)
        else if vlc_type c \<in> {VImage, VText, VNText, VSSVariant} then put_le 4 (of_nat (vlc_len c) :: u32)
        else if vlc_type c = VXml then retR ()
        else errR (Protocol (ValueMsg (UnsupportedVarLenEncode (VarLenType_value (vlc_type c))))))
       (case vlc_collation c of
          Some collation \<Rightarrow> thenR (put_le 4 (col_info collation)) (put_u8 (col_sort_id collation))
        | None \<Rightarrow> retR ()))"

fun TypeInfo_encode :: "TypeInfo \<Rightarrow> (bytes, unit) comp" where
  "TypeInfo_encode (FixedLen ty) = put_u8 (FixedLenType_value ty)"
| "TypeInfo_encode (VarLenSized ctx) = VarLenContext_encode ctx"
| "TypeInfo_encode (VarLenSizedPrecision ty sz precision scale) =
     thenR (put_u8 (VarLenType_value ty))
    (thenR (put_u8 (of_nat sz))
    (thenR (put_u8 precision) (put_u8 scale)))"
| "TypeInfo_encode (XmlType schema _) =
     thenR (put_u8 (VarLenType_value VXml))
       (case schema of
          Some xs \<Rightarrow>
            thenR (put_u8 1)
           (thenR (encode_b_varchar (xs_db_name xs))
           (thenR (encode_b_varchar (xs_owner xs))
                  (encode_us_varchar (xs_collection xs))))
        | None \<Rightarrow> put_u8 0)"
| "TypeInfo_encode (Udt info) =
     thenR (put_u8 (VarLenType_value VUdt))
    (thenR (put_le 2 (udt_max_byte_size info))
    (thenR (encode_b_varchar (udt_db_name info))
    (thenR (encode_b_varchar (udt_schema_name info))
    (thenR (encode_b_varchar (udt_type_name info))
           (encode_us_varchar (udt_assembly_qualified_name info))))))"

section \<open>Decoding\<close>

definition read_var_len :: "VarLenType \<Rightarrow> (bytes, nat) comp" where
  "read_var_len ty =
     (if ty \<in> {VTimen, VDatetimeOffsetn, VDatetime2} then bindR read_u8 (\<lambda>n. retR (unat n))
      else if ty = VDaten then retR 3
      else if ty \<in> {VBitn, VIntn, VFloatn, VDecimaln, VNumericn, VGuid, VMoney, VDatetimen}
        then bindR read_u8 (\<lambda>n. retR (unat n))
      else if ty \<in> {VNChar, VBigChar, VNVarchar, VBigVarChar, VBigBinary, VBigVarBin}
        then bindR read_u16_le (\<lambda>n. retR (unat n))
      else if ty \<in> {VImage, VText, VNText, VSSVariant} then bindR read_u32_le (\<lambda>n. retR (unat n))
      else errR (Protocol (ValueMsg (UnsupportedColMetaType (VarLenType_value ty)))))"

definition read_collation :: "VarLenType \<Rightarrow> (bytes, Collation option) comp" where
  "read_collation ty =
     (if ty \<in> {VNText, VText, VBigChar, VNChar, VNVarchar, VBigVarChar} then
        bindR read_u32_le (\<lambda>info. bindR read_u8 (\<lambda>sort_id. retR (Some (Collation_new info sort_id))))
      else retR None)"

definition TypeInfo_decode :: "(bytes, TypeInfo) comp" where
  "TypeInfo_decode =
     bindR read_u8 (\<lambda>ty.
     case FixedLenType_try_from ty of
       Some ty \<Rightarrow> retR (FixedLen ty)
     | None \<Rightarrow>
       (case VarLenType_try_from ty of
          None \<Rightarrow> errR (Protocol (ValueMsg (InvalidColumnType ty)))
        | Some ty \<Rightarrow>
          if ty = VXml then
            bindR read_u8 (\<lambda>has_schema.
            bindR (if has_schema = 1 then
                bindR read_b_varchar (\<lambda>db_name.
                bindR read_b_varchar (\<lambda>ow.
                bindR read_us_varchar (\<lambda>collection.
                retR (Some (XmlSchema_new db_name ow collection)))))
              else retR None) (\<lambda>schema.
            retR (XmlType schema 0xfffffffffffffffe)))
          else if ty = VUdt then
            bindR read_u16_le (\<lambda>max_byte_size.
            bindR read_b_varchar (\<lambda>db_name.
            bindR read_b_varchar (\<lambda>schema_name.
            bindR read_b_varchar (\<lambda>type_name.
            bindR read_us_varchar (\<lambda>assembly_qualified_name.
            retR (Udt \<lparr>udt_max_byte_size = max_byte_size, udt_db_name = db_name,
              udt_schema_name = schema_name, udt_type_name = type_name,
              udt_assembly_qualified_name = assembly_qualified_name\<rparr>))))))
          else
            bindR (read_var_len ty) (\<lambda>len.
            bindR (read_collation ty) (\<lambda>collation.
            if ty \<in> {VDecimaln, VNumericn} then
              bindR read_u8 (\<lambda>precision.
              bindR read_u8 (\<lambda>scale.
              if precision > 38 \<or> scale > precision
              then errR (Protocol (ValueMsg (InvalidPrecision precision scale)))
              else retR (VarLenSizedPrecision ty len precision scale)))
            else retR (VarLenSized (VarLenContext_new ty len collation))))))"

section \<open>Well-formed type descriptions\<close>

text \<open>The type descriptions that have a wire form: the invariant every decoded one satisfies.\<close>

definition char_type :: "VarLenType \<Rightarrow> bool" where
  "char_type ty \<longleftrightarrow> ty \<in> {VNText, VText, VBigChar, VNChar, VNVarchar, VBigVarChar}"

definition len_fits :: "VarLenType \<Rightarrow> nat \<Rightarrow> bool" where
  "len_fits ty len \<longleftrightarrow>
     (if ty = VDaten then len = 3
      else if ty \<in> {VNChar, VBigChar, VNVarchar, VBigVarChar, VBigBinary, VBigVarBin} then len < 2 ^ 16
      else if ty \<in> {VImage, VText, VNText, VSSVariant} then len < 2 ^ 32
      else len < 2 ^ 8)"

fun TypeInfo_wf :: "TypeInfo \<Rightarrow> bool" where
  "TypeInfo_wf (FixedLen _) \<longleftrightarrow> True"
| "TypeInfo_wf (VarLenSized c) \<longleftrightarrow>
     vlc_type c \<notin> {VXml, VUdt, VDecimaln, VNumericn} \<and> len_fits (vlc_type c) (vlc_len c) \<and>
     (vlc_collation c \<noteq> None \<longleftrightarrow> char_type (vlc_type c))"
| "TypeInfo_wf (VarLenSizedPrecision ty sz precision scale) \<longleftrightarrow>
     ty \<in> {VDecimaln, VNumericn} \<and> sz < 2 ^ 8 \<and> precision \<le> 38 \<and> scale \<le> precision"
| "TypeInfo_wf (XmlType schema sz) \<longleftrightarrow> sz = 0xfffffffffffffffe \<and>
     (case schema of None \<Rightarrow> True
      | Some xs \<Rightarrow> b_varchar_ok (xs_db_name xs) \<and> b_varchar_ok (xs_owner xs) \<and> us_varchar_ok (xs_collection xs))"
| "TypeInfo_wf (Udt i) \<longleftrightarrow>
     b_varchar_ok (udt_db_name i) \<and> b_varchar_ok (udt_schema_name i) \<and> b_varchar_ok (udt_type_name i) \<and>
     us_varchar_ok (udt_assembly_qualified_name i)"

definition len_bytes :: "VarLenType \<Rightarrow> nat \<Rightarrow> bytes" where
  "len_bytes ty len =
     (if ty = VDaten then []
      else if ty \<in> {VNChar, VBigChar, VNVarchar, VBigVarChar, VBigBinary, VBigVarBin} then le_bytes 2 (of_nat len :: u16)
      else if ty \<in> {VImage, VText, VNText, VSSVariant} then le_bytes 4 (of_nat len :: u32)
      else [of_nat len])"

definition collation_bytes :: "Collation option \<Rightarrow> bytes" where
  "collation_bytes c = (case c of None \<Rightarrow> [] | Some x \<Rightarrow> le_bytes 4 (col_info x) @ [col_sort_id x])"

fun TypeInfo_bytes :: "TypeInfo \<Rightarrow> bytes" where
  "TypeInfo_bytes (FixedLen ty) = [FixedLenType_value ty]"
| "TypeInfo_bytes (VarLenSized c) =
     VarLenType_value (vlc_type c) # len_bytes (vlc_type c) (vlc_len c) @ collation_bytes (vlc_collation c)"
| "TypeInfo_bytes (VarLenSizedPrecision ty sz precision scale) =
     [VarLenType_value ty, of_nat sz, precision, scale]"
| "TypeInfo_bytes (XmlType schema _) =
     VarLenType_value VXml # (case schema of None \<Rightarrow> [0]
       | Some xs \<Rightarrow> 1 # b_varchar_bytes (xs_db_name xs) @ b_varchar_bytes (xs_owner xs) @ us_varchar_bytes (xs_collection xs))"
| "TypeInfo_bytes (Udt i) =
     VarLenType_value VUdt # le_bytes 2 (udt_max_byte_size i) @ b_varchar_bytes (udt_db_name i) @
       b_varchar_bytes (udt_schema_name i) @ b_varchar_bytes (udt_type_name i) @
       us_varchar_bytes (udt_assembly_qualified_name i)"

lemma VarLenContext_encode_eq:
  assumes "vlc_type c \<noteq> VUdt" "vlc_type c \<noteq> VXml"
  shows "VarLenContext_encode c dst = (Ok (), dst @ TypeInfo_bytes (VarLenSized c))"
  using assms
  by (cases "vlc_type c"; cases "vlc_collation c")
    (simp_all add: VarLenContext_encode_def wire_simps len_bytes_def collation_bytes_def)

lemma read_var_len_bytes:
  assumes "len_fits ty len" "ty \<noteq> VUdt" "ty \<noteq> VXml"
  shows "read_var_len ty (len_bytes ty len @ rest) = (Ok len, rest)"
  using assms
  by (cases ty) (simp_all add: read_var_len_def len_fits_def len_bytes_def wire_simps unat_of_nat)

lemma read_collation_bytes:
  assumes "c \<noteq> None \<longleftrightarrow> char_type ty"
  shows "read_collation ty (collation_bytes c @ rest) = (Ok c, rest)"
  using assms
  by (cases c) (auto simp: read_collation_def char_type_def collation_bytes_def Collation_new_def wire_simps)

interpretation type_info: wire_codec TypeInfo_encode TypeInfo_decode TypeInfo_bytes TypeInfo_wf
proof unfold_locales
  fix x dst assume "TypeInfo_wf x"
  then show "TypeInfo_encode x dst = (Ok (), dst @ TypeInfo_bytes x)"
    by (cases x) (auto simp: VarLenContext_encode_eq wire_simps split: option.splits)
next
  fix x rest assume wf: "TypeInfo_wf x"
  show "TypeInfo_decode (TypeInfo_bytes x @ rest) = (Ok x, rest)"
  proof (cases x)
    case (VarLenSized c)
    with wf have "VarLenType_value (vlc_type c) # len_bytes (vlc_type c) (vlc_len c) @ collation_bytes (vlc_collation c) @ rest
        = TypeInfo_bytes x @ rest" by simp
    with VarLenSized wf show ?thesis
      by (simp add: TypeInfo_decode_def read_var_len_bytes read_collation_bytes VarLenContext_new_def wire_simps)
  next
    case (VarLenSizedPrecision ty sz precision scale)
    with wf show ?thesis
      by (auto simp: TypeInfo_decode_def read_var_len_def read_collation_def wire_simps unat_of_nat not_less)
  qed (use wf in \<open>auto simp: TypeInfo_decode_def XmlSchema_new_def wire_simps split: option.splits\<close>)
qed

section \<open>The decoder as a reader\<close>

lemma reader_TypeInfo_decode [reader_intros]: "reader TypeInfo_decode"
  unfolding TypeInfo_decode_def read_var_len_def read_collation_def by (intro reader_intros)

lemma safe_TypeInfo_decode [safe_intros]: "safe TypeInfo_decode"
  unfolding TypeInfo_decode_def read_var_len_def read_collation_def by (intro safe_intros)

section \<open>Decoded types are well-formed\<close>

lemma unat_u16_le: "unat (u :: u16) \<le> 65535"
  using unat_u16_less [of u] by simp

lemma read_varchar_ok:
  "read_b_varchar s = (Ok x, s') \<Longrightarrow> b_varchar_ok x" "read_us_varchar s = (Ok x, s') \<Longrightarrow> us_varchar_ok x"
proof -
  show "read_b_varchar s = (Ok x, s') \<Longrightarrow> b_varchar_ok x"
    by (auto simp: read_b_varchar_def bindR_eq_Ok retR_eq_Ok errR_neq_Ok ok_or_def read_utf16_units_def
        b_varchar_ok_def unat_u8_le split: option.splits dest!: from_utf16_sound repeatR_length)
  show "read_us_varchar s = (Ok x, s') \<Longrightarrow> us_varchar_ok x"
    by (auto simp: read_us_varchar_def bindR_eq_Ok retR_eq_Ok errR_neq_Ok ok_or_def read_utf16_units_def
        us_varchar_ok_def unat_u16_le split: option.splits dest!: from_utf16_sound repeatR_length)
qed

lemma read_var_len_fits:
  assumes "read_var_len ty s = (Ok len, s')"
  shows "len_fits ty len"
  using assms
  by (cases ty)
    (auto simp: read_var_len_def bindR_eq_Ok retR_eq_Ok errR_neq_Ok len_fits_def
      intro: unat_u8_less [simplified] unat_u16_less [simplified] unat_u32_less [simplified])

lemma read_collation_char:
  "read_collation ty s = (Ok c, s') \<Longrightarrow> c \<noteq> None \<longleftrightarrow> char_type ty"
  by (auto simp: read_collation_def bindR_eq_Ok retR_eq_Ok char_type_def split: if_splits)

lemma TypeInfo_decode_wf:
  assumes "TypeInfo_decode s = (Ok x, s')"
  shows "TypeInfo_wf x"
  using assms
  by (auto simp: TypeInfo_decode_def bindR_eq_Ok retR_eq_Ok errR_neq_Ok XmlSchema_new_def VarLenContext_new_def
      len_fits_def [of VDecimaln] len_fits_def [of VNumericn] not_less
      split: option.splits if_splits
      dest!: read_varchar_ok read_var_len_fits read_collation_char)

section \<open>Properties\<close>

text \<open>
  C31: A type description the server sent can be sent back. Whatever
  \<^verbatim>\<open>TypeInfo::decode\<close> accepts, \<^verbatim>\<open>TypeInfo::encode\<close> writes without error, and the
  bytes written decode to the same description whatever follows them; a decimal
  type it accepts has a precision of at most 38 and a scale within it.
\<close>

theorem type_info_resend:
  assumes "TypeInfo_decode s = (Ok x, s')"
  shows "\<exists>bs. TypeInfo_encode x dst = (Ok (), dst @ bs) \<and> TypeInfo_decode (bs @ rest) = (Ok x, rest) \<and>
     (\<forall>ty sz precision scale. x = VarLenSizedPrecision ty sz precision scale \<longrightarrow>
        ty \<in> {VDecimaln, VNumericn} \<and> precision \<le> 38 \<and> scale \<le> precision)"
proof -
  have wf: "TypeInfo_wf x" using assms by (rule TypeInfo_decode_wf)
  from type_info.roundtrip [OF wf, of dst rest] obtain bs
    where "TypeInfo_encode x dst = (Ok (), dst @ bs)" "TypeInfo_decode (bs @ rest) = (Ok x, rest)" by blast
  with wf show ?thesis by auto
qed

theorem type_info_resend_witness:
  "\<exists>bs. TypeInfo_encode (VarLenSizedPrecision VDecimaln 17 38 10) [] = (Ok (), bs) \<and>
     TypeInfo_decode (bs @ [1, 2]) = (Ok (VarLenSizedPrecision VDecimaln 17 38 10), [1, 2])"
proof -
  have "TypeInfo_decode [0x6A, 17, 38, 10] = (Ok (VarLenSizedPrecision VDecimaln 17 38 10), [])"
    by (simp add: TypeInfo_decode_def read_var_len_def read_collation_def wire_simps wire_eval type_tag_eval)
  from type_info_resend [OF this, of "[]" "[1, 2]"] show ?thesis by auto
qed

end
