(* ===== verification/Tds_Numeric.thy ===== *)
theory Tds_Numeric
  imports Tds_Wire "HOL-Library.Signed_Division"
begin

text \<open>
  Decimal values (\<^verbatim>\<open>tds/numeric.rs\<close>). An \<^verbatim>\<open>i128\<close> is an \<^typ>\<open>int\<close> in the range
  \<open>i128_ok\<close>; arithmetic that leaves the range is the panic of a checked build.
  Division of \<^verbatim>\<open>i128\<close> truncates towards zero (\<open>sdiv\<close>).
\<close>

section \<open>The value\<close>

definition i128_ok :: "int \<Rightarrow> bool" where
  "i128_ok v \<longleftrightarrow> - (2 ^ 127) \<le> v \<and> v < 2 ^ 127"

record Numeric =
  num_value :: int
  num_scale :: u8

definition MAX_NUMERIC_SCALE :: u8 where "MAX_NUMERIC_SCALE = 38"

definition Numeric_new_with_scale :: "int \<Rightarrow> u8 \<Rightarrow> Numeric res" where
  "Numeric_new_with_scale v sc =
     (if sc \<le> MAX_NUMERIC_SCALE then Ok \<lparr>num_value = v, num_scale = sc\<rparr> else Panic)"

definition pow_scale :: "Numeric \<Rightarrow> int" where
  "pow_scale n = 10 ^ unat (num_scale n)"

definition int_part :: "Numeric \<Rightarrow> int" where
  "int_part n = num_value n sdiv pow_scale n"

definition dec_part :: "Numeric \<Rightarrow> int" where
  "dec_part n = num_value n - (num_value n sdiv pow_scale n) * pow_scale n"

text \<open>The digit count of \<^verbatim>\<open>precision\<close>: the loop divides until nothing is left.\<close>

lemma abs_sdiv_10: "n \<noteq> 0 \<Longrightarrow> \<bar>(n :: int) sdiv 10\<bar> < \<bar>n\<bar>"
  by (simp add: signed_divide_int_def abs_mult)

function digit_loop :: "int \<Rightarrow> nat \<Rightarrow> nat" where
  "digit_loop n result = (if n \<noteq> 0 then digit_loop (n sdiv 10) (result + 1) else result)"
  by auto
termination
  by (relation "measure (\<lambda>(n, _). nat \<bar>n\<bar>)") (auto simp: abs_sdiv_10)

declare digit_loop.simps [simp del]

definition precision :: "Numeric \<Rightarrow> nat" where
  "precision n =
     (let result = digit_loop (int_part n) 0 in
      if result = 0 then 1 + unat (num_scale n) else result + unat (num_scale n))"

definition Numeric_len :: "Numeric \<Rightarrow> u8" where
  "Numeric_len n =
     (let p = precision n in
      if 1 \<le> p \<and> p \<le> 9 then 5 else if 10 \<le> p \<and> p \<le> 19 then 9 else if 20 \<le> p \<and> p \<le> 28 then 13 else 17)"

section \<open>Wire form\<close>

text \<open>\<^verbatim>\<open>decode_d128\<close> on a buffer of 12 or 16 bytes.\<close>

definition decode_d128 :: "bytes \<Rightarrow> nat" where
  "decode_d128 buf =
     (let low_part = le_nat (take 8 buf) in
      if \<not> (\<exists>x\<in>set (drop 8 buf). x \<noteq> 0) then low_part
      else low_part + le_nat (drop 8 buf) * 2 ^ 64)"

definition Numeric_decode :: "u8 \<Rightarrow> (bytes, Numeric option) comp" where
  "Numeric_decode sc =
     bindR read_u8 (\<lambda>len.
     if len = 0 then retR None
     else
       bindR read_u8 (\<lambda>sg.
       bindR (if sg = 0 then retR (-1) else if sg = 1 then retR 1
              else errR (Protocol (ValueMsg DecimalSign))) (\<lambda>sign :: int.
       bindR
         (if len = 5 then bindR read_u32_le (\<lambda>w. retR (int (unat w) * sign))
          else if len = 9 then bindR read_u64_le (\<lambda>w. retR (int (unat w) * sign))
          else if len = 13 then
            bindR (read_bytes_into [] 12 12) (\<lambda>buf. retR (int (decode_d128 buf) * sign))
          else if len = 17 then
            bindR (read_bytes_into [] 16 16) (\<lambda>buf.
            if decode_d128 buf > 2 ^ 127 - 1 then errR (Protocol (ValueMsg DecimalRange))
            else retR (int (decode_d128 buf) * sign))
          else errR (Protocol (ValueMsg (DecimalLength len)))) (\<lambda>v.
       bindR (liftR (Numeric_new_with_scale v sc)) (\<lambda>n. retR (Some n))))))"

definition Numeric_encode :: "Numeric \<Rightarrow> (bytes, unit) comp" where
  "Numeric_encode n =
     (let len = Numeric_len n; v = (of_nat (nat \<bar>num_value n\<bar>) :: u128) in
      thenR (put_u8 len)
     (thenR (if num_value n < 0 then put_u8 0 else put_u8 1)
       (if len = 5 then put_le 4 (ucast v :: u32)
        else if len = 9 then put_le 8 (ucast v :: u64)
        else if len = 13 then thenR (put_le 8 (ucast v :: u64)) (put_le 4 (ucast (drop_bit 64 v) :: u32))
        else put_le 16 v)))"

section \<open>Comparison and text\<close>

text \<open>\<^verbatim>\<open>PartialEq\<close>: the multiplication that aligns the scales overflows like any other.\<close>

definition checked_i128 :: "int \<Rightarrow> int res" where
  "checked_i128 v = (if i128_ok v then Ok v else Panic)"

definition Numeric_eq :: "Numeric \<Rightarrow> Numeric \<Rightarrow> bool res" where
  "Numeric_eq a b =
     (if num_scale a > num_scale b then
        map_res (\<lambda>v. v = num_value a) (checked_i128 (10 ^ unat (num_scale a - num_scale b) * num_value b))
      else if num_scale a < num_scale b then
        map_res (\<lambda>v. v = num_value b) (checked_i128 (10 ^ unat (num_scale b - num_scale a) * num_value a))
      else Ok (num_value a = num_value b))"

text \<open>\<^verbatim>\<open>Debug\<close> and \<^verbatim>\<open>Display\<close>: sign, integer part, point, decimal part padded to the scale.\<close>

definition pad_zeros :: "nat \<Rightarrow> rstring \<Rightarrow> rstring" where
  "pad_zeros w s = replicate (w - length s) 48 @ s"

definition Numeric_fmt :: "Numeric \<Rightarrow> rstring" where
  "Numeric_fmt n =
     (if num_value n < 0 then lit ''-'' else []) @
     show_nat (nat \<bar>int_part n\<bar>) @ lit ''.'' @
     pad_zeros (unat (num_scale n)) (show_nat (nat \<bar>dec_part n\<bar>))"

section \<open>Digits and magnitude\<close>

lemma abs_sdiv: "0 < d \<Longrightarrow> \<bar>(n :: int) sdiv d\<bar> = \<bar>n\<bar> div d"
  by (auto simp: signed_divide_int_def abs_mult sgn_if pos_imp_zdiv_nonneg_iff)

lemma digit_loop_acc: "digit_loop n r = digit_loop n 0 + r"
proof (induction "nat \<bar>n\<bar>" arbitrary: n r rule: less_induct)
  case less
  show ?case
  proof (cases "n = 0")
    case False
    then have "nat \<bar>n sdiv 10\<bar> < nat \<bar>n\<bar>" using abs_sdiv_10 [of n] by simp
    from less [OF this, of "r + 1"] less [OF this, of 1] False show ?thesis
      by (simp add: digit_loop.simps [of n])
  qed (simp add: digit_loop.simps)
qed

lemma digit_loop_bound: "\<bar>n\<bar> < 10 ^ digit_loop n 0"
proof (induction "nat \<bar>n\<bar>" arbitrary: n rule: less_induct)
  case less
  show ?case
  proof (cases "n = 0")
    case False
    then have "nat \<bar>n sdiv 10\<bar> < nat \<bar>n\<bar>" using abs_sdiv_10 [of n] by simp
    from less [OF this] have "\<bar>n\<bar> div 10 < 10 ^ digit_loop (n sdiv 10) 0" by (simp add: abs_sdiv)
    then have "\<bar>n\<bar> < 10 ^ digit_loop (n sdiv 10) 0 * 10" by linarith
    then show ?thesis using False digit_loop_acc [of "n sdiv 10" 1] by (simp add: digit_loop.simps [of n])
  qed (simp add: digit_loop.simps)
qed

text \<open>The precision bounds the magnitude, so the length byte announces enough bytes.\<close>

lemma magnitude_precision: "\<bar>num_value n\<bar> < 10 ^ precision n"
proof -
  let ?p = "pow_scale n" and ?v = "\<bar>num_value n\<bar>" and ?d = "digit_loop (int_part n) 0"
  have p: "0 < ?p" by (simp add: pow_scale_def)
  have "?v div ?p < 10 ^ ?d"
    using digit_loop_bound [of "int_part n"] p by (simp add: int_part_def abs_sdiv)
  then have "?v div ?p + 1 \<le> 10 ^ ?d" by simp
  have "?v = ?v div ?p * ?p + ?v mod ?p" by (simp only: div_mult_mod_eq)
  moreover have "?v mod ?p < ?p" using p by simp
  ultimately have "?v < (?v div ?p + 1) * ?p" by (simp only: distrib_right mult_1)
  also have "\<dots> \<le> 10 ^ ?d * ?p" using \<open>?v div ?p + 1 \<le> 10 ^ ?d\<close> p by (intro mult_right_mono) auto
  also have "\<dots> = 10 ^ (?d + unat (num_scale n))" by (simp add: pow_scale_def power_add)
  also have "\<dots> \<le> 10 ^ precision n" by (rule power_increasing) (auto simp: precision_def Let_def)
  finally show ?thesis .
qed

lemma digit_loop_le: "digit_loop n 0 \<le> k \<longleftrightarrow> \<bar>n\<bar> < 10 ^ k"
proof
  assume "digit_loop n 0 \<le> k"
  then have "(10 :: int) ^ digit_loop n 0 \<le> 10 ^ k" by (simp add: power_increasing)
  then show "\<bar>n\<bar> < 10 ^ k" using digit_loop_bound [of n] by linarith
next
  show "\<bar>n\<bar> < 10 ^ k \<Longrightarrow> digit_loop n 0 \<le> k"
  proof (induction k arbitrary: n)
    case (Suc k)
    then have "\<bar>n sdiv 10\<bar> < 10 ^ k" by (simp add: abs_sdiv)
    then show ?case using Suc.IH [of "n sdiv 10"] digit_loop_acc [of "n sdiv 10" 1] by (simp add: digit_loop.simps [of n])
  qed (simp add: digit_loop.simps)
qed

lemma div_less_iff_mult: "0 < (q :: int) \<Longrightarrow> a div q < c \<longleftrightarrow> a < c * q"
proof -
  assume q: "0 < q"
  have m: "a = a div q * q + a mod q" "0 \<le> a mod q" "a mod q < q" using q by simp_all
  have "c * q \<le> a div q * q \<longleftrightarrow> c \<le> a div q" "(a div q + 1) * q \<le> c * q \<longleftrightarrow> a div q + 1 \<le> c" using q by (simp_all add: mult_le_cancel_right)
  then show ?thesis using m by (simp only: distrib_right) linarith
qed

text \<open>What a precision of at most \<open>k\<close> means for the number itself.\<close>

lemma precision_le: "precision n \<le> k \<longleftrightarrow> \<bar>num_value n\<bar> < 10 ^ k \<and> unat (num_scale n) < k"
proof (cases "unat (num_scale n) < k")
  case True
  let ?s = "unat (num_scale n)" and ?v = "\<bar>num_value n\<bar>"
  have p: "0 < pow_scale n" "(10 :: int) ^ k = 10 ^ (k - ?s) * pow_scale n"
    using True by (simp_all add: pow_scale_def flip: power_add)
  have "precision n \<le> k \<longleftrightarrow> digit_loop (int_part n) 0 \<le> k - ?s" using True by (auto simp: precision_def Let_def)
  also have "\<dots> \<longleftrightarrow> ?v div pow_scale n < 10 ^ (k - ?s)" unfolding digit_loop_le int_part_def abs_sdiv [OF p(1)] ..
  also have "\<dots> \<longleftrightarrow> ?v < 10 ^ k" unfolding p(2) by (rule div_less_iff_mult [OF p(1)])
  finally show ?thesis using True by simp
qed (auto simp: precision_def Let_def)

lemma Numeric_len_cases:
  obtains "Numeric_len n = 5" "\<bar>num_value n\<bar> < 2 ^ 32"
  | "Numeric_len n = 9" "\<bar>num_value n\<bar> < 2 ^ 64"
  | "Numeric_len n = 13" "\<bar>num_value n\<bar> < 2 ^ 96"
  | "Numeric_len n = 17"
proof -
  have le: "\<bar>num_value n\<bar> < 10 ^ k" if "precision n \<le> k" for k
    using magnitude_precision [of n] order.strict_trans2 power_increasing [OF that, of "10 :: int"] by fastforce
  have p: "1 \<le> precision n" by (auto simp: precision_def Let_def)
  consider "precision n \<le> 9" | "9 < precision n" "precision n \<le> 19" | "19 < precision n" "precision n \<le> 28"
    | "28 < precision n" by linarith
  then show thesis
  proof cases
    case 1 with p le [of 9] show thesis by (intro that(1)) (auto simp: Numeric_len_def Let_def)
  next
    case 2 with le [of 19] show thesis by (intro that(2)) (auto simp: Numeric_len_def Let_def)
  next
    case 3 with le [of 28] show thesis by (intro that(3)) (auto simp: Numeric_len_def Let_def)
  next
    case 4 then show thesis by (intro that(4)) (auto simp: Numeric_len_def Let_def)
  qed
qed

lemma Numeric_len_digits:
  "Numeric_len n = (if \<bar>num_value n\<bar> < 10 ^ 9 \<and> num_scale n < 9 then 5 else if \<bar>num_value n\<bar> < 10 ^ 19 \<and> num_scale n < 19 then 9
     else if \<bar>num_value n\<bar> < 10 ^ 28 \<and> num_scale n < 28 then 13 else 17)"
proof -
  have s: "num_scale n < 9 \<longleftrightarrow> unat (num_scale n) < 9" "num_scale n < 19 \<longleftrightarrow> unat (num_scale n) < 19" "num_scale n < 28 \<longleftrightarrow> unat (num_scale n) < 28"
    by (simp_all add: word_less_nat_alt)
  have p: "1 \<le> precision n" by (auto simp: precision_def Let_def)
  then have "Numeric_len n = (if precision n \<le> 9 then 5 else if precision n \<le> 19 then 9 else if precision n \<le> 28 then 13 else 17)"
    by (auto simp: Numeric_len_def Let_def)
  then show ?thesis unfolding s precision_le .
qed

lemma le_nat_append: "le_nat (xs @ ys) = le_nat xs + le_nat ys * 256 ^ length xs"
  by (induction xs) (simp_all add: algebra_simps)

lemma le_nat_zero: "\<forall>x\<in>set bs. x = 0 \<Longrightarrow> le_nat bs = 0"
  by (induction bs) auto

lemma decode_d128_eq: "8 \<le> length buf \<Longrightarrow> decode_d128 buf = le_nat buf"
proof -
  assume "8 \<le> length buf"
  then have "le_nat buf = le_nat (take 8 buf) + le_nat (drop 8 buf) * 2 ^ 64"
    using le_nat_append [of "take 8 buf" "drop 8 buf"] by simp
  then show ?thesis using le_nat_zero [of "drop 8 buf"] by (auto simp: decode_d128_def Let_def)
qed

section \<open>The encoder's bytes\<close>

text \<open>The magnitude on the wire is the number in as many little-endian bytes as announced.\<close>

definition magnitude_bytes :: "Numeric \<Rightarrow> bytes" where
  "magnitude_bytes n = nat_le (unat (Numeric_len n) - 1) (nat \<bar>num_value n\<bar>)"

definition Numeric_bytes :: "Numeric \<Rightarrow> bytes" where
  "Numeric_bytes n = Numeric_len n # (if num_value n < 0 then 0 else 1) # magnitude_bytes n"

lemma nat_le_append: "nat_le (a + b) x = nat_le a x @ nat_le b (x div 256 ^ a)"
  by (induction a arbitrary: x) (simp_all add: div_mult2_eq)

lemma nat_le_mod: "nat_le k (x mod 256 ^ k) = nat_le k x"
  using le_nat_nat_le [of k x] nat_le_le_nat [of "nat_le k x"] by simp

lemma le_bytes_ucast:
  assumes "2 ^ LENGTH('b::len) = (256::nat) ^ k"
  shows "le_bytes k (ucast (w :: 'a::len word) :: 'b word) = nat_le k (unat w)"
  by (simp add: le_bytes_def unsigned_ucast_eq take_bit_eq_mod assms nat_le_mod)

lemma Numeric_encode_eq:
  assumes "\<bar>num_value n\<bar> \<le> 2 ^ 127"
  shows "Numeric_encode n dst = (Ok (), dst @ Numeric_bytes n)"
proof -
  obtain m where nm: "nat \<bar>num_value n\<bar> = m" by simp
  then have "m < 2 ^ 128" using assms by (simp add: nat_eq_iff)
  then have m: "unat (of_nat m :: u128) = m" by (simp add: unat_of_nat)
  have b4: "le_bytes 4 (ucast (of_nat m :: u128) :: u32) = nat_le 4 m"
    and b8: "le_bytes 8 (ucast (of_nat m :: u128) :: u64) = nat_le 8 m"
    by (subst le_bytes_ucast; simp add: m del: nat_le_numeral)+
  have "unat (drop_bit 64 (of_nat m :: u128)) = m div 2 ^ 64"
    by (simp add: drop_bit_eq_div unat_div_distrib m)
  then have b12: "le_bytes 4 (ucast (drop_bit 64 (of_nat m :: u128)) :: u32) = nat_le 4 (m div 256 ^ 8)"
    by (subst le_bytes_ucast; simp del: nat_le_numeral)
  have b16: "le_bytes 16 (of_nat m :: u128) = nat_le 16 m" by (simp only: le_bytes_def m)
  have a12: "nat_le 12 m = nat_le 8 m @ nat_le 4 (m div 256 ^ 8)" using nat_le_append [of 8 4 m] by simp
  show ?thesis
    by (rule Numeric_len_cases [of n])
      (simp_all add: Numeric_encode_def Numeric_bytes_def magnitude_bytes_def b4 b8 b12 b16 a12 nm wire_simps del: nat_le_numeral)
qed

section \<open>Decoding\<close>

lemma le_nat_magnitude:
  assumes "length bs = k" "nat_le k x = bs" "x < 256 ^ k"
  shows "le_nat bs = x"
  using assms le_nat_nat_le [of k x] by simp

lemma Numeric_decode_bytes:
  assumes "num_scale n \<le> 38" "\<bar>num_value n\<bar> < 2 ^ 127"
  shows "Numeric_decode (num_scale n) (Numeric_bytes n @ rest) = (Ok (Some n), rest)"
proof -
  obtain m where nm: "nat \<bar>num_value n\<bar> = m" by simp
  then have sg: "num_value n = (if num_value n < 0 then - int m else int m)" by auto
  have m: "\<bar>num_value n\<bar> = int m" using nm by simp
  have same: "\<lparr>num_value = v, num_scale = num_scale n\<rparr> = n" if "num_value n = v" for v using that by auto
  note rd = same Numeric_decode_def Numeric_bytes_def magnitude_bytes_def nm Numeric_new_with_scale_def
    MAX_NUMERIC_SCALE_def wire_simps
  show ?thesis
  proof (rule Numeric_len_cases [of n])
    assume l: "Numeric_len n = 5" and b: "\<bar>num_value n\<bar> < 2 ^ 32"
    then have w: "nat_le 4 m = le_bytes 4 (of_nat m :: u32)" "unat (of_nat m :: u32) = m"
      "uint (of_nat m :: u32) = int m"
      using m by (simp_all add: le_bytes_def unat_of_nat uint_nat)
    show ?thesis using l assms(1) w sg by (cases "num_value n < 0") (simp_all add: rd del: nat_le_numeral)
  next
    assume l: "Numeric_len n = 9" and b: "\<bar>num_value n\<bar> < 2 ^ 64"
    then have w: "nat_le 8 m = le_bytes 8 (of_nat m :: u64)" "unat (of_nat m :: u64) = m"
      "uint (of_nat m :: u64) = int m"
      using m by (simp_all add: le_bytes_def unat_of_nat uint_nat)
    show ?thesis using l assms(1) w sg by (cases "num_value n < 0") (simp_all add: rd del: nat_le_numeral)
  next
    assume l: "Numeric_len n = 13" and b: "\<bar>num_value n\<bar> < 2 ^ 96"
    then have w: "decode_d128 (nat_le 12 m) = m"
      using m by (subst decode_d128_eq) (simp_all add: le_nat_nat_le del: nat_le_numeral)
    show ?thesis using l assms(1) w sg by (cases "num_value n < 0") (simp_all add: rd del: nat_le_numeral)
  next
    assume l: "Numeric_len n = 17"
    have w: "decode_d128 (nat_le 16 m) = m"
      using m assms(2) by (subst decode_d128_eq) (simp_all add: le_nat_nat_le del: nat_le_numeral)
    moreover have "\<not> m > 2 ^ 127 - 1" using m assms(2) by simp
    ultimately show ?thesis using l assms(1) sg
      by (cases "num_value n < 0") (simp_all add: rd del: nat_le_numeral)
  qed
qed

lemma Numeric_min_len: "num_value n = - (2 ^ 127) \<Longrightarrow> Numeric_len n = 17"
  by (rule Numeric_len_cases [of n]) simp_all

lemma Numeric_decode_min:
  assumes "num_value n = - (2 ^ 127)"
  shows "fst (Numeric_decode sc (Numeric_bytes n @ rest)) = Err (Protocol (ValueMsg DecimalRange))"
proof -
  have "decode_d128 (nat_le 16 (2 ^ 127)) = 2 ^ 127"
    by (subst decode_d128_eq) (simp_all add: le_nat_nat_le del: nat_le_numeral)
  then show ?thesis using Numeric_min_len [OF assms] assms
    by (simp add: Numeric_decode_def Numeric_bytes_def magnitude_bytes_def wire_simps del: nat_le_numeral)
qed

lemma reader_Numeric_decode [reader_intros]: "reader (Numeric_decode sc)"
  unfolding Numeric_decode_def by (intro reader_intros)

lemma safe_Numeric_decode [safe_intros]: "sc \<le> 38 \<Longrightarrow> safe (Numeric_decode sc)"
  unfolding Numeric_decode_def Numeric_new_with_scale_def MAX_NUMERIC_SCALE_def
  by (intro safe_intros) simp_all

section \<open>Parts and text\<close>

lemma sgn_sdiv: "0 < d \<Longrightarrow> (n :: int) sdiv d = sgn n * (\<bar>n\<bar> div d)"
  by (simp add: signed_divide_int_def)

lemma dec_part_eq: "dec_part n = sgn (num_value n) * (\<bar>num_value n\<bar> mod pow_scale n)"
proof -
  let ?v = "num_value n" and ?p = "pow_scale n"
  have p: "0 < ?p" by (simp add: pow_scale_def)
  have "dec_part n = sgn ?v * \<bar>?v\<bar> - sgn ?v * (\<bar>?v\<bar> div ?p) * ?p"
    using p by (simp add: dec_part_def sgn_sdiv mult_sgn_abs)
  also have "\<dots> = sgn ?v * (\<bar>?v\<bar> - \<bar>?v\<bar> div ?p * ?p)" by (simp only: right_diff_distrib mult.assoc)
  finally show ?thesis by (simp add: minus_div_mult_eq_mod)
qed

lemma length_show_nat_le: "0 < k \<Longrightarrow> m < 10 ^ k \<Longrightarrow> length (show_nat m) \<le> k"
proof (induction m arbitrary: k rule: show_nat.induct)
  case (1 m)
  show ?case
  proof (cases "m < 10")
    case False
    then obtain j where j: "k = Suc j" "0 < j" using "1.prems" by (cases k; cases "k - 1") auto
    then have "m div 10 < 10 ^ j" using "1.prems" by auto
    with "1.IH" [OF False j(2)] False j show ?thesis by (simp add: show_nat.simps [of m])
  qed (use "1.prems" in \<open>simp add: show_nat.simps [of m]\<close>)
qed

section \<open>Properties\<close>

text \<open>
  C26: Decimal round trip. Every value with a scale of at most 38 is written behind a
  length byte, in 5, 9, 13 or 17 bytes: the first of these whose precision, 9, 19 or 28 digits, holds the number
  and the decimal places. No digit is cut off, and the value is read
  back as itself whatever follows it; the one exception is the smallest 128-bit
  number, which is written too, but rejected with an error by the reader.
\<close>

theorem numeric_roundtrip:
  assumes "num_scale n \<le> 38" and "i128_ok (num_value n)"
  shows "\<exists>bs. Numeric_encode n dst = (Ok (), dst @ bs) \<and> length bs = 1 + unat (hd bs) \<and>
     hd bs = (if \<bar>num_value n\<bar> < 10 ^ 9 \<and> num_scale n < 9 then 5 else if \<bar>num_value n\<bar> < 10 ^ 19 \<and> num_scale n < 19 then 9
       else if \<bar>num_value n\<bar> < 10 ^ 28 \<and> num_scale n < 28 then 13 else 17) \<and>
     (if num_value n = - (2 ^ 127)
      then fst (Numeric_decode (num_scale n) (bs @ rest)) = Err (Protocol (ValueMsg DecimalRange))
      else Numeric_decode (num_scale n) (bs @ rest) = (Ok (Some n), rest))"
proof -
  have "\<bar>num_value n\<bar> \<le> 2 ^ 127" using assms(2) by (auto simp: i128_ok_def abs_le_iff)
  note enc = Numeric_encode_eq [OF this, of dst]
  have "length (Numeric_bytes n) = 1 + unat (hd (Numeric_bytes n))"
    by (rule Numeric_len_cases [of n]) (simp_all add: Numeric_bytes_def magnitude_bytes_def del: nat_le_numeral)
  moreover have "hd (Numeric_bytes n) = Numeric_len n" by (simp add: Numeric_bytes_def)
  moreover have "\<bar>num_value n\<bar> < 2 ^ 127" if "num_value n \<noteq> - (2 ^ 127)"
    using assms(2) that by (auto simp: i128_ok_def abs_less_iff)
  ultimately show ?thesis
    using enc Numeric_decode_bytes [OF assms(1)] Numeric_decode_min unfolding Numeric_len_digits by (intro exI [of _ "Numeric_bytes n"]) auto
qed

theorem numeric_roundtrip_witness:
  "\<exists>bs. Numeric_encode \<lparr>num_value = - 12345678901234567890123456789, num_scale = 10\<rparr> [] = (Ok (), bs) \<and> length bs = 18 \<and>
     Numeric_decode 10 (bs @ [7]) = (Ok (Some \<lparr>num_value = - 12345678901234567890123456789, num_scale = 10\<rparr>), [7])"
  using numeric_roundtrip [of "\<lparr>num_value = - 12345678901234567890123456789, num_scale = 10\<rparr>" "[]" "[7]"]
  by (auto simp: i128_ok_def)

text \<open>
  Decimal comparison is numeric equality whenever it returns. Two values of
  the same scale always compare; for different scales the comparison returns
  unless the smaller-scaled value, brought to the larger scale, leaves the
  128-bit range.
\<close>

theorem numeric_eq_correct:
  assumes "i128_ok (num_value a)" "i128_ok (num_value b)"
  shows "Numeric_eq a b =
     (if num_scale b < num_scale a \<and> \<not> i128_ok (10 ^ (unat (num_scale a) - unat (num_scale b)) * num_value b) \<or>
         num_scale a < num_scale b \<and> \<not> i128_ok (10 ^ (unat (num_scale b) - unat (num_scale a)) * num_value a)
      then Panic
      else Ok (num_value a * 10 ^ unat (num_scale b) = num_value b * 10 ^ unat (num_scale a)))"
proof -
  have shift: "(10 ^ (k - j) * y = x) = (x * 10 ^ j = y * 10 ^ k)" if "j \<le> k" for x y :: int and j k
  proof -
    have "(10 :: int) ^ k = 10 ^ (k - j) * 10 ^ j" using that by (simp flip: power_add)
    then show ?thesis by (simp add: mult.commute mult.left_commute) (metis mult.commute)
  qed
  consider "num_scale b < num_scale a" | "num_scale a < num_scale b" | "num_scale a = num_scale b"
    using linorder_less_linear by blast
  then show ?thesis
  proof cases
    case 1
    then have u: "unat (num_scale a - num_scale b) = unat (num_scale a) - unat (num_scale b)"
      and j: "unat (num_scale b) \<le> unat (num_scale a)"
      by (simp_all add: unat_sub less_imp_le word_less_nat_alt flip: word_le_nat_alt)
    show ?thesis using 1 shift [OF j, of "num_value b" "num_value a"]
      by (simp add: Numeric_eq_def checked_i128_def u not_less_iff_gr_or_eq)
  next
    case 2
    then have u: "unat (num_scale b - num_scale a) = unat (num_scale b) - unat (num_scale a)"
      and j: "unat (num_scale a) \<le> unat (num_scale b)"
      by (simp_all add: unat_sub less_imp_le word_less_nat_alt flip: word_le_nat_alt)
    show ?thesis using 2 shift [OF j, of "num_value a" "num_value b"]
      by (auto simp add: Numeric_eq_def checked_i128_def u not_less_iff_gr_or_eq)
  qed (simp add: Numeric_eq_def)
qed

theorem numeric_eq_correct_witness:
  "Numeric_eq \<lparr>num_value = 1500, num_scale = 3\<rparr> \<lparr>num_value = 15, num_scale = 1\<rparr> = Ok True"
  using numeric_eq_correct [of "\<lparr>num_value = 1500, num_scale = 3\<rparr>" "\<lparr>num_value = 15, num_scale = 1\<rparr>"]
  by (simp add: i128_ok_def)

text \<open>Both operands are ordinary \<^verbatim>\<open>decimal(38, s)\<close> values, and the comparison overflows.\<close>

lemma numeric_eq_overflow:
  "Numeric_eq \<lparr>num_value = 1, num_scale = 38\<rparr> \<lparr>num_value = 2, num_scale = 0\<rparr> = Panic"
  by (simp add: Numeric_eq_def checked_i128_def i128_ok_def)

text \<open>
  A decimal is the sum of its integer part and its decimal part, the decimal
  part is smaller than one unit, both carry the sign of the value, and the text
  of a value with a non-zero scale has exactly \<^verbatim>\<open>scale\<close> digits after the point.
\<close>

theorem numeric_parts:
  "num_value n = int_part n * pow_scale n + dec_part n \<and> \<bar>dec_part n\<bar> < pow_scale n \<and>
   0 \<le> int_part n * num_value n \<and> 0 \<le> dec_part n * num_value n \<and>
   (num_scale n \<noteq> 0 \<longrightarrow>
      (\<exists>front digits. Numeric_fmt n = front @ lit ''.'' @ digits \<and> length digits = unat (num_scale n) \<and>
        (\<forall>c\<in>set digits. 48 \<le> c \<and> c \<le> 57)))"
proof (intro conjI impI)
  let ?v = "num_value n" and ?p = "pow_scale n"
  have p: "0 < ?p" by (simp add: pow_scale_def)
  show "?v = int_part n * ?p + dec_part n" by (simp add: int_part_def dec_part_def)
  show d: "\<bar>dec_part n\<bar> < ?p" using p by (simp add: dec_part_eq abs_mult sgn_if)
  have s: "sgn ?v * ?v = \<bar>?v\<bar>" by (simp add: sgn_if)
  have "int_part n * ?v = (sgn ?v * ?v) * (\<bar>?v\<bar> div ?p)" using p by (simp add: int_part_def sgn_sdiv)
  then show "0 \<le> int_part n * ?v" using p s by (simp add: pos_imp_zdiv_nonneg_iff)
  have "dec_part n * ?v = (sgn ?v * ?v) * (\<bar>?v\<bar> mod ?p)" by (simp add: dec_part_eq)
  then show "0 \<le> dec_part n * ?v" using p s by simp
  assume "num_scale n \<noteq> 0"
  then have k: "0 < unat (num_scale n)" by (simp add: unat_gt_0)
  have "nat \<bar>dec_part n\<bar> < 10 ^ unat (num_scale n)" using d by (simp add: pow_scale_def nat_less_iff)
  from length_show_nat_le [OF k this]
  have "length (pad_zeros (unat (num_scale n)) (show_nat (nat \<bar>dec_part n\<bar>))) = unat (num_scale n)"
    by (simp add: pad_zeros_def)
  moreover have "\<forall>c\<in>set (pad_zeros (unat (num_scale n)) (show_nat (nat \<bar>dec_part n\<bar>))). 48 \<le> c \<and> c \<le> 57"
    using show_nat_digits by (auto simp: pad_zeros_def)
  ultimately show "\<exists>front digits. Numeric_fmt n = front @ lit ''.'' @ digits \<and>
      length digits = unat (num_scale n) \<and> (\<forall>c\<in>set digits. 48 \<le> c \<and> c \<le> 57)"
    unfolding Numeric_fmt_def by (metis append.assoc)
qed

theorem numeric_parts_witness:
  "\<exists>front digits. Numeric_fmt \<lparr>num_value = - 57705, num_scale = 2\<rparr> = front @ lit ''.'' @ digits \<and> length digits = 2"
  using numeric_parts [of "\<lparr>num_value = - 57705, num_scale = 2\<rparr>"] by auto

end
