(* ===== verification/Tds_Time.thy ===== *)
theory Tds_Time
  imports Tds_Wire
begin

text \<open>
  Dates and times as the wire has them (\<^verbatim>\<open>tds/time.rs\<close>): \<^verbatim>\<open>datetime\<close>,
  \<^verbatim>\<open>smalldatetime\<close>, \<^verbatim>\<open>date\<close>, \<^verbatim>\<open>time\<close>, \<^verbatim>\<open>datetime2\<close> and \<^verbatim>\<open>datetimeoffset\<close>.
  Signed fields are the word with the same bits.
\<close>

unbundle bit_operations_syntax

section \<open>datetime and smalldatetime\<close>

record DateTime =
  dt_days :: u32 \<comment> \<open>\<^verbatim>\<open>i32\<close>\<close>
  dt_seconds_fragments :: u32

definition DateTime_decode :: "(bytes, DateTime) comp" where
  "DateTime_decode =
     bindR read_i32_le (\<lambda>d. bindR read_u32_le (\<lambda>f. retR \<lparr>dt_days = d, dt_seconds_fragments = f\<rparr>))"

definition DateTime_encode :: "DateTime \<Rightarrow> (bytes, unit) comp" where
  "DateTime_encode t = thenR (put_le 4 (dt_days t)) (put_le 4 (dt_seconds_fragments t))"

record SmallDateTime =
  sdt_days :: u16
  sdt_seconds_fragments :: u16

definition SmallDateTime_decode :: "(bytes, SmallDateTime) comp" where
  "SmallDateTime_decode =
     bindR read_u16_le (\<lambda>d. bindR read_u16_le (\<lambda>f. retR \<lparr>sdt_days = d, sdt_seconds_fragments = f\<rparr>))"

definition SmallDateTime_encode :: "SmallDateTime \<Rightarrow> (bytes, unit) comp" where
  "SmallDateTime_encode t = thenR (put_le 2 (sdt_days t)) (put_le 2 (sdt_seconds_fragments t))"

section \<open>date\<close>

datatype Date = Date (date_days: u32)

definition Date_new :: "u32 \<Rightarrow> Date res" where
  "Date_new d = (if drop_bit 24 d = 0 then Ok (Date d) else Panic)"

text \<open>\<^verbatim>\<open>read_exact\<close> into the low three bytes of a zeroed word.\<close>

definition Date_decode :: "(bytes, Date) comp" where
  "Date_decode = bindR (read_n 3) (\<lambda>bs. liftR (Date_new (from_le (bs @ [0]))))"

definition Date_encode :: "Date \<Rightarrow> (bytes, unit) comp" where
  "Date_encode d =
     (let tmp = le_bytes 4 (date_days d) in
      if tmp ! 3 \<noteq> 0 then errR (Protocol (ValueMsg (DateOutOfRange (date_days d))))
      else put_bytes (take 3 tmp))"

section \<open>time\<close>

record Time =
  t_increments :: u64
  t_scale :: u8

definition Time_len :: "Time \<Rightarrow> u8 res" where
  "Time_len t =
     (let s = unat (t_scale t) in
      if s \<le> 2 then Ok 3 else if s \<le> 4 then Ok 4 else if s \<le> 7 then Ok 5
      else Err (Protocol (ValueMsg (TimeScale (t_scale t)))))"

definition Time_decode :: "nat \<Rightarrow> nat \<Rightarrow> (bytes, Time) comp" where
  "Time_decode n rlen =
     bindR
       (if n \<le> 2 \<and> rlen = 3 then
          bindR read_u16_le (\<lambda>hi. bindR read_u8 (\<lambda>lo. retR ((ucast hi :: u64) OR push_bit 16 (ucast lo))))
        else if 3 \<le> n \<and> n \<le> 4 \<and> rlen = 4 then bindR read_u32_le (\<lambda>w. retR (ucast w))
        else if 5 \<le> n \<and> n \<le> 7 \<and> rlen = 5 then
          bindR read_u32_le (\<lambda>hi. bindR read_u8 (\<lambda>lo. retR ((ucast hi :: u64) OR push_bit 32 (ucast lo))))
        else errR (Protocol (ValueMsg (TimeLength n))))
       (\<lambda>v. retR \<lparr>t_increments = v, t_scale = of_nat n\<rparr>)"

definition Time_encode :: "Time \<Rightarrow> (bytes, unit) comp" where
  "Time_encode t =
     bindR (liftR (Time_len t)) (\<lambda>len.
     let width_bits = 8 * unat len in
     if drop_bit width_bits (t_increments t) \<noteq> 0
     then errR (Protocol (ValueMsg (TimeIncrements (t_increments t) (unat len) (t_scale t))))
     else if len = 3 then
       thenR (put_le 2 (ucast (t_increments t) :: u16)) (put_u8 (ucast (drop_bit 16 (t_increments t))))
     else if len = 4 then put_le 4 (ucast (t_increments t) :: u32)
     else thenR (put_le 4 (ucast (t_increments t) :: u32)) (put_u8 (ucast (drop_bit 32 (t_increments t)))))"

section \<open>datetime2 and datetimeoffset\<close>

record DateTime2 =
  dt2_date :: Date
  dt2_time :: Time

definition DateTime2_decode :: "nat \<Rightarrow> nat \<Rightarrow> (bytes, DateTime2) comp" where
  "DateTime2_decode n rlen =
     bindR (Time_decode n rlen) (\<lambda>t.
     bindR (read_n 3) (\<lambda>bs.
     bindR (liftR (Date_new (from_le (bs @ [0])))) (\<lambda>d.
     retR \<lparr>dt2_date = d, dt2_time = t\<rparr>)))"

definition DateTime2_encode :: "DateTime2 \<Rightarrow> (bytes, unit) comp" where
  "DateTime2_encode d = thenR (Time_encode (dt2_time d)) (Date_encode (dt2_date d))"

record DateTimeOffset =
  dto_datetime2 :: DateTime2
  dto_offset :: u16 \<comment> \<open>\<^verbatim>\<open>i16\<close>\<close>

definition DateTimeOffset_decode :: "nat \<Rightarrow> u8 \<Rightarrow> (bytes, DateTimeOffset) comp" where
  "DateTimeOffset_decode n rlen =
     bindR (DateTime2_decode n (unat rlen)) (\<lambda>d.
     bindR read_i16_le (\<lambda>off. retR \<lparr>dto_datetime2 = d, dto_offset = off\<rparr>))"

definition DateTimeOffset_encode :: "DateTimeOffset \<Rightarrow> (bytes, unit) comp" where
  "DateTimeOffset_encode d = thenR (DateTime2_encode (dto_datetime2 d)) (put_le 2 (dto_offset d))"

section \<open>Wire forms\<close>

interpretation datetime: wire_codec DateTime_encode DateTime_decode
  "\<lambda>t. le_bytes 4 (dt_days t) @ le_bytes 4 (dt_seconds_fragments t)" "\<lambda>_. True"
  by unfold_locales (simp_all add: DateTime_encode_def DateTime_decode_def wire_simps)

interpretation smalldatetime: wire_codec SmallDateTime_encode SmallDateTime_decode
  "\<lambda>t. le_bytes 2 (sdt_days t) @ le_bytes 2 (sdt_seconds_fragments t)" "\<lambda>_. True"
  by unfold_locales (simp_all add: SmallDateTime_encode_def SmallDateTime_decode_def wire_simps)

text \<open>Splitting a value that fits its field into a low and a high part loses nothing.\<close>

lemma drop_bit_0_bit: "drop_bit n (w :: 'a::len word) = 0 \<Longrightarrow> n \<le> i \<Longrightarrow> \<not> bit w i"
  by (metis bit_0_eq bit_drop_bit_eq bot_apply bot_bool_def comp_apply le_add_diff_inverse)

lemma join_16_8:
  assumes "drop_bit 24 (w :: u64) = 0"
  shows "ucast (ucast w :: u16) OR push_bit 16 (ucast (ucast (drop_bit 16 w) :: u8)) = w"
proof (rule bit_word_eqI)
  fix i assume "i < LENGTH(64)"
  then show "bit (ucast (ucast w :: u16) OR push_bit 16 (ucast (ucast (drop_bit 16 w) :: u8)) :: u64) i = bit w i"
    using drop_bit_0_bit [OF assms, of i] by (cases "24 \<le> i") (auto simp: bit_simps)
qed

lemma join_32_8:
  assumes "drop_bit 40 (w :: u64) = 0"
  shows "ucast (ucast w :: u32) OR push_bit 32 (ucast (ucast (drop_bit 32 w) :: u8)) = w"
proof (rule bit_word_eqI)
  fix i assume "i < LENGTH(64)"
  then show "bit (ucast (ucast w :: u32) OR push_bit 32 (ucast (ucast (drop_bit 32 w) :: u8)) :: u64) i = bit w i"
    using drop_bit_0_bit [OF assms, of i] by (cases "40 \<le> i") (auto simp: bit_simps)
qed

lemma join_32:
  assumes "drop_bit 32 (w :: u64) = 0"
  shows "ucast (ucast w :: u32) = w"
proof (rule bit_word_eqI)
  fix i assume "i < LENGTH(64)"
  then show "bit (ucast (ucast w :: u32) :: u64) i = bit w i"
    using drop_bit_0_bit [OF assms, of i] by (cases "32 \<le> i") (auto simp: bit_simps)
qed

definition Time_bytes :: "Time \<Rightarrow> bytes" where
  "Time_bytes t =
     (if unat (t_scale t) \<le> 2 then le_bytes 2 (ucast (t_increments t) :: u16) @ [ucast (drop_bit 16 (t_increments t))]
      else if unat (t_scale t) \<le> 4 then le_bytes 4 (ucast (t_increments t) :: u32)
      else le_bytes 4 (ucast (t_increments t) :: u32) @ [ucast (drop_bit 32 (t_increments t))])"

text \<open>The field width by scale, and the times that fit it.\<close>

definition time_width :: "nat \<Rightarrow> nat" where
  "time_width n = (if n \<le> 2 then 3 else if n \<le> 4 then 4 else 5)"

definition Time_wf :: "nat \<Rightarrow> Time \<Rightarrow> bool" where
  "Time_wf n t \<longleftrightarrow> n \<le> 7 \<and> t_scale t = of_nat n \<and> drop_bit (8 * time_width n) (t_increments t) = 0"

lemma unat_of_nat_scale: "n \<le> 7 \<Longrightarrow> unat (of_nat n :: u8) = n"
  by (simp add: unat_of_nat)

interpretation time: wire_codec Time_encode "Time_decode n (time_width n)" Time_bytes "Time_wf n" for n
proof unfold_locales
  fix x dst assume "Time_wf n x"
  then show "Time_encode x dst = (Ok (), dst @ Time_bytes x)"
    by (auto simp: Time_wf_def Time_encode_def Time_len_def Time_bytes_def time_width_def unat_of_nat_scale
        wire_simps split: if_splits)
next
  fix x rest assume wf: "Time_wf n x"
  then show "Time_decode n (time_width n) (Time_bytes x @ rest) = (Ok x, rest)"
    by (auto simp: Time_wf_def Time_decode_def Time_bytes_def time_width_def unat_of_nat_scale
        join_16_8 join_32 join_32_8 wire_simps split: if_splits)
qed

lemma drop_bit_eq_0_iff_less: "drop_bit n (w :: 'a::len word) = 0 \<longleftrightarrow> unat w < 2 ^ n"
proof -
  have "drop_bit n w = 0 \<longleftrightarrow> unat (drop_bit n w) = 0" by (simp only: unat_eq_0)
  also have "\<dots> \<longleftrightarrow> unat w div 2 ^ n = 0"
    by (simp only: unsigned_drop_bit_eq) (simp add: take_bit_nat_eq_self flip: drop_bit_eq_div)
  finally show ?thesis by (simp add: div_eq_0_iff)
qed

text \<open>A \<^verbatim>\<open>Date\<close> has three bytes.\<close>

definition Date_bytes :: "Date \<Rightarrow> bytes" where
  "Date_bytes d = take 3 (le_bytes 4 (date_days d))"

definition Date_wf :: "Date \<Rightarrow> bool" where
  "Date_wf d \<longleftrightarrow> drop_bit 24 (date_days d) = 0"

lemma fourth_byte: "le_bytes 4 (d :: u32) ! 3 = 0 \<longleftrightarrow> drop_bit 24 d = 0"
proof -
  have lt: "unat d div 2 ^ 24 < 256" using unat_u32_less [of d] by (simp add: div_less_iff_less_mult)
  have "le_bytes 4 d ! 3 = of_nat (unat d div 2 ^ 24)" by (simp add: le_bytes_def div_mult2_eq [symmetric])
  moreover have "(of_nat (unat d div 2 ^ 24) = (0 :: u8)) \<longleftrightarrow> unat d div 2 ^ 24 = 0"
    using lt by (simp add: word_of_nat_eq_0_iff nat_dvd_not_less) (metis dvd_0_right gr0I nat_dvd_not_less)
  moreover have "drop_bit 24 d = 0 \<longleftrightarrow> unat d div 2 ^ 24 = 0"
    by (simp add: drop_bit_eq_div unat_div_distrib flip: unat_eq_0)
  ultimately show ?thesis by simp
qed

lemma take_3_0: "drop_bit 24 (d :: u32) = 0 \<Longrightarrow> from_le (take 3 (le_bytes 4 d) @ [0]) = d"
proof -
  assume "drop_bit 24 d = 0"
  then have "le_bytes 4 d ! 3 = 0" by (simp add: fourth_byte)
  then have "take 3 (le_bytes 4 d) @ [0] = le_bytes 4 d" by (simp add: le_bytes_def)
  then show ?thesis by (simp add: from_le_le_bytes)
qed

text \<open>Three bytes always make a day count below \<open>2 ^ 24\<close>: the assertion never fires.\<close>

lemma Date_new_three: "length bs = 3 \<Longrightarrow> \<exists>d. Date_new (from_le (bs @ [0])) = Ok d"
proof -
  assume l: "length bs = 3"
  then have "le_bytes 4 (from_le (bs @ [0]) :: u32) = bs @ [0]" by (intro le_bytes_from_le) simp_all
  then have "le_bytes 4 (from_le (bs @ [0]) :: u32) ! 3 = 0" using l by (simp add: nth_append)
  then show ?thesis by (simp add: Date_new_def fourth_byte)
qed

interpretation date: wire_codec Date_encode Date_decode Date_bytes Date_wf
proof unfold_locales
  fix x dst assume "Date_wf x"
  then show "Date_encode x dst = (Ok (), dst @ Date_bytes x)"
    using fourth_byte [of "date_days x"] by (simp add: Date_wf_def Date_encode_def Date_bytes_def wire_simps)
next
  fix x rest assume wf: "Date_wf x"
  have "length (Date_bytes x) = 3" by (simp add: Date_bytes_def)
  then show "Date_decode (Date_bytes x @ rest) = (Ok x, rest)"
    using wf by (simp add: Date_decode_def wire_simps) (simp add: Date_bytes_def Date_wf_def take_3_0 Date_new_def)
qed

definition DateTime2_wf :: "nat \<Rightarrow> DateTime2 \<Rightarrow> bool" where
  "DateTime2_wf n d \<longleftrightarrow> Time_wf n (dt2_time d) \<and> Date_wf (dt2_date d)"

lemma DateTime2_decode_Date:
  "DateTime2_decode n rlen =
     bindR (Time_decode n rlen) (\<lambda>t. bindR Date_decode (\<lambda>d. retR \<lparr>dt2_date = d, dt2_time = t\<rparr>))"
  by (simp add: DateTime2_decode_def Date_decode_def bindR_assoc)

interpretation datetime2: wire_codec DateTime2_encode "DateTime2_decode n (time_width n)"
  "\<lambda>d. Time_bytes (dt2_time d) @ Date_bytes (dt2_date d)" "DateTime2_wf n" for n
  by unfold_locales
    (auto simp: DateTime2_wf_def DateTime2_encode_def DateTime2_decode_Date
      thenR_def bindR_def retR_def time.enc_wire time.dec_wire date.enc_wire date.dec_wire)

interpretation datetimeoffset: wire_codec DateTimeOffset_encode "DateTimeOffset_decode n (of_nat (time_width n))"
  "\<lambda>d. Time_bytes (dt2_time (dto_datetime2 d)) @ Date_bytes (dt2_date (dto_datetime2 d)) @ le_bytes 2 (dto_offset d)"
  "\<lambda>d. DateTime2_wf n (dto_datetime2 d)" for n
proof -
  have w: "unat (of_nat (time_width n) :: u8) = time_width n" by (simp add: time_width_def)
  show "wire_codec DateTimeOffset_encode (DateTimeOffset_decode n (of_nat (time_width n)))
     (\<lambda>d. Time_bytes (dt2_time (dto_datetime2 d)) @ Date_bytes (dt2_date (dto_datetime2 d)) @ le_bytes 2 (dto_offset d))
     (\<lambda>d. DateTime2_wf n (dto_datetime2 d))"
    by unfold_locales
      (auto simp: DateTimeOffset_encode_def DateTimeOffset_decode_def w datetime2.enc_wire
        datetime2.dec_wire [where rest = "le_bytes 2 off @ r" for off r, simplified] wire_simps)
qed

section \<open>Readers\<close>

lemma reader_times [reader_intros]:
  "reader DateTime_decode" "reader SmallDateTime_decode" "reader Date_decode" "reader (Time_decode n rlen)"
  "reader (DateTime2_decode n rlen)" "reader (DateTimeOffset_decode n l)"
  unfolding DateTime_decode_def SmallDateTime_decode_def Date_decode_def Time_decode_def DateTime2_decode_def
    DateTimeOffset_decode_def by (intro reader_intros)+

lemma safe_Date_decode [safe_intros]: "safe Date_decode"
  unfolding safe_def Date_decode_def
proof
  fix s
  show "returns (fst (bindR (read_n 3) (\<lambda>bs. liftR (Date_new (from_le (bs @ [0])))) s))"
    using Date_new_three [of "take 3 s"] by (auto simp: read_n_def wire_simps)
qed

lemma safe_times [safe_intros]:
  "safe DateTime_decode" "safe SmallDateTime_decode" "safe (Time_decode n rlen)"
  "safe (DateTime2_decode n rlen)" "safe (DateTimeOffset_decode n l)"
  unfolding DateTime_decode_def SmallDateTime_decode_def Time_decode_def DateTime2_decode_Date
    DateTimeOffset_decode_def by (intro safe_intros)+

section \<open>Properties\<close>

lemma Time_encode_wf: "Time_encode t dst = (Ok (), out) \<Longrightarrow> Time_wf (unat (t_scale t)) t"
  by (auto simp: Time_encode_def Time_len_def Time_wf_def time_width_def wire_simps split: if_splits)

lemma Date_encode_wf: "Date_encode d dst = (Ok (), out) \<Longrightarrow> Date_wf d"
  using fourth_byte [of "date_days d"]
  by (auto simp: Date_encode_def Date_wf_def wire_simps split: if_splits)

lemma length_time_date_bytes:
  "Time_wf n t \<Longrightarrow> length (Time_bytes t) = time_width n" "length (Date_bytes d) = 3"
  by (auto simp: Time_wf_def Time_bytes_def Date_bytes_def time_width_def unat_of_nat_scale)

text \<open>
  C30: A date and time with offset is never truncated. Whenever the encoder
  accepts a value, the bytes it wrote decode, under the scale of the value and
  the length of its time part, to the same value, whatever follows; values whose
  day count or time does not fit its field are not accepted.
\<close>

theorem datetimeoffset_lossless:
  assumes "DateTimeOffset_encode d dst = (Ok (), dst @ bs)"
  shows "DateTimeOffset_decode (unat (t_scale (dt2_time (dto_datetime2 d)))) (of_nat (length bs - 5)) (bs @ rest) =
      (Ok d, rest) \<and>
    unat (date_days (dt2_date (dto_datetime2 d))) < 2 ^ 24 \<and>
    unat (t_increments (dt2_time (dto_datetime2 d))) < 2 ^ (8 * (length bs - 5))"
proof -
  let ?t = "dt2_time (dto_datetime2 d)" and ?n = "unat (t_scale (dt2_time (dto_datetime2 d)))"
  from assms obtain out1 out2 where e1: "Time_encode ?t dst = (Ok (), out1)"
    and e2: "Date_encode (dt2_date (dto_datetime2 d)) out1 = (Ok (), out2)"
    by (auto simp: DateTimeOffset_encode_def DateTime2_encode_def thenR_def bindR_eq_Ok)
  have wf: "DateTime2_wf ?n (dto_datetime2 d)"
    using Time_encode_wf [OF e1] Date_encode_wf [OF e2] by (simp add: DateTime2_wf_def)
  then have tw: "Time_wf ?n ?t" and dw: "Date_wf (dt2_date (dto_datetime2 d))" by (simp_all add: DateTime2_wf_def)
  have bs: "bs = Time_bytes ?t @ Date_bytes (dt2_date (dto_datetime2 d)) @ le_bytes 2 (dto_offset d)"
    using datetimeoffset.enc_wire [OF wf, of dst] assms by simp
  then have len: "length bs - 5 = time_width ?n" using length_time_date_bytes(1) [OF tw] length_time_date_bytes(2) by simp
  have "unat (t_increments ?t) < 2 ^ (8 * time_width ?n)"
    using tw drop_bit_eq_0_iff_less [of "8 * time_width ?n" "t_increments ?t"] by (simp add: Time_wf_def)
  moreover have "unat (date_days (dt2_date (dto_datetime2 d))) < 2 ^ 24"
    using dw drop_bit_eq_0_iff_less [of 24 "date_days (dt2_date (dto_datetime2 d))"] by (simp add: Date_wf_def)
  ultimately show ?thesis using datetimeoffset.dec_wire [OF wf, of rest] by (simp add: len flip: bs)
qed

theorem datetimeoffset_lossless_witness:
  "DateTimeOffset_decode 7 5 ([1, 2, 3, 4, 5, 6, 7, 8, 60, 0] @ [9]) =
     (Ok \<lparr>dto_datetime2 = \<lparr>dt2_date = Date 0x080706, dt2_time = \<lparr>t_increments = 0x0504030201, t_scale = 7\<rparr>\<rparr>,
           dto_offset = 60\<rparr>, [9])"
proof -
  have "DateTimeOffset_encode \<lparr>dto_datetime2 = \<lparr>dt2_date = Date 0x080706, dt2_time = \<lparr>t_increments = 0x0504030201, t_scale = 7\<rparr>\<rparr>,
     dto_offset = 60\<rparr> [] = (Ok (), [] @ [1, 2, 3, 4, 5, 6, 7, 8, 60, 0])"
    by (simp add: DateTimeOffset_encode_def DateTime2_encode_def Time_encode_def Time_len_def Date_encode_def
        wire_simps wire_eval)
  from datetimeoffset_lossless [OF this, of "[9]"] show ?thesis by simp
qed

end
