(* ===== verification/Tds_Float.thy ===== *)
theory Tds_Float
  imports Tds_Prelude
begin

text \<open>
  Double precision numbers as bit patterns, with the operations the money codec
  (\<^verbatim>\<open>tds/codec/column_data/money.rs\<close>) and the bulk encoder apply to them:
  conversion of integers, addition, multiplication and division rounded to the
  nearest representable number, ties to even, and the saturating conversions to
  integers. All computation is on integers; a finite number is a mantissa and a
  power of two.
\<close>

section \<open>Parts of a double\<close>

definition f64_exponent_field :: "u64 \<Rightarrow> nat" where
  "f64_exponent_field w = unat w div 2 ^ 52 mod 2 ^ 11"

definition f64_negative :: "u64 \<Rightarrow> bool" where
  "f64_negative w \<longleftrightarrow> 2 ^ 63 \<le> unat w"

definition f64_is_finite :: "u64 \<Rightarrow> bool" where
  "f64_is_finite w \<longleftrightarrow> f64_exponent_field w \<noteq> 2047"

definition f64_is_nan :: "u64 \<Rightarrow> bool" where
  "f64_is_nan w \<longleftrightarrow> f64_exponent_field w = 2047 \<and> unat w mod 2 ^ 52 \<noteq> 0"

definition f64_mantissa :: "u64 \<Rightarrow> int" where
  "f64_mantissa w =
     (let m = int (unat w mod 2 ^ 52) + (if f64_exponent_field w = 0 then 0 else 2 ^ 52)
      in if f64_negative w then - m else m)"

text \<open>The value of a finite double is its mantissa times \<open>2 ^ (exponent - 1075)\<close>.\<close>

definition f64_exponent :: "u64 \<Rightarrow> nat" where
  "f64_exponent w = max 1 (f64_exponent_field w)"

section \<open>Rounding a ratio\<close>

fun bit_length :: "nat \<Rightarrow> nat" where
  "bit_length n = (if n = 0 then 0 else Suc (bit_length (n div 2)))"

declare bit_length.simps [simp del]

text \<open>\<open>n / (d * 2 ^ e)\<close> to the nearest integer, ties to even.\<close>

definition div_nearest_even :: "nat \<Rightarrow> nat \<Rightarrow> nat" where
  "div_nearest_even n d =
     (let q = n div d; r = n mod d in
      if 2 * r > d \<or> (2 * r = d \<and> odd q) then q + 1 else q)"

definition scale_div :: "nat \<Rightarrow> nat \<Rightarrow> int \<Rightarrow> nat \<times> nat" where
  "scale_div n d e = (if 0 \<le> e then (n, d * 2 ^ nat e) else (n * 2 ^ nat (- e), d))"

definition round_f64 :: "bool \<Rightarrow> nat \<Rightarrow> nat \<Rightarrow> u64" where
  "round_f64 neg n d =
     (let sign = (if neg then 2 ^ 63 else 0) in
      if n = 0 then of_nat sign
      else
        (let e0 = int (bit_length n) - int (bit_length d) - 53;
             e1 = (let (a, b) = scale_div n d e0 in if 2 ^ 53 * b \<le> a then e0 + 1 else e0);
             e2 = max (- 1074) e1;
             q0 = (let (a, b) = scale_div n d e2 in div_nearest_even a b);
             (q, e) = (if q0 = 2 ^ 53 then (2 ^ 52, e2 + 1) else (q0, e2))
         in if e > 971 then of_nat (sign + 2047 * 2 ^ 52)
            else if q < 2 ^ 52 then of_nat (sign + q)
            else of_nat (sign + nat (e + 1075) * 2 ^ 52 + (q - 2 ^ 52))))"

section \<open>Operations\<close>

definition f64_of_int :: "int \<Rightarrow> u64" where
  "f64_of_int z = round_f64 (z < 0) (nat \<bar>z\<bar>) 1"

text \<open>\<open>m * 2 ^ (k - 1075)\<close> for natural \<open>k\<close>, divided by \<open>d\<close>.\<close>

definition f64_of_dyadic :: "bool \<Rightarrow> int \<Rightarrow> nat \<Rightarrow> nat \<Rightarrow> u64" where
  "f64_of_dyadic neg m k d =
     (if 1075 \<le> k then round_f64 neg (nat \<bar>m\<bar> * 2 ^ (k - 1075)) d
      else round_f64 neg (nat \<bar>m\<bar>) (d * 2 ^ (1075 - k)))"

text \<open>The arguments are finite, the divisor of \<open>f64_div_int\<close> a positive integer that a
  double holds exactly, as every call in the sources has them.\<close>

definition f64_div_int :: "u64 \<Rightarrow> nat \<Rightarrow> u64" where
  "f64_div_int w d = f64_of_dyadic (f64_negative w) (f64_mantissa w) (f64_exponent w) d"

definition f64_mul_int :: "u64 \<Rightarrow> nat \<Rightarrow> u64" where
  "f64_mul_int w c = f64_of_dyadic (f64_negative w) (f64_mantissa w * int c) (f64_exponent w) 1"

definition f64_add :: "u64 \<Rightarrow> u64 \<Rightarrow> u64" where
  "f64_add a b =
     (let k = min (f64_exponent a) (f64_exponent b);
          m = f64_mantissa a * 2 ^ (f64_exponent a - k) + f64_mantissa b * 2 ^ (f64_exponent b - k)
      in f64_of_dyadic (if m = 0 then f64_negative a \<and> f64_negative b else m < 0) m k 1)"

definition f64_mul :: "u64 \<Rightarrow> u64 \<Rightarrow> u64" where
  "f64_mul a b =
     (let k = f64_exponent a + f64_exponent b; n = nat \<bar>f64_mantissa a * f64_mantissa b\<bar>;
          neg = (f64_negative a \<noteq> f64_negative b)
      in if 2150 \<le> k then round_f64 neg (n * 2 ^ (k - 2150)) 1 else round_f64 neg n (2 ^ (2150 - k)))"

text \<open>\<^verbatim>\<open>x.round() as i128\<close>: to the nearest integer, halves away from zero, and the cast saturates.\<close>

definition f64_round_to_int :: "u64 \<Rightarrow> int" where
  "f64_round_to_int w =
     (let m = nat \<bar>f64_mantissa w\<bar>; k = f64_exponent w;
          q = (if 1075 \<le> k then m * 2 ^ (k - 1075)
               else (2 * m + 2 ^ (1075 - k)) div (2 * 2 ^ (1075 - k)))
      in if f64_negative w then - int q else int q)"

definition saturate :: "int \<Rightarrow> int \<Rightarrow> int \<Rightarrow> int" where
  "saturate lo hi z = max lo (min hi z)"

text \<open>\<^verbatim>\<open>x as u64\<close>: towards zero, saturating.\<close>

definition f64_to_u64 :: "u64 \<Rightarrow> u64" where
  "f64_to_u64 w =
     (let m = nat \<bar>f64_mantissa w\<bar>; k = f64_exponent w;
          q = (if 1075 \<le> k then m * 2 ^ (k - 1075) else m div 2 ^ (1075 - k))
      in if f64_is_nan w \<or> f64_negative w then 0 else of_nat (min q (2 ^ 64 - 1)))"

lemmas f64_eval = round_f64_def scale_div_def div_nearest_even_def bit_length.simps f64_of_int_def
  f64_of_dyadic_def f64_div_int_def f64_mul_int_def f64_mul_def f64_add_def f64_round_to_int_def f64_to_u64_def
  f64_negative_def f64_mantissa_def f64_exponent_def f64_exponent_field_def f64_is_finite_def f64_is_nan_def
  saturate_def Let_def

end
