(* ===== verification/Tds_Prelogin.thy ===== *)
theory Tds_Prelogin
  imports Tds_Packet
begin

text \<open>
  The prelogin exchange: encryption levels (\<^verbatim>\<open>tds.rs\<close>), the driver version
  (\<^verbatim>\<open>lib.rs\<close>), GUID byte order (\<^verbatim>\<open>tds/codec/guid.rs\<close>) and the prelogin message with
  its option table and the encryption negotiation (\<^verbatim>\<open>tds/codec/pre_login.rs\<close>).
\<close>

unbundle bit_operations_syntax

section \<open>Encryption levels\<close>

datatype EncryptionLevel = EncOff | EncOn | EncNotSupported | EncRequired | EncStrict

fun EncryptionLevel_value :: "EncryptionLevel \<Rightarrow> u8" where
  "EncryptionLevel_value EncOff = 0"
| "EncryptionLevel_value EncOn = 1"
| "EncryptionLevel_value EncNotSupported = 2"
| "EncryptionLevel_value EncRequired = 3"
| "EncryptionLevel_value EncStrict = 4"

definition EncryptionLevel_variants :: "EncryptionLevel list" where
  "EncryptionLevel_variants = [EncOff, EncOn, EncNotSupported, EncRequired, EncStrict]"

definition EncryptionLevel_try_from :: "u8 \<Rightarrow> EncryptionLevel option" where
  "EncryptionLevel_try_from = uint_enum_try_from EncryptionLevel_value EncryptionLevel_variants"

interpretation encryption_level: uint_enum EncryptionLevel_value EncryptionLevel_variants
proof
  show "v \<in> set EncryptionLevel_variants" for v by (cases v) (simp_all add: EncryptionLevel_variants_def)
qed (simp add: EncryptionLevel_variants_def)

lemma EncryptionLevel_try_from_value [wire_simps]:
  "EncryptionLevel_try_from (EncryptionLevel_value l) = Some l"
  by (simp add: EncryptionLevel_try_from_def encryption_level.try_from_val)

fun EncryptionLevel_as_wire_value :: "EncryptionLevel \<Rightarrow> u8" where
  "EncryptionLevel_as_wire_value EncStrict = EncryptionLevel_value EncRequired"
| "EncryptionLevel_as_wire_value other = EncryptionLevel_value other"

section \<open>The driver version\<close>

fun driver_version_fold :: "u64 \<Rightarrow> nat \<Rightarrow> rstring list \<Rightarrow> u64" where
  "driver_version_fold acc i [] = acc"
| "driver_version_fold acc i (part # parts) =
     (case parse_u64 part of
        Inr num \<Rightarrow> driver_version_fold (acc OR push_bit (i * 8) num) (Suc i) parts
      | Inl _ \<Rightarrow> driver_version_fold acc (Suc i) parts)"

definition encode_driver_version :: "rstring \<Rightarrow> u64" where
  "encode_driver_version version = driver_version_fold 0 0 (splitn 6 46 version)"

text \<open>\<^verbatim>\<open>CARGO_PKG_VERSION\<close> is the version of \<^verbatim>\<open>src/Cargo.toml\<close>, 0.13.0.\<close>

definition get_driver_version :: u64 where
  "get_driver_version = encode_driver_version (lit ''0.13.0'')"

section \<open>GUID byte order\<close>

definition swap :: "nat \<Rightarrow> nat \<Rightarrow> 'a list \<Rightarrow> 'a list" where
  "swap i j xs = xs[i := xs ! j, j := xs ! i]"

text \<open>A \<^verbatim>\<open>Uuid\<close> is its 16 bytes.\<close>

definition reorder_bytes :: "bytes \<Rightarrow> bytes" where
  "reorder_bytes bs = swap 6 7 (swap 4 5 (swap 1 2 (swap 0 3 bs)))"

lemma length_reorder_bytes [simp]: "length (reorder_bytes bs) = length bs"
  by (simp add: reorder_bytes_def swap_def)

lemma reorder_bytes_Cons:
  "reorder_bytes (a # b # c # d # e # f # g # h # r) = d # c # b # a # f # e # h # g # r"
  by (simp add: reorder_bytes_def swap_def numeral_eq_Suc)

lemma reorder_bytes_involution:
  assumes "length bs = 16"
  shows "reorder_bytes (reorder_bytes bs) = bs"
proof -
  have "8 \<le> length bs" using assms by simp
  then obtain a b c d e f g h r where "bs = a # b # c # d # e # f # g # h # r" by (rule list_8E)
  then show ?thesis by (simp add: reorder_bytes_Cons)
qed

section \<open>The prelogin message\<close>

record ActivityId =
  act_id :: bytes
  act_sequence :: u32

record PreloginMessage =
  pl_version :: u32
  pl_sub_build :: u16
  pl_encryption :: EncryptionLevel
  pl_instance_name :: "rstring option"
  pl_thread_id :: u32
  pl_mars :: bool
  pl_activity_id :: "ActivityId option"
  pl_fed_auth_required :: bool
  pl_nonce :: "bytes option"

definition PreloginMessage_new :: PreloginMessage where
  "PreloginMessage_new =
     \<lparr>pl_version = ucast get_driver_version,
      pl_sub_build = ucast (drop_bit 32 get_driver_version),
      pl_encryption = EncNotSupported,
      pl_instance_name = None,
      pl_thread_id = 0,
      pl_mars = False,
      pl_activity_id = None,
      pl_fed_auth_required = False,
      pl_nonce = None\<rparr>"

definition validate_instance :: "PreloginMessage \<Rightarrow> rstring option \<Rightarrow> unit res" where
  "validate_instance m requested =
     (case requested of
        None \<Rightarrow> Ok ()
      | Some r \<Rightarrow>
          (case pl_instance_name m of
             None \<Rightarrow> Ok ()
           | Some other \<Rightarrow> Err (Protocol (PreloginMsg (RejectedInstance r other)))))"

text \<open>\<^verbatim>\<open>negotiated_encryption\<close> of a build with a TLS backend; first match wins.\<close>

fun negotiated_encryption :: "EncryptionLevel \<Rightarrow> EncryptionLevel \<Rightarrow> EncryptionLevel res" where
  "negotiated_encryption EncNotSupported EncNotSupported = Ok EncNotSupported"
| "negotiated_encryption EncOff EncOff = Ok EncOff"
| "negotiated_encryption EncOn EncOff = Err (Protocol (PreloginMsg EncryptionNotAllowed))"
| "negotiated_encryption EncOn EncNotSupported = Err (Protocol (PreloginMsg EncryptionNotAllowed))"
| "negotiated_encryption EncRequired EncOff = Err (Protocol (PreloginMsg EncryptionNotAllowed))"
| "negotiated_encryption EncRequired EncNotSupported = Err (Protocol (PreloginMsg EncryptionNotAllowed))"
| "negotiated_encryption EncStrict _ = Ok EncStrict"
| "negotiated_encryption _ _ = Ok EncOn"

text \<open>The message holds the server's level, the argument is the level the client asked for.\<close>

definition PreloginMessage_negotiated_encryption :: "PreloginMessage \<Rightarrow> EncryptionLevel \<Rightarrow> EncryptionLevel res" where
  "PreloginMessage_negotiated_encryption m expected = negotiated_encryption expected (pl_encryption m)"

text \<open>The variant of a build without a TLS backend.\<close>

definition negotiated_encryption_no_tls :: "PreloginMessage \<Rightarrow> EncryptionLevel \<Rightarrow> EncryptionLevel res" where
  "negotiated_encryption_no_tls m _ = Ok EncNotSupported"

section \<open>Encoding\<close>

definition PRELOGIN_VERSION :: u8 where "PRELOGIN_VERSION = 0"
definition PRELOGIN_ENCRYPTION :: u8 where "PRELOGIN_ENCRYPTION = 1"
definition PRELOGIN_INSTOPT :: u8 where "PRELOGIN_INSTOPT = 2"
definition PRELOGIN_THREADID :: u8 where "PRELOGIN_THREADID = 3"
definition PRELOGIN_MARS :: u8 where "PRELOGIN_MARS = 4"
definition PRELOGIN_TRACEID :: u8 where "PRELOGIN_TRACEID = 5"
definition PRELOGIN_FEDAUTHREQUIRED :: u8 where "PRELOGIN_FEDAUTHREQUIRED = 6"
definition PRELOGIN_NONCEOPT :: u8 where "PRELOGIN_NONCEOPT = 7"
definition PRELOGIN_TERMINATOR :: u8 where "PRELOGIN_TERMINATOR = 0xff"

lemmas prelogin_tokens =
  PRELOGIN_VERSION_def PRELOGIN_ENCRYPTION_def PRELOGIN_INSTOPT_def PRELOGIN_THREADID_def
  PRELOGIN_MARS_def PRELOGIN_TRACEID_def PRELOGIN_FEDAUTHREQUIRED_def PRELOGIN_NONCEOPT_def
  PRELOGIN_TERMINATOR_def

definition prelogin_instance :: "PreloginMessage \<Rightarrow> bytes" where
  "prelogin_instance m = as_bytes (case pl_instance_name m of None \<Rightarrow> [] | Some s \<Rightarrow> s)"

text \<open>\<^verbatim>\<open>fields\<close>: the options with their lengths, the instance length cast to \<^verbatim>\<open>u16\<close>.\<close>

definition prelogin_fields :: "PreloginMessage \<Rightarrow> (u8 \<times> u16) list" where
  "prelogin_fields m =
     [(PRELOGIN_VERSION, 0x04 + 0x02), (PRELOGIN_ENCRYPTION, 0x01),
      (PRELOGIN_INSTOPT, of_nat (length (prelogin_instance m) + 1)),
      (PRELOGIN_THREADID, 0x04), (PRELOGIN_MARS, 0x01)] @
     (if pl_activity_id m \<noteq> None then [(PRELOGIN_TRACEID, 0x14)] else []) @
     (if pl_fed_auth_required m then [(PRELOGIN_FEDAUTHREQUIRED, 0x01)] else [])"

text \<open>\<^verbatim>\<open>data_cursor\<close>\<close>

definition prelogin_data :: "PreloginMessage \<Rightarrow> bytes" where
  "prelogin_data m =
     be_bytes 4 (pl_version m) @ be_bytes 2 (pl_sub_build m) @
     [EncryptionLevel_as_wire_value (pl_encryption m)] @
     prelogin_instance m @ [0] @
     be_bytes 4 (pl_thread_id m) @
     [if pl_mars m then 1 else 0] @
     (case pl_activity_id m of
        None \<Rightarrow> [] | Some a \<Rightarrow> reorder_bytes (act_id a) @ le_bytes 4 (act_sequence a)) @
     (if pl_fed_auth_required m then [1] else [])"

text \<open>The offset table; \<^verbatim>\<open>data_offset += length\<close> in \<^verbatim>\<open>u16\<close> panics on overflow.\<close>

fun prelogin_table :: "(u8 \<times> u16) list \<Rightarrow> u16 \<Rightarrow> (bytes, unit) comp" where
  "prelogin_table [] data_offset = retR ()"
| "prelogin_table ((token, len) # opts) data_offset =
     thenR (put_u8 token)
    (thenR (put_be 2 data_offset)
    (thenR (put_be 2 len)
    (if unat data_offset + unat len > 65535 then panicR
     else prelogin_table opts (data_offset + len))))"

definition PreloginMessage_encode :: "PreloginMessage \<Rightarrow> (bytes, unit) comp" where
  "PreloginMessage_encode m =
     thenR (prelogin_table (prelogin_fields m) (of_nat (length (prelogin_fields m) * 5 + 1)))
    (thenR (put_u8 PRELOGIN_TERMINATOR)
           (put_bytes (prelogin_data m)))"

section \<open>Decoding\<close>

text \<open>Bytes up to a zero byte; no zero byte is an early end of the cursor.\<close>

fun read_until_nul :: "(bytes, bytes) comp" where
  "read_until_nul [] = (Err (Io UnexpectedEof), [])"
| "read_until_nul (b # bs) =
     (if b = 0 then (Ok [], bs)
      else (case read_until_nul bs of (Ok r, s) \<Rightarrow> (Ok (b # r), s) | x \<Rightarrow> x))"

text \<open>One option, read from the cursor at its offset.\<close>

definition prelogin_option :: "u8 \<Rightarrow> u16 \<Rightarrow> PreloginMessage \<Rightarrow> (bytes, PreloginMessage) comp" where
  "prelogin_option token len ret =
     (if token = PRELOGIN_VERSION then
        bindR (read_be 4) (\<lambda>v. bindR (read_be 2) (\<lambda>b. retR (ret\<lparr>pl_version := v, pl_sub_build := b\<rparr>)))
      else if token = PRELOGIN_ENCRYPTION then
        bindR read_u8 (\<lambda>encrypt.
        bindR (ok_or (EncryptionLevel_try_from encrypt)
                 (Protocol (PreloginMsg (InvalidEncryptionValue encrypt)))) (\<lambda>l.
        retR (ret\<lparr>pl_encryption := l\<rparr>)))
      else if token = PRELOGIN_INSTOPT then
        bindR read_until_nul (\<lambda>bs.
        retR (if bs \<noteq> [] then ret\<lparr>pl_instance_name := Some (from_utf8_lossy bs)\<rparr> else ret))
      else if token = PRELOGIN_THREADID then
        (if len = 0 then retR (ret\<lparr>pl_thread_id := 0\<rparr>)
         else if len = 4 then bindR (read_be 4) (\<lambda>t. retR (ret\<lparr>pl_thread_id := t\<rparr>))
         else errR (Protocol (PreloginMsg (InvalidThreadIdLength len))))
      else if token = PRELOGIN_MARS then
        bindR read_u8 (\<lambda>b. retR (ret\<lparr>pl_mars := (b \<noteq> 0)\<rparr>))
      else if token = PRELOGIN_TRACEID then
        bindR (read_n 16) (\<lambda>d.
        bindR read_u32_le (\<lambda>sq.
        retR (ret\<lparr>pl_activity_id := Some \<lparr>act_id = reorder_bytes d, act_sequence = sq\<rparr>\<rparr>)))
      else if token = PRELOGIN_FEDAUTHREQUIRED then
        bindR read_u8 (\<lambda>b. retR (ret\<lparr>pl_fed_auth_required := (b \<noteq> 0)\<rparr>))
      else if token = PRELOGIN_NONCEOPT then
        bindR (read_n 32) (\<lambda>d. retR (ret\<lparr>pl_nonce := Some d\<rparr>))
      else errR (Protocol (PreloginMsg (UnsupportedPreloginToken token))))"

text \<open>
  The option table: the cursor reads it front to back (\<open>tbl\<close> is what follows the
  cursor), jumps to the offset of each option and back. The data is not
  consumed.
\<close>

fun prelogin_loop :: "bytes \<Rightarrow> bytes \<Rightarrow> PreloginMessage \<Rightarrow> PreloginMessage res" where
  "prelogin_loop src [] ret = Err (Io UnexpectedEof)"
| "prelogin_loop src (token # tbl) ret =
     (if token = PRELOGIN_TERMINATOR then Ok ret
      else
        (case tbl of
           o1 # o2 # l1 # l2 # rest \<Rightarrow>
             (case fst (prelogin_option token (from_be [l1, l2]) ret (drop (unat (from_be [o1, o2] :: u16)) src)) of
                Ok ret' \<Rightarrow> prelogin_loop src rest ret'
              | Err e \<Rightarrow> Err e
              | Panic \<Rightarrow> Panic
              | Diverge \<Rightarrow> Diverge)
         | _ \<Rightarrow> Err (Io UnexpectedEof)))"

definition PreloginMessage_decode :: "(bytes, PreloginMessage) comp" where
  "PreloginMessage_decode src = (prelogin_loop src src PreloginMessage_new, src)"

section \<open>The round trip\<close>

text \<open>
  An option together with its data and its effect on the message; \<open>good_option\<close>
  says the decoder has that effect wherever the data stands.
\<close>

type_synonym prelogin_opt = "u8 \<times> bytes \<times> (PreloginMessage \<Rightarrow> PreloginMessage)"

definition good_option :: "prelogin_opt \<Rightarrow> bool" where
  "good_option x = (case x of (t, c, f) \<Rightarrow>
     t \<noteq> PRELOGIN_TERMINATOR \<and>
     (\<forall>ret r. fst (prelogin_option t (of_nat (length c)) ret (c @ r)) = Ok (f ret)))"

fun table_bytes :: "prelogin_opt list \<Rightarrow> nat \<Rightarrow> bytes" where
  "table_bytes [] off = []"
| "table_bytes ((t, c, f) # xs) off =
     t # be_bytes 2 (of_nat off :: u16) @ be_bytes 2 (of_nat (length c) :: u16) @ table_bytes xs (off + length c)"

definition chunks :: "prelogin_opt list \<Rightarrow> bytes" where
  "chunks xs = concat (map (\<lambda>(t, c, f). c) xs)"

lemma chunks_Cons [simp]: "chunks [] = []" "chunks ((t, c, f) # xs) = c @ chunks xs"
  by (simp_all add: chunks_def)

lemma prelogin_table_bytes:
  "off + length (chunks xs) \<le> 65535 \<Longrightarrow>
     prelogin_table (map (\<lambda>(t, c, f). (t, of_nat (length c))) xs) (of_nat off) dst =
       (Ok (), dst @ table_bytes xs off)"
proof (induction xs off arbitrary: dst rule: table_bytes.induct)
  case (2 t c f xs off)
  have "off \<le> 65535" "length c \<le> 65535" "off + length c \<le> 65535" using "2.prems" by simp_all
  then show ?case using "2.IH" "2.prems" by (simp add: wire_simps add.assoc)
qed (simp add: wire_simps)

lemma prelogin_loop_step:
  fixes off len :: u16
  assumes "token \<noteq> PRELOGIN_TERMINATOR"
  shows "prelogin_loop src (token # be_bytes 2 off @ be_bytes 2 len @ rest) ret =
     (case fst (prelogin_option token len ret (drop (unat off) src)) of
        Ok ret' \<Rightarrow> prelogin_loop src rest ret' | Err e \<Rightarrow> Err e | Panic \<Rightarrow> Panic | Diverge \<Rightarrow> Diverge)"
proof -
  obtain a b where ab: "be_bytes 2 off = [a, b]" by (rule be_bytes_2E)
  obtain c d where cd: "be_bytes 2 len = [c, d]" by (rule be_bytes_2E)
  have "from_be [a, b] = off" "from_be [c, d] = len"
    using from_be_be_bytes [of 2 off] from_be_be_bytes [of 2 len] by (simp_all add: ab cd)
  then show ?thesis using assms by (simp add: ab cd)
qed

lemma prelogin_loop_end: "prelogin_loop src (PRELOGIN_TERMINATOR # after) ret = Ok ret"
  by simp

declare prelogin_loop.simps [simp del]

lemma prelogin_loop_table:
  assumes "\<forall>x\<in>set xs. good_option x" "off + length (chunks xs) \<le> 65535" "drop off src = chunks xs"
  shows "prelogin_loop src (table_bytes xs off @ PRELOGIN_TERMINATOR # after) ret =
           Ok (fold (\<lambda>(t, c, f). f) xs ret)"
  using assms
proof (induction xs off arbitrary: ret rule: table_bytes.induct)
  case (1 off)
  then show ?case by (simp add: prelogin_loop_end)
next
  case (2 t c f xs off)
  have "unat (of_nat off :: u16) = off" using "2.prems"(2) by simp
  moreover have "t \<noteq> PRELOGIN_TERMINATOR"
    "fst (prelogin_option t (of_nat (length c)) ret (c @ chunks xs)) = Ok (f ret)"
    using "2.prems"(1) by (simp_all add: good_option_def)
  moreover have "drop (off + length c) src = chunks xs"
    using "2.prems"(3) by (metis append_eq_conv_conj chunks_Cons(2) drop_drop add.commute)
  ultimately show ?case using "2.IH" [of "f ret"] "2.prems" by (simp add: prelogin_loop_step)
qed

text \<open>The options of a message.\<close>

definition prelogin_opts :: "PreloginMessage \<Rightarrow> prelogin_opt list" where
  "prelogin_opts m =
     [(PRELOGIN_VERSION, be_bytes 4 (pl_version m) @ be_bytes 2 (pl_sub_build m),
         \<lambda>r. r\<lparr>pl_version := pl_version m, pl_sub_build := pl_sub_build m\<rparr>),
      (PRELOGIN_ENCRYPTION, [EncryptionLevel_as_wire_value (pl_encryption m)],
         \<lambda>r. r\<lparr>pl_encryption := (if pl_encryption m = EncStrict then EncRequired else pl_encryption m)\<rparr>),
      (PRELOGIN_INSTOPT, prelogin_instance m @ [0],
         \<lambda>r. if prelogin_instance m \<noteq> [] then r\<lparr>pl_instance_name := pl_instance_name m\<rparr> else r),
      (PRELOGIN_THREADID, be_bytes 4 (pl_thread_id m), \<lambda>r. r\<lparr>pl_thread_id := pl_thread_id m\<rparr>),
      (PRELOGIN_MARS, [if pl_mars m then 1 else 0], \<lambda>r. r\<lparr>pl_mars := pl_mars m\<rparr>)] @
     (case pl_activity_id m of None \<Rightarrow> []
      | Some a \<Rightarrow> [(PRELOGIN_TRACEID, reorder_bytes (act_id a) @ le_bytes 4 (act_sequence a),
                     \<lambda>r. r\<lparr>pl_activity_id := Some a\<rparr>)]) @
     (if pl_fed_auth_required m then [(PRELOGIN_FEDAUTHREQUIRED, [1], \<lambda>r. r\<lparr>pl_fed_auth_required := True\<rparr>)] else [])"

definition prelogin_wf :: "PreloginMessage \<Rightarrow> bool" where
  "prelogin_wf m \<longleftrightarrow>
     (case pl_instance_name m of None \<Rightarrow> True
      | Some s \<Rightarrow> s \<noteq> [] \<and> valid_str s \<and> 0 \<notin> set s \<and> length (as_bytes s) \<le> 65000) \<and>
     (case pl_activity_id m of None \<Rightarrow> True | Some a \<Rightarrow> length (act_id a) = 16)"

lemma read_until_nul_append: "0 \<notin> set bs \<Longrightarrow> read_until_nul (bs @ 0 # r) = (Ok bs, r)"
  by (induction bs) auto

lemma as_wire_value_try_from:
  "EncryptionLevel_try_from (EncryptionLevel_as_wire_value l) = Some (if l = EncStrict then EncRequired else l)"
proof (cases l)
  case EncStrict
  then show ?thesis using EncryptionLevel_try_from_value [of EncRequired] by simp
qed (use EncryptionLevel_try_from_value [of l] in simp_all)

lemma prelogin_instance_props:
  assumes "prelogin_wf m"
  shows "0 \<notin> set (prelogin_instance m)" "length (prelogin_instance m) \<le> 65000"
    "prelogin_instance m \<noteq> [] \<Longrightarrow> Some (from_utf8_lossy (prelogin_instance m)) = pl_instance_name m"
    "prelogin_instance m = [] \<longleftrightarrow> pl_instance_name m = None"
  using assms as_bytes_no_nul
  by (auto simp: prelogin_instance_def prelogin_wf_def split: option.splits)

lemma good_prelogin_opts:
  assumes "prelogin_wf m"
  shows "\<forall>x\<in>set (prelogin_opts m). good_option x"
  using assms prelogin_instance_props [OF assms]
  by (auto simp: prelogin_opts_def good_option_def prelogin_option_def prelogin_tokens wire_simps
      read_until_nul_append as_wire_value_try_from reorder_bytes_involution prelogin_wf_def
      split: option.splits if_splits)

lemma prelogin_opts_layout:
  assumes "prelogin_wf m"
  shows "prelogin_fields m = map (\<lambda>(t, c, f). (t, of_nat (length c))) (prelogin_opts m)"
    and "prelogin_data m = chunks (prelogin_opts m)"
  using assms
  by (auto simp: prelogin_fields_def prelogin_opts_def prelogin_data_def prelogin_wf_def split: option.splits)

lemma length_table_bytes: "length (table_bytes xs off) = 5 * length xs"
  by (induction xs off rule: table_bytes.induct) auto

lemma prelogin_size:
  assumes "prelogin_wf m"
  shows "length (prelogin_opts m) * 5 + 1 + length (chunks (prelogin_opts m)) \<le> 65535"
  using assms prelogin_instance_props(2) [OF assms]
  by (auto simp: prelogin_opts_def prelogin_wf_def split: option.splits)

lemma prelogin_fold:
  assumes "prelogin_wf m"
  shows "fold (\<lambda>(t, c, f). f) (prelogin_opts m) PreloginMessage_new =
     m\<lparr>pl_encryption := (if pl_encryption m = EncStrict then EncRequired else pl_encryption m), pl_nonce := None\<rparr>"
  using prelogin_instance_props(4) [OF assms]
  by (cases m) (auto simp: prelogin_opts_def PreloginMessage_new_def split: option.splits)

lemma prelogin_encode_eq:
  assumes "prelogin_wf m"
  shows "PreloginMessage_encode m dst =
    (Ok (), dst @ table_bytes (prelogin_opts m) (length (prelogin_opts m) * 5 + 1) @
       PRELOGIN_TERMINATOR # chunks (prelogin_opts m))"
proof -
  have "prelogin_table (prelogin_fields m) (of_nat (length (prelogin_fields m) * 5 + 1)) dst =
     (Ok (), dst @ table_bytes (prelogin_opts m) (length (prelogin_opts m) * 5 + 1))"
    using prelogin_table_bytes [OF prelogin_size [OF assms], of dst]
    by (simp only: prelogin_opts_layout(1) [OF assms] length_map)
  then show ?thesis
    by (simp add: PreloginMessage_encode_def thenR_Ok prelogin_opts_layout(2) [OF assms] put_u8_def put_bytes_def)
qed

lemma prelogin_roundtrip_bytes:
  assumes "prelogin_wf m" and "src = table_bytes (prelogin_opts m) (length (prelogin_opts m) * 5 + 1) @
       PRELOGIN_TERMINATOR # chunks (prelogin_opts m)"
  shows "PreloginMessage_decode src =
    (Ok (m\<lparr>pl_encryption := (if pl_encryption m = EncStrict then EncRequired else pl_encryption m),
           pl_nonce := None\<rparr>), src)"
proof -
  have "drop (length (prelogin_opts m) * 5 + 1) src = chunks (prelogin_opts m)"
    unfolding assms(2) using length_table_bytes by (simp add: mult.commute)
  then have "prelogin_loop src src PreloginMessage_new = Ok (fold (\<lambda>(t, c, f). f) (prelogin_opts m) PreloginMessage_new)"
    using prelogin_loop_table [OF good_prelogin_opts [OF assms(1)] prelogin_size [OF assms(1)]] assms(2) by simp
  then show ?thesis using prelogin_fold [OF assms(1)] by (simp add: PreloginMessage_decode_def)
qed

section \<open>Safety of the decoder\<close>

lemma read_until_nul_returns: "returns (fst (read_until_nul s))"
proof (induction s)
  case (Cons b bs)
  then show ?case by (cases "read_until_nul bs"; cases "fst (read_until_nul bs)") auto
qed simp

lemma safe_prelogin_option [safe_intros]: "safe (prelogin_option t l ret)"
proof -
  have "safe read_until_nul" by (simp add: safe_def read_until_nul_returns)
  then show ?thesis unfolding prelogin_option_def by (intro safe_intros)
qed

lemma prelogin_loop_returns: "returns (prelogin_loop src tbl ret)"
proof (induction src tbl ret rule: prelogin_loop.induct)
  case (1 src ret)
  then show ?case by (simp add: prelogin_loop.simps)
next
  case (2 src token tbl ret)
  show ?case
  proof (cases "\<exists>o1 o2 l1 l2 rest. tbl = o1 # o2 # l1 # l2 # rest")
    case True
    then obtain o1 o2 l1 l2 rest where tbl: "tbl = o1 # o2 # l1 # l2 # rest" by blast
    have "returns (fst (prelogin_option token (from_be [l1, l2]) ret (drop (unat (from_be [o1, o2] :: u16)) src)))"
      using safe_prelogin_option by (simp add: safe_def)
    then show ?thesis using "2" tbl by (auto simp: prelogin_loop.simps(2) split: res.splits)
  qed (auto simp: prelogin_loop.simps(2) split: list.splits)
qed

section \<open>Properties\<close>

text \<open>
  C23: Prelogin round trip. A message whose instance name (if any) is a non-empty
  string without a zero character and at most 65000 bytes long, and whose
  activity id (if any) has 16 bytes, is encoded without error, and decoding the
  encoded bytes yields the same message, with strict encryption advertised as
  required and without the nonce, which the client never sends.
\<close>

theorem prelogin_roundtrip:
  assumes "case pl_instance_name m of None \<Rightarrow> True
      | Some s \<Rightarrow> s \<noteq> [] \<and> valid_str s \<and> 0 \<notin> set s \<and> length (as_bytes s) \<le> 65000"
    and "case pl_activity_id m of None \<Rightarrow> True | Some a \<Rightarrow> length (act_id a) = 16"
  shows "\<exists>bs. PreloginMessage_encode m [] = (Ok (), bs) \<and>
     PreloginMessage_decode bs =
       (Ok (m\<lparr>pl_encryption := (if pl_encryption m = EncStrict then EncRequired else pl_encryption m),
              pl_nonce := None\<rparr>), bs)"
proof -
  have "prelogin_wf m" using assms by (simp add: prelogin_wf_def)
  from prelogin_encode_eq [OF this, of "[]"] prelogin_roundtrip_bytes [OF this refl] show ?thesis by simp
qed

theorem prelogin_roundtrip_witness:
  "\<exists>bs. PreloginMessage_encode (PreloginMessage_new\<lparr>pl_instance_name := Some (lit ''SQL''), pl_encryption := EncStrict\<rparr>) [] = (Ok (), bs) \<and>
     PreloginMessage_decode bs =
       (Ok (PreloginMessage_new\<lparr>pl_instance_name := Some (lit ''SQL''), pl_encryption := EncRequired\<rparr>), bs)"
  using prelogin_roundtrip [of "PreloginMessage_new\<lparr>pl_instance_name := Some (lit ''SQL''), pl_encryption := EncStrict\<rparr>"]
  by (simp add: PreloginMessage_new_def lit_def valid_char_def as_bytes_def utf8_char_def)

text \<open>
  No input crashes or hangs the prelogin decoder: on every byte sequence it
  returns a message or an error, reads nothing but the given bytes and leaves
  them in place, and a message it returns has an option table that ends with the
  terminator.
\<close>

theorem prelogin_decode_safe:
  "\<exists>r. PreloginMessage_decode src = (r, src) \<and> r \<noteq> Panic \<and> r \<noteq> Diverge \<and>
     ((\<exists>m. r = Ok m) \<longrightarrow> (\<exists>k. 5 * k < length src \<and> src ! (5 * k) = PRELOGIN_TERMINATOR))"
proof -
  have "\<exists>k. 5 * k < length tbl \<and> tbl ! (5 * k) = PRELOGIN_TERMINATOR"
    if "prelogin_loop src tbl ret = Ok m" for tbl ret m
    using that
  proof (induction src tbl ret rule: prelogin_loop.induct)
    case (2 src token tbl ret)
    show ?case
    proof (cases "token = PRELOGIN_TERMINATOR")
      case False
      with "2.prems" obtain o1 o2 l1 l2 rest ret' where tbl: "tbl = o1 # o2 # l1 # l2 # rest"
        and step: "fst (prelogin_option token (from_be [l1, l2]) ret (drop (unat (from_be [o1, o2] :: u16)) src)) = Ok ret'"
        and loop: "prelogin_loop src rest ret' = Ok m"
        by (auto simp: prelogin_loop.simps(2) split: list.splits res.splits)
      from "2.IH" [OF False tbl refl refl refl step loop]
      obtain k where "5 * k < length rest" "rest ! (5 * k) = PRELOGIN_TERMINATOR" by blast
      then show ?thesis using tbl by (intro exI [of _ "Suc k"]) (simp add: numeral_eq_Suc)
    qed (auto intro: exI [of _ 0])
  qed (simp add: prelogin_loop.simps)
  then show ?thesis using prelogin_loop_returns [of src src PreloginMessage_new]
    by (auto simp: PreloginMessage_decode_def returns_def)
qed

theorem prelogin_decode_safe_witness:
  "fst (PreloginMessage_decode [4, 0, 6, 0, 1, 255, 1]) \<noteq> Panic \<and>
   (\<exists>k. 5 * k < length [4, 0, 6, 0, 1, 255, 1 :: u8] \<and> [4, 0, 6, 0, 1, 255, 1] ! (5 * k) = PRELOGIN_TERMINATOR)"
proof -
  have "\<exists>m. fst (PreloginMessage_decode [4, 0, 6, 0, 1, 255, 1]) = Ok m"
    by (simp add: PreloginMessage_decode_def prelogin_loop.simps prelogin_option_def prelogin_tokens wire_simps wire_eval)
  then show ?thesis using prelogin_decode_safe [of "[4, 0, 6, 0, 1, 255, 1]"] by force
qed

text \<open>
  Encryption negotiation never downgrades. A client that asked for
  encryption (on, required or strict) either gets a fully encrypted connection
  or an error, and the error is exactly the answer to a server that declined;
  strict stays strict. A client that asked for less gets its own level only when
  the server answers with the same one, and full encryption otherwise.
\<close>

lemma negotiation_no_downgrade:
  "PreloginMessage_negotiated_encryption m expected =
     (if expected = EncStrict then Ok EncStrict
      else if expected \<in> {EncOn, EncRequired} then
        (if pl_encryption m \<in> {EncOff, EncNotSupported}
         then Err (Protocol (PreloginMsg EncryptionNotAllowed)) else Ok EncOn)
      else if pl_encryption m = expected then Ok expected
      else Ok EncOn)"
  unfolding PreloginMessage_negotiated_encryption_def
  by (cases expected; cases "pl_encryption m") simp_all

end
