(* ===== verification/Tds_Value.thy ===== *)
theory Tds_Value
  imports Tds_TypeInfo Tds_Numeric Tds_Time Tds_Float Tds_Prelogin
begin

text \<open>
  Column values and their decoders: the value type of
  \<^verbatim>\<open>tds/codec/column_data.rs\<close>, partially length-prefixed data (\<^verbatim>\<open>plp.rs\<close>), and
  one decoder per file below \<^verbatim>\<open>tds/codec/column_data/\<close>, up to the dispatch on the
  column type. Floating point values are bit patterns, a GUID is its 16 bytes.
\<close>

section \<open>Values\<close>

record XmlData =
  xml_data :: rstring
  xml_schema :: "XmlSchema option"

definition XmlData_new :: "rstring \<Rightarrow> XmlData" where
  "XmlData_new s = \<lparr>xml_data = s, xml_schema = None\<rparr>"

definition XmlData_set_schema :: "XmlSchema \<Rightarrow> XmlData \<Rightarrow> XmlData" where
  "XmlData_set_schema sch x = x\<lparr>xml_schema := Some sch\<rparr>"

datatype ColumnData =
    CU8 "u8 option"
  | CI16 "u16 option"
  | CI32 "u32 option"
  | CI64 "u64 option"
  | CF32 "u32 option"
  | CF64 "u64 option"
  | CBit "bool option"
  | CString "rstring option"
  | CGuid "bytes option"
  | CBinary "bytes option"
  | CNumeric "Numeric option"
  | CXml "XmlData option"
  | CDateTime "DateTime option"
  | CSmallDateTime "SmallDateTime option"
  | CTime "Time option"
  | CDate "Date option"
  | CDateTime2 "DateTime2 option"
  | CDateTimeOffset "DateTimeOffset option"

text \<open>What a value decoder takes from the connection: the two lossy-decoding
  switches of \<^verbatim>\<open>Context\<close>, the encodings of \<^verbatim>\<open>encoding_rs\<close>, and the powers of ten
  \<^verbatim>\<open>10f64.powi(n)\<close> of the target, whose last bit Rust leaves unspecified.\<close>

record value_env =
  env_lossy_utf16 :: bool
  env_lossy_codepage :: bool
  env_lib :: encoding_lib
  env_powi10 :: "int \<Rightarrow> u64"

text \<open>Strict decoding, ASCII only and correctly rounded powers, to evaluate the model with.\<close>

definition strict_env :: value_env where
  "strict_env = \<lparr>env_lossy_utf16 = False, env_lossy_codepage = False, env_lib = ascii_lib,
     env_powi10 = (\<lambda>n. if 0 \<le> n then round_f64 False (10 ^ nat n) 1 else round_f64 False 1 (10 ^ nat (- n)))\<rparr>"

section \<open>Partially length-prefixed data\<close>

definition MAX_PLP_SIZE :: nat where "MAX_PLP_SIZE = 2 ^ 31 - 1"

definition plp_chunk :: "bytes \<Rightarrow> (bytes, bytes + bytes) comp" where
  "plp_chunk dat =
     bindR read_u32_le (\<lambda>chunk_size.
     if chunk_size = 0 then retR (Inr dat)
     else if length dat + unat chunk_size > MAX_PLP_SIZE then errR (Protocol (ValueMsg PlpTooLong))
     else bindR (read_bytes_into dat (unat chunk_size) MAX_PREALLOC) (\<lambda>dat'. retR (Inl dat')))"

definition plp_decode :: "nat \<Rightarrow> (bytes, bytes option) comp" where
  "plp_decode len =
     (if len < 0xffff then
        bindR read_u16_le (\<lambda>n.
        if n = 0xffff then retR None
        else bindR (read_bytes_into [] (unat n) MAX_PREALLOC) (\<lambda>dat. retR (Some dat)))
      else
        bindR read_u64_le (\<lambda>n.
        if n = 0xffffffffffffffff then retR None
        else bindR (loopR plp_chunk []) (\<lambda>dat. retR (Some dat))))"

section \<open>Decoders of scalar types\<close>

definition int_decode :: "nat \<Rightarrow> (bytes, ColumnData) comp" where
  "int_decode type_len =
     bindR read_u8 (\<lambda>recv_len.
     if recv_len = 0 then
       retR (if type_len = 1 then CU8 None else if type_len = 2 then CI16 None
             else if type_len = 4 then CI32 None else CI64 None)
     else if recv_len = 1 then bindR read_u8 (\<lambda>v. retR (CU8 (Some v)))
     else if recv_len = 2 then bindR read_i16_le (\<lambda>v. retR (CI16 (Some v)))
     else if recv_len = 4 then bindR read_i32_le (\<lambda>v. retR (CI32 (Some v)))
     else if recv_len = 8 then bindR read_i64_le (\<lambda>v. retR (CI64 (Some v)))
     else errR (Protocol (ValueMsg (InvalidLength ''intn'' (unat recv_len)))))"

definition bit_decode :: "(bytes, ColumnData) comp" where
  "bit_decode =
     bindR read_u8 (\<lambda>recv_len.
     if recv_len = 0 then retR (CBit None)
     else if recv_len = 1 then bindR read_u8 (\<lambda>v. retR (CBit (Some (v > 0))))
     else errR (Protocol (ValueMsg (InvalidLength ''bitn'' (unat recv_len)))))"

definition float_decode :: "nat \<Rightarrow> (bytes, ColumnData) comp" where
  "float_decode type_len =
     bindR read_u8 (\<lambda>len.
     if len = 0 then retR (if type_len = 4 then CF32 None else CF64 None)
     else if len = 4 then bindR read_f32_le (\<lambda>v. retR (CF32 (Some v)))
     else if len = 8 then bindR read_f64_le (\<lambda>v. retR (CF64 (Some v)))
     else errR (Protocol (ValueMsg (InvalidLength ''floatn'' (unat len)))))"

definition guid_decode :: "(bytes, ColumnData) comp" where
  "guid_decode =
     bindR read_u8 (\<lambda>len.
     if len = 0 then retR (CGuid None)
     else if len = 16 then
       bindR (read_bytes_into [] 16 16) (\<lambda>buf. retR (CGuid (Some (reorder_bytes buf))))
     else errR (Protocol (ValueMsg (InvalidLength ''guid'' (unat len)))))"

definition date_decode :: "(bytes, ColumnData) comp" where
  "date_decode =
     bindR read_u8 (\<lambda>len.
     if len = 0 then retR (CDate None)
     else if len = 3 then bindR Date_decode (\<lambda>d. retR (CDate (Some d)))
     else errR (Protocol (ValueMsg (InvalidLength ''daten'' (unat len)))))"

definition time_decode :: "nat \<Rightarrow> (bytes, ColumnData) comp" where
  "time_decode len =
     bindR read_u8 (\<lambda>rlen.
     if rlen = 0 then retR (CTime None)
     else if 3 \<le> rlen \<and> rlen \<le> 5 then bindR (Time_decode len (unat rlen)) (\<lambda>t. retR (CTime (Some t)))
     else errR (Protocol (ValueMsg (ValueLength ''timen'' rlen))))"

definition datetimen_decode :: "u8 \<Rightarrow> u8 \<Rightarrow> (bytes, ColumnData) comp" where
  "datetimen_decode rlen len =
     (if rlen = 0 \<and> len = 4 then retR (CSmallDateTime None)
      else if rlen = 0 \<and> len = 8 then retR (CDateTime None)
      else if rlen = 4 then bindR SmallDateTime_decode (\<lambda>d. retR (CSmallDateTime (Some d)))
      else if rlen = 8 then bindR DateTime_decode (\<lambda>d. retR (CDateTime (Some d)))
      else errR (Protocol (ValueMsg (InvalidLength ''datetimen'' (unat len)))))"

definition datetime2_decode :: "nat \<Rightarrow> (bytes, ColumnData) comp" where
  "datetime2_decode len =
     bindR read_u8 (\<lambda>rlen.
     if rlen = 0 then retR (CDateTime2 None)
     else if unat rlen < 3 then errR (Protocol (ValueMsg (ValueLength ''datetime2'' rlen)))
     else bindR (DateTime2_decode len (unat rlen - 3)) (\<lambda>d. retR (CDateTime2 (Some d))))"

definition datetimeoffsetn_decode :: "nat \<Rightarrow> (bytes, ColumnData) comp" where
  "datetimeoffsetn_decode len =
     bindR read_u8 (\<lambda>rlen.
     if rlen = 0 then retR (CDateTimeOffset None)
     else if rlen < 5 then errR (Protocol (ValueMsg (ValueLength ''datetimeoffset'' rlen)))
     else bindR (DateTimeOffset_decode len (rlen - 5)) (\<lambda>d. retR (CDateTimeOffset (Some d))))"

text \<open>\<^verbatim>\<open>money::decode\<close>: the integer divided by \<^verbatim>\<open>1e4\<close>. In the wide form the high word
  is shifted and added to the low word as doubles.\<close>

definition money_decode :: "u8 \<Rightarrow> (bytes, ColumnData) comp" where
  "money_decode len =
     (if len = 0 then retR (CF64 None)
      else if len = 4 then
        bindR read_i32_le (\<lambda>v. retR (CF64 (Some (f64_div_int (f64_of_int (sint v)) 10000))))
      else if len = 8 then
        bindR read_i32_le (\<lambda>high.
        bindR read_u32_le (\<lambda>low.
        retR (CF64 (Some (f64_div_int
          (f64_add (f64_of_int (sint high * 2 ^ 32)) (f64_of_int (uint low))) 10000)))))
      else errR (Protocol (ValueMsg (InvalidLength ''money'' (unat len)))))"

definition binary_decode :: "nat \<Rightarrow> (bytes, ColumnData) comp" where
  "binary_decode len = bindR (plp_decode len) (\<lambda>d. retR (CBinary d))"

definition image_decode :: "(bytes, ColumnData) comp" where
  "image_decode =
     bindR read_u8 (\<lambda>ptr_len.
     if ptr_len = 0 then retR (CBinary None)
     else
       bindR (read_bytes_into [] (unat ptr_len) MAX_PREALLOC) (\<lambda>_.
       bindR read_i32_le (\<lambda>_.
       bindR read_u32_le (\<lambda>_.
       bindR read_u32_le (\<lambda>len.
       bindR (read_bytes_into [] (unat len) MAX_PREALLOC) (\<lambda>buf.
       retR (CBinary (Some buf))))))))"

text \<open>Character data of a code page, strict or lossy.\<close>

definition codepage_string :: "value_env \<Rightarrow> Collation \<Rightarrow> bytes \<Rightarrow> rstring res" where
  "codepage_string env collation buf =
     (case Collation_codec collation of
        Ok codec \<Rightarrow>
          if env_lossy_codepage env then Ok (CollationCodec_decode_lossy (env_lib env) codec buf)
          else (case CollationCodec_decode (env_lib env) codec buf of
                  Some s \<Rightarrow> Ok s
                | None \<Rightarrow> Err (Encoding (lit ''invalid sequence'')))
      | Err e \<Rightarrow> Err e | Panic \<Rightarrow> Panic | Diverge \<Rightarrow> Diverge)"

text \<open>\<^verbatim>\<open>chunks(2)\<close> of an even-length buffer, as UTF-16 units.\<close>

fun units_of :: "bytes \<Rightarrow> u16 list" where
  "units_of (a # b # rest) = from_le [a, b] # units_of rest"
| "units_of _ = []"

text \<open>\<^verbatim>\<open>text.rs\<close>: a text pointer, a timestamp, and the data; \<^verbatim>\<open>NTEXT\<close> when there is no collation.\<close>

definition text_decode :: "value_env \<Rightarrow> Collation option \<Rightarrow> (bytes, ColumnData) comp" where
  "text_decode env collation =
     bindR read_u8 (\<lambda>ptr_len.
     if ptr_len = 0 then retR (CString None)
     else
       bindR (read_bytes_into [] (unat ptr_len) MAX_PREALLOC) (\<lambda>_.
       bindR read_i32_le (\<lambda>_.
       bindR read_u32_le (\<lambda>_.
       bindR
         (case collation of
            Some c \<Rightarrow>
              bindR (liftR (Collation_codec c)) (\<lambda>_.
              bindR read_u32_le (\<lambda>text_len.
              bindR (read_bytes_into [] (unat text_len) MAX_PREALLOC) (\<lambda>buf.
              liftR (codepage_string env c buf))))
          | None \<Rightarrow>
              bindR read_u32_le (\<lambda>byte_len.
              if odd (unat byte_len) then errR (Protocol (ValueMsg (NTextLength (unat byte_len))))
              else
                bindR (read_bytes_into [] (unat byte_len) MAX_PREALLOC) (\<lambda>raw.
                if env_lossy_utf16 env then retR (from_utf16_lossy (units_of raw))
                else ok_or (from_utf16 (units_of raw)) Utf16)))
         (\<lambda>text. retR (CString (Some text)))))))"

definition string_decode :: "value_env \<Rightarrow> VarLenType \<Rightarrow> nat \<Rightarrow> Collation option \<Rightarrow> (bytes, rstring option) comp" where
  "string_decode env ty len collation =
     bindR (plp_decode len) (\<lambda>dat.
     case dat of
       None \<Rightarrow> retR None
     | Some buf \<Rightarrow>
       if ty \<in> {VBigChar, VBigVarChar} then
         bindR (ok_or collation (Protocol (ValueMsg MissingCollation))) (\<lambda>c.
         bindR (liftR (codepage_string env c buf)) (\<lambda>s. retR (Some s)))
       else if length buf mod 2 \<noteq> 0 then errR (Protocol (ValueMsg NVarcharLength))
       else if ty \<in> {VNChar, VNVarchar} \<and> env_lossy_utf16 env then
         retR (Some (from_utf16_lossy (units_of buf)))
       else bindR (ok_or (from_utf16 (units_of buf)) (Protocol (ValueMsg NVarcharUtf16))) (\<lambda>s. retR (Some s)))"

definition xml_decode :: "value_env \<Rightarrow> nat \<Rightarrow> XmlSchema option \<Rightarrow> (bytes, ColumnData) comp" where
  "xml_decode env len schema =
     bindR (string_decode env VXml len None) (\<lambda>s.
     retR (CXml (map_option (\<lambda>d.
       case schema of None \<Rightarrow> XmlData_new d | Some sch \<Rightarrow> XmlData_set_schema sch (XmlData_new d)) s)))"

definition udt_decode :: "(bytes, ColumnData) comp" where
  "udt_decode = bindR (plp_decode 0xffffffff) (\<lambda>d. retR (CBinary d))"

section \<open>Fixed-length types\<close>

fun fixed_len_decode :: "FixedLenType \<Rightarrow> (bytes, ColumnData) comp" where
  "fixed_len_decode FNull = retR (CI32 None)"
| "fixed_len_decode FBit = bindR read_u8 (\<lambda>v. retR (CBit (Some (v \<noteq> 0))))"
| "fixed_len_decode FInt1 = bindR read_u8 (\<lambda>v. retR (CU8 (Some v)))"
| "fixed_len_decode FInt2 = bindR read_i16_le (\<lambda>v. retR (CI16 (Some v)))"
| "fixed_len_decode FInt4 = bindR read_i32_le (\<lambda>v. retR (CI32 (Some v)))"
| "fixed_len_decode FInt8 = bindR read_i64_le (\<lambda>v. retR (CI64 (Some v)))"
| "fixed_len_decode FFloat4 = bindR read_f32_le (\<lambda>v. retR (CF32 (Some v)))"
| "fixed_len_decode FFloat8 = bindR read_f64_le (\<lambda>v. retR (CF64 (Some v)))"
| "fixed_len_decode FDatetime = datetimen_decode 8 8"
| "fixed_len_decode FDatetime4 = datetimen_decode 4 8"
| "fixed_len_decode FMoney4 = money_decode 4"
| "fixed_len_decode FMoney = money_decode 8"

section \<open>Readers\<close>

lemma MAX_PREALLOC_pos [simp]: "0 < MAX_PREALLOC"
  by (simp add: MAX_PREALLOC_def)

lemma reader_plp_chunk [reader_intros]: "reader (plp_chunk d)"
  unfolding plp_chunk_def by (intro reader_intros)

lemma reader_plp [reader_intros]: "reader (plp_decode n)"
  unfolding plp_decode_def by (intro reader_intros)

lemma consumes_plp_chunk: "consumes (plp_chunk d)"
  unfolding plp_chunk_def by (intro consumes_intros reader_intros)

lemma safe_plp_chunk [safe_intros]: "safe (plp_chunk d)"
  unfolding plp_chunk_def by (intro safe_intros) simp

lemma safe_plp [safe_intros]: "safe (plp_decode n)"
  unfolding plp_decode_def by (intro safe_intros consumes_plp_chunk) simp

lemma reader_scalars [reader_intros]:
  "reader (int_decode n)" "reader bit_decode" "reader (float_decode n)" "reader guid_decode" "reader date_decode"
  "reader (time_decode n)" "reader (datetimen_decode a b)" "reader (datetime2_decode n)"
  "reader (datetimeoffsetn_decode n)" "reader (money_decode a)" "reader (binary_decode n)" "reader image_decode"
  "reader udt_decode"
  unfolding int_decode_def bit_decode_def float_decode_def guid_decode_def date_decode_def time_decode_def
    datetimen_decode_def datetime2_decode_def datetimeoffsetn_decode_def money_decode_def binary_decode_def
    image_decode_def udt_decode_def
  by (intro reader_intros)+

lemma safe_scalars [safe_intros]:
  "safe (int_decode n)" "safe bit_decode" "safe (float_decode n)" "safe guid_decode" "safe date_decode"
  "safe (time_decode n)" "safe (datetimen_decode a b)" "safe (datetime2_decode n)"
  "safe (datetimeoffsetn_decode n)" "safe (money_decode a)" "safe (binary_decode n)" "safe image_decode"
  "safe udt_decode"
  unfolding int_decode_def bit_decode_def float_decode_def guid_decode_def date_decode_def time_decode_def
    datetimen_decode_def datetime2_decode_def datetimeoffsetn_decode_def money_decode_def binary_decode_def
    image_decode_def udt_decode_def
  by (intro safe_intros; simp)+

lemma returns_codepage_string [simp]: "returns (codepage_string env c buf)" "returns (Collation_codec c)"
  by (auto simp: codepage_string_def Collation_codec_def Collation_encoding_def Let_def split: option.splits)

lemma reader_strings [reader_intros]:
  "reader (text_decode env c)" "reader (string_decode env ty n c)" "reader (xml_decode env n sch)"
  unfolding text_decode_def xml_decode_def string_decode_def by (intro reader_intros)+

lemma safe_string_decode [safe_intros]: "safe (string_decode env ty n c)"
  unfolding string_decode_def by (intro safe_intros) simp

lemma safe_texts [safe_intros]: "safe (text_decode env c)" "safe (xml_decode env n sch)"
  unfolding text_decode_def xml_decode_def by (intro safe_intros; simp)+

lemma reader_fixed_len [reader_intros]: "reader (fixed_len_decode ty)"
  by (cases ty) (simp_all add: reader_intros)

lemma safe_fixed_len [safe_intros]: "safe (fixed_len_decode ty)"
  by (cases ty) (simp_all add: safe_intros)

section \<open>Chunked data\<close>

definition plp_wire :: "bytes list \<Rightarrow> bytes" where
  "plp_wire cs = concat (map (\<lambda>c. le_bytes 4 (of_nat (length c) :: u32) @ c) cs) @ le_bytes 4 (0 :: u32)"

lemma plp_chunk_step:
  assumes "c \<noteq> []" "length dat + length c \<le> MAX_PLP_SIZE"
  shows "plp_chunk dat (le_bytes 4 (of_nat (length c) :: u32) @ c @ rest) = (Ok (Inl (dat @ c)), rest)"
proof -
  have "length c < 2 ^ 32" using assms(2) by (simp add: MAX_PLP_SIZE_def)
  then have u: "unat (of_nat (length c) :: u32) = length c" by (simp add: unat_of_nat)
  then have nz: "(of_nat (length c) :: u32) \<noteq> 0" using assms(1) by (metis length_0_conv unat_0)
  have "read_bytes_into dat (length c) MAX_PREALLOC (c @ rest) = (Ok (dat @ c), rest)"
    using read_bytes_into_enough [of MAX_PREALLOC "length c" "c @ rest" dat] by simp
  then show ?thesis using assms(2) u nz by (simp add: plp_chunk_def wire_simps)
qed

lemmas plp_loop = loopR_unfold [where body = plp_chunk, OF consumes_plp_chunk]

lemma plp_loop_cs:
  assumes "\<forall>c\<in>set cs. c \<noteq> []" "length dat + length (concat cs) \<le> MAX_PLP_SIZE"
  shows "loopR plp_chunk dat (plp_wire cs @ rest) = (Ok (dat @ concat cs), rest)"
  using assms
proof (induction cs arbitrary: dat)
  case Nil
  have "plp_chunk dat (le_bytes 4 (0 :: u32) @ rest) = (Ok (Inr dat), rest)" by (simp add: plp_chunk_def wire_simps)
  then show ?case by (simp add: plp_loop [of dat] plp_wire_def bindR_def retR_def)
next
  case (Cons c cs)
  have "loopR plp_chunk dat (plp_wire (c # cs) @ rest) = loopR plp_chunk (dat @ c) (plp_wire cs @ rest)"
    using plp_chunk_step [of c dat "plp_wire cs @ rest"] Cons.prems
    by (simp add: plp_loop [of dat] plp_wire_def bindR_def)
  then show ?case using Cons.IH [of "dat @ c"] Cons.prems by simp
qed

text \<open>
  C34: Chunked data is the concatenation of its chunks, however it is cut. A
  value sent in non-empty cs with the terminator after them, of known or
  unknown total length, is read as the concatenation of the cs, and reading
  stops right behind the terminator.
\<close>

theorem plp_concat:
  assumes "\<forall>c\<in>set cs. c \<noteq> []" "length (concat cs) \<le> MAX_PLP_SIZE" "announced \<noteq> 0xffffffffffffffff"
    and "0xffff \<le> len"
  shows "plp_decode len (le_bytes 8 (announced :: u64) @ concat (map (\<lambda>c. le_bytes 4 (of_nat (length c) :: u32) @ c) cs) @
       le_bytes 4 (0 :: u32) @ rest) = (Ok (Some (concat cs)), rest)"
  using plp_loop_cs [of cs "[]" rest] assms by (simp add: plp_decode_def plp_wire_def wire_simps)

theorem plp_concat_witness:
  "plp_decode 0xffff ([3, 0, 0, 0, 0, 0, 0, 0, 2, 0, 0, 0, 7, 8, 1, 0, 0, 0, 9, 0, 0, 0, 0] @ [5]) =
     (Ok (Some [7, 8, 9]), [5])"
  using plp_concat [of "[[7, 8], [9]]" 3 "0xffff" "[5]"]
  by (simp add: MAX_PLP_SIZE_def wire_eval)

lemma read_bytes_into_OkD:
  assumes "read_bytes_into dst n cap s = (Ok v, s')" "0 < cap"
  shows "n \<le> length s" "v = dst @ take n s" "s' = drop n s"
proof -
  show n: "n \<le> length s"
    using assms read_bytes_into_short [of cap s n dst] by (cases "n \<le> length s") auto
  show "v = dst @ take n s" "s' = drop n s" using assms read_bytes_into_enough [OF assms(2) n, of dst] by simp_all
qed

lemma plp_loop_bound:
  "loopR plp_chunk dat s = (Ok v, s') \<Longrightarrow> length dat \<le> MAX_PLP_SIZE \<Longrightarrow>
     length v \<le> MAX_PLP_SIZE \<and> length v + length s' < length dat + length s"
proof (induction "length s" arbitrary: s dat rule: less_induct)
  case less
  from less.prems(1) obtain r s1 where r: "plp_chunk dat s = (Ok r, s1)"
    and k: "(case r of Inl y \<Rightarrow> loopR plp_chunk y | Inr a \<Rightarrow> retR a) s1 = (Ok v, s')"
    by (auto simp: plp_loop [of dat] bindR_eq_Ok)
  have short: "length s1 < length s" using consumes_plp_chunk r by (simp add: consumes_def)
  from r obtain c s0 where c: "read_u32_le s = (Ok c, s0)" by (auto simp: plp_chunk_def bindR_eq_Ok)
  then have s0: "length s0 < length s" using consumes_fixed(3) by (simp add: consumes_def)
  show ?case
  proof (cases r)
    case (Inr a)
    then have "a = dat" "v = a" "s' = s1" using k r c
      by (auto simp: retR_def plp_chunk_def bindR_eq_Ok errR_def split: if_splits)
    then show ?thesis using short less.prems(2) by simp
  next
    case (Inl y)
    then have rd: "read_bytes_into dat (unat c) MAX_PREALLOC s0 = (Ok y, s1)" "length dat + unat c \<le> MAX_PLP_SIZE"
      using r c by (auto simp: retR_def plp_chunk_def bindR_eq_Ok errR_def split: if_splits)
    from read_bytes_into_OkD [OF rd(1)] have "unat c \<le> length s0" "y = dat @ take (unat c) s0" "s1 = drop (unat c) s0"
      by simp_all
    then have "length y = length dat + unat c" "length s1 + unat c = length s0" by auto
    moreover have "length v \<le> MAX_PLP_SIZE \<and> length v + length s' < length y + length s1"
      using less.hyps [OF short, of y] k Inl calculation rd(2) by simp
    ultimately show ?thesis using s0 by linarith
  qed
qed

text \<open>
  C35: No value outgrows its bound. A chunked value that is accepted is at most
  \<open>2 ^ 31 - 1\<close> bytes long and never longer than the input it was read from, so
  the buffer a server can make the client hold is bounded by the bytes it sent.
\<close>

theorem plp_bounded:
  assumes "plp_decode len s = (Ok (Some v), s')"
  shows "length v \<le> MAX_PLP_SIZE \<and> length v + length s' < length s"
proof (cases "len < 0xffff")
  case True
  with assms obtain n s1 where "read_u16_le s = (Ok n, s1)" "read_bytes_into [] (unat n) MAX_PREALLOC s1 = (Ok v, s')"
    by (auto simp: plp_decode_def bindR_eq_Ok retR_def split: if_splits)
  moreover from this have "length s1 < length s" using consumes_fixed(2) by (simp add: consumes_def)
  ultimately show ?thesis
    using read_bytes_into_OkD [of "[]" "unat n" MAX_PREALLOC s1 v s'] unat_u16_less [of n] by (auto simp: MAX_PLP_SIZE_def)
next
  case False
  with assms obtain n s1 where "read_u64_le s = (Ok n, s1)" and l: "loopR plp_chunk [] s1 = (Ok v, s')"
    by (auto simp: plp_decode_def bindR_eq_Ok retR_def split: if_splits)
  moreover from this have "length s1 < length s" using consumes_fixed(4) by (simp add: consumes_def)
  ultimately show ?thesis using plp_loop_bound [OF l] by simp
qed

theorem plp_bounded_witness:
  "\<exists>v s'. plp_decode 0xffff ([0xFE, 0xFF, 0xFF, 0xFF, 0xFF, 0xFF, 0xFF, 0xFF, 2, 0, 0, 0, 7, 8, 1, 0, 0, 0, 9, 0, 0, 0, 0] @ [5]) = (Ok (Some v), s') \<and>
     v = [7, 8, 9] \<and> s' = [5] \<and> length v \<le> MAX_PLP_SIZE \<and> length v + length s' < 24"
proof -
  have "plp_decode 0xffff ([0xFE, 0xFF, 0xFF, 0xFF, 0xFF, 0xFF, 0xFF, 0xFF, 2, 0, 0, 0, 7, 8, 1, 0, 0, 0, 9, 0, 0, 0, 0] @ [5]) = (Ok (Some [7, 8, 9]), [5])"
    using plp_loop_cs [of "[[7, 8], [9]]" "[]" "[5]"]
    by (simp add: plp_decode_def plp_wire_def MAX_PLP_SIZE_def read_u64_le_def read_le_def read_n_def bindR_def retR_def wire_eval)
  from plp_bounded [OF this] this show ?thesis by simp
qed

end
