(* ===== verification/Tds_Variant.thy ===== *)
theory Tds_Variant
  imports Tds_Value
begin

text \<open>
  The \<^verbatim>\<open>sql_variant\<close> value (\<^verbatim>\<open>tds/codec/column_data/sql_variant.rs\<close>): a value with
  its own base type and properties, decoded to the value of the base type and
  encoded from it.
\<close>

section \<open>Decoding\<close>

definition MAX_VARIANT_PAYLOAD :: nat where "MAX_VARIANT_PAYLOAD = 8000"

definition variant_read_bytes :: "nat \<Rightarrow> (bytes, bytes) comp" where
  "variant_read_bytes len = read_bytes_into [] len MAX_PREALLOC"

abbreviation variant_err :: "variant_msg \<Rightarrow> (bytes, 'a) comp" where
  "variant_err m \<equiv> errR (Protocol (ValueMsg (Variant m)))"

definition check_prop_bytes :: "nat \<Rightarrow> nat \<Rightarrow> (bytes, unit) comp" where
  "check_prop_bytes got want = (if got \<noteq> want then variant_err (VariantProps want got) else retR ())"

definition check_data_len :: "nat \<Rightarrow> nat \<Rightarrow> (bytes, unit) comp" where
  "check_data_len got want = (if got \<noteq> want then variant_err (VariantDataLen want got) else retR ())"

definition variant_read_collation :: "(bytes, Collation) comp" where
  "variant_read_collation = bindR read_u32_le (\<lambda>info. bindR read_u8 (\<lambda>sort_id. retR (Collation_new info sort_id)))"

text \<open>\<^verbatim>\<open>checked_mul\<close> and \<^verbatim>\<open>checked_add\<close> on \<^verbatim>\<open>i128\<close>.\<close>

definition checked :: "int \<Rightarrow> int option" where
  "checked v = (if i128_ok v then Some v else None)"

definition variant_magnitude :: "bytes \<Rightarrow> (bytes, int) comp" where
  "variant_magnitude magnitude =
     (if length magnitude = 4 \<or> length magnitude = 8 then retR (int (le_nat magnitude))
      else if length magnitude = 12 \<or> length magnitude = 16 then
        ok_or (Option.bind (checked (int (le_nat (drop 8 magnitude)) * 2 ^ 64))
                 (\<lambda>hi. checked (hi + int (le_nat (take 8 magnitude)))))
          (Protocol (ValueMsg (Variant VariantNumericRange)))
      else variant_err (VariantNumericLength (length magnitude)))"

definition variant_decode_numeric :: "nat \<Rightarrow> u8 \<Rightarrow> (bytes, ColumnData) comp" where
  "variant_decode_numeric data_len sc =
     (if data_len = 0 then variant_err VariantEmptyNumeric
      else if sc > 38 then variant_err (VariantNumericScale sc)
      else
        bindR read_u8 (\<lambda>sg.
        bindR (if sg = 0 then retR (-1) else if sg = 1 then retR 1 else variant_err VariantNumericSign) (\<lambda>sign :: int.
        bindR (variant_read_bytes (data_len - 1)) (\<lambda>magnitude.
        bindR (variant_magnitude magnitude) (\<lambda>v.
        bindR (ok_or (checked (v * sign)) (Protocol (ValueMsg (Variant VariantNumericRange)))) (\<lambda>v.
        bindR (liftR (Numeric_new_with_scale v sc)) (\<lambda>n. retR (CNumeric (Some n)))))))))"

definition variant_decode_value :: "value_env \<Rightarrow> VarLenType \<Rightarrow> nat \<Rightarrow> nat \<Rightarrow> (bytes, ColumnData) comp" where
  "variant_decode_value env var prop_bytes data_len =
     (if var = VGuid then
        thenR (check_prop_bytes prop_bytes 0) (thenR (check_data_len data_len 16)
          (bindR (variant_read_bytes 16) (\<lambda>bs. retR (CGuid (Some (reorder_bytes bs))))))
      else if var \<in> {VDecimaln, VNumericn} then
        thenR (check_prop_bytes prop_bytes 2)
          (bindR read_u8 (\<lambda>_. bindR read_u8 (\<lambda>sc. variant_decode_numeric data_len sc)))
      else if var \<in> {VBigChar, VBigVarChar} then
        thenR (check_prop_bytes prop_bytes 7)
          (bindR variant_read_collation (\<lambda>collation.
           bindR read_u16_le (\<lambda>_.
           bindR (variant_read_bytes data_len) (\<lambda>buf.
           bindR (liftR (codepage_string env collation buf)) (\<lambda>s. retR (CString (Some s)))))))
      else if var \<in> {VNChar, VNVarchar} then
        thenR (check_prop_bytes prop_bytes 7)
          (bindR variant_read_collation (\<lambda>_.
           bindR read_u16_le (\<lambda>_.
           bindR (variant_read_bytes data_len) (\<lambda>buf.
           if length buf mod 2 \<noteq> 0 then variant_err VariantNCharLength
           else bindR (ok_or (from_utf16 (units_of buf)) Utf16) (\<lambda>s. retR (CString (Some s)))))))
      else if var \<in> {VBigBinary, VBigVarBin} then
        thenR (check_prop_bytes prop_bytes 2)
          (bindR read_u16_le (\<lambda>_.
           bindR (variant_read_bytes data_len) (\<lambda>buf. retR (CBinary (Some buf)))))
      else if var = VDaten then
        thenR (check_prop_bytes prop_bytes 0) (thenR (check_data_len data_len 3)
          (bindR Date_decode (\<lambda>d. retR (CDate (Some d)))))
      else if var = VTimen then
        thenR (check_prop_bytes prop_bytes 1)
          (bindR read_u8 (\<lambda>sc. bindR (Time_decode (unat sc) data_len) (\<lambda>t. retR (CTime (Some t)))))
      else if var = VDatetime2 then
        thenR (check_prop_bytes prop_bytes 1)
          (bindR read_u8 (\<lambda>sc.
           if data_len < 3 then variant_err VariantDateTime2Short
           else bindR (DateTime2_decode (unat sc) (data_len - 3)) (\<lambda>d. retR (CDateTime2 (Some d)))))
      else if var = VDatetimeOffsetn then
        thenR (check_prop_bytes prop_bytes 1)
          (bindR read_u8 (\<lambda>sc.
           if data_len < 5 then variant_err VariantOffsetShort
           else if data_len - 5 > 255 then variant_err VariantOffsetLong
           else bindR (DateTimeOffset_decode (unat sc) (of_nat (data_len - 5))) (\<lambda>d. retR (CDateTimeOffset (Some d)))))
      else variant_err (VariantUnsupportedBase (VarLenType_value var)))"

definition variant_decode :: "value_env \<Rightarrow> (bytes, ColumnData) comp" where
  "variant_decode env =
     bindR read_u32_le (\<lambda>n.
     let total_len = unat n in
     if total_len = 0 then retR (CString None)
     else if total_len < 2 then variant_err (VariantTotal total_len)
     else
       bindR read_u8 (\<lambda>base_type.
       bindR read_u8 (\<lambda>pb.
       let prop_bytes = unat pb; data_len = total_len - 2 - prop_bytes in
       if total_len < 2 + prop_bytes then variant_err (VariantTooSmall total_len prop_bytes)
       else if data_len > MAX_VARIANT_PAYLOAD then variant_err (VariantTooLong data_len)
       else
         (case FixedLenType_try_from base_type of
            Some fixed \<Rightarrow>
              if prop_bytes \<noteq> 0 then variant_err (VariantFixedProps (FixedLenType_value fixed))
              else fixed_len_decode fixed
          | None \<Rightarrow>
              bindR (ok_or (VarLenType_try_from base_type) (Protocol (ValueMsg (Variant (VariantUnknownBase base_type))))) (\<lambda>var.
              variant_decode_value env var prop_bytes data_len)))))"

section \<open>Encoding\<close>

text \<open>The value part, built before its length is known; \<open>None\<close> is the null value.\<close>

fun variant_body :: "ColumnData \<Rightarrow> bytes option res" where
  "variant_body (CBit (Some v)) = Ok (Some [FixedLenType_value FBit, 0, of_bool v])"
| "variant_body (CU8 (Some v)) = Ok (Some [FixedLenType_value FInt1, 0, v])"
| "variant_body (CI16 (Some v)) = Ok (Some ([FixedLenType_value FInt2, 0] @ le_bytes 2 v))"
| "variant_body (CI32 (Some v)) = Ok (Some ([FixedLenType_value FInt4, 0] @ le_bytes 4 v))"
| "variant_body (CI64 (Some v)) = Ok (Some ([FixedLenType_value FInt8, 0] @ le_bytes 8 v))"
| "variant_body (CF32 (Some v)) = Ok (Some ([FixedLenType_value FFloat4, 0] @ le_bytes 4 v))"
| "variant_body (CF64 (Some v)) = Ok (Some ([FixedLenType_value FFloat8, 0] @ le_bytes 8 v))"
| "variant_body (CDateTime (Some dt)) =
     (case DateTime_encode dt [FixedLenType_value FDatetime, 0] of (r, b) \<Rightarrow> map_res (\<lambda>_. Some b) r)"
| "variant_body (CSmallDateTime (Some dt)) =
     (case SmallDateTime_encode dt [FixedLenType_value FDatetime4, 0] of (r, b) \<Rightarrow> map_res (\<lambda>_. Some b) r)"
| "variant_body (CGuid (Some uuid)) = Ok (Some ([VarLenType_value VGuid, 0] @ reorder_bytes uuid))"
| "variant_body (CNumeric (Some num)) =
     (case Numeric_encode num [] of (r, tmp) \<Rightarrow>
        map_res (\<lambda>_. Some ([VarLenType_value VNumericn, 2, of_nat (precision num), num_scale num] @ drop 1 tmp)) r)"
| "variant_body (CString (Some s)) =
     (if length (utf16_bytes s) > MAX_VARIANT_PAYLOAD then Err (Conversion (lit ''sql_variant: string exceeds the limit''))
      else Ok (Some ([VarLenType_value VNVarchar, 7, 0, 0, 0, 0, 0] @ le_bytes 2 (of_nat MAX_VARIANT_PAYLOAD :: u16) @ utf16_bytes s)))"
| "variant_body (CBinary (Some bs)) =
     (if length bs > MAX_VARIANT_PAYLOAD then Err (Conversion (lit ''sql_variant: binary exceeds the limit''))
      else Ok (Some ([VarLenType_value VBigVarBin, 2] @ le_bytes 2 (of_nat MAX_VARIANT_PAYLOAD :: u16) @ bs)))"
| "variant_body (CDate (Some date)) =
     (case Date_encode date [VarLenType_value VDaten, 0] of (r, b) \<Rightarrow> map_res (\<lambda>_. Some b) r)"
| "variant_body (CTime (Some t)) =
     (case Time_encode t [VarLenType_value VTimen, 1, t_scale t] of (r, b) \<Rightarrow> map_res (\<lambda>_. Some b) r)"
| "variant_body (CDateTime2 (Some dt)) =
     (case DateTime2_encode dt [VarLenType_value VDatetime2, 1, t_scale (dt2_time dt)] of (r, b) \<Rightarrow> map_res (\<lambda>_. Some b) r)"
| "variant_body (CDateTimeOffset (Some dto)) =
     (case DateTimeOffset_encode dto [VarLenType_value VDatetimeOffsetn, 1, t_scale (dt2_time (dto_datetime2 dto))] of
        (r, b) \<Rightarrow> map_res (\<lambda>_. Some b) r)"
| "variant_body (CXml (Some _)) = Err (Conversion (lit ''sql_variant: xml is not a valid sql_variant base type''))"
| "variant_body _ = Ok None"

definition variant_encode :: "ColumnData \<Rightarrow> (bytes, unit) comp" where
  "variant_encode dat =
     bindR (liftR (variant_body dat)) (\<lambda>body.
     case body of
       Some b \<Rightarrow> thenR (put_le 4 (of_nat (length b) :: u32)) (put_bytes b)
     | None \<Rightarrow> put_le 4 (0 :: u32))"

section \<open>Readers\<close>

lemma reader_variant [reader_intros]: "reader (variant_decode env)"
  unfolding variant_decode_def variant_decode_value_def variant_decode_numeric_def variant_magnitude_def check_prop_bytes_def
    check_data_len_def variant_read_bytes_def variant_read_collation_def Let_def
  by (intro reader_intros)

lemma safe_variant_numeric [safe_intros]: "safe (variant_decode_numeric n sc)"
  unfolding variant_decode_numeric_def variant_magnitude_def variant_read_bytes_def Numeric_new_with_scale_def MAX_NUMERIC_SCALE_def
  by (intro safe_intros) (auto simp: not_less)

lemma safe_variant [safe_intros]: "safe (variant_decode env)"
  unfolding variant_decode_def variant_decode_value_def check_prop_bytes_def
    check_data_len_def variant_read_bytes_def variant_read_collation_def Let_def
  by (intro safe_intros) simp_all

section \<open>Round trip\<close>

text \<open>The nulls: every kind of value has one.\<close>

fun value_is_null :: "ColumnData \<Rightarrow> bool" where
  "value_is_null (CU8 v) = (v = None)"
| "value_is_null (CI16 v) = (v = None)"
| "value_is_null (CI32 v) = (v = None)"
| "value_is_null (CI64 v) = (v = None)"
| "value_is_null (CF32 v) = (v = None)"
| "value_is_null (CF64 v) = (v = None)"
| "value_is_null (CBit v) = (v = None)"
| "value_is_null (CString v) = (v = None)"
| "value_is_null (CGuid v) = (v = None)"
| "value_is_null (CBinary v) = (v = None)"
| "value_is_null (CNumeric v) = (v = None)"
| "value_is_null (CXml v) = (v = None)"
| "value_is_null (CDateTime v) = (v = None)"
| "value_is_null (CSmallDateTime v) = (v = None)"
| "value_is_null (CTime v) = (v = None)"
| "value_is_null (CDate v) = (v = None)"
| "value_is_null (CDateTime2 v) = (v = None)"
| "value_is_null (CDateTimeOffset v) = (v = None)"

lemma variant_body_null: "variant_body dat = Ok None \<longleftrightarrow> value_is_null dat"
proof -
  have "map_res (\<lambda>_. Some b) r = Ok None \<longleftrightarrow> False" for b :: bytes and r :: "unit res" by (cases r) simp_all
  then show ?thesis by (cases dat rule: variant_body.cases) (auto split: prod.split)
qed


lemma unat_of_nat_u32: "n < 2 ^ 32 \<Longrightarrow> unat (of_nat n :: u32) = n"
  by (simp add: unat_of_nat)

lemma variant_decode_body:
  assumes "length v + 2 < 2 ^ 32" "FixedLenType_try_from base = None" "VarLenType_try_from base = Some var"
    "unat pb \<le> length v" "length v - unat pb \<le> MAX_VARIANT_PAYLOAD"
  shows "variant_decode env (le_bytes 4 (of_nat (length (base # pb # v)) :: u32) @ (base # pb # v) @ rest) =
     variant_decode_value env var (unat pb) (length v - unat pb) (v @ rest)"
proof -
  have "length (base # pb # v) < 2 ^ 32" using assms(1) by simp
  note unat_of_nat_u32 [OF this]
  then show ?thesis using assms(2-) by (simp add: variant_decode_def wire_simps)
qed

lemma variant_decode_fixed:
  assumes "length v \<le> MAX_VARIANT_PAYLOAD"
  shows "variant_decode env (le_bytes 4 (of_nat (length (FixedLenType_value ty # 0 # v)) :: u32) @
       (FixedLenType_value ty # 0 # v) @ rest) = fixed_len_decode ty (v @ rest)"
proof -
  have "length (FixedLenType_value ty # 0 # v) < 2 ^ 32" using assms by (simp add: MAX_VARIANT_PAYLOAD_def)
  note unat_of_nat_u32 [OF this]
  then show ?thesis using assms by (simp add: variant_decode_def wire_simps)
qed

lemma units_of_le_bytes: "units_of (le_bytes 2 (u :: u16) @ r) = u # units_of r"
proof -
  have "length (le_bytes 2 u) = Suc (Suc 0)" by (simp only: length_le_bytes numeral_2_eq_2)
  then obtain x y where xy: "le_bytes 2 u = [x, y]" by (auto simp: length_Suc_conv simp del: length_le_bytes)
  then have "from_le [x, y] = u" using from_le_le_bytes [of 2 u] by simp
  with xy show ?thesis by simp
qed

lemma units_of_bytes: "units_of (concat (map (le_bytes 2) us)) = us"
  by (induction us) (simp_all add: units_of_le_bytes)

lemma units_of_utf16 [simp]: "units_of (utf16_bytes s) = encode_utf16 s"
  by (simp add: utf16_bytes_def units_of_bytes)

definition variant_ok :: "ColumnData \<Rightarrow> bool" where
  "variant_ok dat = (case dat of
     CGuid (Some g) \<Rightarrow> length g = 16
   | CString (Some s) \<Rightarrow> valid_str s
   | CNumeric (Some n) \<Rightarrow> num_scale n \<le> 38 \<and> \<bar>num_value n\<bar> < 2 ^ 127
   | _ \<Rightarrow> True)"

lemmas fixed_codecs =
  datetime.enc_wire [OF TrueI] datetime.dec_wire [OF TrueI, unfolded append_assoc]
  smalldatetime.enc_wire [OF TrueI] smalldatetime.dec_wire [OF TrueI, unfolded append_assoc]

lemma variant_fixed_roundtrip:
  assumes "b = FixedLenType_value ty # 0 # v" "length v \<le> MAX_VARIANT_PAYLOAD"
    "\<And>rest. fixed_len_decode ty (v @ rest) = (Ok dat, rest)"
  shows "variant_decode env (le_bytes 4 (of_nat (length b) :: u32) @ b @ rest) = (Ok dat, rest)"
  using variant_decode_fixed [OF assms(2)] assms(1,3) by simp

lemma variant_var_roundtrip:
  assumes "b = VarLenType_value var # pb # v" "unat pb \<le> length v" "length v - unat pb \<le> MAX_VARIANT_PAYLOAD"
    "\<And>rest. variant_decode_value env var (unat pb) (length v - unat pb) (v @ rest) = (Ok dat, rest)"
  shows "variant_decode env (le_bytes 4 (of_nat (length b) :: u32) @ b @ rest) = (Ok dat, rest)"
proof -
  have "length v + 2 < 2 ^ 32" using assms(2,3) unat_u8_less [of pb] by (simp add: MAX_VARIANT_PAYLOAD_def)
  from variant_decode_body [OF this var_tag_not_fixed _ assms(2,3)] assms(1,4) show ?thesis by simp
qed

lemma magnitude_join:
  assumes "m < 256 ^ k" "int m < 2 ^ 127" "8 \<le> k"
  shows "Option.bind (checked (int (le_nat (drop 8 (nat_le k m))) * 2 ^ 64))
      (\<lambda>hi. checked (hi + int (le_nat (take 8 (nat_le k m))))) = Some (int m)"
proof -
  have "le_nat (nat_le k m) = m" using assms(1) by (simp add: le_nat_nat_le)
  then have "m = le_nat (take 8 (nat_le k m)) + le_nat (drop 8 (nat_le k m)) * 2 ^ 64"
    using le_nat_append [of "take 8 (nat_le k m)" "drop 8 (nat_le k m)"] assms(3) by simp
  then have eq: "int (le_nat (drop 8 (nat_le k m))) * 2 ^ 64 + int (le_nat (take 8 (nat_le k m))) = int m"
    by (metis add.commute of_nat_add of_nat_mult of_nat_numeral of_nat_power)
  moreover have "i128_ok (int m)" using assms(2) by (simp add: i128_ok_def)
  moreover have "i128_ok (int (le_nat (drop 8 (nat_le k m))) * 2 ^ 64)"
    using eq assms(2) by (simp add: i128_ok_def)
  ultimately show ?thesis by (simp add: checked_def)
qed

lemma variant_numeric_step:
  assumes "k \<in> {4, 8, 12, 16}" "m < 256 ^ k" "int m < 2 ^ 127" "sc \<le> 38"
  shows "variant_decode_numeric (Suc k) sc ((if neg then 0 else 1) # nat_le k m @ rest) =
    (Ok (CNumeric (Some \<lparr>num_value = (if neg then - int m else int m), num_scale = sc\<rparr>)), rest)"
proof -
  have rd: "variant_read_bytes k (nat_le k m @ rest) = (Ok (nat_le k m), rest)"
    by (simp add: variant_read_bytes_def read_bytes_into_append)
  then have rd': "bindR (variant_read_bytes k) f (nat_le k m @ rest) = f (nat_le k m) rest"
    for f :: "bytes \<Rightarrow> (bytes, ColumnData) comp" by (simp only: bindR_Ok)
  have u8: "bindR read_u8 f (b # s) = f b s" for f :: "u8 \<Rightarrow> (bytes, ColumnData) comp" and b s
    by (simp add: bindR_def read_u8_Cons)
  have mag: "variant_magnitude (nat_le k m) = retR (int m)"
  proof (cases "k = 4 \<or> k = 8")
    case True
    then show ?thesis using assms(2) by (simp only: variant_magnitude_def length_nat_le le_nat_nat_le) simp
  next
    case False
    with assms(1) have k: "k = 12 \<or> k = 16" and "8 \<le> k" by auto
    with False magnitude_join [OF assms(2,3)] show ?thesis by (simp only: variant_magnitude_def length_nat_le ok_or_def) simp
  qed
  have ok: "checked (int m) = Some (int m)" "checked (- int m) = Some (- int m)"
    using assms(3) by (simp_all add: checked_def i128_ok_def)
  have "\<not> 38 < sc" using assms(4) by simp
  then show ?thesis
    using assms(4)
    by (cases neg) (simp_all add: variant_decode_numeric_def u8 rd' mag ok
        ok_or_def Numeric_new_with_scale_def MAX_NUMERIC_SCALE_def liftR_def bindR_def [of "liftR _"] retR_def)
qed

lemma variant_numeric_roundtrip:
  assumes "num_scale n \<le> 38" "\<bar>num_value n\<bar> < 2 ^ 127"
  shows "variant_decode_numeric (unat (Numeric_len n)) (num_scale n) (drop 1 (Numeric_bytes n) @ rest) =
    (Ok (CNumeric (Some n)), rest)"
proof -
  obtain k m where k: "unat (Numeric_len n) = Suc k" "k \<in> {4, 8, 12, 16}" and m: "m = nat \<bar>num_value n\<bar>" "m < 256 ^ k"
  proof (rule Numeric_len_cases [of n])
    assume "Numeric_len n = 17"
    moreover have "nat \<bar>num_value n\<bar> < 256 ^ 16" using assms(2) by (simp only: nat_less_iff abs_ge_zero) simp
    ultimately show thesis by (intro that [of 16]) simp_all
  qed (use that [of 4] that [of 8] that [of 12] in \<open>simp_all add: nat_less_iff\<close>)
  then have "int m < 2 ^ 127" and v: "num_value n = (if num_value n < 0 then - int m else int m)" using assms(2) by auto
  from variant_numeric_step [OF k(2) m(2) this(1) assms(1), of "num_value n < 0" rest] v k(1) m(1) show ?thesis
    by (simp add: Numeric_bytes_def magnitude_bytes_def)
qed

lemmas var_rd = variant_decode_value_def check_prop_bytes_def check_data_len_def variant_read_bytes_def
  wire_simps MAX_VARIANT_PAYLOAD_def

lemma variant_zero_collation: "variant_read_collation (0 # 0 # 0 # 0 # 0 # s) = (Ok (Collation_new 0 0), s)"
  by (simp add: variant_read_collation_def read_u32_le_def read_le_def read_n_def wire_simps wire_eval)

lemma variant_decode_numericn:
  "variant_decode_value env VNumericn 2 n (p # sc # s) = variant_decode_numeric n sc s"
  by (simp add: variant_decode_value_def check_prop_bytes_def bindR_def thenR_def retR_def read_u8_Cons)

lemma time_width_le: "time_width n \<le> 5"
  by (simp add: time_width_def)

text \<open>The encoder's output for a value, and the same value read back.\<close>

lemma variant_value_roundtrip:
  assumes "variant_ok dat" "variant_body dat = Ok (Some b)"
  shows "variant_decode env (le_bytes 4 (of_nat (length b) :: u32) @ b @ rest) = (Ok dat, rest)"
proof (cases dat)
  case (CBit x) with assms show ?thesis
    by (cases x; intro variant_fixed_roundtrip [where ty = FBit])
      (auto simp: wire_simps MAX_VARIANT_PAYLOAD_def)
next
  case (CU8 x) with assms show ?thesis
    by (cases x; intro variant_fixed_roundtrip [where ty = FInt1]) (auto simp: wire_simps MAX_VARIANT_PAYLOAD_def)
next
  case (CI16 x) with assms show ?thesis
    by (cases x; intro variant_fixed_roundtrip [where ty = FInt2]) (auto simp: wire_simps MAX_VARIANT_PAYLOAD_def)
next
  case (CI32 x) with assms show ?thesis
    by (cases x; intro variant_fixed_roundtrip [where ty = FInt4]) (auto simp: wire_simps MAX_VARIANT_PAYLOAD_def)
next
  case (CI64 x) with assms show ?thesis
    by (cases x; intro variant_fixed_roundtrip [where ty = FInt8]) (auto simp: wire_simps MAX_VARIANT_PAYLOAD_def)
next
  case (CF32 x) with assms show ?thesis
    by (cases x; intro variant_fixed_roundtrip [where ty = FFloat4]) (auto simp: wire_simps MAX_VARIANT_PAYLOAD_def)
next
  case (CF64 x) with assms show ?thesis
    by (cases x; intro variant_fixed_roundtrip [where ty = FFloat8]) (auto simp: wire_simps MAX_VARIANT_PAYLOAD_def)
next
  case (CDateTime x) with assms show ?thesis
    by (cases x; intro variant_fixed_roundtrip [where ty = FDatetime])
      (auto simp: fixed_codecs datetimen_decode_def bindR_def retR_def MAX_VARIANT_PAYLOAD_def)
next
  case (CSmallDateTime x) with assms show ?thesis
    by (cases x; intro variant_fixed_roundtrip [where ty = FDatetime4])
      (auto simp: fixed_codecs datetimen_decode_def bindR_def retR_def MAX_VARIANT_PAYLOAD_def)
next
  case (CGuid x) with assms show ?thesis
    by (cases x; intro variant_var_roundtrip [where var = VGuid])
      (auto simp: var_rd variant_ok_def reorder_bytes_involution)
next
  case (CString x) with assms show ?thesis
    by (cases x; intro variant_var_roundtrip [where var = VNVarchar and pb = 7])
      (auto simp: var_rd variant_ok_def variant_zero_collation length_utf16_bytes split: if_splits)
next
  case (CBinary x) with assms show ?thesis
    by (cases x; intro variant_var_roundtrip [where var = VBigVarBin and pb = 2]) (auto simp: var_rd split: if_splits)
next
  case (CNumeric x)
  with assms obtain n where n: "x = Some n" "num_scale n \<le> 38" "\<bar>num_value n\<bar> < 2 ^ 127"
    by (cases x) (auto simp: variant_ok_def)
  then have enc: "Numeric_encode n [] = (Ok (), Numeric_bytes n)" by (simp add: Numeric_encode_eq)
  have len: "length (drop 1 (Numeric_bytes n)) = unat (Numeric_len n)"
    by (rule Numeric_len_cases [of n]) (simp_all add: Numeric_bytes_def magnitude_bytes_def del: nat_le_numeral)
  let ?v = "of_nat (precision n) # num_scale n # drop 1 (Numeric_bytes n)"
  have "unat (Numeric_len n) \<le> MAX_VARIANT_PAYLOAD"
    using unat_u8_le [of "Numeric_len n"] by (simp add: MAX_VARIANT_PAYLOAD_def)
  moreover have "b = VarLenType_value VNumericn # 2 # ?v" using assms(2) CNumeric n(1) enc by simp
  moreover have "variant_decode_value env VNumericn 2 (unat (Numeric_len n)) (?v @ rest) = (Ok dat, rest)" for rest
    using variant_numeric_roundtrip [OF n(2,3)] CNumeric n(1) by (simp add: variant_decode_numericn)
  ultimately show ?thesis using len by (intro variant_var_roundtrip [where var = VNumericn and pb = 2 and v = ?v]) simp_all
next
  case (CDate x)
  with assms obtain d where d: "x = Some d" "Date_encode d [VarLenType_value VDaten, 0] = (Ok (), b)"
    by (cases x) (auto split: prod.splits elim: map_res.elims)
  then have "Date_wf d" using Date_encode_wf by blast
  with d CDate show ?thesis
    by (intro variant_var_roundtrip [where var = VDaten and pb = 0])
      (auto simp: var_rd date.enc_wire date.dec_wire length_time_date_bytes)
next
  case (CTime x)
  with assms obtain t where t: "x = Some t" "Time_encode t [VarLenType_value VTimen, 1, t_scale t] = (Ok (), b)"
    by (cases x) (auto split: prod.splits elim: map_res.elims)
  then have wf: "Time_wf (unat (t_scale t)) t" using Time_encode_wf by blast
  with t CTime show ?thesis
    using time_width_le [of "unat (t_scale t)"]
    by (intro variant_var_roundtrip [where var = VTimen and pb = 1 and v = "t_scale t # Time_bytes t"])
      (auto simp: var_rd time.enc_wire [OF wf] time.dec_wire length_time_date_bytes)
next
  case (CDateTime2 x)
  with assms obtain d where d: "x = Some d"
    "DateTime2_encode d [VarLenType_value VDatetime2, 1, t_scale (dt2_time d)] = (Ok (), b)"
    by (cases x) (auto split: prod.splits elim: map_res.elims)
  then have wf: "DateTime2_wf (unat (t_scale (dt2_time d))) d"
    by (auto simp: DateTime2_encode_def DateTime2_wf_def thenR_def bindR_eq_Ok dest: Time_encode_wf Date_encode_wf)
  then have tw: "Time_wf (unat (t_scale (dt2_time d))) (dt2_time d)" by (simp add: DateTime2_wf_def)
  from d CDateTime2 show ?thesis
    using time_width_le [of "unat (t_scale (dt2_time d))"]
    by (intro variant_var_roundtrip [where var = VDatetime2 and pb = 1
          and v = "t_scale (dt2_time d) # Time_bytes (dt2_time d) @ Date_bytes (dt2_date d)"])
      (auto simp: var_rd datetime2.enc_wire [OF wf] datetime2.dec_wire [OF wf, unfolded append_assoc]
        length_time_date_bytes(1) [OF tw] length_time_date_bytes(2))
next
  case (CDateTimeOffset x)
  with assms obtain d where d: "x = Some d"
    "DateTimeOffset_encode d [VarLenType_value VDatetimeOffsetn, 1, t_scale (dt2_time (dto_datetime2 d))] = (Ok (), b)"
    by (cases x) (auto split: prod.splits elim: map_res.elims)
  let ?t = "dt2_time (dto_datetime2 d)"
  have wf: "DateTime2_wf (unat (t_scale ?t)) (dto_datetime2 d)"
    using d(2) by (auto simp: DateTimeOffset_encode_def DateTime2_encode_def DateTime2_wf_def thenR_def bindR_eq_Ok
        dest: Time_encode_wf Date_encode_wf)
  then have tw: "Time_wf (unat (t_scale ?t)) ?t" by (simp add: DateTime2_wf_def)
  from d CDateTimeOffset show ?thesis
    using time_width_le [of "unat (t_scale ?t)"]
    by (intro variant_var_roundtrip [where var = VDatetimeOffsetn and pb = 1
          and v = "t_scale ?t # Time_bytes ?t @ Date_bytes (dt2_date (dto_datetime2 d)) @ le_bytes 2 (dto_offset d)"])
      (auto simp: var_rd datetimeoffset.enc_wire [OF wf] datetimeoffset.dec_wire [OF wf, unfolded append_assoc]
        length_time_date_bytes(1) [OF tw] length_time_date_bytes(2))
next
  case (CXml x)
  with assms(2) show ?thesis by (cases x) simp_all
qed

section \<open>Properties\<close>

text \<open>
  C32: A \<^verbatim>\<open>sql_variant\<close> is read back as it was written. Whenever the encoder
  accepts a value, decoding the bytes it wrote returns the same value and leaves
  exactly what follows; a null of any type is read back as the untyped null.
  (Strings are made of scalar values, a GUID has 16 bytes, and a decimal is not
  the smallest 128-bit number.)
\<close>

theorem variant_roundtrip:
  assumes "variant_encode dat dst = (Ok (), out)" and "variant_ok dat"
  shows "\<exists>bs. out = dst @ bs \<and> variant_decode env (bs @ rest) = (Ok (if value_is_null dat then CString None else dat), rest)"
proof -
  from assms(1) obtain body where body: "variant_body dat = Ok body"
    by (auto simp: variant_encode_def bindR_eq_Ok liftR_def)
  have null: "value_is_null dat \<longleftrightarrow> body = None" using variant_body_null [of dat] body by simp
  show ?thesis
  proof (cases body)
    case None
    with body assms(1) have "out = dst @ le_bytes 4 (0 :: u32)" by (simp add: variant_encode_def wire_simps)
    moreover have "variant_decode env (le_bytes 4 (0 :: u32) @ rest) = (Ok (CString None), rest)"
      by (simp add: variant_decode_def wire_simps)
    ultimately show ?thesis using None null by simp
  next
    case (Some b)
    with body assms(1) have "out = dst @ le_bytes 4 (of_nat (length b) :: u32) @ b"
      by (simp add: variant_encode_def wire_simps)
    then show ?thesis using variant_value_roundtrip [OF assms(2), of b env rest] body Some null by auto
  qed
qed

theorem variant_roundtrip_witness:
  "(\<exists>bs. variant_encode (CString (Some [0x1F600, 65])) [] = (Ok (), bs) \<and>
     variant_decode strict_env (bs @ [1, 2]) = (Ok (CString (Some [0x1F600, 65])), [1, 2])) \<and>
   (\<exists>bs. variant_encode (CTime (Some \<lparr>t_increments = 7, t_scale = 0\<rparr>)) [] = (Ok (), bs) \<and>
     variant_decode strict_env (bs @ [1, 2]) = (Ok (CTime (Some \<lparr>t_increments = 7, t_scale = 0\<rparr>)), [1, 2]))"
proof -
  have ok: "variant_ok (CString (Some [0x1F600, 65]))" by (simp add: variant_ok_def valid_char_def)
  have len: "length (utf16_bytes [0x1F600, 65]) = 6"
    by (simp add: length_utf16_bytes utf16_char_def)
  obtain out where enc: "variant_encode (CString (Some [0x1F600, 65])) [] = (Ok (), out)"
    by (simp add: variant_encode_def MAX_VARIANT_PAYLOAD_def len wire_simps)
  obtain out' where enc': "variant_encode (CTime (Some \<lparr>t_increments = 7, t_scale = 0\<rparr>)) [] = (Ok (), out')"
    by (simp add: variant_encode_def Time_encode_def Time_len_def wire_simps)
  show ?thesis using variant_roundtrip [OF enc ok, of strict_env "[1, 2]"] enc
    variant_roundtrip [OF enc', of strict_env "[1, 2]"] enc' by (auto simp: variant_ok_def)
qed

text \<open>
  The declared length of a value with a fixed-length base type is not compared
  with the bytes that type occupies: six of the bytes that belong to this value
  are left in the stream.
\<close>

lemma variant_fixed_length_unchecked:
  "variant_decode env ([12, 0, 0, 0, 0x38, 0, 1, 0, 0, 0] @ [9, 9, 9, 9, 9, 9]) = (Ok (CI32 (Some 1)), [9, 9, 9, 9, 9, 9])"
  by (simp add: variant_decode_def MAX_VARIANT_PAYLOAD_def type_tag_eval fixed_reader_defs read_le_def read_n_def
      wire_simps wire_eval)

end
