(* ===== verification/Tds_Money.thy ===== *)
theory Tds_Money
  imports Tds_Value
begin

text \<open>
  Writing money values (\<^verbatim>\<open>tds/codec/column_data/money.rs\<close>): from a double and,
  with exact integer arithmetic, from a decimal.
\<close>

definition MONEY_SCALE :: nat where "MONEY_SCALE = 4"

text \<open>\<open>i32\<close> and \<open>i64\<close> fields of a scaled value held in an \<^verbatim>\<open>i128\<close>; the wide form has
  the high word first.\<close>

definition put_scaled :: "nat \<Rightarrow> int \<Rightarrow> bool \<Rightarrow> (bytes, unit) comp" where
  "put_scaled max_len scaled length_prefixed =
     (if max_len = 4 then
        (if scaled < - (2 ^ 31) \<or> scaled > 2 ^ 31 - 1 then errR (BulkInput (MoneyOutOfRange 4))
         else thenR (if length_prefixed then put_u8 4 else retR ())
                    (put_le 4 (word_of_int scaled :: u32)))
      else
        (if scaled < - (2 ^ 63) \<or> scaled > 2 ^ 63 - 1 then errR (BulkInput (MoneyOutOfRange 8))
         else thenR (if length_prefixed then put_u8 8 else retR ())
             (thenR (put_le 4 (word_of_int (scaled div 2 ^ 32) :: u32))
                    (put_le 4 (word_of_int scaled :: u32)))))"

definition money_encode_inner :: "nat \<Rightarrow> u64 \<Rightarrow> bool \<Rightarrow> (bytes, unit) comp" where
  "money_encode_inner max_len v length_prefixed =
     (if \<not> f64_is_finite v then errR (BulkInput MoneyNotFinite)
      else put_scaled max_len (saturate (- (2 ^ 127)) (2 ^ 127 - 1) (f64_round_to_int (f64_mul_int v 10000))) length_prefixed)"

definition money_encode :: "nat \<Rightarrow> u64 \<Rightarrow> (bytes, unit) comp" where
  "money_encode max_len v = money_encode_inner max_len v True"

definition money_encode_fixed :: "nat \<Rightarrow> u64 \<Rightarrow> (bytes, unit) comp" where
  "money_encode_fixed max_len v = money_encode_inner max_len v False"

definition money_rescale :: "Numeric \<Rightarrow> int res" where
  "money_rescale num =
     (let scale = unat (num_scale num); mantissa = num_value num in
      if scale = MONEY_SCALE then Ok mantissa
      else if scale < MONEY_SCALE then
        (if i128_ok (mantissa * 10 ^ (MONEY_SCALE - scale)) then Ok (mantissa * 10 ^ (MONEY_SCALE - scale))
         else Err (BulkInput MoneyOverflow))
      else
        (let divisor = 10 ^ (scale - MONEY_SCALE);
             quotient = mantissa sdiv divisor;
             remainder = \<bar>mantissa smod divisor\<bar>
         in Ok (if remainder * 2 \<ge> divisor then quotient + sgn mantissa else quotient)))"

definition encode_numeric_inner :: "nat \<Rightarrow> Numeric \<Rightarrow> bool \<Rightarrow> (bytes, unit) comp" where
  "encode_numeric_inner max_len num length_prefixed =
     bindR (liftR (money_rescale num)) (\<lambda>scaled. put_scaled max_len scaled length_prefixed)"

definition encode_numeric :: "nat \<Rightarrow> Numeric \<Rightarrow> (bytes, unit) comp" where
  "encode_numeric max_len num = encode_numeric_inner max_len num True"

definition encode_numeric_fixed :: "nat \<Rightarrow> Numeric \<Rightarrow> (bytes, unit) comp" where
  "encode_numeric_fixed max_len num = encode_numeric_inner max_len num False"

section \<open>The scaled value on the wire\<close>

text \<open>The integer a money field of width 4 or 8 holds, as \<^verbatim>\<open>money::decode\<close> reads its words
  before dividing by ten thousand.\<close>

definition money_wire_value :: "u8 \<Rightarrow> (bytes, int) comp" where
  "money_wire_value len =
     (if len = 4 then bindR read_i32_le (\<lambda>v. retR (sint v))
      else bindR read_i32_le (\<lambda>high. bindR read_u32_le (\<lambda>low. retR (sint high * 2 ^ 32 + uint low))))"

lemma sint_word_of_int_32: "- (2 ^ 31) \<le> z \<Longrightarrow> z < 2 ^ 31 \<Longrightarrow> sint (word_of_int z :: u32) = z"
  by (simp add: sint_sbintrunc' signed_take_bit_int_eq_self)

lemma put_scaled_wire:
  assumes "put_scaled max_len scaled prefixed dst = (Ok (), out)"
  shows "\<exists>bs len. out = dst @ (if prefixed then len # bs else bs) \<and> len = (if max_len = 4 then 4 else 8) \<and>
     money_wire_value len (bs @ rest) = (Ok scaled, rest)"
proof (cases "max_len = 4")
  case True
  with assms have r: "- (2 ^ 31) \<le> scaled" "scaled < 2 ^ 31"
    and out: "out = dst @ (if prefixed then 4 # le_bytes 4 (word_of_int scaled :: u32) else le_bytes 4 (word_of_int scaled :: u32))"
    by (auto simp: put_scaled_def wire_simps split: if_splits)
  then show ?thesis using True sint_word_of_int_32 [OF r]
    by (intro exI [of _ "le_bytes 4 (word_of_int scaled :: u32)"]) (simp add: money_wire_value_def wire_simps)
next
  case False
  let ?bs = "le_bytes 4 (word_of_int (scaled div 2 ^ 32) :: u32) @ le_bytes 4 (word_of_int scaled :: u32)"
  from False assms have r: "- (2 ^ 63) \<le> scaled" "scaled < 2 ^ 63"
    and out: "out = dst @ (if prefixed then 8 # ?bs else ?bs)"
    by (auto simp: put_scaled_def wire_simps split: if_splits)
  have "- (2 ^ 31) \<le> scaled div 2 ^ 32" "scaled div 2 ^ 32 < 2 ^ 31" using r by simp_all
  then have hi: "sint (word_of_int (scaled div 2 ^ 32) :: u32) = scaled div 2 ^ 32" by (rule sint_word_of_int_32)
  have lo: "uint (word_of_int scaled :: u32) = scaled mod 2 ^ 32"
    by (simp add: uint_word_of_int)
  have "scaled div 2 ^ 32 * 2 ^ 32 + scaled mod 2 ^ 32 = scaled" by (rule div_mult_mod_eq)
  then show ?thesis using False out hi lo
    by (intro exI [of _ ?bs]) (simp add: money_wire_value_def wire_simps)
qed

section \<open>Rounding\<close>

lemma smod_eq: "0 < d \<Longrightarrow> (n :: int) smod d = sgn n * (\<bar>n\<bar> mod d)"
proof -
  assume d: "0 < d"
  have "n smod d = n - n sdiv d * d" by (metis minus_sdiv_mult_eq_smod)
  also have "\<dots> = sgn n * \<bar>n\<bar> - sgn n * (\<bar>n\<bar> div d) * d" using d by (simp add: sgn_sdiv mult_sgn_abs)
  also have "\<dots> = sgn n * (\<bar>n\<bar> - \<bar>n\<bar> div d * d)" by (simp only: right_diff_distrib mult.assoc)
  finally show ?thesis by (simp add: minus_div_mult_eq_mod)
qed

text \<open>Round half away from zero, as the code computes it, is within half a divisor, and a tie moves away from zero.\<close>

lemma round_half_away:
  fixes n d :: int
  assumes d: "0 < d"
  defines "R \<equiv> if \<bar>n smod d\<bar> * 2 \<ge> d then n sdiv d + sgn n else n sdiv d"
  shows "2 * \<bar>R * d - n\<bar> \<le> d \<and> (2 * \<bar>R * d - n\<bar> = d \<longrightarrow> \<bar>n\<bar> < \<bar>R * d\<bar>)"
proof (cases "n = 0")
  case True
  then show ?thesis using d by (simp add: R_def sgn_sdiv smod_eq)
next
  case False
  define b :: int where "b = (if (\<bar>n\<bar> mod d) * 2 \<ge> d then 1 else 0)"
  have R: "R = sgn n * (\<bar>n\<bar> div d + b)"
    using False d by (simp add: R_def b_def sgn_sdiv smod_eq abs_mult distrib_left)
  have dm: "\<bar>n\<bar> = \<bar>n\<bar> div d * d + \<bar>n\<bar> mod d" by (simp only: div_mult_mod_eq)
  have "R * d - n = sgn n * ((\<bar>n\<bar> div d + b) * d - \<bar>n\<bar>)"
    by (simp add: R right_diff_distrib mult_sgn_abs)
  also have "(\<bar>n\<bar> div d + b) * d - \<bar>n\<bar> = b * d - \<bar>n\<bar> mod d"
    using dm by (simp only: distrib_right)
  finally have "\<bar>R * d - n\<bar> = \<bar>b * d - \<bar>n\<bar> mod d\<bar>" using False by (simp add: abs_mult)
  moreover have m: "0 \<le> \<bar>n\<bar> mod d" "\<bar>n\<bar> mod d < d" using d by simp_all
  moreover have "\<bar>R * d\<bar> = \<bar>n\<bar> + (b * d - \<bar>n\<bar> mod d)"
  proof -
    have "0 \<le> \<bar>n\<bar> div d + b" using d by (simp add: b_def pos_imp_zdiv_nonneg_iff)
    then have "\<bar>R * d\<bar> = (\<bar>n\<bar> div d + b) * d" using False d by (simp add: R abs_mult)
    then show ?thesis using dm by (simp only: distrib_right)
  qed
  ultimately show ?thesis by (auto simp: b_def)
qed

lemma money_rescale_near:
  assumes "money_rescale num = Ok scaled"
  shows "2 * \<bar>scaled * 10 ^ unat (num_scale num) - num_value num * 10 ^ 4\<bar> \<le> 10 ^ unat (num_scale num) \<and>
     (2 * \<bar>scaled * 10 ^ unat (num_scale num) - num_value num * 10 ^ 4\<bar> = 10 ^ unat (num_scale num) \<longrightarrow>
        \<bar>num_value num * 10 ^ 4\<bar> < \<bar>scaled * 10 ^ unat (num_scale num)\<bar>) \<and>
     (unat (num_scale num) \<le> 4 \<longrightarrow> scaled * 10 ^ unat (num_scale num) = num_value num * 10 ^ 4)"
proof -
  obtain k n where k: "unat (num_scale num) = k" and n: "num_value num = n" by simp
  show ?thesis
  proof (cases "k \<le> 4")
    case True
    then have "scaled = n * 10 ^ (4 - k)"
      using assms k n by (auto simp: money_rescale_def MONEY_SCALE_def Let_def split: if_splits)
    moreover have "(10 :: int) ^ (4 - k) * 10 ^ k = 10 ^ 4" using True by (simp flip: power_add)
    ultimately show ?thesis using True k n by (simp add: mult.assoc)
  next
    case False
    define d :: int where "d = 10 ^ (k - 4)"
    have d: "0 < d" by (simp add: d_def)
    have p: "(10 :: int) ^ k = d * 10 ^ 4"
    proof -
      have "k = (k - 4) + 4" using False by simp
      then show ?thesis unfolding d_def by (metis power_add)
    qed
    have "scaled = (if \<bar>n smod d\<bar> * 2 \<ge> d then n sdiv d + sgn n else n sdiv d)"
      using assms k n False by (auto simp: money_rescale_def MONEY_SCALE_def Let_def d_def)
    then have near: "2 * \<bar>scaled * d - n\<bar> \<le> d" "2 * \<bar>scaled * d - n\<bar> = d \<Longrightarrow> \<bar>n\<bar> < \<bar>scaled * d\<bar>" using round_half_away [OF d] by simp_all
    have "scaled * 10 ^ k - n * 10 ^ 4 = (scaled * d - n) * 10 ^ 4" by (simp add: p algebra_simps)
    then have e: "\<bar>scaled * 10 ^ k - n * 10 ^ 4\<bar> = \<bar>scaled * d - n\<bar> * 10 ^ 4" by (simp only: abs_mult) simp
    have "2 * \<bar>scaled * 10 ^ k - n * 10 ^ 4\<bar> \<le> 10 ^ k" unfolding e using near(1) by (simp add: p)
    moreover have "2 * \<bar>scaled * 10 ^ k - n * 10 ^ 4\<bar> = 10 ^ k \<longrightarrow> \<bar>n * 10 ^ 4\<bar> < \<bar>scaled * 10 ^ k\<bar>"
      unfolding e using near(2) by (auto simp: p abs_mult mult.assoc)
    ultimately show ?thesis using False by (simp only: k n simp_thms)
  qed
qed

section \<open>Properties\<close>

text \<open>
  C33: Money written from a decimal is the decimal rounded to four places. When
  the writer accepts a decimal, the integer in the money field is within half a
  unit of ten thousand times the decimal, and when the decimal lies half-way between two integers it is the one
  further from zero (exactly equal when the decimal has at most four places); the field has the width of the column, and the length byte is
  there exactly for nullable columns. Values outside the column's range are
  refused, never wrapped.
\<close>

theorem money_from_numeric:
  assumes "encode_numeric_inner max_len num prefixed dst = (Ok (), out)" "max_len \<in> {4, 8}"
  shows "\<exists>bs scaled. out = dst @ (if prefixed then of_nat max_len # bs else bs) \<and> length bs = max_len \<and>
     money_wire_value (of_nat max_len) (bs @ rest) = (Ok scaled, rest) \<and>
     2 * \<bar>scaled * 10 ^ unat (num_scale num) - num_value num * 10 ^ 4\<bar> \<le> 10 ^ unat (num_scale num) \<and>
     (2 * \<bar>scaled * 10 ^ unat (num_scale num) - num_value num * 10 ^ 4\<bar> = 10 ^ unat (num_scale num) \<longrightarrow>
        \<bar>num_value num * 10 ^ 4\<bar> < \<bar>scaled * 10 ^ unat (num_scale num)\<bar>) \<and>
     (num_scale num \<le> 4 \<longrightarrow> scaled * 10 ^ unat (num_scale num) = num_value num * 10 ^ 4)"
proof -
  from assms(1) obtain scaled where r: "money_rescale num = Ok scaled" "put_scaled max_len scaled prefixed dst = (Ok (), out)"
    by (auto simp: encode_numeric_inner_def bindR_eq_Ok liftR_def)
  from put_scaled_wire [OF r(2), of rest] obtain bs where bs: "out = dst @ (if prefixed then of_nat max_len # bs else bs)"
    "money_wire_value (of_nat max_len) (bs @ rest) = (Ok scaled, rest)" using assms(2) by auto
  moreover have "length bs = max_len"
    using bs(1) r(2) assms(2) by (auto simp: put_scaled_def wire_simps split: if_splits)
  moreover have "num_scale num \<le> 4 \<longleftrightarrow> unat (num_scale num) \<le> 4" by (simp add: word_le_nat_alt)
  ultimately show ?thesis using money_rescale_near [OF r(1)] by blast
qed

theorem money_from_numeric_witness:
  "encode_numeric_inner 4 \<lparr>num_value = - 1234555, num_scale = 5\<rparr> True [] = (Ok (), [4, 0xC0, 0x1D, 0xFE, 0xFF]) \<and>
   money_wire_value 4 ([0xC0, 0x1D, 0xFE, 0xFF] @ [7]) = (Ok (- 123456), [7])"
proof -
  have enc: "encode_numeric_inner 4 \<lparr>num_value = - 1234555, num_scale = 5\<rparr> True [] = (Ok (), [4, 0xC0, 0x1D, 0xFE, 0xFF])"
    by (simp add: encode_numeric_inner_def money_rescale_def MONEY_SCALE_def put_scaled_def signed_divide_int_def
        smod_eq wire_simps wire_eval)
  from money_from_numeric [OF enc, of "[7]"] obtain scaled :: int where
    s: "money_wire_value 4 ([0xC0, 0x1D, 0xFE, 0xFF] @ [7]) = (Ok scaled, [7])" "2 * \<bar>scaled * 100000 + 12345550000\<bar> \<le> 100000"
      "2 * \<bar>scaled * 100000 + 12345550000\<bar> = 100000 \<longrightarrow> 12345550000 < \<bar>scaled * 100000\<bar>"
    by auto
  have "\<bar>scaled * 100000 + 12345550000\<bar> \<le> 50000" using s(2) by simp
  then have "- 123456 \<le> scaled" "scaled \<le> - 123455" unfolding abs_le_iff by linarith+
  then have "scaled = - 123456 \<or> scaled = - 123455" by linarith
  then have "scaled = - 123456" using s(3) by auto
  with enc s(1) show ?thesis by simp
qed

end
