(* ===== verification/Tds_ColumnData.thy ===== *)
theory Tds_ColumnData
  imports Tds_Variant Tds_Money
begin

text \<open>
  Column values on the wire (\<^verbatim>\<open>tds/codec/column_data.rs\<close>, \<^verbatim>\<open>var_len.rs\<close>,
  \<^verbatim>\<open>tds/xml.rs\<close>): the dispatch of the decoder on the column type, and the encoder,
  with the column type of a bulk load or, for a parameter of a call, with none, in
  which case it writes a type of its own in front of the value.
\<close>

section \<open>Decoding\<close>

definition var_len_decode :: "value_env \<Rightarrow> VarLenContext \<Rightarrow> (bytes, ColumnData) comp" where
  "var_len_decode env ctx =
     (let ty = vlc_type ctx; len = vlc_len ctx; collation = vlc_collation ctx in
      if ty = VBitn then bit_decode
      else if ty = VIntn then int_decode len
      else if ty = VFloatn then float_decode len
      else if ty = VGuid then guid_decode
      else if ty \<in> {VBigChar, VBigVarChar, VNChar, VNVarchar} then
        bindR (string_decode env ty len collation) (\<lambda>s. retR (CString s))
      else if ty = VMoney then bindR read_u8 (\<lambda>n. money_decode n)
      else if ty = VDatetimen then bindR read_u8 (\<lambda>rlen. datetimen_decode rlen (of_nat len))
      else if ty = VDaten then date_decode
      else if ty = VTimen then time_decode len
      else if ty = VDatetime2 then datetime2_decode len
      else if ty = VDatetimeOffsetn then datetimeoffsetn_decode len
      else if ty \<in> {VBigBinary, VBigVarBin} then binary_decode len
      else if ty = VText then text_decode env collation
      else if ty = VNText then text_decode env None
      else if ty = VImage then image_decode
      else if ty = VSSVariant then variant_decode env
      else errR (Protocol (ValueMsg (UnsupportedColumnType (VarLenType_value ty)))))"

fun ColumnData_decode :: "value_env \<Rightarrow> TypeInfo \<Rightarrow> (bytes, ColumnData) comp" where
  "ColumnData_decode env (FixedLen ty) = fixed_len_decode ty"
| "ColumnData_decode env (VarLenSized cx) = var_len_decode env cx"
| "ColumnData_decode env (VarLenSizedPrecision ty _ _ scale) =
     (if ty \<in> {VDecimaln, VNumericn} then bindR (Numeric_decode scale) (\<lambda>n. retR (CNumeric n))
      else errR (Protocol (ValueMsg (UnexpectedPrecisionType (VarLenType_value ty)))))"
| "ColumnData_decode env (XmlType schema sz) = xml_decode env sz schema"
| "ColumnData_decode env (Udt _) = udt_decode"

section \<open>Names of types\<close>

definition MAX_NVARCHAR_SIZE :: nat where "MAX_NVARCHAR_SIZE = 2 ^ 30"

fun ColumnData_type_name :: "ColumnData \<Rightarrow> rstring" where
  "ColumnData_type_name (CU8 _) = lit ''tinyint''"
| "ColumnData_type_name (CI16 _) = lit ''smallint''"
| "ColumnData_type_name (CI32 _) = lit ''int''"
| "ColumnData_type_name (CI64 _) = lit ''bigint''"
| "ColumnData_type_name (CF32 _) = lit ''float(24)''"
| "ColumnData_type_name (CF64 _) = lit ''float(53)''"
| "ColumnData_type_name (CBit _) = lit ''bit''"
| "ColumnData_type_name (CString None) = lit ''nvarchar(4000)''"
| "ColumnData_type_name (CString (Some s)) =
     (if length (as_bytes s) \<le> 4000 then lit ''nvarchar(4000)''
      else if length (as_bytes s) \<le> MAX_NVARCHAR_SIZE then lit ''nvarchar(max)'' else lit ''ntext(max)'')"
| "ColumnData_type_name (CGuid _) = lit ''uniqueidentifier''"
| "ColumnData_type_name (CBinary (Some b)) =
     (if length b \<le> 8000 then lit ''varbinary(8000)'' else lit ''varbinary(max)'')"
| "ColumnData_type_name (CBinary None) = lit ''varbinary(max)''"
| "ColumnData_type_name (CNumeric (Some n)) =
     lit ''numeric('' @ show_nat (precision n) @ lit '','' @ show_nat (unat (num_scale n)) @ lit '')''"
| "ColumnData_type_name (CNumeric None) = lit ''numeric''"
| "ColumnData_type_name (CXml _) = lit ''xml''"
| "ColumnData_type_name (CDateTime _) = lit ''datetime''"
| "ColumnData_type_name (CSmallDateTime _) = lit ''smalldatetime''"
| "ColumnData_type_name (CTime _) = lit ''time''"
| "ColumnData_type_name (CDate _) = lit ''date''"
| "ColumnData_type_name (CDateTime2 _) = lit ''datetime2''"
| "ColumnData_type_name (CDateTimeOffset _) = lit ''datetimeoffset''"

section \<open>Conversions on the way out\<close>

definition DAYS_YEAR_1_TO_1900 :: nat where "DAYS_YEAR_1_TO_1900 = 693595"

definition datetime2_to_datetime :: "DateTime2 \<Rightarrow> DateTime res" where
  "datetime2_to_datetime dt2 =
     (let days = unat (date_days (dt2_date dt2)); t = dt2_time dt2 in
      if days < DAYS_YEAR_1_TO_1900 then
        Err (Conversion (lit ''invalid datetime, expecting a date not earlier than 1900-01-01''))
      else if t_scale t > 9 then Err (Protocol (ValueMsg (DateTime2Scale (t_scale t))))
      else Ok \<lparr>dt_days = of_nat (days - DAYS_YEAR_1_TO_1900),
               dt_seconds_fragments =
                 of_nat (unat (t_increments t) * 10 ^ (9 - unat (t_scale t)) * 300 div 1000000000)\<rparr>)"

text \<open>The scale of a column replaces the scale of the value.\<close>

definition rescale_datetime2 :: "value_env \<Rightarrow> nat \<Rightarrow> DateTime2 \<Rightarrow> DateTime2" where
  "rescale_datetime2 env len dt2 =
     (let t = dt2_time dt2 in
      if t_scale t \<noteq> of_nat len then
        \<lparr>dt2_date = dt2_date dt2,
         dt2_time = \<lparr>t_increments = f64_to_u64 (f64_mul (f64_of_int (uint (t_increments t)))
                                                (env_powi10 env (int len - int (unat (t_scale t))))),
                     t_scale = of_nat len\<rparr>\<rparr>
      else dt2)"

definition rescale_numeric :: "u8 \<Rightarrow> Numeric \<Rightarrow> Numeric res" where
  "rescale_numeric target_scale num =
     (if target_scale = num_scale num then Ok num
      else if target_scale > num_scale num then
        (let factor = 10 ^ unat (target_scale - num_scale num) in
         if i128_ok factor \<and> i128_ok (num_value num * factor)
         then Numeric_new_with_scale (num_value num * factor) target_scale
         else Err (Protocol (ValueMsg NumericRescale)))
      else
        (let factor = 10 ^ unat (num_scale num - target_scale); half = factor div 2; v = num_value num;
             rounded = (if v \<ge> 0 then v + half else v - half) in
         if i128_ok factor \<and> i128_ok rounded then Numeric_new_with_scale (rounded sdiv factor) target_scale
         else Err (Protocol (ValueMsg NumericRescale))))"

section \<open>Encoding\<close>

definition XmlData_encode :: "XmlData \<Rightarrow> (bytes, unit) comp" where
  "XmlData_encode x =
     (let units = encode_utf16 (xml_data x); len = length units;
          body = (\<lambda>n :: u32. le_bytes 8 (0xfffffffffffffffe :: u64) @ le_bytes 4 n @
                    concat (map (le_bytes 2) units) @ le_bytes 4 (0 :: u32)) in
      if len \<ge> 2 ^ 32 then panicR
      else if 2 * len \<ge> 2 ^ 32 then thenR (put_bytes (body 0)) (errR (Protocol (ValueMsg XmlTooLong)))
      else put_bytes (body (of_nat (2 * len))))"

text \<open>What is left over: a \<^verbatim>\<open>sql_variant\<close> column takes any value, a parameter without
  a type of its own is an untyped null, and everything else does not fit the column.\<close>

definition encode_other :: "TypeInfo option \<Rightarrow> ColumnData \<Rightarrow> (bytes, unit) comp" where
  "encode_other ti dat =
     (case ti of
        None \<Rightarrow> put_u8 (FixedLenType_value FNull)
      | Some (VarLenSized vlc) \<Rightarrow>
          if vlc_type vlc = VSSVariant then variant_encode dat else errR (BulkInput InvalidTypePair)
      | Some _ \<Rightarrow> errR (BulkInput InvalidTypePair))"

text \<open>A value of a fixed width, length-prefixed in a nullable column, bare in a column
  of the fixed type, and with a type in front of it where no column type is known.\<close>

definition put_bytelen :: "u8 \<Rightarrow> bytes option \<Rightarrow> (bytes, unit) comp" where
  "put_bytelen len payload =
     (case payload of Some bs \<Rightarrow> thenR (put_u8 len) (put_bytes bs) | None \<Rightarrow> put_u8 0)"

definition scalar_encode ::
  "VarLenType \<Rightarrow> u8 \<Rightarrow> FixedLenType option \<Rightarrow> TypeInfo option \<Rightarrow> ColumnData \<Rightarrow> bytes option \<Rightarrow> (bytes, unit) comp" where
  "scalar_encode vty len fty ti dat payload =
     (case ti of
        Some (VarLenSized vlc) \<Rightarrow>
          if vlc_type vlc = vty then put_bytelen len payload else encode_other ti dat
      | Some (FixedLen ty) \<Rightarrow>
          (case payload of
             Some bs \<Rightarrow> if fty = Some ty then put_bytes bs else encode_other ti dat
           | None \<Rightarrow> encode_other ti dat)
      | None \<Rightarrow> thenR (put_bytes [VarLenType_value vty, len]) (put_bytelen len payload)
      | Some _ \<Rightarrow> encode_other ti dat)"

text \<open>Character and binary data of a column with a declared length: a 16-bit length below
  the limit, a single chunk of partially length-prefixed data above it.\<close>

definition put_sized :: "nat \<Rightarrow> bytes \<Rightarrow> (bytes, unit) comp" where
  "put_sized column_len payload =
     (if column_len < 0xffff then thenR (put_le 2 (of_nat (length payload) :: u16)) (put_bytes payload)
      else
        thenR (put_le 8 (0xfffffffffffffffe :: u64))
       (thenR (put_le 4 (of_nat (length payload) :: u32))
       (thenR (put_bytes payload)
              (if payload \<noteq> [] then put_le 4 (0 :: u32) else retR ()))))"

definition put_sized_null :: "nat \<Rightarrow> (bytes, unit) comp" where
  "put_sized_null column_len =
     (if column_len < 0xffff then put_le 2 (0xffff :: u16) else put_le 8 (0xffffffffffffffff :: u64))"

definition blob_guard :: "nat \<Rightarrow> rstring \<Rightarrow> (bytes, unit) comp" where
  "blob_guard column_len s =
     (if column_len \<ge> 0xffff \<and> length (as_bytes s) \<ge> 0xffffffff then panicR else retR ())"

definition codepage_bytes :: "value_env \<Rightarrow> VarLenContext \<Rightarrow> rstring \<Rightarrow> (bytes, bytes) comp" where
  "codepage_bytes env vlc s =
     bindR (ok_or (vlc_collation vlc) (Protocol (ValueMsg MissingCollation))) (\<lambda>c.
     bindR (liftR (Collation_codec c)) (\<lambda>codec.
     ok_or (CollationCodec_encode (env_lib env) codec s) (Encoding (lit ''unrepresentable character''))))"

definition string_encode_sized :: "value_env \<Rightarrow> VarLenContext \<Rightarrow> rstring option \<Rightarrow> (bytes, unit) comp" where
  "string_encode_sized env vlc opt =
     (case opt of
        None \<Rightarrow> put_sized_null (vlc_len vlc)
      | Some s \<Rightarrow>
          bindR (if vlc_type vlc \<in> {VBigChar, VBigVarChar} then codepage_bytes env vlc s
                 else retR (utf16_bytes s)) (\<lambda>payload.
          if length payload > vlc_len vlc then errR (BulkInput (StringLimit (length payload) (vlc_len vlc)))
          else thenR (blob_guard (vlc_len vlc) s) (put_sized (vlc_len vlc) payload)))"

text \<open>\<^verbatim>\<open>TEXT\<close> and \<^verbatim>\<open>NTEXT\<close>: a dummy pointer and timestamp, then the data with a 32-bit length.\<close>

definition text_encode :: "value_env \<Rightarrow> VarLenContext \<Rightarrow> rstring option \<Rightarrow> (bytes, unit) comp" where
  "text_encode env vlc opt =
     (case opt of
        None \<Rightarrow> put_u8 0
      | Some s \<Rightarrow>
          thenR (put_u8 16)
         (thenR (put_bytes (replicate 16 0))
         (thenR (put_bytes (replicate 8 0))
           (if vlc_type vlc = VText then
              bindR (codepage_bytes env vlc s) (\<lambda>bs. thenR (put_le 4 (of_nat (length bs) :: u32)) (put_bytes bs))
            else if 2 * length (encode_utf16 s) \<ge> 2 ^ 32 then panicR
            else thenR (put_le 4 (of_nat (2 * length (encode_utf16 s)) :: u32)) (put_bytes (utf16_bytes s))))))"

definition string_encode_untyped :: "rstring \<Rightarrow> (bytes, unit) comp" where
  "string_encode_untyped s =
     (if length (as_bytes s) \<le> 4000 then
        thenR (put_u8 (VarLenType_value VNVarchar))
       (thenR (put_le 2 (8000 :: u16))
       (thenR (put_bytes [0, 0, 0, 0, 0])
       (thenR (put_le 2 (of_nat (2 * length (encode_utf16 s)) :: u16))
              (put_bytes (utf16_bytes s)))))
      else if 2 * length (encode_utf16 s) \<ge> 2 ^ 32 then panicR
      else
        thenR (put_u8 (VarLenType_value VNVarchar))
       (thenR (put_bytes [0xff, 0xff])
       (thenR (put_bytes [0, 0, 0, 0, 0])
       (thenR (put_le 8 (0xfffffffffffffffe :: u64))
       (thenR (put_le 4 (of_nat (2 * length (encode_utf16 s)) :: u32))
       (thenR (put_bytes (utf16_bytes s))
              (if encode_utf16 s \<noteq> [] then put_le 4 (0 :: u32) else retR ())))))))"

definition string_encode :: "value_env \<Rightarrow> TypeInfo option \<Rightarrow> rstring option \<Rightarrow> (bytes, unit) comp" where
  "string_encode env ti opt =
     (case ti of
        Some (VarLenSized vlc) \<Rightarrow>
          if vlc_type vlc \<in> {VBigChar, VBigVarChar, VNVarchar, VNChar} then string_encode_sized env vlc opt
          else if vlc_type vlc \<in> {VText, VNText} then text_encode env vlc opt
          else encode_other ti (CString opt)
      | None \<Rightarrow> (case opt of Some s \<Rightarrow> string_encode_untyped s | None \<Rightarrow> encode_other ti (CString opt))
      | Some _ \<Rightarrow> encode_other ti (CString opt))"

definition binary_encode :: "TypeInfo option \<Rightarrow> bytes option \<Rightarrow> (bytes, unit) comp" where
  "binary_encode ti opt =
     (case ti of
        Some (VarLenSized vlc) \<Rightarrow>
          if vlc_type vlc \<in> {VBigBinary, VBigVarBin} then
            (case opt of
               None \<Rightarrow> put_sized_null (vlc_len vlc)
             | Some bs \<Rightarrow>
                 if length bs > vlc_len vlc then errR (BulkInput (BinaryLimit (length bs) (vlc_len vlc)))
                 else put_sized (vlc_len vlc) bs)
          else encode_other ti (CBinary opt)
      | None \<Rightarrow>
          (case opt of
             None \<Rightarrow> encode_other ti (CBinary opt)
           | Some bs \<Rightarrow>
               thenR (put_u8 (VarLenType_value VBigVarBin))
                 (if length bs \<le> 8000 then thenR (put_le 2 (8000 :: u16)) (put_sized 8000 bs)
                  else thenR (put_le 2 (0xffff :: u16)) (put_sized 0xffff bs)))
      | Some _ \<Rightarrow> encode_other ti (CBinary opt))"

text \<open>Temporal values: \<open>len\<close> is the length byte in front of the value, \<open>hdr\<close> the type
  written when there is no column type.\<close>

definition put_value :: "u8 res \<Rightarrow> ('a \<Rightarrow> (bytes, unit) comp) \<Rightarrow> 'a \<Rightarrow> (bytes, unit) comp" where
  "put_value len enc v = bindR (liftR len) (\<lambda>n. thenR (put_u8 n) (enc v))"

definition datetime_encode :: "TypeInfo option \<Rightarrow> DateTime option \<Rightarrow> (bytes, unit) comp" where
  "datetime_encode ti opt =
     (case (ti, opt) of
        (Some (VarLenSized vlc), _) \<Rightarrow>
          if vlc_type vlc = VDatetimen then
            (case opt of Some dt \<Rightarrow> put_value (Ok 8) DateTime_encode dt | None \<Rightarrow> put_u8 0)
          else encode_other ti (CDateTime opt)
      | (Some (FixedLen FDatetime), Some dt) \<Rightarrow> DateTime_encode dt
      | (None, Some dt) \<Rightarrow> thenR (put_bytes [VarLenType_value VDatetimen, 8, 8]) (DateTime_encode dt)
      | _ \<Rightarrow> encode_other ti (CDateTime opt))"

definition smalldatetime_encode :: "TypeInfo option \<Rightarrow> SmallDateTime option \<Rightarrow> (bytes, unit) comp" where
  "smalldatetime_encode ti opt =
     (case (ti, opt) of
        (Some (VarLenSized vlc), _) \<Rightarrow>
          if vlc_type vlc = VDatetimen then
            (case opt of Some dt \<Rightarrow> put_value (Ok 4) SmallDateTime_encode dt | None \<Rightarrow> put_u8 0)
          else encode_other ti (CSmallDateTime opt)
      | (Some (FixedLen FDatetime4), Some dt) \<Rightarrow> SmallDateTime_encode dt
      | (None, Some dt) \<Rightarrow> thenR (put_bytes [VarLenType_value VDatetimen, 4, 4]) (SmallDateTime_encode dt)
      | _ \<Rightarrow> encode_other ti (CSmallDateTime opt))"

definition date_encode :: "TypeInfo option \<Rightarrow> Date option \<Rightarrow> (bytes, unit) comp" where
  "date_encode ti opt =
     (case (ti, opt) of
        (Some (VarLenSized vlc), _) \<Rightarrow>
          if vlc_type vlc = VDaten then
            (case opt of Some d \<Rightarrow> put_value (Ok 3) Date_encode d | None \<Rightarrow> put_u8 0)
          else encode_other ti (CDate opt)
      | (None, Some d) \<Rightarrow> thenR (put_bytes [VarLenType_value VDaten, 3]) (Date_encode d)
      | _ \<Rightarrow> encode_other ti (CDate opt))"

definition time_encode :: "TypeInfo option \<Rightarrow> Time option \<Rightarrow> (bytes, unit) comp" where
  "time_encode ti opt =
     (case (ti, opt) of
        (Some (VarLenSized vlc), _) \<Rightarrow>
          if vlc_type vlc = VTimen then
            (case opt of Some t \<Rightarrow> put_value (Time_len t) Time_encode t | None \<Rightarrow> put_u8 0)
          else encode_other ti (CTime opt)
      | (None, Some t) \<Rightarrow>
          bindR (liftR (Time_len t)) (\<lambda>n.
          thenR (put_bytes [VarLenType_value VTimen, t_scale t, n]) (Time_encode t))
      | _ \<Rightarrow> encode_other ti (CTime opt))"

definition datetime2_encode :: "value_env \<Rightarrow> TypeInfo option \<Rightarrow> DateTime2 option \<Rightarrow> (bytes, unit) comp" where
  "datetime2_encode env ti opt =
     (case (ti, opt) of
        (Some (VarLenSized vlc), _) \<Rightarrow>
          if vlc_type vlc = VDatetimen then
            (case opt of
               Some dt2 \<Rightarrow> bindR (liftR (datetime2_to_datetime dt2)) (\<lambda>dt. put_value (Ok 8) DateTime_encode dt)
             | None \<Rightarrow> put_u8 0)
          else if vlc_type vlc = VDatetime2 then
            (case opt of
               Some dt2 \<Rightarrow>
                 (let dt2' = rescale_datetime2 env (vlc_len vlc) dt2 in
                  put_value (map_res (\<lambda>n. n + 3) (Time_len (dt2_time dt2'))) DateTime2_encode dt2')
             | None \<Rightarrow> put_u8 0)
          else encode_other ti (CDateTime2 opt)
      | (None, Some dt) \<Rightarrow>
          bindR (liftR (Time_len (dt2_time dt))) (\<lambda>n.
          thenR (put_bytes [VarLenType_value VDatetime2, t_scale (dt2_time dt), n + 3]) (DateTime2_encode dt))
      | _ \<Rightarrow> encode_other ti (CDateTime2 opt))"

definition datetimeoffset_encode :: "TypeInfo option \<Rightarrow> DateTimeOffset option \<Rightarrow> (bytes, unit) comp" where
  "datetimeoffset_encode ti opt =
     (case (ti, opt) of
        (Some (VarLenSized vlc), _) \<Rightarrow>
          if vlc_type vlc = VDatetimeOffsetn then
            (case opt of
               Some d \<Rightarrow> put_value (map_res (\<lambda>n. n + 5) (Time_len (dt2_time (dto_datetime2 d)))) DateTimeOffset_encode d
             | None \<Rightarrow> put_u8 0)
          else encode_other ti (CDateTimeOffset opt)
      | (None, Some d) \<Rightarrow>
          bindR (liftR (Time_len (dt2_time (dto_datetime2 d)))) (\<lambda>n.
          thenR (put_bytes [VarLenType_value VDatetimeOffsetn, t_scale (dt2_time (dto_datetime2 d)), n + 5])
                (DateTimeOffset_encode d))
      | _ \<Rightarrow> encode_other ti (CDateTimeOffset opt))"

definition xml_encode :: "TypeInfo option \<Rightarrow> XmlData option \<Rightarrow> (bytes, unit) comp" where
  "xml_encode ti opt =
     (case (ti, opt) of
        (Some (XmlType _ _), Some x) \<Rightarrow> XmlData_encode x
      | (Some (XmlType _ _), None) \<Rightarrow> put_le 8 (0xffffffffffffffff :: u64)
      | (None, Some x) \<Rightarrow> thenR (put_bytes [VarLenType_value VXml, 0]) (XmlData_encode x)
      | _ \<Rightarrow> encode_other ti (CXml opt))"

definition numeric_encode :: "TypeInfo option \<Rightarrow> Numeric option \<Rightarrow> (bytes, unit) comp" where
  "numeric_encode ti opt =
     (case (ti, opt) of
        (Some (VarLenSized vlc), _) \<Rightarrow>
          if vlc_type vlc = VMoney then
            (case opt of Some num \<Rightarrow> encode_numeric (vlc_len vlc) num | None \<Rightarrow> put_u8 0)
          else encode_other ti (CNumeric opt)
      | (Some (FixedLen FMoney), Some num) \<Rightarrow> encode_numeric_fixed 8 num
      | (Some (FixedLen FMoney4), Some num) \<Rightarrow> encode_numeric_fixed 4 num
      | (Some (VarLenSizedPrecision ty _ _ scale), _) \<Rightarrow>
          if ty \<in> {VNumericn, VDecimaln} then
            (case opt of
               Some num \<Rightarrow> bindR (liftR (rescale_numeric scale num)) (\<lambda>n. Numeric_encode n)
             | None \<Rightarrow> put_u8 0)
          else encode_other ti (CNumeric opt)
      | (None, Some num) \<Rightarrow>
          thenR (put_bytes [VarLenType_value VNumericn, Numeric_len num, of_nat (precision num), num_scale num])
                (Numeric_encode num)
      | _ \<Rightarrow> encode_other ti (CNumeric opt))"

definition f64_encode :: "TypeInfo option \<Rightarrow> u64 option \<Rightarrow> (bytes, unit) comp" where
  "f64_encode ti opt =
     (case (ti, opt) of
        (Some (VarLenSized vlc), _) \<Rightarrow>
          if vlc_type vlc = VMoney then
            (case opt of Some v \<Rightarrow> money_encode (vlc_len vlc) v | None \<Rightarrow> put_u8 0)
          else scalar_encode VFloatn 8 (Some FFloat8) ti (CF64 opt) (map_option (le_bytes 8) opt)
      | (Some (FixedLen FMoney), Some v) \<Rightarrow> money_encode_fixed 8 v
      | (Some (FixedLen FMoney4), Some v) \<Rightarrow> money_encode_fixed 4 v
      | _ \<Rightarrow> scalar_encode VFloatn 8 (Some FFloat8) ti (CF64 opt) (map_option (le_bytes 8) opt))"

fun ColumnData_encode :: "value_env \<Rightarrow> TypeInfo option \<Rightarrow> ColumnData \<Rightarrow> (bytes, unit) comp" where
  "ColumnData_encode env ti (CBit opt) =
     scalar_encode VBitn 1 (Some FBit) ti (CBit opt) (map_option (\<lambda>v. [of_bool v]) opt)"
| "ColumnData_encode env ti (CU8 opt) = scalar_encode VIntn 1 (Some FInt1) ti (CU8 opt) (map_option (\<lambda>v. [v]) opt)"
| "ColumnData_encode env ti (CI16 opt) = scalar_encode VIntn 2 (Some FInt2) ti (CI16 opt) (map_option (le_bytes 2) opt)"
| "ColumnData_encode env ti (CI32 opt) = scalar_encode VIntn 4 (Some FInt4) ti (CI32 opt) (map_option (le_bytes 4) opt)"
| "ColumnData_encode env ti (CI64 opt) = scalar_encode VIntn 8 (Some FInt8) ti (CI64 opt) (map_option (le_bytes 8) opt)"
| "ColumnData_encode env ti (CF32 opt) = scalar_encode VFloatn 4 (Some FFloat4) ti (CF32 opt) (map_option (le_bytes 4) opt)"
| "ColumnData_encode env ti (CF64 opt) = f64_encode ti opt"
| "ColumnData_encode env ti (CGuid opt) = scalar_encode VGuid 16 None ti (CGuid opt) (map_option reorder_bytes opt)"
| "ColumnData_encode env ti (CString opt) = string_encode env ti opt"
| "ColumnData_encode env ti (CBinary opt) = binary_encode ti opt"
| "ColumnData_encode env ti (CDateTime opt) = datetime_encode ti opt"
| "ColumnData_encode env ti (CSmallDateTime opt) = smalldatetime_encode ti opt"
| "ColumnData_encode env ti (CDate opt) = date_encode ti opt"
| "ColumnData_encode env ti (CTime opt) = time_encode ti opt"
| "ColumnData_encode env ti (CDateTime2 opt) = datetime2_encode env ti opt"
| "ColumnData_encode env ti (CDateTimeOffset opt) = datetimeoffset_encode ti opt"
| "ColumnData_encode env ti (CXml opt) = xml_encode ti opt"
| "ColumnData_encode env ti (CNumeric opt) = numeric_encode ti opt"

section \<open>Readers\<close>

lemma reader_var_len [reader_intros]: "reader (var_len_decode env ctx)"
  unfolding var_len_decode_def Let_def by (intro reader_intros)

lemma safe_var_len [safe_intros]: "safe (var_len_decode env ctx)"
  unfolding var_len_decode_def Let_def by (intro safe_intros)

lemma reader_ColumnData [reader_intros]: "reader (ColumnData_decode env ti)"
  by (cases ti) (auto intro!: reader_intros)

lemma safe_ColumnData: "TypeInfo_wf ti \<Longrightarrow> safe (ColumnData_decode env ti)"
  by (cases ti) (auto intro!: safe_intros)

end
