(* ===== verification/Tds_Tokens.thy ===== *)
theory Tds_Tokens
  imports Tds_ColumnData
begin

text \<open>
  The tokens of a response that do not describe or carry rows: one record or datatype and one
  decoder per file of \<^verbatim>\<open>tds/codec/token/\<close>, with the feature level of
  \<^verbatim>\<open>tds/codec/login.rs\<close> on which the width of two fields depends. A token that
  announces its length is read as a whole into a local buffer and parsed there: the
  parser is a computation over that buffer, run on it by \<open>on_buffer\<close>.
\<close>

section \<open>Token and version tags\<close>

datatype TokenType =
    TReturnStatus | TAltMetaData | TColMetaData | TError | TInfo | TOrder | TColInfo | TTabName
  | TReturnValue | TLoginAck | TRow | TNbcRow | TAltRow | TSspi | TSessionState | TFedAuthInfo
  | TEnvChange | TDone | TDoneProc | TDoneInProc | TFeatureExtAck

fun TokenType_value :: "TokenType \<Rightarrow> u8" where
  "TokenType_value TReturnStatus = 0x79"
| "TokenType_value TAltMetaData = 0x88"
| "TokenType_value TColMetaData = 0x81"
| "TokenType_value TError = 0xAA"
| "TokenType_value TInfo = 0xAB"
| "TokenType_value TOrder = 0xA9"
| "TokenType_value TColInfo = 0xA5"
| "TokenType_value TTabName = 0xA4"
| "TokenType_value TReturnValue = 0xAC"
| "TokenType_value TLoginAck = 0xAD"
| "TokenType_value TRow = 0xD1"
| "TokenType_value TNbcRow = 0xD2"
| "TokenType_value TAltRow = 0xD3"
| "TokenType_value TSspi = 0xED"
| "TokenType_value TSessionState = 0xE4"
| "TokenType_value TFedAuthInfo = 0xEE"
| "TokenType_value TEnvChange = 0xE3"
| "TokenType_value TDone = 0xFD"
| "TokenType_value TDoneProc = 0xFE"
| "TokenType_value TDoneInProc = 0xFF"
| "TokenType_value TFeatureExtAck = 0xAE"

definition TokenType_variants :: "TokenType list" where
  "TokenType_variants =
     [TReturnStatus, TAltMetaData, TColMetaData, TError, TInfo, TOrder, TColInfo, TTabName, TReturnValue,
      TLoginAck, TRow, TNbcRow, TAltRow, TSspi, TSessionState, TFedAuthInfo, TEnvChange, TDone, TDoneProc,
      TDoneInProc, TFeatureExtAck]"

definition TokenType_try_from :: "u8 \<Rightarrow> TokenType option" where
  "TokenType_try_from = uint_enum_try_from TokenType_value TokenType_variants"

interpretation token_type: uint_enum TokenType_value TokenType_variants
proof
  show "v \<in> set TokenType_variants" for v by (cases v) (simp_all add: TokenType_variants_def)
qed (simp add: TokenType_variants_def)

lemmas token_tag_simps [simp, wire_simps] = token_type.try_from_val [folded TokenType_try_from_def]

datatype FeatureLevel =
    SqlServerV7 | SqlServer2000 | SqlServer2000Sp1 | SqlServer2005 | SqlServer2008 | SqlServer2008R2 | SqlServerN

fun FeatureLevel_value :: "FeatureLevel \<Rightarrow> u32" where
  "FeatureLevel_value SqlServerV7 = 0x70000000"
| "FeatureLevel_value SqlServer2000 = 0x71000000"
| "FeatureLevel_value SqlServer2000Sp1 = 0x71000001"
| "FeatureLevel_value SqlServer2005 = 0x72090002"
| "FeatureLevel_value SqlServer2008 = 0x730A0003"
| "FeatureLevel_value SqlServer2008R2 = 0x730B0003"
| "FeatureLevel_value SqlServerN = 0x74000004"

definition FeatureLevel_variants :: "FeatureLevel list" where
  "FeatureLevel_variants =
     [SqlServerV7, SqlServer2000, SqlServer2000Sp1, SqlServer2005, SqlServer2008, SqlServer2008R2, SqlServerN]"

definition FeatureLevel_try_from :: "u32 \<Rightarrow> FeatureLevel option" where
  "FeatureLevel_try_from = uint_enum_try_from FeatureLevel_value FeatureLevel_variants"

interpretation feature_level: uint_enum FeatureLevel_value FeatureLevel_variants
proof
  show "v \<in> set FeatureLevel_variants" for v by (cases v) (simp_all add: FeatureLevel_variants_def)
qed (simp add: FeatureLevel_variants_def)

definition done_row_count_bytes :: "FeatureLevel \<Rightarrow> nat" where
  "done_row_count_bytes lvl = (if FeatureLevel_value lvl \<ge> FeatureLevel_value SqlServer2005 then 8 else 4)"

declare TokenType_value.simps [simp del, wire_eval] FeatureLevel_value.simps [simp del, wire_eval]

section \<open>Parsing a local buffer\<close>

text \<open>\<^verbatim>\<open>Cursor::new(&data)\<close>: the parser sees the buffer and nothing else.\<close>

definition on_buffer :: "(bytes, 'a) comp \<Rightarrow> bytes \<Rightarrow> 'a res" where
  "on_buffer p buf = fst (p buf)"

lemma returns_on_buffer: "safe p \<Longrightarrow> returns (on_buffer p buf)"
  by (simp add: safe_def on_buffer_def)

section \<open>DONE\<close>

record TokenDone =
  done_status :: u16
  done_cur_cmd :: u16
  done_done_rows :: u64

definition DoneStatus_Attention :: u16 where "DoneStatus_Attention = 0x20"
definition DoneStatus_Count :: u16 where "DoneStatus_Count = 0x10"

text \<open>The flags the code knows: More, Error, Inexact, Count, Attention, RpcInBatch and SrvError.\<close>

definition DoneStatus_all :: u16 where "DoneStatus_all = 0x1B7"

definition TokenDone_decode :: "FeatureLevel \<Rightarrow> (bytes, TokenDone) comp" where
  "TokenDone_decode version =
     bindR read_u16_le (\<lambda>bits.
     bindR read_u16_le (\<lambda>cur_cmd.
     bindR (if done_row_count_bytes version = 8 then read_u64_le
            else if done_row_count_bytes version = 4 then bindR read_u32_le (\<lambda>n. retR (ucast n))
            else errR (Protocol (TokenMsg (DoneRowCountWidth (done_row_count_bytes version))))) (\<lambda>done_rows.
     retR \<lparr>done_status = and bits DoneStatus_all, done_cur_cmd = cur_cmd, done_done_rows = done_rows\<rparr>)))"

definition TokenDone_is_final :: "TokenDone \<Rightarrow> bool" where
  "TokenDone_is_final d \<longleftrightarrow> done_status d = 0"

definition TokenDone_is_attention :: "TokenDone \<Rightarrow> bool" where
  "TokenDone_is_attention d \<longleftrightarrow> and (done_status d) DoneStatus_Attention = DoneStatus_Attention"

definition TokenDone_rows :: "TokenDone \<Rightarrow> u64" where
  "TokenDone_rows d = (if and (done_status d) DoneStatus_Count = DoneStatus_Count then done_done_rows d else 0)"

definition TokenDone_encode :: "TokenDone \<Rightarrow> (bytes, unit) comp" where
  "TokenDone_encode d =
     thenR (put_u8 (TokenType_value TDone))
    (thenR (put_le 2 (done_status d))
    (thenR (put_le 2 (done_cur_cmd d))
           (put_le 8 (done_done_rows d))))"

section \<open>ORDER\<close>

record TokenOrder =
  order_column_indexes :: "u16 list"

definition TokenOrder_decode :: "(bytes, TokenOrder) comp" where
  "TokenOrder_decode =
     bindR read_u16_le (\<lambda>raw_len.
     if raw_len mod 2 \<noteq> 0 then errR (Protocol (TokenMsg (OrderLengthOdd raw_len)))
     else bindR (repeatR (unat (raw_len div 2)) read_u16_le) (\<lambda>column_indexes.
          retR \<lparr>order_column_indexes = column_indexes\<rparr>))"

section \<open>ERROR and INFO\<close>

record ErrorInfoBody =
  eib_code :: u32
  eib_state :: u8
  eib_class :: u8
  eib_message :: rstring
  eib_server :: rstring
  eib_procedure :: rstring
  eib_line :: u32

definition error_read_utf16 :: "nat \<Rightarrow> (bytes, rstring) comp" where
  "error_read_utf16 char_count =
     bindR (repeatR char_count read_u16_le) (\<lambda>units.
     ok_or (from_utf16 units) (Protocol (TokenMsg ErrorInfoUtf16)))"

definition error_read_us_varchar :: "(bytes, rstring) comp" where
  "error_read_us_varchar = bindR read_u16_le (\<lambda>n. error_read_utf16 (unat n))"

definition error_read_b_varchar :: "(bytes, rstring) comp" where
  "error_read_b_varchar = bindR read_u8 (\<lambda>n. error_read_utf16 (unat n))"

definition error_info_parse :: "bool \<Rightarrow> (bytes, ErrorInfoBody) comp" where
  "error_info_parse four_byte_line =
     bindR read_u32_le (\<lambda>code.
     bindR read_u8 (\<lambda>state.
     bindR read_u8 (\<lambda>cls.
     bindR error_read_us_varchar (\<lambda>message.
     bindR error_read_b_varchar (\<lambda>server.
     bindR error_read_b_varchar (\<lambda>procedure.
     bindR (if four_byte_line then read_u32_le else bindR read_u16_le (\<lambda>n. retR (ucast n))) (\<lambda>line.
     retR \<lparr>eib_code = code, eib_state = state, eib_class = cls, eib_message = message, eib_server = server,
           eib_procedure = procedure, eib_line = line\<rparr>)))))))"

definition decode_error_info_body :: "FeatureLevel \<Rightarrow> (bytes, ErrorInfoBody) comp" where
  "decode_error_info_body version =
     bindR read_u16_le (\<lambda>len.
     bindR (read_n (unat len)) (\<lambda>dat.
     liftR (on_buffer (error_info_parse (FeatureLevel_value version \<ge> FeatureLevel_value SqlServer2005)) dat)))"

definition TokenError_decode :: "FeatureLevel \<Rightarrow> (bytes, TokenError) comp" where
  "TokenError_decode version =
     bindR (decode_error_info_body version) (\<lambda>b.
     retR \<lparr>te_code = eib_code b, te_state = eib_state b, te_class = eib_class b, te_message = eib_message b,
           te_server = eib_server b, te_procedure = eib_procedure b, te_line = eib_line b\<rparr>)"

definition TokenError_display :: "TokenError \<Rightarrow> rstring" where
  "TokenError_display e =
     lit [CHR 0x27] @ te_message e @ lit [CHR 0x27] @ lit '' on server '' @ te_server e @
     lit '' executing '' @ te_procedure e @ lit '' on line '' @ show_nat (unat (te_line e)) @
     lit '' (code: '' @ show_nat (unat (te_code e)) @ lit '', state: '' @ show_nat (unat (te_state e)) @
     lit '', class: '' @ show_nat (unat (te_class e)) @ lit '')''"

record TokenInfo =
  ti_number :: u32
  ti_state :: u8
  ti_class :: u8
  ti_message :: rstring
  ti_server :: rstring
  ti_procedure :: rstring
  ti_line :: u32

definition TokenInfo_decode :: "FeatureLevel \<Rightarrow> (bytes, TokenInfo) comp" where
  "TokenInfo_decode version =
     bindR (decode_error_info_body version) (\<lambda>b.
     retR \<lparr>ti_number = eib_code b, ti_state = eib_state b, ti_class = eib_class b, ti_message = eib_message b,
           ti_server = eib_server b, ti_procedure = eib_procedure b, ti_line = eib_line b\<rparr>)"

section \<open>SSPI\<close>

type_synonym TokenSspi = bytes

definition TokenSspi_decode_async :: "(bytes, TokenSspi) comp" where
  "TokenSspi_decode_async = bindR read_u16_le (\<lambda>len. read_n (unat len))"

definition TokenSspi_encode :: "TokenSspi \<Rightarrow> (bytes, unit) comp" where
  "TokenSspi_encode bs = put_bytes bs"

section \<open>LOGINACK\<close>

record TokenLoginAck =
  ack_interface :: u8
  ack_tds_version :: FeatureLevel
  ack_prog_name :: rstring
  ack_version :: u32

definition login_ack_read_b_varchar :: "(bytes, rstring) comp" where
  "login_ack_read_b_varchar =
     bindR read_u8 (\<lambda>char_count.
     bindR (repeatR (unat char_count) read_u16_le) (\<lambda>units.
     ok_or (from_utf16 units) (Protocol (TokenMsg LoginAckUtf16))))"

definition FIXED_PREFIX :: nat where "FIXED_PREFIX = 5"

definition TokenLoginAck_decode :: "(bytes, TokenLoginAck) comp" where
  "TokenLoginAck_decode =
     bindR read_u16_le (\<lambda>len.
     if unat len < FIXED_PREFIX then
       bindR (read_n (unat len)) (\<lambda>_. errR (Protocol (TokenMsg LoginAckTooShort)))
     else
       bindR read_u8 (\<lambda>interface.
       bindR read_u32 (\<lambda>v.
       bindR (ok_or (FeatureLevel_try_from v) (Protocol (TokenMsg LoginAckVersion))) (\<lambda>tds_version.
       bindR (read_n (unat len - FIXED_PREFIX)) (\<lambda>dat.
       liftR (on_buffer
         (bindR login_ack_read_b_varchar (\<lambda>prog_name.
          bindR read_u32_le (\<lambda>version.
          retR \<lparr>ack_interface = interface, ack_tds_version = tds_version, ack_prog_name = prog_name,
                ack_version = version\<rparr>))) dat))))))"

section \<open>FEATUREEXTACK\<close>

definition FEA_EXT_FEDAUTH :: u8 where "FEA_EXT_FEDAUTH = 0x02"
definition FEA_EXT_TERMINATOR :: u8 where "FEA_EXT_TERMINATOR = 0xFF"

text \<open>\<^verbatim>\<open>FeatureAck::FedAuth(FedAuthAck::SecurityToken { nonce })\<close>, the only shape both enums have.\<close>

datatype FedAuthAck = SecurityToken "bytes option"
datatype FeatureAck = FedAuth FedAuthAck

record TokenFeatureExtAck =
  fea_features :: "FeatureAck list"

definition feature_ack_step :: "FeatureAck list \<Rightarrow> (bytes, FeatureAck list + TokenFeatureExtAck) comp" where
  "feature_ack_step features =
     bindR read_u8 (\<lambda>feature_id.
     if feature_id = FEA_EXT_TERMINATOR then retR (Inr \<lparr>fea_features = features\<rparr>)
     else if feature_id = FEA_EXT_FEDAUTH then
       bindR read_u32_le (\<lambda>data_len.
       bindR (if data_len = 32 then bindR (read_n 32) (\<lambda>n. retR (Some n))
              else if data_len = 0 then retR None
              else errR (Protocol (TokenMsg (FeatureAckLength data_len)))) (\<lambda>nonce.
       retR (Inl (features @ [FedAuth (SecurityToken nonce)]))))
     else errR (Protocol (TokenMsg (UnsupportedFeature feature_id))))"

definition TokenFeatureExtAck_decode :: "(bytes, TokenFeatureExtAck) comp" where
  "TokenFeatureExtAck_decode = loopR feature_ack_step []"

section \<open>FEDAUTHINFO\<close>

definition MAX_TOKEN_BODY :: nat where "MAX_TOKEN_BODY = 16 * 1024 * 1024"

definition FED_AUTH_INFO_ID_STSURL :: u8 where "FED_AUTH_INFO_ID_STSURL = 0x01"
definition FED_AUTH_INFO_ID_SPN :: u8 where "FED_AUTH_INFO_ID_SPN = 0x02"

record TokenFedAuthInfo =
  fai_sts_url :: "rstring option"
  fai_spn :: "rstring option"

text \<open>\<^verbatim>\<open>slice.get(a..b)\<close>\<close>

definition get_range :: "nat \<Rightarrow> nat \<Rightarrow> 'a list \<Rightarrow> 'a list option" where
  "get_range a b xs = (if a \<le> b \<and> b \<le> length xs then Some (take (b - a) (drop a xs)) else None)"

definition fed_auth_u32 :: "bytes \<Rightarrow> nat \<Rightarrow> u32 res" where
  "fed_auth_u32 buf at =
     (case get_range at (at + 4) buf of
        Some b \<Rightarrow> Ok (from_le b)
      | None \<Rightarrow> Err (Protocol (TokenBodyMsg FedAuthDword)))"

definition fed_auth_option :: "bytes \<Rightarrow> nat \<Rightarrow> (TokenFedAuthInfo, unit) comp" where
  "fed_auth_option body i =
     (let opt = 4 + i * 9 in
      if length body \<le> opt then errR (Protocol (TokenBodyMsg FedAuthOptionId))
      else
        bindR (liftR (fed_auth_u32 body (opt + 1))) (\<lambda>data_len.
        bindR (liftR (fed_auth_u32 body (opt + 5))) (\<lambda>data_offset.
        bindR (ok_or (get_range (unat data_offset) (unat data_offset + unat data_len) body)
                 (Protocol (TokenBodyMsg FedAuthOffset))) (\<lambda>dat.
        if odd (unat data_len) then errR (Protocol (TokenBodyMsg FedAuthUtf16))
        else
          bindR (ok_or (from_utf16 (units_of dat)) (Protocol (TokenBodyMsg FedAuthUtf16))) (\<lambda>value info.
          (Ok (), if body ! opt = FED_AUTH_INFO_ID_STSURL then info\<lparr>fai_sts_url := Some value\<rparr>
                  else if body ! opt = FED_AUTH_INFO_ID_SPN then info\<lparr>fai_spn := Some value\<rparr>
                  else info))))))"

function fed_auth_options :: "bytes \<Rightarrow> nat \<Rightarrow> nat \<Rightarrow> (TokenFedAuthInfo, unit) comp" where
  "fed_auth_options body i count =
     (if i < count then thenR (fed_auth_option body i) (fed_auth_options body (i + 1) count) else retR ())"
  by auto
termination
  by (relation "measure (\<lambda>(_, i, count). count - i)") auto

declare fed_auth_options.simps [simp del]

definition TokenFedAuthInfo_parse :: "bytes \<Rightarrow> TokenFedAuthInfo res" where
  "TokenFedAuthInfo_parse body =
     (case fed_auth_u32 body 0 of
        Ok count \<Rightarrow>
          (case fed_auth_options body 0 (unat count) \<lparr>fai_sts_url = None, fai_spn = None\<rparr> of
             (r, info) \<Rightarrow> map_res (\<lambda>_. info) r)
      | Err e \<Rightarrow> Err e | Panic \<Rightarrow> Panic | Diverge \<Rightarrow> Diverge)"

definition TokenFedAuthInfo_decode :: "(bytes, TokenFedAuthInfo) comp" where
  "TokenFedAuthInfo_decode =
     bindR read_u32_le (\<lambda>token_length.
     if unat token_length > MAX_TOKEN_BODY then errR (Protocol (TokenBodyMsg (FedAuthTooLong (unat token_length))))
     else bindR (read_n (unat token_length)) (\<lambda>body. liftR (TokenFedAuthInfo_parse body)))"

section \<open>SESSIONSTATE\<close>

record SessionStateValue =
  ssv_id :: u8
  ssv_value :: bytes

record TokenSessionState =
  sst_seq_no :: u32
  sst_status :: u8
  sst_states :: "SessionStateValue list"

definition TokenSessionState_is_recoverable :: "TokenSessionState \<Rightarrow> bool" where
  "TokenSessionState_is_recoverable t \<longleftrightarrow> and (sst_status t) 0x01 \<noteq> 0"

definition session_state_len :: "(bytes, nat) comp" where
  "session_state_len =
     bindR read_u8 (\<lambda>short_len.
     if short_len = 0xFF then bindR read_u32_le (\<lambda>n. retR (unat n)) else retR (unat short_len))"

definition session_state_entry ::
  "SessionStateValue list \<Rightarrow> (bytes, SessionStateValue list + SessionStateValue list) comp" where
  "session_state_entry states =
     (\<lambda>buf. if buf = [] then (Ok (Inr states), buf)
        else
          bindR read_u8 (\<lambda>sid.
          bindR session_state_len (\<lambda>state_len.
          bindR (\<lambda>b. (Ok (length b), b)) (\<lambda>remaining.
          if state_len > remaining then
            errR (Protocol (TokenBodyMsg (SessionStateEntry state_len remaining)))
          else bindR (read_n state_len) (\<lambda>value.
               retR (Inl (states @ [\<lparr>ssv_id = sid, ssv_value = value\<rparr>])))))) buf)"

definition TokenSessionState_parse :: "(bytes, TokenSessionState) comp" where
  "TokenSessionState_parse =
     bindR read_u32_le (\<lambda>seq_no.
     bindR read_u8 (\<lambda>status.
     bindR (loopR session_state_entry []) (\<lambda>states.
     retR \<lparr>sst_seq_no = seq_no, sst_status = status, sst_states = states\<rparr>)))"

definition TokenSessionState_decode :: "(bytes, TokenSessionState) comp" where
  "TokenSessionState_decode =
     bindR read_u32_le (\<lambda>len.
     if unat len > MAX_TOKEN_BODY then errR (Protocol (TokenBodyMsg (SessionStateTooLong (unat len))))
     else
       bindR (read_n (unat len)) (\<lambda>bs.
       if length bs < 5 then errR (Protocol (TokenBodyMsg SessionStateTooShort))
       else liftR (on_buffer TokenSessionState_parse bs)))"

section \<open>TABNAME\<close>

type_synonym TableName = "rstring list"

record TokenTabName =
  tab_tables :: "TableName list"

text \<open>The position in the buffer is what is left of it: \<^verbatim>\<open>pos + n > data.len()\<close> says that
  fewer than \<open>n\<close> bytes remain.\<close>

definition tab_name_part :: "(bytes, rstring) comp" where
  "tab_name_part =
     bindR (\<lambda>b. if length b < 2 then (Err (Protocol (TokenBodyMsg TabNamePartLength)), b) else (Ok (), b)) (\<lambda>_.
     bindR read_u16_le (\<lambda>char_count.
     bindR (\<lambda>b. if length b < unat char_count * 2 then (Err (Protocol (TokenBodyMsg TabNamePartName)), b) else (Ok (), b)) (\<lambda>_.
     bindR (repeatR (unat char_count) read_u16_le) (\<lambda>units.
     ok_or (from_utf16 units) (Protocol (TokenBodyMsg TabNameUtf16))))))"

definition tab_name_table :: "TableName list \<Rightarrow> (bytes, TableName list + TokenTabName) comp" where
  "tab_name_table tables =
     (\<lambda>buf. if buf = [] then (Ok (Inr \<lparr>tab_tables = tables\<rparr>), buf)
        else
          bindR read_u8 (\<lambda>num_parts.
          bindR (repeatR (unat num_parts) tab_name_part) (\<lambda>parts.
          retR (Inl (tables @ [parts])))) buf)"

definition TokenTabName_parse :: "(bytes, TokenTabName) comp" where
  "TokenTabName_parse = loopR tab_name_table []"

definition TokenTabName_decode :: "(bytes, TokenTabName) comp" where
  "TokenTabName_decode =
     bindR read_u16_le (\<lambda>len.
     bindR (read_bytes_into [] (unat len) MAX_PREALLOC) (\<lambda>dat.
     liftR (on_buffer TokenTabName_parse dat)))"

section \<open>COLINFO\<close>

definition STATUS_EXPRESSION :: u8 where "STATUS_EXPRESSION = 0x04"
definition STATUS_KEY :: u8 where "STATUS_KEY = 0x08"
definition STATUS_HIDDEN :: u8 where "STATUS_HIDDEN = 0x10"
definition STATUS_DIFFERENT_NAME :: u8 where "STATUS_DIFFERENT_NAME = 0x20"

record ColInfo =
  ci_col_num :: u8
  ci_table_num :: u8
  ci_status :: u8
  ci_col_name :: "rstring option"

definition ColInfo_is_expression :: "ColInfo \<Rightarrow> bool" where
  "ColInfo_is_expression c \<longleftrightarrow> and (ci_status c) STATUS_EXPRESSION \<noteq> 0"

definition ColInfo_is_key :: "ColInfo \<Rightarrow> bool" where
  "ColInfo_is_key c \<longleftrightarrow> and (ci_status c) STATUS_KEY \<noteq> 0"

definition ColInfo_is_hidden :: "ColInfo \<Rightarrow> bool" where
  "ColInfo_is_hidden c \<longleftrightarrow> and (ci_status c) STATUS_HIDDEN \<noteq> 0"

definition ColInfo_has_different_name :: "ColInfo \<Rightarrow> bool" where
  "ColInfo_has_different_name c \<longleftrightarrow> and (ci_status c) STATUS_DIFFERENT_NAME \<noteq> 0"

record TokenColInfo =
  tci_columns :: "ColInfo list"

text \<open>One entry: the bytes it took, and the entry. \<open>left\<close> is \<^verbatim>\<open>length - consumed\<close>.\<close>

definition col_info_name :: "nat \<Rightarrow> (bytes, nat \<times> rstring option) comp" where
  "col_info_name left =
     (if left < 1 then errR (Protocol (TokenBodyMsg ColInfoNameLength))
      else
        bindR read_u8 (\<lambda>char_len.
        if left - 1 < unat char_len * 2 then errR (Protocol (TokenBodyMsg ColInfoName))
        else
          bindR (repeatR (unat char_len) read_u16_le) (\<lambda>units.
          bindR (ok_or (from_utf16 units) (Protocol (TokenBodyMsg ColInfoUtf16))) (\<lambda>name.
          retR (1 + unat char_len * 2, Some name)))))"

definition col_info_entry :: "nat \<Rightarrow> (bytes, nat \<times> ColInfo) comp" where
  "col_info_entry left =
     (if left < 3 then errR (Protocol (TokenBodyMsg ColInfoHeader))
      else
        bindR read_u8 (\<lambda>col_num.
        bindR read_u8 (\<lambda>table_num.
        bindR read_u8 (\<lambda>status.
        bindR (if and status STATUS_DIFFERENT_NAME \<noteq> 0 then col_info_name (left - 3) else retR (0, None)) (\<lambda>(n, col_name).
        retR (3 + n, \<lparr>ci_col_num = col_num, ci_table_num = table_num, ci_status = status, ci_col_name = col_name\<rparr>))))))"

definition col_info_step :: "nat \<Rightarrow> nat \<times> ColInfo list \<Rightarrow> (bytes, nat \<times> ColInfo list + TokenColInfo) comp" where
  "col_info_step len st =
     (case st of (consumed, columns) \<Rightarrow>
        if consumed < len then
          bindR (col_info_entry (len - consumed)) (\<lambda>(n, c). retR (Inl (consumed + n, columns @ [c])))
        else retR (Inr \<lparr>tci_columns = columns\<rparr>))"

definition TokenColInfo_decode :: "(bytes, TokenColInfo) comp" where
  "TokenColInfo_decode = bindR read_u16_le (\<lambda>len. loopR (col_info_step (unat len)) (0, []))"

section \<open>ENVCHANGE\<close>

datatype EnvChangeTy =
    EDatabase | ELanguage | ECharacterSet | EPacketSize | EUnicodeDataSortingLID | EUnicodeDataSortingCFL
  | ESqlCollation | EBeginTransaction | ECommitTransaction | ERollbackTransaction | EEnlistDTCTransaction
  | EDefectTransaction | ERtls | EPromoteTransaction | ETransactionManagerAddress | ETransactionEnded
  | EResetConnection | EUserName | ERouting

fun EnvChangeTy_value :: "EnvChangeTy \<Rightarrow> u8" where
  "EnvChangeTy_value EDatabase = 1"
| "EnvChangeTy_value ELanguage = 2"
| "EnvChangeTy_value ECharacterSet = 3"
| "EnvChangeTy_value EPacketSize = 4"
| "EnvChangeTy_value EUnicodeDataSortingLID = 5"
| "EnvChangeTy_value EUnicodeDataSortingCFL = 6"
| "EnvChangeTy_value ESqlCollation = 7"
| "EnvChangeTy_value EBeginTransaction = 8"
| "EnvChangeTy_value ECommitTransaction = 9"
| "EnvChangeTy_value ERollbackTransaction = 10"
| "EnvChangeTy_value EEnlistDTCTransaction = 11"
| "EnvChangeTy_value EDefectTransaction = 12"
| "EnvChangeTy_value ERtls = 13"
| "EnvChangeTy_value EPromoteTransaction = 15"
| "EnvChangeTy_value ETransactionManagerAddress = 16"
| "EnvChangeTy_value ETransactionEnded = 17"
| "EnvChangeTy_value EResetConnection = 18"
| "EnvChangeTy_value EUserName = 19"
| "EnvChangeTy_value ERouting = 20"

definition EnvChangeTy_variants :: "EnvChangeTy list" where
  "EnvChangeTy_variants =
     [EDatabase, ELanguage, ECharacterSet, EPacketSize, EUnicodeDataSortingLID, EUnicodeDataSortingCFL,
      ESqlCollation, EBeginTransaction, ECommitTransaction, ERollbackTransaction, EEnlistDTCTransaction,
      EDefectTransaction, ERtls, EPromoteTransaction, ETransactionManagerAddress, ETransactionEnded,
      EResetConnection, EUserName, ERouting]"

definition EnvChangeTy_try_from :: "u8 \<Rightarrow> EnvChangeTy option" where
  "EnvChangeTy_try_from = uint_enum_try_from EnvChangeTy_value EnvChangeTy_variants"

interpretation env_change_ty: uint_enum EnvChangeTy_value EnvChangeTy_variants
proof
  show "v \<in> set EnvChangeTy_variants" for v by (cases v) (simp_all add: EnvChangeTy_variants_def)
qed (simp add: EnvChangeTy_variants_def)

lemmas env_tag_simps [simp, wire_simps] = env_change_ty.try_from_val [folded EnvChangeTy_try_from_def]

declare EnvChangeTy_value.simps [simp del, wire_eval]

datatype TokenEnvChange =
    DatabaseChange (env_old: rstring) (env_new: rstring)
  | PacketSizeChange u32 u32 \<comment> \<open>old, new\<close>
  | SqlCollationChange "Collation option" "Collation option" \<comment> \<open>old, new\<close>
  | BeginTransactionChange bytes
  | CommitTransactionChange
  | RollbackTransactionChange
  | DefectTransactionChange
  | RoutingChange rstring u16
  | ChangeMirror rstring
  | IgnoredChange EnvChangeTy

definition env_read_b_varchar :: "(bytes, rstring) comp" where
  "env_read_b_varchar =
     bindR read_u8 (\<lambda>len.
     bindR (repeatR (unat len) read_u16_le) (\<lambda>units.
     ok_or (from_utf16 units) Utf16))"

definition env_parse_u32 :: "rstring \<Rightarrow> (bytes, u32) comp" where
  "env_parse_u32 s = (case parse_u32 s of Inr n \<Rightarrow> retR n | Inl e \<Rightarrow> errR (ParseInt e))"

definition env_read_collation :: "(bytes, Collation option) comp" where
  "env_read_collation =
     bindR read_u8 (\<lambda>len.
     bindR (read_n (unat len)) (\<lambda>v.
     retR (if len = 5 then Some (Collation_new (from_le (take 4 v)) (v ! 4)) else None)))"

fun env_change_body :: "EnvChangeTy \<Rightarrow> (bytes, TokenEnvChange) comp" where
  "env_change_body EDatabase =
     bindR env_read_b_varchar (\<lambda>new_value.
     bindR env_read_b_varchar (\<lambda>old_value.
     retR (DatabaseChange old_value new_value)))"
| "env_change_body EPacketSize =
     bindR env_read_b_varchar (\<lambda>new_value.
     bindR env_read_b_varchar (\<lambda>old_value.
     bindR (env_parse_u32 new_value) (\<lambda>new.
     bindR (env_parse_u32 old_value) (\<lambda>old.
     retR (PacketSizeChange old new)))))"
| "env_change_body ESqlCollation =
     bindR env_read_collation (\<lambda>new.
     bindR env_read_collation (\<lambda>old.
     retR (SqlCollationChange old new)))"
| "env_change_body EBeginTransaction =
     bindR read_u8 (\<lambda>len.
     if len \<noteq> 8 then errR (Protocol (TokenMsg (EnvChangeDescLength len)))
     else bindR (read_n 8) (\<lambda>desc. retR (BeginTransactionChange desc)))"
| "env_change_body EEnlistDTCTransaction =
     bindR read_u8 (\<lambda>len.
     if len \<noteq> 8 then errR (Protocol (TokenMsg (EnvChangeDescLength len)))
     else bindR (read_n 8) (\<lambda>desc. retR (BeginTransactionChange desc)))"
| "env_change_body ECommitTransaction = retR CommitTransactionChange"
| "env_change_body ERollbackTransaction = retR RollbackTransactionChange"
| "env_change_body EDefectTransaction = retR DefectTransactionChange"
| "env_change_body ERouting =
     bindR read_u16_le (\<lambda>_.
     bindR read_u8 (\<lambda>_.
     bindR read_u16_le (\<lambda>port.
     bindR read_u16_le (\<lambda>len.
     bindR (repeatR (unat len) read_u16_le) (\<lambda>units.
     bindR (ok_or (from_utf16 units) Utf16) (\<lambda>host.
     retR (RoutingChange host port)))))))"
| "env_change_body ERtls = bindR env_read_b_varchar (\<lambda>mirror_name. retR (ChangeMirror mirror_name))"
| "env_change_body ty = retR (IgnoredChange ty)"

definition env_change_parse :: "(bytes, TokenEnvChange) comp" where
  "env_change_parse =
     bindR read_u8 (\<lambda>ty_byte.
     bindR (ok_or (EnvChangeTy_try_from ty_byte) (Protocol (TokenMsg (InvalidEnvChangeType ty_byte)))) env_change_body)"

definition TokenEnvChange_decode :: "(bytes, TokenEnvChange) comp" where
  "TokenEnvChange_decode =
     bindR read_u16_le (\<lambda>len.
     bindR (read_n (unat len)) (\<lambda>bs. liftR (on_buffer env_change_parse bs)))"

section \<open>Readers\<close>

lemma reader_feature_ack [reader_intros]: "reader (feature_ack_step x)" "reader TokenFeatureExtAck_decode"
  unfolding TokenFeatureExtAck_decode_def feature_ack_step_def by (intro reader_intros)+

lemma reader_col_info [reader_intros]:
  "reader (col_info_name n)" "reader (col_info_entry n)" "reader (col_info_step n st)" "reader TokenColInfo_decode"
  unfolding TokenColInfo_decode_def col_info_step_def col_info_entry_def col_info_name_def split_def
  by (intro reader_intros)+

lemma reader_tokens [reader_intros]:
  "reader (TokenDone_decode v)" "reader TokenOrder_decode" "reader (decode_error_info_body v)" "reader (TokenError_decode v)"
  "reader (TokenInfo_decode v)" "reader TokenSspi_decode_async" "reader TokenLoginAck_decode"
  "reader TokenFedAuthInfo_decode" "reader TokenSessionState_decode" "reader TokenTabName_decode" "reader TokenEnvChange_decode"
  unfolding TokenDone_decode_def TokenOrder_decode_def decode_error_info_body_def TokenError_decode_def TokenInfo_decode_def
    TokenSspi_decode_async_def TokenLoginAck_decode_def TokenFedAuthInfo_decode_def TokenSessionState_decode_def
    TokenTabName_decode_def TokenEnvChange_decode_def
  by (intro reader_intros)+

section \<open>No token makes a decoder panic\<close>

lemma safe_feature_ack [safe_intros]: "safe TokenFeatureExtAck_decode"
  unfolding TokenFeatureExtAck_decode_def
proof (rule safe_loopR)
  fix x show "safe (feature_ack_step x)" unfolding feature_ack_step_def by (intro safe_intros)
  show "consumes (feature_ack_step x)" unfolding feature_ack_step_def by (intro consumes_intros reader_intros)
qed

lemma safe_session_state: "safe TokenSessionState_parse"
  unfolding TokenSessionState_parse_def
  by (intro safe_intros buffer_loop [OF session_state_entry_def], unfold session_state_len_def)
    (intro safe_intros buffer_guards consumes_shrinks consumes_intros shrinks_intros)+

lemma safe_tab_name: "safe TokenTabName_parse"
  unfolding TokenTabName_parse_def
  by (intro buffer_loop [OF tab_name_table_def], unfold tab_name_part_def)
    (intro safe_intros buffer_guards consumes_shrinks consumes_intros shrinks_intros)+

lemma consumes_entry: "consumes (col_info_entry n)"
  unfolding col_info_entry_def split_def by (intro consumes_intros reader_intros)

lemma safe_col_info [safe_intros]: "safe TokenColInfo_decode"
  unfolding TokenColInfo_decode_def
proof (rule safe_bindR [OF safe_fixed(4)], rule safe_loopR_advances)
  fix len :: u16 and st :: "nat \<times> ColInfo list"
  show "safe (col_info_step (unat len) st)"
    unfolding col_info_step_def col_info_entry_def col_info_name_def by (intro safe_intros)
  have "consumes (bindR (col_info_entry n) (\<lambda>(n, c). retR (Inl (k + n, cs @ [c]) :: _ + TokenColInfo)))" for n k cs
    unfolding split_def by (intro consumes_bindR consumes_entry reader_intros)
  then show "advances (col_info_step (unat len) st)"
    unfolding col_info_step_def by (cases st) (auto simp: advances_def consumes_def retR_def)
qed

lemma returns_fed_auth [simp]: "returns (TokenFedAuthInfo_parse body)"
proof -
  have u: "returns (fed_auth_u32 body n)" for n by (simp add: fed_auth_u32_def split: option.split)
  have "safe (fed_auth_option body i)" for i
    unfolding fed_auth_option_def Let_def by (intro safe_intros u) (simp add: safe_def)
  then have "safe (fed_auth_options body i n)" for i n
  proof (induction body i n rule: fed_auth_options.induct)
    case (1 body i count)
    then show ?case by (subst fed_auth_options.simps) (auto intro!: safe_intros)
  qed
  then have "returns (fst (fed_auth_options body 0 n x))" for n x by (simp add: safe_def)
  then show ?thesis using u [of 0]
    by (auto simp: TokenFedAuthInfo_parse_def split_def split: res.split)
qed

lemma safe_env_change: "safe env_change_parse"
proof -
  have "safe (env_change_body ty)" for ty
    by (cases ty) (auto simp: env_read_b_varchar_def env_parse_u32_def env_read_collation_def intro!: safe_intros split: sum.split)
  then show ?thesis unfolding env_change_parse_def by (intro safe_intros)
qed

lemma safe_error_info [safe_intros]: "safe (decode_error_info_body v)"
  unfolding decode_error_info_body_def error_info_parse_def error_read_us_varchar_def error_read_b_varchar_def error_read_utf16_def
  by (intro safe_intros returns_on_buffer)

lemma safe_tokens [safe_intros]:
  "safe (TokenDone_decode v)" "safe TokenOrder_decode" "safe (TokenError_decode v)" "safe (TokenInfo_decode v)"
  "safe TokenSspi_decode_async" "safe TokenLoginAck_decode" "safe TokenFedAuthInfo_decode" "safe TokenSessionState_decode"
  "safe TokenTabName_decode" "safe TokenEnvChange_decode"
  unfolding TokenDone_decode_def TokenOrder_decode_def TokenError_decode_def TokenInfo_decode_def TokenSspi_decode_async_def
    TokenLoginAck_decode_def TokenFedAuthInfo_decode_def TokenSessionState_decode_def TokenTabName_decode_def
    TokenEnvChange_decode_def login_ack_read_b_varchar_def
  by (intro safe_intros returns_on_buffer safe_session_state safe_tab_name safe_env_change returns_fed_auth; simp)+

section \<open>Framing\<close>

text \<open>
  A token that announces the length of its body. The decoder's answer is the parse of
  the body alone, and what is left is what follows the body, whether the parse succeeds or not.
\<close>

locale framed_token =
  fixes dec :: "(bytes, 'a) comp" and parse :: "bytes \<Rightarrow> 'a res" and frame :: "bytes \<Rightarrow> bytes" and fits :: "bytes \<Rightarrow> bool"
  assumes dec_frame: "fits body \<Longrightarrow> dec (frame body @ rest) = (parse body, rest)"
begin

lemma aligned: "fits body \<Longrightarrow> snd (dec (frame body @ rest)) = rest"
  by (simp add: dec_frame)

lemma local_result: "fits body \<Longrightarrow> fst (dec (frame body @ rest)) = fst (dec (frame body @ rest'))"
  by (simp add: dec_frame)

lemma frame_aligned: "fits body \<Longrightarrow> dec (frame body @ rest) = (fst (dec (frame body)), rest)"
  using dec_frame [of body rest] dec_frame [of body "[]"] by simp

end

definition frame16 :: "bytes \<Rightarrow> bytes" where
  "frame16 body = le_bytes 2 (of_nat (length body) :: u16) @ body"

definition frame32 :: "bytes \<Rightarrow> bytes" where
  "frame32 body = le_bytes 4 (of_nat (length body) :: u32) @ body"

definition fits16 :: "bytes \<Rightarrow> bool" where "fits16 body \<longleftrightarrow> length body < 65536"

definition fits_body :: "bytes \<Rightarrow> bool" where "fits_body body \<longleftrightarrow> length body \<le> MAX_TOKEN_BODY"

lemma read_frame16: "fits16 body \<Longrightarrow> bindR read_u16_le (\<lambda>n. bindR (read_n (unat n)) f) (frame16 body @ rest) = f body rest"
  by (simp add: fits16_def frame16_def wire_simps)

lemma read_frame32: "fits_body body \<Longrightarrow>
   read_u32_le (frame32 body @ rest) = (Ok (of_nat (length body)), body @ rest) \<and>
   unat (of_nat (length body) :: u32) = length body"
  by (simp add: fits_body_def frame32_def MAX_TOKEN_BODY_def wire_simps unat_of_nat)

lemma error_info_frame: "fits16 body \<Longrightarrow> decode_error_info_body v (frame16 body @ rest) =
    (on_buffer (error_info_parse (FeatureLevel_value v \<ge> FeatureLevel_value SqlServer2005)) body, rest)"
  by (simp add: decode_error_info_body_def read_frame16 liftR_def)

interpretation env_change: framed_token TokenEnvChange_decode "on_buffer env_change_parse" frame16 fits16
  by unfold_locales (simp add: TokenEnvChange_decode_def read_frame16 liftR_def)

interpretation error_token: framed_token "TokenError_decode v" "\<lambda>body. fst (TokenError_decode v (frame16 body @ []))" frame16 fits16
  for v
  unfolding TokenError_decode_def
  by unfold_locales (simp only: bindR_map_res [where m = "decode_error_info_body v", OF error_info_frame] fst_conv)

interpretation info_token: framed_token "TokenInfo_decode v" "\<lambda>body. fst (TokenInfo_decode v (frame16 body @ []))" frame16 fits16
  for v
  unfolding TokenInfo_decode_def
  by unfold_locales (simp only: bindR_map_res [where m = "decode_error_info_body v", OF error_info_frame] fst_conv)

interpretation sspi_token: framed_token TokenSspi_decode_async Ok frame16 fits16
  by unfold_locales (simp add: TokenSspi_decode_async_def frame16_def fits16_def wire_simps)

interpretation tab_name: framed_token TokenTabName_decode "on_buffer TokenTabName_parse" frame16 fits16
  by unfold_locales (simp add: TokenTabName_decode_def frame16_def fits16_def MAX_PREALLOC_def wire_simps)

interpretation fed_auth_info: framed_token TokenFedAuthInfo_decode TokenFedAuthInfo_parse frame32 fits_body
proof unfold_locales
  fix body rest assume "fits_body body"
  with read_frame32 [OF this, of rest] show "TokenFedAuthInfo_decode (frame32 body @ rest) = (TokenFedAuthInfo_parse body, rest)"
    by (simp add: TokenFedAuthInfo_decode_def bindR_def liftR_def read_n_append fits_body_def)
qed

interpretation session_state: framed_token TokenSessionState_decode
  "\<lambda>body. if length body < 5 then Err (Protocol (TokenBodyMsg SessionStateTooShort)) else on_buffer TokenSessionState_parse body"
  frame32 fits_body
proof unfold_locales
  fix body rest assume "fits_body body"
  with read_frame32 [OF this, of rest] show "TokenSessionState_decode (frame32 body @ rest) =
     (if length body < 5 then Err (Protocol (TokenBodyMsg SessionStateTooShort)) else on_buffer TokenSessionState_parse body, rest)"
    by (simp add: TokenSessionState_decode_def bindR_def liftR_def errR_def read_n_append fits_body_def)
qed



end
