(* ===== verification/Tds_Metadata.thy ===== *)
theory Tds_Metadata
  imports Tds_Tokens
begin

text \<open>
  Column metadata and rows: \<^verbatim>\<open>token_col_metadata.rs\<close>, \<^verbatim>\<open>token_alt_meta_data.rs\<close>,
  \<^verbatim>\<open>token_row.rs\<close>, \<^verbatim>\<open>token_alt_row.rs\<close> and \<^verbatim>\<open>token_return_value.rs\<close>. A row is
  decoded against the columns announced last, which are an argument of its decoders.
\<close>

section \<open>Column metadata\<close>

text \<open>The flags of \<^verbatim>\<open>ColumnFlag\<close>; \<^verbatim>\<open>from_bits_truncate\<close> keeps these and drops the reserved bits.\<close>

definition ColumnFlag_Nullable :: u16 where "ColumnFlag_Nullable = 0x0001"
definition ColumnFlag_Updateable :: u16 where "ColumnFlag_Updateable = 0x0004"
definition ColumnFlag_UpdateableUnknown :: u16 where "ColumnFlag_UpdateableUnknown = 0x0008"
definition ColumnFlag_Identity :: u16 where "ColumnFlag_Identity = 0x0010"
definition ColumnFlag_all :: u16 where "ColumnFlag_all = 0xED3F"

record BaseMetaDataColumn =
  bmc_flags :: u16
  bmc_ty :: TypeInfo
  bmc_table_name :: "rstring option"

record MetaDataColumn =
  mdc_base :: BaseMetaDataColumn
  mdc_col_name :: rstring

record TokenColMetaData =
  tcm_columns :: "MetaDataColumn list"

definition is_nullable :: "BaseMetaDataColumn \<Rightarrow> bool" where
  "is_nullable c \<longleftrightarrow> and (bmc_flags c) ColumnFlag_Nullable = ColumnFlag_Nullable"

definition is_identity :: "BaseMetaDataColumn \<Rightarrow> bool" where
  "is_identity c \<longleftrightarrow> and (bmc_flags c) ColumnFlag_Identity = ColumnFlag_Identity"

definition is_updateable :: "BaseMetaDataColumn \<Rightarrow> bool" where
  "is_updateable c \<longleftrightarrow>
     and (bmc_flags c) ColumnFlag_Updateable = ColumnFlag_Updateable \<or>
     and (bmc_flags c) ColumnFlag_UpdateableUnknown = ColumnFlag_UpdateableUnknown"

fun fixed_null_value :: "FixedLenType \<Rightarrow> ColumnData" where
  "fixed_null_value FNull = CI32 None"
| "fixed_null_value FInt1 = CU8 None"
| "fixed_null_value FBit = CBit None"
| "fixed_null_value FInt2 = CI16 None"
| "fixed_null_value FInt4 = CI32 None"
| "fixed_null_value FDatetime4 = CSmallDateTime None"
| "fixed_null_value FFloat4 = CF32 None"
| "fixed_null_value FMoney = CF64 None"
| "fixed_null_value FDatetime = CDateTime None"
| "fixed_null_value FFloat8 = CF64 None"
| "fixed_null_value FMoney4 = CF32 None"
| "fixed_null_value FInt8 = CI64 None"

text \<open>The two tables for variable-length types differ in the integer and float arms only,
  where the sized one looks at the length.\<close>

fun var_null_value :: "nat option \<Rightarrow> VarLenType \<Rightarrow> ColumnData" where
  "var_null_value len VGuid = CGuid None"
| "var_null_value len VIntn =
     (case len of
        Some n \<Rightarrow> if n = 1 then CU8 None else if n = 2 then CI16 None else if n = 4 then CI32 None else CI64 None
      | None \<Rightarrow> CI32 None)"
| "var_null_value len VBitn = CBit None"
| "var_null_value len VDecimaln = CNumeric None"
| "var_null_value len VNumericn = CNumeric None"
| "var_null_value len VFloatn =
     (case len of Some n \<Rightarrow> if n = 4 then CF32 None else CF64 None | None \<Rightarrow> CF32 None)"
| "var_null_value len VMoney = CF64 None"
| "var_null_value len VDatetimen = CDateTime None"
| "var_null_value len VDaten = CDate None"
| "var_null_value len VTimen = CTime None"
| "var_null_value len VDatetime2 = CDateTime2 None"
| "var_null_value len VDatetimeOffsetn = CDateTimeOffset None"
| "var_null_value len VBigVarBin = CBinary None"
| "var_null_value len VBigVarChar = CString None"
| "var_null_value len VBigBinary = CBinary None"
| "var_null_value len VBigChar = CString None"
| "var_null_value len VNVarchar = CString None"
| "var_null_value len VNChar = CString None"
| "var_null_value len VXml = CXml None"
| "var_null_value len VUdt = CBinary None"
| "var_null_value len VText = CString None"
| "var_null_value len VImage = CBinary None"
| "var_null_value len VNText = CString None"
| "var_null_value len VSSVariant = CString None"

fun null_value :: "TypeInfo \<Rightarrow> ColumnData" where
  "null_value (FixedLen ty) = fixed_null_value ty"
| "null_value (VarLenSized cx) = var_null_value (Some (vlc_len cx)) (vlc_type cx)"
| "null_value (VarLenSizedPrecision ty _ _ _) = var_null_value None ty"
| "null_value (XmlType _ _) = CXml None"
| "null_value (Udt _) = CBinary None"

definition carries_table_name :: "TypeInfo \<Rightarrow> bool" where
  "carries_table_name ty =
     (case ty of VarLenSized cx \<Rightarrow> vlc_type cx \<in> {VText, VNText, VImage} | _ \<Rightarrow> False)"

definition BaseMetaDataColumn_decode :: "(bytes, BaseMetaDataColumn) comp" where
  "BaseMetaDataColumn_decode =
     bindR read_u32_le (\<lambda>_.
     bindR read_u16_le (\<lambda>bits.
     bindR TypeInfo_decode (\<lambda>ty.
     bindR (if carries_table_name ty
            then bindR read_u8 (\<lambda>num_of_parts. bindR (repeatR (unat num_of_parts) read_us_varchar) (\<lambda>_. retR ()))
            else retR ()) (\<lambda>_.
     retR \<lparr>bmc_flags = and bits ColumnFlag_all, bmc_ty = ty, bmc_table_name = None\<rparr>))))"

definition MetaDataColumn_decode :: "(bytes, MetaDataColumn) comp" where
  "MetaDataColumn_decode =
     bindR BaseMetaDataColumn_decode (\<lambda>base.
     bindR read_b_varchar (\<lambda>col_name.
     retR \<lparr>mdc_base = base, mdc_col_name = col_name\<rparr>))"

definition TokenColMetaData_decode :: "(bytes, TokenColMetaData) comp" where
  "TokenColMetaData_decode =
     bindR read_u16_le (\<lambda>column_count.
     bindR (if column_count < 0xffff then repeatR (unat column_count) MetaDataColumn_decode else retR []) (\<lambda>columns.
     retR \<lparr>tcm_columns = columns\<rparr>))"

definition table_name_encode :: "rstring \<Rightarrow> (bytes, unit) comp" where
  "table_name_encode s =
     (let units = encode_utf16 s in
      if length units > 65535 then errR (BulkInput (TableNameTooLong (length units)))
      else thenR (put_le 2 (of_nat (length units) :: u16)) (eachR (put_le 2) units))"

definition BaseMetaDataColumn_encode :: "BaseMetaDataColumn \<Rightarrow> (bytes, unit) comp" where
  "BaseMetaDataColumn_encode c =
     thenR (put_le 2 (bmc_flags c))
    (thenR (TypeInfo_encode (bmc_ty c))
           (if carries_table_name (bmc_ty c)
            then table_name_encode (case bmc_table_name c of Some t \<Rightarrow> t | None \<Rightarrow> [])
            else retR ()))"

definition MetaDataColumn_encode :: "MetaDataColumn \<Rightarrow> (bytes, unit) comp" where
  "MetaDataColumn_encode c =
     thenR (put_le 4 (0 :: u32))
    (thenR (BaseMetaDataColumn_encode (mdc_base c))
           (encode_b_varchar (mdc_col_name c)))"

definition TokenColMetaData_encode :: "TokenColMetaData \<Rightarrow> (bytes, unit) comp" where
  "TokenColMetaData_encode m =
     thenR (put_u8 (TokenType_value TColMetaData))
    (thenR (put_le 2 (of_nat (length (tcm_columns m)) :: u16))
           (eachR MetaDataColumn_encode (tcm_columns m)))"

section \<open>The SQL text of a column\<close>

text \<open>\<^verbatim>\<open>Display for MetaDataColumn\<close>, the column list of \<^verbatim>\<open>INSERT BULK\<close>: \<open>None\<close> is a formatting error.\<close>

definition quote_name :: "rstring \<Rightarrow> rstring" where
  "quote_name s = concat (map (\<lambda>c. if c = 93 then [93, 93] else [c]) s)"

fun fixed_sql_name :: "FixedLenType \<Rightarrow> rstring" where
  "fixed_sql_name FInt1 = lit ''tinyint''"
| "fixed_sql_name FBit = lit ''bit''"
| "fixed_sql_name FInt2 = lit ''smallint''"
| "fixed_sql_name FInt4 = lit ''int''"
| "fixed_sql_name FDatetime4 = lit ''smalldatetime''"
| "fixed_sql_name FFloat4 = lit ''real''"
| "fixed_sql_name FMoney = lit ''money''"
| "fixed_sql_name FDatetime = lit ''datetime''"
| "fixed_sql_name FFloat8 = lit ''float''"
| "fixed_sql_name FMoney4 = lit ''smallmoney''"
| "fixed_sql_name FInt8 = lit ''bigint''"
| "fixed_sql_name FNull = lit ''int''"

definition sized_name :: "string \<Rightarrow> nat \<Rightarrow> rstring" where
  "sized_name nm len = lit nm @ lit ''('' @ show_nat len @ lit '')''"

definition max_name :: "string \<Rightarrow> nat \<Rightarrow> nat \<Rightarrow> rstring" where
  "max_name nm limit len = (if len \<le> limit then sized_name nm len else lit nm @ lit ''(max)'')"

fun var_sql_name :: "VarLenType \<Rightarrow> nat \<Rightarrow> rstring option" where
  "var_sql_name VBitn len = Some (lit ''bit'')"
| "var_sql_name VGuid len = Some (lit ''uniqueidentifier'')"
| "var_sql_name VDaten len = Some (lit ''date'')"
| "var_sql_name VTimen len = Some (lit ''time'')"
| "var_sql_name VDatetime2 len = Some (sized_name ''datetime2'' len)"
| "var_sql_name VDatetimen len = Some (lit ''datetime'')"
| "var_sql_name VMoney len = Some (if len = 4 then lit ''smallmoney'' else lit ''money'')"
| "var_sql_name VDatetimeOffsetn len = Some (lit ''datetimeoffset'')"
| "var_sql_name VBigVarBin len = Some (max_name ''varbinary'' 8000 len)"
| "var_sql_name VBigVarChar len = Some (max_name ''varchar'' 8000 len)"
| "var_sql_name VBigBinary len = Some (sized_name ''binary'' len)"
| "var_sql_name VBigChar len = Some (sized_name ''char'' len)"
| "var_sql_name VNVarchar len = Some (max_name ''nvarchar'' 4000 len)"
| "var_sql_name VNChar len = Some (sized_name ''nchar'' len)"
| "var_sql_name VText len = Some (lit ''text'')"
| "var_sql_name VImage len = Some (lit ''image'')"
| "var_sql_name VNText len = Some (lit ''ntext'')"
| "var_sql_name VIntn len =
     Some (if len = 1 then lit ''tinyint'' else if len = 2 then lit ''smallint''
           else if len = 4 then lit ''int'' else lit ''bigint'')"
| "var_sql_name VFloatn len = Some (if len = 4 then lit ''real'' else lit ''float'')"
| "var_sql_name VSSVariant len = Some (lit ''sql_variant'')"
| "var_sql_name _ len = None"

fun type_sql_name :: "TypeInfo \<Rightarrow> rstring option" where
  "type_sql_name (FixedLen ty) = Some (fixed_sql_name ty)"
| "type_sql_name (VarLenSized cx) = var_sql_name (vlc_type cx) (vlc_len cx)"
| "type_sql_name (VarLenSizedPrecision ty _ p s) =
     Some (lit (if ty = VNumericn then ''numeric('' else ''decimal('') @ show_nat (unat p) @ lit '','' @
           show_nat (unat s) @ lit '')'')"
| "type_sql_name (XmlType _ _) = Some (lit ''xml'')"
| "type_sql_name (Udt info) = Some (udt_schema_name info @ lit ''.'' @ udt_type_name info)"

definition MetaDataColumn_display :: "MetaDataColumn \<Rightarrow> rstring option" where
  "MetaDataColumn_display c =
     map_option (\<lambda>ty. lit ''['' @ quote_name (mdc_col_name c) @ lit ''] '' @ ty) (type_sql_name (bmc_ty (mdc_base c)))"

section \<open>Rows\<close>

type_synonym TokenRow = "ColumnData list"

definition TokenRow_encode :: "value_env \<Rightarrow> MetaDataColumn list \<Rightarrow> TokenRow \<Rightarrow> (bytes, unit) comp" where
  "TokenRow_encode env cols row =
     thenR (put_u8 (TokenType_value TRow))
       (if length row \<noteq> length cols then errR (BulkInput (ColumnCount (length cols) (length row)))
        else eachR (\<lambda>(v, c). ColumnData_encode env (Some (bmc_ty (mdc_base c))) v) (zip row cols))"

definition TokenRow_decode :: "value_env \<Rightarrow> TokenColMetaData option \<Rightarrow> (bytes, TokenRow) comp" where
  "TokenRow_decode env last_meta =
     bindR (ok_or last_meta (Protocol (StreamMsg RowBeforeMetadata))) (\<lambda>col_meta.
     forR (\<lambda>c. ColumnData_decode env (bmc_ty (mdc_base c))) (tcm_columns col_meta))"

definition RowBitmap_decode :: "nat \<Rightarrow> (bytes, bytes) comp" where
  "RowBitmap_decode columns = read_n ((columns + 7) div 8)"

text \<open>\<^verbatim>\<open>self.data[index]\<close>: out of range is a panic.\<close>

definition RowBitmap_is_null :: "bytes \<Rightarrow> nat \<Rightarrow> bool res" where
  "RowBitmap_is_null dat i =
     (if i div 8 < length dat then Ok (and (dat ! (i div 8)) (push_bit (i mod 8) 1) > 0) else Panic)"

definition nbc_value :: "value_env \<Rightarrow> bytes \<Rightarrow> nat \<times> MetaDataColumn \<Rightarrow> (bytes, ColumnData) comp" where
  "nbc_value env bitmap ic =
     (case ic of (i, c) \<Rightarrow>
        bindR (liftR (RowBitmap_is_null bitmap i)) (\<lambda>b.
        if b then retR (null_value (bmc_ty (mdc_base c))) else ColumnData_decode env (bmc_ty (mdc_base c))))"

definition TokenRow_decode_nbc :: "value_env \<Rightarrow> TokenColMetaData option \<Rightarrow> (bytes, TokenRow) comp" where
  "TokenRow_decode_nbc env last_meta =
     bindR (ok_or last_meta (Protocol (StreamMsg NbcRowBeforeMetadata))) (\<lambda>col_meta.
     bindR (RowBitmap_decode (length (tcm_columns col_meta))) (\<lambda>row_bitmap.
     forR (nbc_value env row_bitmap) (enumerate 0 (tcm_columns col_meta))))"

section \<open>Compute rows and return values\<close>

record AltMetaDataColumn =
  amc_op :: u8
  amc_operand :: u16
  amc_base :: BaseMetaDataColumn
  amc_col_name :: rstring

record TokenAltMetaData =
  tam_id :: u16
  tam_by_columns :: "u16 list"
  tam_columns :: "AltMetaDataColumn list"

definition AltMetaDataColumn_decode :: "(bytes, AltMetaDataColumn) comp" where
  "AltMetaDataColumn_decode =
     bindR read_u8 (\<lambda>op.
     bindR read_u16_le (\<lambda>operand.
     bindR BaseMetaDataColumn_decode (\<lambda>base.
     bindR read_b_varchar (\<lambda>col_name.
     retR \<lparr>amc_op = op, amc_operand = operand, amc_base = base, amc_col_name = col_name\<rparr>))))"

definition TokenAltMetaData_decode :: "(bytes, TokenAltMetaData) comp" where
  "TokenAltMetaData_decode =
     bindR read_u16_le (\<lambda>column_count.
     bindR read_u16_le (\<lambda>aid.
     bindR read_u8 (\<lambda>by_cols.
     bindR (repeatR (unat by_cols) read_u16_le) (\<lambda>by_columns.
     bindR (repeatR (unat column_count) AltMetaDataColumn_decode) (\<lambda>columns.
     retR \<lparr>tam_id = aid, tam_by_columns = by_columns, tam_columns = columns\<rparr>)))))"

record TokenAltRow =
  tar_id :: u16
  tar_data :: "ColumnData list"

definition TokenAltRow_decode :: "value_env \<Rightarrow> u16 \<Rightarrow> TokenAltMetaData \<Rightarrow> (bytes, TokenAltRow) comp" where
  "TokenAltRow_decode env aid meta =
     bindR (forR (\<lambda>c. ColumnData_decode env (bmc_ty (amc_base c))) (tam_columns meta)) (\<lambda>dat.
     retR \<lparr>tar_id = aid, tar_data = dat\<rparr>)"

record TokenReturnValue =
  trv_param_ordinal :: u16
  trv_param_name :: rstring
  trv_udf :: bool
  trv_meta :: BaseMetaDataColumn
  trv_value :: ColumnData

definition TokenReturnValue_decode :: "value_env \<Rightarrow> (bytes, TokenReturnValue) comp" where
  "TokenReturnValue_decode env =
     bindR read_u16_le (\<lambda>param_ordinal.
     bindR read_b_varchar (\<lambda>param_name.
     bindR read_u8 (\<lambda>b.
     bindR (if b = 1 then retR False else if b = 2 then retR True
            else errR (Protocol (TokenMsg InvalidReturnStatus))) (\<lambda>udf.
     bindR BaseMetaDataColumn_decode (\<lambda>meta.
     bindR (ColumnData_decode env (bmc_ty meta)) (\<lambda>value.
     retR \<lparr>trv_param_ordinal = param_ordinal, trv_param_name = param_name, trv_udf = udf, trv_meta = meta,
           trv_value = value\<rparr>))))))"

section \<open>Types of a result set\<close>

definition meta_wf :: "TokenColMetaData \<Rightarrow> bool" where
  "meta_wf m \<longleftrightarrow> (\<forall>c\<in>set (tcm_columns m). TypeInfo_wf (bmc_ty (mdc_base c)))"

definition alt_meta_wf :: "TokenAltMetaData \<Rightarrow> bool" where
  "alt_meta_wf m \<longleftrightarrow> (\<forall>c\<in>set (tam_columns m). TypeInfo_wf (bmc_ty (amc_base c)))"

lemma base_decode_wf: "BaseMetaDataColumn_decode s = (Ok c, s') \<Longrightarrow> TypeInfo_wf (bmc_ty c)"
  by (auto simp: BaseMetaDataColumn_decode_def bindR_eq_Ok retR_eq_Ok intro: TypeInfo_decode_wf)

lemma col_metadata_wf: "TokenColMetaData_decode s = (Ok m, s') \<Longrightarrow> meta_wf m"
proof -
  assume "TokenColMetaData_decode s = (Ok m, s')"
  then obtain n s1 where cols: "(if n < 0xffff then repeatR (unat (n :: u16)) MetaDataColumn_decode else retR []) s1 = (Ok (tcm_columns m), s')"
    by (auto simp: TokenColMetaData_decode_def bindR_eq_Ok retR_eq_Ok)
  have "\<forall>c\<in>set (tcm_columns m). TypeInfo_wf (bmc_ty (mdc_base c))"
  proof (cases "n < 0xffff")
    case True
    with cols have "repeatR (unat n) MetaDataColumn_decode s1 = (Ok (tcm_columns m), s')" by simp
    then show ?thesis
      by (rule repeatR_all [rotated]) (auto simp: MetaDataColumn_decode_def bindR_eq_Ok retR_eq_Ok intro: base_decode_wf)
  qed (use cols in \<open>auto simp: retR_eq_Ok\<close>)
  then show ?thesis by (simp add: meta_wf_def)
qed

lemma alt_metadata_wf: "TokenAltMetaData_decode s = (Ok m, s') \<Longrightarrow> alt_meta_wf m"
proof -
  assume "TokenAltMetaData_decode s = (Ok m, s')"
  then obtain n s1 s2 where "repeatR n AltMetaDataColumn_decode s1 = (Ok (tam_columns m), s2)"
    by (auto simp: TokenAltMetaData_decode_def bindR_eq_Ok retR_eq_Ok)
  then have "\<forall>c\<in>set (tam_columns m). TypeInfo_wf (bmc_ty (amc_base c))"
    by (rule repeatR_all [rotated]) (auto simp: AltMetaDataColumn_decode_def bindR_eq_Ok retR_eq_Ok intro: base_decode_wf)
  then show ?thesis by (simp add: alt_meta_wf_def)
qed

section \<open>Readers\<close>

lemma reader_metadata [reader_intros]:
  "reader BaseMetaDataColumn_decode" "reader MetaDataColumn_decode" "reader TokenColMetaData_decode"
  "reader AltMetaDataColumn_decode" "reader TokenAltMetaData_decode"
  unfolding BaseMetaDataColumn_decode_def MetaDataColumn_decode_def TokenColMetaData_decode_def
    AltMetaDataColumn_decode_def TokenAltMetaData_decode_def
  by (intro reader_intros)+

lemma safe_metadata [safe_intros]:
  "safe BaseMetaDataColumn_decode" "safe MetaDataColumn_decode" "safe TokenColMetaData_decode"
  "safe AltMetaDataColumn_decode" "safe TokenAltMetaData_decode"
  unfolding BaseMetaDataColumn_decode_def MetaDataColumn_decode_def TokenColMetaData_decode_def
    AltMetaDataColumn_decode_def TokenAltMetaData_decode_def
  by (intro safe_intros)+

lemma reader_rows [reader_intros]:
  "reader (TokenRow_decode env m)" "reader (TokenRow_decode_nbc env m)" "reader (TokenAltRow_decode env n am)"
  "reader (TokenReturnValue_decode env)"
  unfolding TokenRow_decode_def TokenRow_decode_nbc_def RowBitmap_decode_def nbc_value_def TokenAltRow_decode_def
    TokenReturnValue_decode_def
  by (intro reader_intros)+

lemma safe_row: "\<forall>m. meta = Some m \<longrightarrow> meta_wf m \<Longrightarrow> safe (TokenRow_decode env meta)"
  unfolding TokenRow_decode_def
  by (rule safe_bindR_dep [OF safe_ok_or]) (auto simp: ok_or_Ok meta_wf_def intro!: safe_forR safe_ColumnData)

lemma bitmap_in_range: "RowBitmap_decode n s = (Ok bm, s') \<Longrightarrow> i < n \<Longrightarrow> returns (RowBitmap_is_null bm i)"
  by (auto simp: RowBitmap_decode_def RowBitmap_is_null_def read_n_def split: if_splits)

lemma safe_nbc_row: "\<forall>m. meta = Some m \<longrightarrow> meta_wf m \<Longrightarrow> safe (TokenRow_decode_nbc env meta)"
  unfolding TokenRow_decode_nbc_def
proof (rule safe_bindR_dep [OF safe_ok_or])
  fix s m s' assume m: "\<forall>m. meta = Some m \<longrightarrow> meta_wf m" "ok_or meta (Protocol (StreamMsg NbcRowBeforeMetadata)) s = (Ok m, s')"
  show "safe (bindR (RowBitmap_decode (length (tcm_columns m)))
     (\<lambda>row_bitmap. forR (nbc_value env row_bitmap) (enumerate 0 (tcm_columns m))))"
  proof (rule safe_bindR_dep)
    show "safe (RowBitmap_decode (length (tcm_columns m)))" unfolding RowBitmap_decode_def by (rule safe_read_n)
    fix s bm s' assume bm: "RowBitmap_decode (length (tcm_columns m)) s = (Ok bm, s')"
    show "safe (forR (nbc_value env bm) (enumerate 0 (tcm_columns m)))"
    proof (rule safe_forR)
      fix ic assume "ic \<in> set (enumerate 0 (tcm_columns m))"
      then have "fst ic < length (tcm_columns m)" "snd ic = tcm_columns m ! fst ic" by (simp_all add: in_set_enumerate_eq)
      then obtain i c where ic: "ic = (i, c)" "i < length (tcm_columns m)" "c = tcm_columns m ! i"
        by (metis prod.collapse)
      then have "TypeInfo_wf (bmc_ty (mdc_base c))" using m by (auto simp: ok_or_Ok meta_wf_def)
      then show "safe (nbc_value env bm ic)"
        using ic bitmap_in_range [OF bm] by (auto simp: nbc_value_def intro!: safe_intros safe_ColumnData)
    qed
  qed
qed

lemma safe_alt_row: "alt_meta_wf m \<Longrightarrow> safe (TokenAltRow_decode env n m)"
  unfolding TokenAltRow_decode_def alt_meta_wf_def by (intro safe_intros safe_ColumnData) auto

lemma safe_return_value [safe_intros]: "safe (TokenReturnValue_decode env)"
proof -
  have "safe (bindR BaseMetaDataColumn_decode (\<lambda>meta. bindR (ColumnData_decode env (bmc_ty meta)) (\<lambda>value.
      retR \<lparr>trv_param_ordinal = ord, trv_param_name = nm, trv_udf = u, trv_meta = meta, trv_value = value\<rparr>)))" for ord nm u
    by (rule safe_bindR_dep [OF safe_metadata(1)]) (auto intro!: safe_intros safe_ColumnData base_decode_wf)
  then show ?thesis
    unfolding TokenReturnValue_decode_def
    by (intro safe_bindR [OF safe_fixed(4)] safe_bindR [OF safe_varchar(2)] safe_bindR [OF safe_fixed(1)] safe_bindR [OF safe_if])
      (auto intro!: safe_retR safe_errR)
qed

section \<open>Null values\<close>

text \<open>The columns whose null has one form: not a nullable \<^verbatim>\<open>smalldatetime\<close>, whose null the row
  bitmap turns into a \<^verbatim>\<open>datetime\<close>, and not a \<^verbatim>\<open>sql_variant\<close>, which can hold an untyped null.\<close>

definition one_null :: "TypeInfo \<Rightarrow> bool" where
  "one_null ti \<longleftrightarrow> (case ti of VarLenSized cx \<Rightarrow> vlc_type cx \<noteq> VSSVariant \<and> (vlc_type cx = VDatetimen \<longrightarrow> (of_nat (vlc_len cx) :: u8) \<noteq> 4) | _ \<Rightarrow> True)"

lemma null_agreement:
  assumes "ColumnData_decode env ti s = (Ok v, s')" "value_is_null v" "TypeInfo_wf ti" "one_null ti"
  shows "v = null_value ti"
proof (cases ti)
  case (FixedLen ty)
  with assms(1,2) show ?thesis
    by (cases ty) (auto simp: bindR_eq_Ok retR_eq_Ok datetimen_decode_def money_decode_def errR_neq_Ok split: if_splits)
next
  case (VarLenSized cx)
  with assms show ?thesis
    by (cases "vlc_type cx") (auto simp: bindR_eq_Ok retR_eq_Ok errR_neq_Ok one_null_def var_len_decode_def bit_decode_def int_decode_def
      float_decode_def guid_decode_def money_decode_def datetimen_decode_def date_decode_def time_decode_def datetime2_decode_def
      datetimeoffsetn_decode_def binary_decode_def text_decode_def image_decode_def Let_def split: if_splits)
next
  case (VarLenSizedPrecision ty n p sc)
  with assms show ?thesis by (auto simp: bindR_eq_Ok retR_eq_Ok errR_neq_Ok split: if_splits)
next
  case (XmlType sch n)
  with assms show ?thesis by (auto simp: bindR_eq_Ok retR_eq_Ok xml_decode_def)
next
  case (Udt info)
  with assms show ?thesis by (auto simp: bindR_eq_Ok retR_eq_Ok udt_decode_def)
qed

section \<open>The null bitmap\<close>

function bitmap_of :: "bool list \<Rightarrow> bytes" where
  "bitmap_of fs = (if fs = [] then [] else horner_sum of_bool 2 (take 8 fs) # bitmap_of (drop 8 fs))"
  by auto
termination by (relation "measure length") auto

declare bitmap_of.simps [simp del]

lemma length_bitmap_of: "length (bitmap_of fs) = (length fs + 7) div 8"
proof (induction fs rule: bitmap_of.induct)
  case (1 fs)
  show ?case
  proof (cases "length fs \<le> 8")
    case True
    then have "fs \<noteq> [] \<Longrightarrow> (length fs + 7) div 8 = 1" by (cases fs) (auto simp: div_nat_eqI)
    with True show ?thesis by (subst bitmap_of.simps) (auto simp: bitmap_of.simps [of "[]"])
  next
    case False
    then have "fs \<noteq> []" by auto
    with 1 False show ?thesis by (subst bitmap_of.simps) auto
  qed
qed

lemma bit_bitmap_of: "i < length fs \<Longrightarrow> bit (bitmap_of fs ! (i div 8)) (i mod 8) = fs ! i"
proof (induction fs arbitrary: i rule: bitmap_of.induct)
  case (1 fs)
  show ?case
  proof (cases "i < 8")
    case True
    then show ?thesis using 1(2)
      by (subst bitmap_of.simps) (auto simp: bit_horner_sum_bit_word_iff)
  next
    case False
    have "bit (bitmap_of (drop 8 fs) ! ((i - 8) div 8)) ((i - 8) mod 8) = drop 8 fs ! (i - 8)"
      using 1(1) [of "i - 8"] 1(2) False by (cases "fs = []") (auto simp: less_diff_conv)
    moreover have "i div 8 = Suc ((i - 8) div 8)" "(i - 8) mod 8 = i mod 8" using False
      by (simp_all add: div_if le_mod_geq)
    moreover have "fs \<noteq> []" "drop 8 fs ! (i - 8) = fs ! i" using 1(2) False by auto
    ultimately show ?thesis by (subst bitmap_of.simps) simp
  qed
qed

lemma bitmap_is_null: "i < length fs \<Longrightarrow> RowBitmap_is_null (bitmap_of fs) i = Ok (fs ! i)"
proof -
  assume i: "i < length fs"
  then have "i div 8 < length (bitmap_of fs)" by (simp add: length_bitmap_of)
  moreover have "(and (bitmap_of fs ! (i div 8)) (push_bit (i mod 8) 1) > 0) = bit (bitmap_of fs ! (i div 8)) (i mod 8)"
    by (simp add: bit_iff_and_push_bit_not_eq_0 word_greater_zero_iff)
  ultimately show ?thesis using bit_bitmap_of [OF i] by (simp add: RowBitmap_is_null_def)
qed

text \<open>One column of a row: its metadata, the bytes of its value and the value they decode to.\<close>

type_synonym row_cell = "MetaDataColumn \<times> bytes \<times> ColumnData"

definition cell_ok :: "value_env \<Rightarrow> row_cell \<Rightarrow> bool" where
  "cell_ok env cell = (case cell of (c, w, v) \<Rightarrow>
     TypeInfo_wf (bmc_ty (mdc_base c)) \<and> one_null (bmc_ty (mdc_base c)) \<and>
     ColumnData_decode env (bmc_ty (mdc_base c)) w = (Ok v, []))"

definition row_bytes :: "row_cell list \<Rightarrow> bytes" where
  "row_bytes cells = concat (map (\<lambda>(c, w, v). w) cells)"

definition nbc_bytes :: "row_cell list \<Rightarrow> bytes" where
  "nbc_bytes cells = bitmap_of (map (\<lambda>(c, w, v). value_is_null v) cells) @
     concat (map (\<lambda>(c, w, v). if value_is_null v then [] else w) cells)"

lemma cell_decode: "cell_ok env (c, w, v) \<Longrightarrow> ColumnData_decode env (bmc_ty (mdc_base c)) (w @ rest) = (Ok v, rest)"
  using reader_extend [OF reader_ColumnData, of env "bmc_ty (mdc_base c)" w v "[]" rest] by (simp add: cell_ok_def)

lemma row_cells_decode:
  "\<forall>x\<in>set cells. cell_ok env x \<Longrightarrow>
     forR (\<lambda>c. ColumnData_decode env (bmc_ty (mdc_base c))) (map fst cells) (row_bytes cells @ rest) = (Ok (map (snd \<circ> snd) cells), rest)"
  by (induction cells) (auto simp: row_bytes_def cell_decode bindR_def retR_def)

lemma nbc_cells_decode:
  assumes "\<forall>x\<in>set cells. cell_ok env x"
    "\<And>k. k < length cells \<Longrightarrow> RowBitmap_is_null bm (n + k) = Ok (value_is_null (snd (snd (cells ! k))))"
  shows "forR (nbc_value env bm) (enumerate n (map fst cells))
      (concat (map (\<lambda>(c, w, v). if value_is_null v then [] else w) cells) @ rest) = (Ok (map (snd \<circ> snd) cells), rest)"
  using assms
proof (induction cells arbitrary: n)
  case (Cons cell cells)
  obtain c w v where cell: "cell = (c, w, v)" by (cases cell) auto
  have b: "RowBitmap_is_null bm n = Ok (value_is_null v)" using Cons.prems(2) [of 0] cell by simp
  have ok: "cell_ok env (c, w, v)" using Cons.prems(1) cell by simp
  have val: "nbc_value env bm (n, c) ((if value_is_null v then [] else w) @ r) = (Ok v, r)" for r
  proof (cases "value_is_null v")
    case True
    then have "v = null_value (bmc_ty (mdc_base c))" using ok null_agreement by (auto simp: cell_ok_def)
    then show ?thesis using True b by (simp add: nbc_value_def bindR_def retR_def liftR_def)
  next
    case False
    then show ?thesis using b cell_decode [OF ok] by (simp add: nbc_value_def bindR_def liftR_def)
  qed
  have "RowBitmap_is_null bm (Suc n + k) = Ok (value_is_null (snd (snd (cells ! k))))" if "k < length cells" for k
    using Cons.prems(2) [of "Suc k"] that by simp
  then have "forR (nbc_value env bm) (enumerate (Suc n) (map fst cells))
      (concat (map (\<lambda>(c, w, v). if value_is_null v then [] else w) cells) @ rest) = (Ok (map (snd \<circ> snd) cells), rest)"
    using Cons.IH [of "Suc n"] Cons.prems(1) by auto
  then show ?case using cell val by (simp add: bindR_def retR_def)
qed (simp add: retR_def)

text \<open>C21: A row with a null bitmap is the same row. Take the columns of a result set and, for each, bytes that
  decode to a value of the column. Sent as a ROW token, all the bytes one after the other, or as an
  NBCROW token, a bitmap of the nulls and then the bytes of the other values only, the row that is
  decoded is the same, and both decoders stop where the row ends. (A nullable smalldatetime and a
  sql_variant are left out: their null differs.)\<close>

theorem nbc_row_same_as_row:
  assumes "\<forall>x\<in>set cells. cell_ok env x" "tcm_columns m = map fst cells"
  shows "TokenRow_decode env (Some m) (row_bytes cells @ rest) = (Ok (map (snd \<circ> snd) cells), rest) \<and>
    TokenRow_decode_nbc env (Some m) (nbc_bytes cells @ rest) = (Ok (map (snd \<circ> snd) cells), rest)"
proof (rule conjI)
  show "TokenRow_decode env (Some m) (row_bytes cells @ rest) = (Ok (map (snd \<circ> snd) cells), rest)"
    using row_cells_decode [OF assms(1)] assms(2) by (simp add: TokenRow_decode_def ok_or_def)
  let ?fs = "map (\<lambda>(c, w, v). value_is_null v) cells"
  have bm: "RowBitmap_is_null (bitmap_of ?fs) k = Ok (value_is_null (snd (snd (cells ! k))))" if "k < length cells" for k
    using bitmap_is_null [of k ?fs] that by (simp add: split_def)
  have "RowBitmap_decode (length cells) (bitmap_of ?fs @ t) = (Ok (bitmap_of ?fs), t)" for t
    by (simp add: RowBitmap_decode_def length_bitmap_of read_n_append)
  then show "TokenRow_decode_nbc env (Some m) (nbc_bytes cells @ rest) = (Ok (map (snd \<circ> snd) cells), rest)"
    using nbc_cells_decode [OF assms(1), of "bitmap_of ?fs" 0 rest] bm assms(2)
    by (simp add: TokenRow_decode_nbc_def nbc_bytes_def ok_or_def bindR_def retR_def)
qed

theorem nbc_row_same_as_row_witness:
  "let c = (\<lambda>ti. \<lparr>mdc_base = \<lparr>bmc_flags = 1, bmc_ty = ti, bmc_table_name = None\<rparr>, mdc_col_name = [97]\<rparr>);
       i = c (VarLenSized (VarLenContext_new VIntn 4 None)); b = c (VarLenSized (VarLenContext_new VBitn 1 None)) in
   TokenRow_decode_nbc strict_env (Some \<lparr>tcm_columns = [i, b]\<rparr>) [1, 1, 1, 0xFD] = (Ok [CI32 None, CBit (Some True)], [0xFD]) \<and>
   TokenRow_decode strict_env (Some \<lparr>tcm_columns = [i, b]\<rparr>) [0, 1, 1, 0xFD] = (Ok [CI32 None, CBit (Some True)], [0xFD])"
proof -
  let ?c = "\<lambda>ti. \<lparr>mdc_base = \<lparr>bmc_flags = 1, bmc_ty = ti, bmc_table_name = None\<rparr>, mdc_col_name = [97]\<rparr>"
  let ?i = "?c (VarLenSized (VarLenContext_new VIntn 4 None))" and ?b = "?c (VarLenSized (VarLenContext_new VBitn 1 None))"
  let ?cells = "[(?i, [0], CI32 None), (?b, [1, 1], CBit (Some True))]"
  have ok: "\<forall>x\<in>set ?cells. cell_ok strict_env x"
    by (simp add: cell_ok_def one_null_def VarLenContext_new_def len_fits_def char_type_def var_len_decode_def int_decode_def
        bit_decode_def wire_simps)
  have b: "row_bytes ?cells = [0, 1, 1]" "nbc_bytes ?cells = [1, 1, 1]"
    by (simp_all add: row_bytes_def nbc_bytes_def bitmap_of.simps)
  show ?thesis
    using nbc_row_same_as_row [OF ok, of "\<lparr>tcm_columns = [?i, ?b]\<rparr>" "[0xFD]"] by (simp add: b [simplified] Let_def)
qed

text \<open>The null of a nullable \<^verbatim>\<open>smalldatetime\<close> column is a \<^verbatim>\<open>SmallDateTime\<close> in a ROW and a \<^verbatim>\<open>DateTime\<close> in an NBCROW.\<close>

lemma smalldatetime_null_differs:
  "ColumnData_decode env (VarLenSized (VarLenContext_new VDatetimen 4 None)) (0 # rest) = (Ok (CSmallDateTime None), rest)"
  "null_value (VarLenSized (VarLenContext_new VDatetimen 4 None)) = CDateTime None"
  by (simp_all add: VarLenContext_new_def var_len_decode_def datetimen_decode_def wire_simps)

section \<open>Metadata sent to the server\<close>

definition column_wf :: "MetaDataColumn \<Rightarrow> bool" where
  "column_wf c \<longleftrightarrow> TypeInfo_wf (bmc_ty (mdc_base c)) \<and> \<not> carries_table_name (bmc_ty (mdc_base c)) \<and>
     and (bmc_flags (mdc_base c)) ColumnFlag_all = bmc_flags (mdc_base c) \<and> bmc_table_name (mdc_base c) = None \<and>
     b_varchar_ok (mdc_col_name c)"

definition column_bytes :: "MetaDataColumn \<Rightarrow> bytes" where
  "column_bytes c = le_bytes 4 (0 :: u32) @ le_bytes 2 (bmc_flags (mdc_base c)) @ TypeInfo_bytes (bmc_ty (mdc_base c)) @
     b_varchar_bytes (mdc_col_name c)"

interpretation column: wire_codec MetaDataColumn_encode MetaDataColumn_decode column_bytes column_wf
proof unfold_locales
  fix c dst assume c: "column_wf c"
  then show "MetaDataColumn_encode c dst = (Ok (), dst @ column_bytes c)"
    using type_info.enc_wire b_varchar.enc_wire
    by (simp add: column_wf_def MetaDataColumn_encode_def BaseMetaDataColumn_encode_def column_bytes_def thenR_def bindR_def
        retR_def put_le_def put_bytes_def)
next
  fix c rest assume c: "column_wf c"
  then have "\<lparr>mdc_base = \<lparr>bmc_flags = bmc_flags (mdc_base c), bmc_ty = bmc_ty (mdc_base c), bmc_table_name = None\<rparr>,
      mdc_col_name = mdc_col_name c\<rparr> = c" by (simp add: column_wf_def)
  then show "MetaDataColumn_decode (column_bytes c @ rest) = (Ok c, rest)"
    using c type_info.dec_wire b_varchar.dec_wire
    by (simp add: column_wf_def MetaDataColumn_decode_def BaseMetaDataColumn_decode_def column_bytes_def bindR_def retR_def
        read_fixed_append)
qed

text \<open>C38: Column metadata is read back as it was written. A COLMETADATA token of fewer than 65535 columns, none of them a text
  or image column, whose names fit their length byte, is encoded, and what follows the token byte is
  decoded to the same columns: types, flags and names.\<close>

theorem col_metadata_roundtrip:
  assumes "\<forall>c\<in>set (tcm_columns m). column_wf c" "length (tcm_columns m) < 65535"
  shows "\<exists>bs. TokenColMetaData_encode m dst = (Ok (), dst @ TokenType_value TColMetaData # bs) \<and>
     TokenColMetaData_decode (bs @ rest) = (Ok m, rest)"
proof -
  let ?n = "of_nat (length (tcm_columns m)) :: u16" and ?ws = "concat (map column_bytes (tcm_columns m))"
  have n: "unat ?n = length (tcm_columns m)" using assms(2) by simp
  then have "?n < 0xffff" using assms(2) by (simp add: word_less_nat_alt)
  then have "TokenColMetaData_decode ((le_bytes 2 ?n @ ?ws) @ rest) = (Ok m, rest)"
    using column.dec_repeat [OF assms(1), of rest] n
    by (simp add: TokenColMetaData_decode_def bindR_def retR_def read_fixed_append)
  moreover have "TokenColMetaData_encode m dst = (Ok (), dst @ TokenType_value TColMetaData # (le_bytes 2 ?n @ ?ws))"
    using column.enc_each [OF assms(1)]
    by (simp add: TokenColMetaData_encode_def thenR_def bindR_def put_u8_def put_le_def put_bytes_def)
  ultimately show ?thesis by blast
qed

theorem col_metadata_roundtrip_witness:
  "\<exists>bs. TokenColMetaData_encode \<lparr>tcm_columns = [\<lparr>mdc_base = \<lparr>bmc_flags = 9, bmc_ty = FixedLen FInt4, bmc_table_name = None\<rparr>, mdc_col_name = [105, 100]\<rparr>]\<rparr> [] = (Ok (), 0x81 # bs) \<and>
     TokenColMetaData_decode (bs @ [7]) = (Ok \<lparr>tcm_columns = [\<lparr>mdc_base = \<lparr>bmc_flags = 9, bmc_ty = FixedLen FInt4, bmc_table_name = None\<rparr>, mdc_col_name = [105, 100]\<rparr>]\<rparr>, [7])"
proof -
  let ?m = "\<lparr>tcm_columns = [\<lparr>mdc_base = \<lparr>bmc_flags = 9, bmc_ty = FixedLen FInt4, bmc_table_name = None\<rparr>, mdc_col_name = [105, 100]\<rparr>]\<rparr>"
  have "\<forall>c\<in>set (tcm_columns ?m). column_wf c"
    by (simp add: column_wf_def carries_table_name_def ColumnFlag_all_def b_varchar_ok_def valid_char_def utf16_char_def)
  from col_metadata_roundtrip [OF this, of "[]" "[7]"] show ?thesis by (simp add: wire_eval)
qed

section \<open>Quoted names\<close>

text \<open>How the server reads a bracketed identifier: a doubled bracket stands for one, a
  single one ends the name.\<close>

fun bracket_body :: "rstring \<Rightarrow> (rstring \<times> rstring) option" where
  "bracket_body [] = None"
| "bracket_body (c # cs) =
     (if c \<noteq> 93 then map_option (\<lambda>(n, r). (c # n, r)) (bracket_body cs)
      else case cs of
             d # ds \<Rightarrow> if d = 93 then map_option (\<lambda>(n, r). (93 # n, r)) (bracket_body ds) else Some ([], cs)
           | [] \<Rightarrow> Some ([], []))"

definition read_identifier :: "rstring \<Rightarrow> (rstring \<times> rstring) option" where
  "read_identifier s = (case s of c # cs \<Rightarrow> if c = 91 then bracket_body cs else None | [] \<Rightarrow> None)"

lemma bracket_body_quote: "take 1 rest \<noteq> [93] \<Longrightarrow> bracket_body (quote_name s @ 93 # rest) = Some (s, rest)"
proof (induction s)
  case Nil
  then show ?case by (cases rest) (auto simp: quote_name_def)
next
  case (Cons c s)
  then show ?case by (auto simp: quote_name_def)
qed

text \<open>C39: A column name cannot break out of its brackets. Whatever characters the name of a column
  holds, closing brackets included, the column's entry in the column list of an INSERT BULK statement starts with an
  identifier that reads as exactly that name, followed by a blank and the type.\<close>

theorem column_name_quoted:
  assumes "MetaDataColumn_display c = Some out"
  shows "\<exists>ty. type_sql_name (bmc_ty (mdc_base c)) = Some ty \<and> read_identifier out = Some (mdc_col_name c, 32 # ty)"
  using assms bracket_body_quote [of "32 # _"]
  by (auto simp: MetaDataColumn_display_def read_identifier_def lit_def)

theorem column_name_quoted_witness:
  "read_identifier (the (MetaDataColumn_display \<lparr>mdc_base = \<lparr>bmc_flags = 0, bmc_ty = FixedLen FBit, bmc_table_name = None\<rparr>, mdc_col_name = [97, 93, 98]\<rparr>))
     = Some ([97, 93, 98], 32 # lit ''bit'')"
proof -
  let ?c = "\<lparr>mdc_base = \<lparr>bmc_flags = 0, bmc_ty = FixedLen FBit, bmc_table_name = None\<rparr>, mdc_col_name = [97, 93, 98]\<rparr>"
  obtain out where o: "MetaDataColumn_display ?c = Some out" by (simp add: MetaDataColumn_display_def)
  from column_name_quoted [OF o] o show ?thesis by simp
qed

end
