(* ===== verification/Tds_Context.thy ===== *)
theory Tds_Context
  imports Tds_Metadata
begin

text \<open>
  The state a connection keeps between tokens (\<^verbatim>\<open>tds/context.rs\<close>): the negotiated version
  and packet size, the transaction, the columns of the current result set and the decoding
  preferences. A timeout is a number of nanoseconds.
\<close>

record Context =
  ctx_version :: FeatureLevel
  ctx_packet_size :: u32
  ctx_packet_id :: u8
  ctx_transaction_desc :: bytes
  ctx_last_meta :: "TokenColMetaData option"
  ctx_alt_metas :: "u16 \<Rightarrow> TokenAltMetaData option"
  ctx_spn :: "rstring option"
  ctx_command_timeout :: "nat option"
  ctx_lossy_utf16 :: bool
  ctx_lossy_codepage :: bool

definition Context_new :: Context where
  "Context_new =
     \<lparr>ctx_version = SqlServerN, ctx_packet_size = 4096, ctx_packet_id = 0,
      ctx_transaction_desc = replicate 8 0, ctx_last_meta = None, ctx_alt_metas = Map.empty, ctx_spn = None,
      ctx_command_timeout = None, ctx_lossy_utf16 = False, ctx_lossy_codepage = False\<rparr>"

definition next_packet_id :: "Context \<Rightarrow> u8 \<times> Context" where
  "next_packet_id ctx = (ctx_packet_id ctx, ctx\<lparr>ctx_packet_id := ctx_packet_id ctx + 1\<rparr>)"

definition set_last_meta :: "TokenColMetaData \<Rightarrow> Context \<Rightarrow> Context" where
  "set_last_meta meta ctx = ctx\<lparr>ctx_last_meta := Some meta\<rparr>"

definition set_alt_meta :: "TokenAltMetaData \<Rightarrow> Context \<Rightarrow> Context" where
  "set_alt_meta meta ctx = ctx\<lparr>ctx_alt_metas := (ctx_alt_metas ctx)(tam_id meta \<mapsto> meta)\<rparr>"

definition alt_meta :: "u16 \<Rightarrow> Context \<Rightarrow> TokenAltMetaData option" where
  "alt_meta aid ctx = ctx_alt_metas ctx aid"

definition set_packet_size :: "u32 \<Rightarrow> Context \<Rightarrow> Context" where
  "set_packet_size n ctx = ctx\<lparr>ctx_packet_size := n\<rparr>"

definition set_command_timeout :: "nat option \<Rightarrow> Context \<Rightarrow> Context" where
  "set_command_timeout t ctx = ctx\<lparr>ctx_command_timeout := t\<rparr>"

definition set_lossy_utf16 :: "bool \<Rightarrow> Context \<Rightarrow> Context" where
  "set_lossy_utf16 b ctx = ctx\<lparr>ctx_lossy_utf16 := b\<rparr>"

definition set_lossy_codepage :: "bool \<Rightarrow> Context \<Rightarrow> Context" where
  "set_lossy_codepage b ctx = ctx\<lparr>ctx_lossy_codepage := b\<rparr>"

definition set_transaction_descriptor :: "bytes \<Rightarrow> Context \<Rightarrow> Context" where
  "set_transaction_descriptor desc ctx = ctx\<lparr>ctx_transaction_desc := desc\<rparr>"

definition set_version :: "FeatureLevel \<Rightarrow> Context \<Rightarrow> Context" where
  "set_version v ctx = ctx\<lparr>ctx_version := v\<rparr>"

definition set_spn :: "rstring \<Rightarrow> u16 \<Rightarrow> Context \<Rightarrow> Context" where
  "set_spn host port ctx = ctx\<lparr>ctx_spn := Some (lit ''MSSQLSvc/'' @ host @ lit '':'' @ show_nat (unat port))\<rparr>"

definition Context_spn :: "Context \<Rightarrow> rstring" where
  "Context_spn ctx = (case ctx_spn ctx of Some s \<Rightarrow> s | None \<Rightarrow> [])"

lemmas context_setters = set_last_meta_def set_alt_meta_def set_packet_size_def set_command_timeout_def set_lossy_utf16_def
  set_lossy_codepage_def set_transaction_descriptor_def set_version_def set_spn_def

text \<open>The decoders' view of the context, over what the target and \<^verbatim>\<open>encoding_rs\<close> provide.\<close>

definition context_env :: "value_env \<Rightarrow> Context \<Rightarrow> value_env" where
  "context_env env ctx = env\<lparr>env_lossy_utf16 := ctx_lossy_utf16 ctx, env_lossy_codepage := ctx_lossy_codepage ctx\<rparr>"

section \<open>The invariant\<close>

text \<open>The packet size leaves room for a payload and fits the 16-bit length of a header, the
  transaction descriptor has its eight bytes, and every column type kept is one
  that the metadata decoder produced.\<close>

definition context_ok :: "Context \<Rightarrow> bool" where
  "context_ok ctx \<longleftrightarrow>
     512 \<le> ctx_packet_size ctx \<and> ctx_packet_size ctx \<le> 32767 \<and>
     length (ctx_transaction_desc ctx) = 8 \<and>
     (\<forall>m. ctx_last_meta ctx = Some m \<longrightarrow> meta_wf m) \<and>
     (\<forall>aid m. ctx_alt_metas ctx aid = Some m \<longrightarrow> alt_meta_wf m)"

lemma context_ok_new: "context_ok Context_new"
  by (simp add: context_ok_def Context_new_def)

lemma context_ok_setters:
  assumes "context_ok ctx"
  shows "context_ok (snd (next_packet_id ctx))" "context_ok (set_command_timeout t ctx)" "context_ok (set_lossy_utf16 b ctx)"
    "context_ok (set_lossy_codepage b ctx)" "context_ok (set_version v ctx)" "context_ok (set_spn h p ctx)"
    "meta_wf m \<Longrightarrow> context_ok (set_last_meta m ctx)" "alt_meta_wf am \<Longrightarrow> context_ok (set_alt_meta am ctx)"
    "length d = 8 \<Longrightarrow> context_ok (set_transaction_descriptor d ctx)"
    "512 \<le> n \<Longrightarrow> n \<le> 32767 \<Longrightarrow> context_ok (set_packet_size n ctx)"
  using assms by (auto simp: context_ok_def context_setters next_packet_id_def split: if_splits)

lemma context_payload_room:
  assumes "context_ok ctx"
  shows "504 \<le> unat (ctx_packet_size ctx) - HEADER_BYTES" "unat (ctx_packet_size ctx) \<le> 32767"
  using assms by (auto simp: context_ok_def word_le_nat_alt HEADER_BYTES_def)

end
