(* ===== verification/Tds_Connection.thy ===== *)
theory Tds_Connection
  imports Tds_Context
begin

text \<open>
  The connection of \<^verbatim>\<open>client/connection.rs\<close>: packets in, packets out, and the flags that keep a
  connection whose stream was left in the middle from being used again.

  The framed transport is third-party code. What it will yield is \<open>conn_in\<close>, one entry per
  packet or error; the end of the list is the end of the stream, the server having closed the connection, and an entry
  \<open>Diverge\<close> is a connection that stays open while nothing arrives. What was given to it is \<open>conn_out\<close>, one entry per
  write, with whether it went through TLS. At each \<^verbatim>\<open>.await\<close> of a write the
  environment decides (\<open>conn_fates\<close>, an empty list meaning that all is well): the write completes, it fails, or
  the caller drops the future, and then some prefix of the bytes may already be on the wire. A dropped future never returns:
  its outcome is \<open>Diverge\<close>, in the state it left.
\<close>

datatype io_fate = Written | Failed io_error_kind nat | Dropped nat

record Connection =
  conn_in :: "Packet res list"
  conn_out :: "(bool \<times> bytes) list"
  conn_fates :: "io_fate list"
  conn_tls :: bool
  conn_flushed :: bool
  conn_context :: Context
  conn_buf :: bytes
  conn_poisoned :: bool
  conn_command_desync :: bool

text \<open>The connection \<^verbatim>\<open>establish\<close> starts with.\<close>

definition Connection_new :: "bool \<Rightarrow> Context \<Rightarrow> Packet res list \<Rightarrow> Connection" where
  "Connection_new tls ctx incoming =
     \<lparr>conn_in = incoming, conn_out = [], conn_fates = [], conn_tls = tls, conn_flushed = False, conn_context = ctx,
      conn_buf = [], conn_poisoned = False, conn_command_desync = False\<rparr>"

section \<open>Reading packets\<close>

text \<open>\<^verbatim>\<open>Stream::poll_next\<close>, once it is ready.\<close>

definition conn_next :: "(Connection, Packet option) comp" where
  "conn_next c =
     (case conn_in c of
        [] \<Rightarrow> (Ok None, c)
      | Ok p # rest \<Rightarrow> (Ok (Some p), c\<lparr>conn_in := rest, conn_flushed := Packet_is_last p\<rparr>)
      | Err e # rest \<Rightarrow> (Err e, c\<lparr>conn_in := rest\<rparr>)
      | Panic # rest \<Rightarrow> (Panic, c\<lparr>conn_in := rest\<rparr>)
      | Diverge # rest \<Rightarrow> (Diverge, c\<lparr>conn_in := rest\<rparr>))"

lemma conn_next_shorter: "conn_next c = (Ok (Some p), c') \<Longrightarrow> length (conn_in c') < length (conn_in c)"
  by (auto simp: conn_next_def split: list.splits res.splits)

text \<open>\<^verbatim>\<open>AsyncRead::poll_read\<close>: packets are appended to the buffer until it holds what was asked
  for. Too few bytes are an error, and none of them is taken.\<close>

function conn_fill :: "nat \<Rightarrow> (Connection, unit) comp" where
  "conn_fill sz c =
     (case conn_next c of
        (Ok (Some p), c') \<Rightarrow>
          (let c'' = c'\<lparr>conn_buf := conn_buf c' @ snd (Packet_into_parts p)\<rparr> in
           if length (conn_buf c'') \<ge> sz then (Ok (), c'') else conn_fill sz c'')
      | (Ok None, c') \<Rightarrow> (Ok (), c')
      | (Err e, c') \<Rightarrow> (Err (Io BrokenPipe), c')
      | (Panic, c') \<Rightarrow> (Panic, c')
      | (Diverge, c') \<Rightarrow> (Diverge, c'))"
  by pat_completeness auto
termination
  by (relation "measure (\<lambda>(_, c). length (conn_in c))") (auto dest!: sym [of _ "conn_next _"] simp: conn_next_shorter)

declare conn_fill.simps [simp del]

definition poll_read :: "nat \<Rightarrow> (Connection, bytes) comp" where
  "poll_read sz =
     bindR (\<lambda>c. if length (conn_buf c) < sz then conn_fill sz c else (Ok (), c)) (\<lambda>_ c.
       if length (conn_buf c) < sz then (Err (Io UnexpectedEof), c)
       else (Ok (take sz (conn_buf c)), c\<lparr>conn_buf := drop sz (conn_buf c)\<rparr>))"

lemma conn_fill_waits:
  "conn_in c = map Ok ps @ Diverge # rest \<Longrightarrow> length (conn_buf c) + length (concat (map pk_payload ps)) < sz \<Longrightarrow> fst (conn_fill sz c) = Diverge"
proof (induction ps arbitrary: c)
  case Nil
  then show ?case by (simp add: conn_fill.simps [of sz c] conn_next_def)
next
  case (Cons p ps)
  let ?c = "c\<lparr>conn_in := map Ok ps @ Diverge # rest, conn_flushed := Packet_is_last p, conn_buf := conn_buf c @ pk_payload p\<rparr>"
  have "fst (conn_fill sz ?c) = Diverge" using Cons.IH [of ?c] Cons.prems(2) by simp
  then show ?case using Cons.prems by (simp add: conn_fill.simps [of sz c] conn_next_def Packet_into_parts_def Let_def)
qed

text \<open>On an open connection a read that lacks bytes waits, also behind the end of a message.\<close>

lemma poll_read_waits:
  assumes "conn_in c = map Ok ps @ Diverge # rest" "length (conn_buf c) + length (concat (map pk_payload ps)) < sz"
  shows "fst (poll_read sz c) = Diverge"
  using conn_fill_waits [OF assms] assms(2) by (cases "conn_fill sz c") (auto simp: poll_read_def bindR_def)

definition is_eof :: "Connection \<Rightarrow> bool" where
  "is_eof c \<longleftrightarrow> conn_flushed c \<and> conn_buf c = []"

section \<open>Guards\<close>

definition ensure_not_poisoned :: "(Connection, unit) comp" where
  "ensure_not_poisoned c =
     (if conn_poisoned c then (Err (Protocol (StreamMsg ConnectionPoisoned)), c)
      else if conn_command_desync c then (Err (Protocol (StreamMsg ConnectionDesync)), c)
      else (Ok (), c))"

definition poison :: "(Connection, unit) comp" where
  "poison c = (Ok (), c\<lparr>conn_poisoned := True\<rparr>)"

definition unpoison :: "(Connection, unit) comp" where
  "unpoison c = (Ok (), c\<lparr>conn_poisoned := False\<rparr>)"

definition set_flushed :: "bool \<Rightarrow> (Connection, unit) comp" where
  "set_flushed b c = (Ok (), c\<lparr>conn_flushed := b\<rparr>)"

section \<open>Writing packets\<close>

definition await_write :: "bytes \<Rightarrow> (Connection, unit) comp" where
  "await_write bs c =
     (case conn_fates c of
        [] \<Rightarrow> (Ok (), c\<lparr>conn_out := conn_out c @ [(conn_tls c, bs)]\<rparr>)
      | Written # fs \<Rightarrow> (Ok (), c\<lparr>conn_out := conn_out c @ [(conn_tls c, bs)], conn_fates := fs\<rparr>)
      | Failed k n # fs \<Rightarrow> (Err (Io k), c\<lparr>conn_out := conn_out c @ [(conn_tls c, take n bs)], conn_fates := fs\<rparr>)
      | Dropped n # fs \<Rightarrow> (Diverge, c\<lparr>conn_out := conn_out c @ [(conn_tls c, take n bs)], conn_fates := fs\<rparr>))"

definition write_to_wire :: "PacketHeader \<Rightarrow> bytes \<Rightarrow> (Connection, unit) comp" where
  "write_to_wire header dat =
     thenR (set_flushed False)
       (case PacketCodec_encode (Packet_new header dat) [] of
          (Ok _, bs) \<Rightarrow> await_write bs
        | (Err e, _) \<Rightarrow> errR e
        | (Panic, _) \<Rightarrow> panicR
        | (Diverge, _) \<Rightarrow> liftR Diverge)"

definition flush_sink :: "(Connection, unit) comp" where
  "flush_sink = await_write []"

text \<open>\<^verbatim>\<open>packet_size() as usize - HEADER_BYTES\<close>\<close>

definition payload_size :: "(Connection, nat) comp" where
  "payload_size c =
     (if unat (ctx_packet_size (conn_context c)) < HEADER_BYTES then (Panic, c)
      else (Ok (unat (ctx_packet_size (conn_context c)) - HEADER_BYTES), c))"

text \<open>The packet loop of \<^verbatim>\<open>send\<close>. With no room for a payload it would go round for ever.\<close>

function send_packets :: "PacketHeader \<Rightarrow> nat \<Rightarrow> bytes \<Rightarrow> (Connection, unit) comp" where
  "send_packets header packet_size payload =
     (if payload = [] then retR ()
      else if packet_size = 0 then liftR Diverge
      else
        (let writable = min (length payload) packet_size; split_payload = take writable payload;
             payload' = drop writable payload;
             header' = PacketHeader_set_status (if payload' = [] then EndOfMessage else NormalMessage) header in
         thenR (write_to_wire header' split_payload) (send_packets header' packet_size payload')))"
  by pat_completeness auto
termination
  by (relation "measure (\<lambda>(_, _, payload). length payload)") auto

declare send_packets.simps [simp del]

definition encode_item :: "(bytes, unit) comp \<Rightarrow> (Connection, bytes) comp" where
  "encode_item item c = (case item [] of (r, bs) \<Rightarrow> (map_res (\<lambda>_. bs) r, c))"

definition send :: "PacketHeader \<Rightarrow> (bytes, unit) comp \<Rightarrow> (Connection, unit) comp" where
  "send header item =
     thenR ensure_not_poisoned
    (thenR (set_flushed False)
    (bindR payload_size (\<lambda>packet_size.
     bindR (encode_item item) (\<lambda>payload.
     thenR poison
    (thenR (send_packets header packet_size payload)
    (thenR flush_sink unpoison))))))"

section \<open>The login message\<close>

text \<open>\<^verbatim>\<open>frame_sensitive_login\<close>: the frames of the login, built outside the shared buffer. The
  size is patched into each frame modulo 2^16.\<close>

function frame_sensitive_login :: "PacketHeader \<Rightarrow> bytes \<Rightarrow> nat \<Rightarrow> nat \<Rightarrow> bytes list res" where
  "frame_sensitive_login header payload packet_size offset =
     (if offset < length payload then
        (let end_pos = min (length payload) (offset + packet_size);
             header' = PacketHeader_set_status (if end_pos = length payload then EndOfMessage else NormalMessage) header in
         if end_pos = offset then Diverge
         else
           case PacketHeader_encode header' [] of
             (Ok _, hd_bytes) \<Rightarrow>
               (let frame = hd_bytes @ take (end_pos - offset) (drop offset payload);
                    sz = be_bytes 2 (of_nat (length frame) :: u16) in
                map_res ((#) (frame[2 := sz ! 0, 3 := sz ! 1])) (frame_sensitive_login header' payload packet_size end_pos))
           | (Err e, _) \<Rightarrow> Err e | (Panic, _) \<Rightarrow> Panic | (Diverge, _) \<Rightarrow> Diverge)
      else Ok [])"
  by pat_completeness auto
termination
  by (relation "measure (\<lambda>(_, payload, _, offset). length payload - offset)") auto

declare frame_sensitive_login.simps [simp del]

definition send_sensitive_login :: "PacketHeader \<Rightarrow> bytes \<Rightarrow> (Connection, unit) comp" where
  "send_sensitive_login header payload =
     thenR ensure_not_poisoned
    (thenR (set_flushed False)
    (bindR payload_size (\<lambda>packet_size.
     bindR (liftR (frame_sensitive_login header payload packet_size 0)) (\<lambda>frames.
     thenR poison
    (thenR (eachR await_write frames)
    (thenR flush_sink unpoison))))))"

section \<open>Cancelling\<close>

text \<open>The first half of \<^verbatim>\<open>cancel_request\<close>: an Attention packet, a header without payload.\<close>

definition send_attention :: "(Connection, unit) comp" where
  "send_attention =
     thenR ensure_not_poisoned (\<lambda>c.
       case next_packet_id (conn_context c) of (i, ctx) \<Rightarrow>
         thenR poison
        (thenR (write_to_wire (PacketHeader_attention i) [])
        (thenR flush_sink unpoison)) (c\<lparr>conn_context := ctx\<rparr>))"

section \<open>Draining\<close>

function drain_packets :: "(Connection, unit) comp" where
  "drain_packets c =
     (case conn_next c of
        (Ok (Some p), c') \<Rightarrow> if Packet_is_last p then (Ok (), c') else drain_packets c'
      | (Ok None, c') \<Rightarrow> (Ok (), c')
      | (Err e, c') \<Rightarrow> (Err e, c'\<lparr>conn_poisoned := True\<rparr>)
      | (Panic, c') \<Rightarrow> (Panic, c')
      | (Diverge, c') \<Rightarrow> (Diverge, c'))"
  by pat_completeness auto
termination
  by (relation "measure (\<lambda>c. length (conn_in c))") (auto dest!: sym [of _ "conn_next _"] simp: conn_next_shorter)

declare drain_packets.simps [simp del]

definition flush_stream :: "(Connection, unit) comp" where
  "flush_stream =
     thenR ensure_not_poisoned (\<lambda>c.
       let c' = c\<lparr>conn_buf := []\<rparr> in
       if conn_flushed c' then (Ok (), c') else drain_packets c')"

text \<open>\<^verbatim>\<open>collect_from\<close> of \<^verbatim>\<open>tds/codec.rs\<close> on the connection: payloads up to the end of the message.\<close>

function conn_collect :: "bytes \<Rightarrow> (Connection, bytes) comp" where
  "conn_collect buf c =
     (case conn_next c of
        (Ok (Some p), c') \<Rightarrow>
          if Packet_is_last p then (Ok (buf @ pk_payload p), c') else conn_collect (buf @ pk_payload p) c'
      | (Ok None, c') \<Rightarrow> (Ok buf, c')
      | (Err e, c') \<Rightarrow> (Err e, c')
      | (Panic, c') \<Rightarrow> (Panic, c')
      | (Diverge, c') \<Rightarrow> (Diverge, c'))"
  by pat_completeness auto
termination
  by (relation "measure (\<lambda>(_, c). length (conn_in c))") (auto dest!: sym [of _ "conn_next _"] simp: conn_next_shorter)

declare conn_collect.simps [simp del]

section \<open>The byte stream behind the packets\<close>

fun payloads :: "Packet res list \<Rightarrow> bytes" where
  "payloads (Ok p # rest) = pk_payload p @ payloads rest"
| "payloads _ = []"

definition conn_stream :: "Connection \<Rightarrow> bytes" where
  "conn_stream c = conn_buf c @ payloads (conn_in c)"

definition clean_input :: "Connection \<Rightarrow> bool" where
  "clean_input c \<longleftrightarrow> (\<forall>x\<in>set (conn_in c). \<exists>p. x = Ok p)"

text \<open>What reading leaves: the packets that were needed are in the buffer, the rest of the
  connection is as it was.\<close>

fun pull :: "nat \<Rightarrow> Packet res list \<Rightarrow> bytes \<Rightarrow> bool \<Rightarrow> Packet res list \<times> bytes \<times> bool" where
  "pull sz (Ok p # rest) buf fl =
     (if length buf < sz then pull sz rest (buf @ pk_payload p) (Packet_is_last p) else (Ok p # rest, buf, fl))"
| "pull sz ins buf fl = (ins, buf, fl)"

definition pulled :: "nat \<Rightarrow> Connection \<Rightarrow> Connection" where
  "pulled sz c = (case pull sz (conn_in c) (conn_buf c) (conn_flushed c) of
     (ins, buf, fl) \<Rightarrow> c\<lparr>conn_in := ins, conn_buf := buf, conn_flushed := fl\<rparr>)"

definition skip_bytes :: "nat \<Rightarrow> Connection \<Rightarrow> Connection" where
  "skip_bytes sz c = (let c' = pulled sz c in c'\<lparr>conn_buf := drop sz (conn_buf c')\<rparr>)"

lemma pull_done: "sz \<le> length buf \<Longrightarrow> pull sz ins buf fl = (ins, buf, fl)"
  by (cases ins; cases "hd ins") auto

lemma pull_stream: "pull sz ins buf fl = (ins', buf', fl') \<Longrightarrow> buf' @ payloads ins' = buf @ payloads ins \<and> suffix ins' ins"
  by (induction sz ins buf fl rule: pull.induct) (auto split: if_splits intro: suffix_ConsI)

lemma pull_enough:
  assumes "\<forall>x\<in>set ins. \<exists>p. x = Ok p" "pull sz ins buf fl = (ins', buf', fl')"
  shows "sz \<le> length buf' \<or> ins' = []"
  using assms by (induction sz ins buf fl rule: pull.induct) (auto split: if_splits)

lemma pull_shift: "pull (k + m) ins (pre @ buf) fl = (ins', buf'', fl') \<Longrightarrow> length pre = k \<Longrightarrow>
   pull m ins buf fl = (ins', drop k buf'', fl') \<and> k \<le> length buf''"
proof (induction m ins buf fl arbitrary: pre buf'' rule: pull.induct)
  case (1 sz p rest buf fl)
  then show ?case by (auto split: if_splits)
qed auto

lemma pull_pull: "pull n ins buf fl = (ins1, buf1, fl1) \<Longrightarrow> n \<le> m \<Longrightarrow> pull m ins1 buf1 fl1 = pull m ins buf fl"
  by (induction n ins buf fl rule: pull.induct) (auto split: if_splits)

lemma conn_fill_pulled:
  assumes "clean_input c" "length (conn_buf c) < sz"
  shows "conn_fill sz c = (Ok (), pulled sz c)"
  using assms
proof (induction sz c rule: conn_fill.induct)
  case (1 sz c)
  show ?case
  proof (cases "conn_in c")
    case Nil
    then show ?thesis by (simp add: conn_fill.simps [of sz c] conn_next_def pulled_def)
  next
    case (Cons x rest)
    with 1(2) obtain p where p: "x = Ok p" by (auto simp: clean_input_def)
    let ?c = "c\<lparr>conn_in := rest, conn_flushed := Packet_is_last p, conn_buf := conn_buf c @ pk_payload p\<rparr>"
    have n: "conn_next c = (Ok (Some p), c\<lparr>conn_in := rest, conn_flushed := Packet_is_last p\<rparr>)"
      using Cons p by (simp add: conn_next_def)
    have "conn_fill sz ?c = (Ok (), pulled sz ?c)" if "length (conn_buf ?c) < sz"
      using 1(1) [OF n [symmetric] refl refl refl] that 1(2) Cons p
      by (auto simp: clean_input_def Packet_into_parts_def)
    then show ?thesis
      using n Cons p 1(3) by (auto simp: conn_fill.simps [of sz c] pulled_def Packet_into_parts_def Let_def pull_done not_less)
  qed
qed

lemma pulled_stream [simp]: "conn_stream (pulled sz c) = conn_stream c"
  by (auto simp: pulled_def conn_stream_def dest: pull_stream split: prod.split)

lemma clean_pulled: "clean_input c \<Longrightarrow> clean_input (pulled sz c)"
  by (auto simp: pulled_def clean_input_def dest!: pull_stream set_mono_suffix split: prod.split)

lemma pulled_buf:
  assumes "clean_input c"
  shows "sz \<le> length (conn_stream c) \<Longrightarrow> sz \<le> length (conn_buf (pulled sz c))"
    and "length (conn_stream c) < sz \<Longrightarrow> length (conn_buf (pulled sz c)) < sz"
proof -
  obtain ins buf fl where p: "pull sz (conn_in c) (conn_buf c) (conn_flushed c) = (ins, buf, fl)"
    by (cases "pull sz (conn_in c) (conn_buf c) (conn_flushed c)") auto
  have s: "buf @ payloads ins = conn_stream c" using pull_stream [OF p] by (simp add: conn_stream_def)
  have e: "sz \<le> length buf \<or> ins = []" using pull_enough [OF _ p] assms by (simp add: clean_input_def)
  show "sz \<le> length (conn_stream c) \<Longrightarrow> sz \<le> length (conn_buf (pulled sz c))"
    using s e p by (auto simp: pulled_def)
  show "length (conn_stream c) < sz \<Longrightarrow> length (conn_buf (pulled sz c)) < sz"
    using p arg_cong [OF s, of length] by (simp add: pulled_def)
qed

lemma poll_read_clean:
  assumes "clean_input c"
  shows "sz \<le> length (conn_stream c) \<Longrightarrow> poll_read sz c = (Ok (take sz (conn_stream c)), skip_bytes sz c)"
    and "length (conn_stream c) < sz \<Longrightarrow> poll_read sz c = (Err (Io UnexpectedEof), pulled sz c)"
proof -
  have b: "(if length (conn_buf c) < sz then conn_fill sz c else (Ok (), c)) = (Ok (), pulled sz c)"
    using conn_fill_pulled [OF assms, of sz] by (auto simp: pulled_def pull_done not_less)
  have t: "take sz (conn_buf (pulled sz c)) = take sz (conn_stream c)" if "sz \<le> length (conn_buf (pulled sz c))"
    using pulled_stream [of sz c] that unfolding conn_stream_def [of "pulled sz c"] by (metis take_append append_Nil2 diff_is_0_eq take_0)
  show "sz \<le> length (conn_stream c) \<Longrightarrow> poll_read sz c = (Ok (take sz (conn_stream c)), skip_bytes sz c)"
    using b pulled_buf(1) [OF assms] t by (auto simp: poll_read_def bindR_def skip_bytes_def Let_def not_less)
  show "length (conn_stream c) < sz \<Longrightarrow> poll_read sz c = (Err (Io UnexpectedEof), pulled sz c)"
    using b pulled_buf(2) [OF assms] by (auto simp: poll_read_def bindR_def)
qed

lemma skip_stream:
  assumes "clean_input c" "sz \<le> length (conn_stream c)"
  shows "conn_stream (skip_bytes sz c) = drop sz (conn_stream c)" "clean_input (skip_bytes sz c)"
proof -
  have "conn_stream c = conn_buf (pulled sz c) @ payloads (conn_in (pulled sz c))"
    using pulled_stream [of sz c] by (simp add: conn_stream_def)
  then show "conn_stream (skip_bytes sz c) = drop sz (conn_stream c)"
    using pulled_buf(1) [OF assms] by (simp add: skip_bytes_def Let_def conn_stream_def [of "pulled sz c\<lparr>conn_buf := _\<rparr>"])
  show "clean_input (skip_bytes sz c)"
    using clean_pulled [OF assms(1), of sz] by (simp add: skip_bytes_def clean_input_def Let_def)
qed

lemma skip_add:
  assumes "clean_input c" "n + m \<le> length (conn_stream c)"
  shows "skip_bytes m (skip_bytes n c) = skip_bytes (n + m) c"
proof -
  obtain ins buf fl where p: "pull n (conn_in c) (conn_buf c) (conn_flushed c) = (ins, buf, fl)"
    by (cases "pull n (conn_in c) (conn_buf c) (conn_flushed c)") auto
  obtain ins' buf' fl' where q: "pull (n + m) ins buf fl = (ins', buf', fl')"
    by (cases "pull (n + m) ins buf fl") auto
  have "n \<le> length buf" using pulled_buf(1) [OF assms(1), of n] assms(2) p by (simp add: pulled_def)
  then have "pull m ins (drop n buf) fl = (ins', drop n buf', fl')"
    using pull_shift [of n m ins "take n buf" "drop n buf" fl ins' buf' fl'] q by simp
  moreover have "pull (n + m) (conn_in c) (conn_buf c) (conn_flushed c) = (ins', buf', fl')"
    using pull_pull [OF p, of "n + m"] q by simp
  ultimately show ?thesis using p by (simp add: skip_bytes_def pulled_def Let_def add.commute)
qed

text \<open>A decoder of the byte stream, run on the connection: it takes from the packets what it takes from the stream.\<close>

definition over_conn :: "(bytes, 'a) comp \<Rightarrow> (Connection, 'a) comp" where
  "over_conn m c =
     (case m (conn_stream c) of (r, s') \<Rightarrow> (r, skip_bytes (length (conn_stream c) - length s') c))"

lemma over_conn_frame:
  assumes "reader m" "clean_input c" "over_conn m c = (r, c')"
  shows "fst (m (conn_stream c)) = r" "snd (m (conn_stream c)) = conn_stream c'" "clean_input c'"
proof -
  obtain q s' where m: "m (conn_stream c) = (q, s')" by (cases "m (conn_stream c)") auto
  then obtain p where p: "conn_stream c = p @ s'" using readerE [OF assms(1)] by metis
  then have k: "length (conn_stream c) - length s' = length p" "length p \<le> length (conn_stream c)" by simp_all
  have c': "r = q" "c' = skip_bytes (length p) c" using assms(3) m k by (auto simp: over_conn_def)
  show "fst (m (conn_stream c)) = r" using m c' by simp
  show "snd (m (conn_stream c)) = conn_stream c'" using skip_stream(1) [OF assms(2) k(2)] c' m p by simp
  show "clean_input c'" using skip_stream(2) [OF assms(2) k(2)] c' by simp
qed

lemma over_conn_read_n:
  assumes "clean_input c"
  shows "n \<le> length (conn_stream c) \<Longrightarrow> over_conn (read_n n) c = poll_read n c"
    and "length (conn_stream c) < n \<Longrightarrow> over_conn (read_n n) c = (fst (poll_read n c), c)"
  using poll_read_clean [OF assms, of n]
  by (auto simp: over_conn_def read_n_def skip_bytes_def pulled_def pull_done)

lemma over_conn_bind:
  assumes "reader m" "clean_input c" "\<And>a. reader (f a)"
  shows "over_conn (bindR m f) c = bindR (over_conn m) (\<lambda>a. over_conn (f a)) c"
proof -
  obtain r s1 where m: "m (conn_stream c) = (r, s1)" by (cases "m (conn_stream c)") auto
  obtain c1 where c1: "over_conn m c = (r, c1)" using m by (auto simp: over_conn_def)
  have s1: "s1 = conn_stream c1" "clean_input c1" using over_conn_frame [OF assms(1,2) c1] m by auto
  show ?thesis
  proof (cases r)
    case (Ok a)
    obtain q s2 where f: "f a s1 = (q, s2)" by (cases "f a s1") auto
    obtain p1 p2 where p: "conn_stream c = p1 @ s1" "s1 = p2 @ s2"
      using readerE [OF assms(1) m] readerE [OF assms(3) f] by metis
    have "c1 = skip_bytes (length p1) c" using c1 m p by (simp add: over_conn_def)
    then have "skip_bytes (length p2) c1 = skip_bytes (length p1 + length p2) c"
      using skip_add [OF assms(2), of "length p1" "length p2"] p by simp
    then show ?thesis using Ok m f c1 p s1(1) by (auto simp: over_conn_def bindR_def)
  qed (use m c1 in \<open>auto simp: over_conn_def bindR_def\<close>)
qed

section \<open>Reading is independent of the packets\<close>

text \<open>C12: Reading from the connection refines reading from a byte string. Whatever way the input is cut into packets, reading
  \<open>n\<close> bytes returns the next \<open>n\<close> bytes of the concatenated payloads, or the end-of-input error when the server closed the connection before, in which case nothing is lost (on an open connection the read waits then: \<open>poll_read_waits\<close>); and
  what can be read afterwards is what the byte-string reader leaves.\<close>

theorem poll_read_refines:
  assumes "clean_input c"
  shows "\<exists>c'. poll_read n c = (fst (read_n n (conn_stream c)), c') \<and> conn_stream c' = snd (read_n n (conn_stream c)) \<and> clean_input c'"
  using poll_read_clean [OF assms, of n] skip_stream [OF assms, of n] clean_pulled [OF assms]
  by (cases "n \<le> length (conn_stream c)") (auto simp: read_n_def)


theorem poll_read_refines_witness:
  "let c = Connection_new False Context_new
       [Ok (Packet_new (PacketHeader_batch 0) [1]), Ok (Packet_new (PacketHeader_batch 0) []), Ok (Packet_new (PacketHeader_batch 0) [2, 3])] in
   \<exists>c'. poll_read 2 c = (Ok [1, 2], c') \<and> conn_stream c' = [3]"
proof -
  let ?c = "Connection_new False Context_new
       [Ok (Packet_new (PacketHeader_batch 0) [1]), Ok (Packet_new (PacketHeader_batch 0) []), Ok (Packet_new (PacketHeader_batch 0) [2, 3])]"
  have "clean_input ?c" "conn_stream ?c = [1, 2, 3]"
    by (simp_all add: clean_input_def conn_stream_def Connection_new_def Packet_new_def)
  with poll_read_refines [of ?c 2] show ?thesis by (auto simp: Let_def read_n_def)
qed

end
