(* ===== verification/Tds_Sending.thy ===== *)
theory Tds_Sending
  imports Tds_Connection
begin

text \<open>
  What requests put on the wire: the packets of a message, what a write leaves behind when it
  completes, fails or is dropped, and the invariant of the poison flag over everything that can happen to
  an idle connection (a connection lent to a bulk load is the subject of \<^verbatim>\<open>Tds_Bulk\<close>).
\<close>

section \<open>Messages on the wire\<close>

text \<open>The packets of a payload.\<close>

function split_packets :: "PacketHeader \<Rightarrow> nat \<Rightarrow> bytes \<Rightarrow> Packet list" where
  "split_packets h psz payload =
     (if payload = [] \<or> psz = 0 then []
      else
        (let h' = PacketHeader_set_status (if length payload \<le> psz then EndOfMessage else NormalMessage) h in
         Packet_new h' (take psz payload) # split_packets h' psz (drop psz payload)))"
  by pat_completeness auto
termination
  by (relation "measure (\<lambda>(_, _, payload). length payload)") auto

declare split_packets.simps [simp del]

definition is_message :: "Packet list \<Rightarrow> bool" where
  "is_message ps \<longleftrightarrow> ps \<noteq> [] \<and> (\<forall>p\<in>set ps. packet_fits p) \<and> (\<forall>p\<in>set (butlast ps). \<not> Packet_is_last p) \<and> Packet_is_last (last ps)"

lemma split_packets_step:
  assumes "payload \<noteq> []" "0 < psz"
  obtains h' where "split_packets h psz payload = Packet_new h' (take psz payload) # split_packets h' psz (drop psz payload)"
    "h' = PacketHeader_set_status (if length payload \<le> psz then EndOfMessage else NormalMessage) h"
  using assms that by (simp add: split_packets.simps [of h psz payload] Let_def)

lemma split_packets_Nil [simp]: "split_packets h psz [] = []"
  by (simp add: split_packets.simps)

lemma split_payload: "0 < psz \<Longrightarrow> concat (map pk_payload (split_packets h psz payload)) = payload"
proof (induction h psz payload rule: split_packets.induct)
  case (1 h psz payload)
  then show ?case by (subst split_packets.simps) (auto simp: Packet_new_def Let_def)
qed

lemma split_sizes: "p \<in> set (split_packets h psz payload) \<Longrightarrow> length (pk_payload p) \<le> psz \<and> pk_payload p \<noteq> []"
proof (induction h psz payload rule: split_packets.induct)
  case (1 h psz payload)
  then show ?case by (subst (asm) (2) split_packets.simps) (auto simp: Packet_new_def Let_def split: if_splits)
qed

lemma split_types: "p \<in> set (split_packets h psz payload) \<Longrightarrow> ph_ty (pk_header p) = ph_ty h \<and> ph_id (pk_header p) = ph_id h"
proof (induction h psz payload rule: split_packets.induct)
  case (1 h psz payload)
  then show ?case
    by (subst (asm) (2) split_packets.simps) (auto simp: Packet_new_def PacketHeader_set_status_def Let_def split: if_splits)
qed

lemma split_statuses:
  assumes "0 < psz" "payload \<noteq> []"
  shows "(\<forall>p\<in>set (butlast (split_packets h psz payload)). \<not> Packet_is_last p) \<and> Packet_is_last (last (split_packets h psz payload)) \<and>
    split_packets h psz payload \<noteq> []"
  using assms
proof (induction h psz payload rule: split_packets.induct)
  case (1 h psz payload)
  obtain h' where s: "split_packets h psz payload = Packet_new h' (take psz payload) # split_packets h' psz (drop psz payload)"
    and h': "h' = PacketHeader_set_status (if length payload \<le> psz then EndOfMessage else NormalMessage) h"
    using split_packets_step [OF 1(3,2)] by metis
  show ?case
  proof (cases "length payload \<le> psz")
    case True
    then show ?thesis using s h' by (simp add: Packet_is_last_def Packet_new_def PacketHeader_set_status_def)
  next
    case False
    then have n: "drop psz payload \<noteq> []" by simp
    with 1(1) [OF _ h'] 1(2,3) show ?thesis
      using s h' False by (auto simp: Packet_is_last_def Packet_new_def PacketHeader_set_status_def split: if_splits)
  qed
qed

lemma split_message:
  assumes "0 < psz" "psz + 8 \<le> 65535" "payload \<noteq> []"
  shows "is_message (split_packets h psz payload)"
  using split_statuses [OF assms(1,3)] split_sizes [of _ h psz payload] assms(2)
  by (fastforce simp: is_message_def packet_fits_def HEADER_BYTES_def)

lemma send_packets_split:
  "0 < psz \<Longrightarrow> send_packets h psz payload = eachR (\<lambda>p. write_to_wire (pk_header p) (pk_payload p)) (split_packets h psz payload)"
proof (induction h psz payload rule: split_packets.induct)
  case (1 h psz payload)
  have t: "take (min (length payload) psz) payload = take psz payload" "drop (min (length payload) psz) payload = drop psz payload"
    by (auto simp: min_def)
  show ?case
  proof (cases "payload = []")
    case True
    then show ?thesis by (simp add: send_packets.simps)
  next
    case False
    then obtain h' where s: "split_packets h psz payload = Packet_new h' (take psz payload) # split_packets h' psz (drop psz payload)"
      and h': "h' = PacketHeader_set_status (if length payload \<le> psz then EndOfMessage else NormalMessage) h"
      using split_packets_step [OF False 1(2)] by metis
    have "send_packets h psz payload = thenR (write_to_wire h' (take psz payload)) (send_packets h' psz (drop psz payload))"
      using False 1(2) h' by (subst send_packets.simps) (simp add: t Let_def)
    also have "send_packets h' psz (drop psz payload) = eachR (\<lambda>p. write_to_wire (pk_header p) (pk_payload p)) (split_packets h' psz (drop psz payload))"
      using 1(1) [OF _ h'] 1(2) False by simp
    finally show ?thesis using s by (simp add: Packet_new_def)
  qed
qed

definition wire :: "Connection \<Rightarrow> bytes" where
  "wire c = concat (map snd (conn_out c))"

text \<open>A write changes the output, the fates still to come and the flushed flag.\<close>

definition wire_ext :: "Connection \<Rightarrow> Connection \<Rightarrow> bool" where
  "wire_ext c c' \<longleftrightarrow>
     conn_context c' = conn_context c \<and> conn_command_desync c' = conn_command_desync c \<and>
     conn_in c' = conn_in c \<and> conn_buf c' = conn_buf c \<and> conn_tls c' = conn_tls c \<and>
     (\<exists>xs. conn_out c' = conn_out c @ map (Pair (conn_tls c)) xs)"

definition only_wire :: "Connection \<Rightarrow> Connection \<Rightarrow> bool" where
  "only_wire c c' \<longleftrightarrow> wire_ext c c' \<and> conn_poisoned c' = conn_poisoned c"

lemma wire_ext_poison [simp]: "wire_ext (c\<lparr>conn_poisoned := b\<rparr>) c' = wire_ext c c'" "wire_ext c (c'\<lparr>conn_poisoned := b\<rparr>) = wire_ext c c'"
  by (simp_all add: wire_ext_def)

lemma wire_ext_refl [simp]: "wire_ext c c" "wire_ext c (c\<lparr>conn_flushed := b\<rparr>)"
  by (auto simp: wire_ext_def)

lemma wire_ext_trans: "wire_ext c c' \<Longrightarrow> wire_ext c' c'' \<Longrightarrow> wire_ext c c''"
  by (auto simp: wire_ext_def simp flip: map_append)

lemma only_wire_refl [simp]: "only_wire c c" "only_wire c (c\<lparr>conn_flushed := b\<rparr>)"
  by (simp_all add: only_wire_def)

lemma only_wire_trans: "only_wire c c' \<Longrightarrow> only_wire c' c'' \<Longrightarrow> only_wire c c''"
  by (auto simp: only_wire_def intro: wire_ext_trans)

lemma only_wireD:
  assumes "only_wire c c'"
  shows "conn_context c' = conn_context c" "conn_poisoned c' = conn_poisoned c" "conn_command_desync c' = conn_command_desync c"
    "conn_in c' = conn_in c" "conn_buf c' = conn_buf c" "conn_tls c' = conn_tls c"
  using assms by (auto simp: only_wire_def wire_ext_def)

lemma await_write_effect:
  assumes "await_write bs c = (r, c')"
  shows "only_wire c c'" "r \<noteq> Panic" "r = Ok () \<Longrightarrow> conn_out c' = conn_out c @ [(conn_tls c, bs)]"
proof -
  show "only_wire c c'"
    using assms unfolding only_wire_def wire_ext_def await_write_def
    by (auto split: list.splits io_fate.splits intro: exI [of _ "[_]"])
  show "r \<noteq> Panic" "r = Ok () \<Longrightarrow> conn_out c' = conn_out c @ [(conn_tls c, bs)]"
    using assms by (auto simp: await_write_def split: list.splits io_fate.splits)
qed

lemma thenR_cases:
  assumes "thenR m k s = (r, s'')"
  obtains s' where "m s = (Ok (), s')" "k s' = (r, s'')" | "m s = (r, s'')" "r \<noteq> Ok x"
  using assms by (cases "m s"; cases "fst (m s)") (auto simp: thenR_def bindR_def)

text \<open>Several writes in a row.\<close>

lemma each_write_effect:
  assumes "\<And>x c r c'. x \<in> set xs \<Longrightarrow> w x c = (r, c') \<Longrightarrow>
     only_wire c c' \<and> r \<noteq> Panic \<and> (r = Ok () \<longrightarrow> conn_out c' = conn_out c @ [(conn_tls c, b x)])"
  shows "eachR w xs c = (r, c') \<Longrightarrow>
     only_wire c c' \<and> r \<noteq> Panic \<and> (r = Ok () \<longrightarrow> conn_out c' = conn_out c @ map (\<lambda>x. (conn_tls c, b x)) xs)"
  using assms
proof (induction xs arbitrary: c)
  case Nil
  then show ?case by (auto simp: retR_def)
next
  case (Cons x xs)
  obtain q c1 where q: "w x c = (q, c1)" by (cases "w x c") auto
  have w: "only_wire c c1" "q \<noteq> Panic" "q = Ok () \<Longrightarrow> conn_out c1 = conn_out c @ [(conn_tls c, b x)]"
    using Cons.prems(2) [OF _ q] by auto
  show ?case
  proof (cases q)
    case (Ok u)
    then have e: "eachR w xs c1 = (r, c')" using Cons.prems(1) q by (simp add: thenR_def bindR_def)
    have "only_wire c1 c' \<and> r \<noteq> Panic \<and> (r = Ok () \<longrightarrow> conn_out c' = conn_out c1 @ map (\<lambda>x. (conn_tls c1, b x)) xs)"
      by (rule Cons.IH [OF e]) (use Cons.prems(2) in auto)
    then show ?thesis using w Ok only_wire_trans only_wireD(6) [OF w(1)] by auto
  qed (use Cons.prems(1) q w in \<open>auto simp: thenR_def bindR_def\<close>)
qed

lemma write_to_wire_fits:
  "packet_fits (Packet_new h d) \<Longrightarrow> write_to_wire h d c = await_write (packet_bytes (Packet_new h d)) (c\<lparr>conn_flushed := False\<rparr>)"
  using Packet_encode_empty [of "Packet_new h d"]
  by (simp add: write_to_wire_def PacketCodec_encode_def set_flushed_def thenR_def bindR_def)

lemma write_to_wire_effect:
  assumes "packet_fits (Packet_new h d)" "write_to_wire h d c = (r, c')"
  shows "only_wire c c' \<and> r \<noteq> Panic \<and> (r = Ok () \<longrightarrow> conn_out c' = conn_out c @ [(conn_tls c, packet_bytes (Packet_new h d))])"
proof -
  have "await_write (packet_bytes (Packet_new h d)) (c\<lparr>conn_flushed := False\<rparr>) = (r, c')"
    using assms by (simp add: write_to_wire_fits)
  from await_write_effect [OF this] only_wire_trans [OF only_wire_refl(2)] show ?thesis by auto
qed

lemma send_packets_effect:
  assumes "0 < psz" "psz + 8 \<le> 65535" "send_packets h psz payload c = (r, c')"
  shows "only_wire c c' \<and> r \<noteq> Panic \<and>
    (r = Ok () \<longrightarrow> conn_out c' = conn_out c @ map (\<lambda>p. (conn_tls c, packet_bytes p)) (split_packets h psz payload))"
proof (rule each_write_effect)
  show "eachR (\<lambda>p. write_to_wire (pk_header p) (pk_payload p)) (split_packets h psz payload) c = (r, c')"
    using assms(1,3) by (simp add: send_packets_split)
  fix p c r c' assume p: "p \<in> set (split_packets h psz payload)" "write_to_wire (pk_header p) (pk_payload p) c = (r, c')"
  have "Packet_new (pk_header p) (pk_payload p) = p" by (simp add: Packet_new_def)
  moreover have "packet_fits p" using split_sizes [OF p(1)] assms(2) by (auto simp: packet_fits_def HEADER_BYTES_def)
  ultimately show "only_wire c c' \<and> r \<noteq> Panic \<and> (r = Ok () \<longrightarrow> conn_out c' = conn_out c @ [(conn_tls c, packet_bytes p)])"
    using write_to_wire_effect [of "pk_header p" "pk_payload p"] p(2) by simp
qed

text \<open>A write between \<open>poison\<close> and \<open>unpoison\<close>: it has completed or the connection is marked.\<close>

lemma guarded_write:
  assumes "thenR poison (thenR m (thenR flush_sink unpoison)) c = (r, c')"
    and m: "\<And>c r c'. m c = (r, c') \<Longrightarrow>
       only_wire c c' \<and> r \<noteq> Panic \<and> (r = Ok () \<longrightarrow> conn_out c' = conn_out c @ map (Pair (conn_tls c)) bss)"
  shows "r \<noteq> Panic \<and> wire_ext c c' \<and>
    (if r = Ok () then \<not> conn_poisoned c' \<and> conn_out c' = conn_out c @ map (Pair (conn_tls c)) (bss @ [[]])
     else conn_poisoned c')"
proof -
  let ?c = "c\<lparr>conn_poisoned := True\<rparr>"
  obtain q c1 where q: "m ?c = (q, c1)" by (cases "m ?c") auto
  obtain q' c2 where q': "flush_sink c1 = (q', c2)" by (cases "flush_sink c1") auto
  have m1: "wire_ext c c1" "conn_poisoned c1" "q \<noteq> Panic" "q = Ok () \<Longrightarrow> conn_out c1 = conn_out c @ map (Pair (conn_tls c)) bss"
    using m [OF q] by (auto simp: only_wire_def)
  have f: "wire_ext c1 c2" "conn_poisoned c2" "q' \<noteq> Panic" "q' = Ok () \<Longrightarrow> conn_out c2 = conn_out c1 @ [(conn_tls c1, [])]"
    using await_write_effect [OF q' [unfolded flush_sink_def]] m1(2) by (auto simp: only_wire_def)
  have tls: "conn_tls c1 = conn_tls c" using m1(1) by (simp add: wire_ext_def)
  have w: "wire_ext c c2" using wire_ext_trans m1(1) f(1) .
  have r: "thenR m (thenR flush_sink unpoison) ?c = (r, c')" using assms(1) by (simp add: thenR_def bindR_def poison_def)
  show ?thesis
  proof (cases q)
    case (Ok u)
    then have "thenR flush_sink unpoison c1 = (r, c')" using r q by (simp add: thenR_def bindR_def)
    then show ?thesis using q' f w Ok m1(4) tls by (cases q') (auto simp: thenR_def bindR_def unpoison_def)
  qed (use r q m1 in \<open>auto simp: thenR_def bindR_def\<close>)
qed

text \<open>The checks every request starts with.\<close>

lemma request_start:
  assumes "context_ok (conn_context c)"
  shows "thenR ensure_not_poisoned (thenR (set_flushed False) (bindR payload_size k)) c =
    (if conn_poisoned c then (Err (Protocol (StreamMsg ConnectionPoisoned)), c)
     else if conn_command_desync c then (Err (Protocol (StreamMsg ConnectionDesync)), c)
     else k (unat (ctx_packet_size (conn_context c)) - 8) (c\<lparr>conn_flushed := False\<rparr>))"
  using context_payload_room(1) [OF assms]
  by (auto simp: ensure_not_poisoned_def set_flushed_def payload_size_def HEADER_BYTES_def thenR_def bindR_def)

lemma send_effect:
  assumes "context_ok (conn_context c)" "send h item c = (r, c')"
  shows "wire_ext c c'"
    and "conn_poisoned c \<or> conn_command_desync c \<Longrightarrow> c' = c \<and> (\<exists>e. r = Err e)"
    and "\<not> conn_poisoned c \<Longrightarrow> \<not> conn_command_desync c \<Longrightarrow> item [] = (Ok (), payload) \<Longrightarrow>
      r \<noteq> Panic \<and>
      (if r = Ok () then \<not> conn_poisoned c' \<and>
         conn_out c' = conn_out c @ map (\<lambda>p. (conn_tls c, packet_bytes p))
            (split_packets h (unat (ctx_packet_size (conn_context c)) - 8) payload) @ [(conn_tls c, [])]
       else conn_poisoned c')"
    and "\<not> conn_poisoned c \<Longrightarrow> \<not> conn_command_desync c \<Longrightarrow> item [] = (q, payload) \<Longrightarrow> q \<noteq> Ok () \<Longrightarrow>
      r = q \<and> \<not> conn_poisoned c' \<and> conn_out c' = conn_out c"
proof -
  let ?psz = "unat (ctx_packet_size (conn_context c)) - 8" and ?c = "c\<lparr>conn_flushed := False\<rparr>"
  have psz: "0 < ?psz" "?psz + 8 \<le> 65535"
    using context_payload_room [OF assms(1)] by (auto simp: HEADER_BYTES_def)
  note start = assms(2) [unfolded send_def request_start [OF assms(1)]]
  have guard: "c' = c \<and> (\<exists>e. r = Err e)" if "conn_poisoned c \<or> conn_command_desync c"
    using start that by (auto split: if_splits)
  have fail: "r = q \<and> c' = ?c"
    if "\<not> conn_poisoned c" "\<not> conn_command_desync c" "item [] = (q, payload)" "q \<noteq> Ok ()" for q payload
    using start that by (cases q) (auto simp: encode_item_def bindR_def)
  have ok: "r \<noteq> Panic \<and> wire_ext ?c c' \<and>
      (if r = Ok () then \<not> conn_poisoned c' \<and>
           conn_out c' = conn_out ?c @ map (Pair (conn_tls ?c)) (map packet_bytes (split_packets h ?psz payload) @ [[]])
       else conn_poisoned c')"
    if i: "\<not> conn_poisoned c" "\<not> conn_command_desync c" "item [] = (Ok (), payload)" for payload
  proof (rule guarded_write)
    show "thenR poison (thenR (send_packets h ?psz payload) (thenR flush_sink unpoison)) ?c = (r, c')"
      using start i by (simp add: encode_item_def bindR_def)
  qed (use send_packets_effect [OF psz] in \<open>auto simp: comp_def\<close>)
  show "wire_ext c c'"
  proof (cases "conn_poisoned c \<or> conn_command_desync c")
    case False
    obtain q payload where i: "item [] = (q, payload)" by (cases "item []") auto
    show ?thesis
    proof (cases "q = Ok ()")
      case True
      with ok [of payload] i False have "wire_ext ?c c'" by simp
      then show ?thesis using wire_ext_trans wire_ext_refl(2) by blast
    qed (use fail i False in auto)
  qed (use guard in auto)
  show "conn_poisoned c \<or> conn_command_desync c \<Longrightarrow> c' = c \<and> (\<exists>e. r = Err e)" by (rule guard)
  show "\<not> conn_poisoned c \<Longrightarrow> \<not> conn_command_desync c \<Longrightarrow> item [] = (q, payload) \<Longrightarrow> q \<noteq> Ok () \<Longrightarrow>
      r = q \<and> \<not> conn_poisoned c' \<and> conn_out c' = conn_out c" using fail by auto
  show "\<not> conn_poisoned c \<Longrightarrow> \<not> conn_command_desync c \<Longrightarrow> item [] = (Ok (), payload) \<Longrightarrow>
      r \<noteq> Panic \<and>
      (if r = Ok () then \<not> conn_poisoned c' \<and>
         conn_out c' = conn_out c @ map (\<lambda>p. (conn_tls c, packet_bytes p)) (split_packets h ?psz payload) @ [(conn_tls c, [])]
       else conn_poisoned c')"
    using ok [of payload] by (auto simp: comp_def split: if_splits)
qed

lemma frame_login_split:
  assumes "0 < psz" "psz + 8 \<le> 65535"
  shows "offset \<le> length payload \<Longrightarrow>
    frame_sensitive_login h payload psz offset = Ok (map packet_bytes (split_packets h psz (drop offset payload)))"
  using assms
proof (induction h payload psz offset rule: frame_sensitive_login.induct)
  case (1 h payload psz offset)
  show ?case
  proof (cases "offset < length payload")
    case False
    then show ?thesis by (subst frame_sensitive_login.simps) simp
  next
    case True
    let ?rest = "drop offset payload" and ?stop = "min (length payload) (offset + psz)"
    have ne: "?rest \<noteq> []" using True by simp
    define h' where "h' = PacketHeader_set_status (if length ?rest \<le> psz then EndOfMessage else NormalMessage) h"
    have s: "split_packets h psz ?rest = Packet_new h' (take psz ?rest) # split_packets h' psz (drop psz ?rest)"
      using split_packets_step [OF ne 1(3)] unfolding h'_def by metis
    have he: "PacketHeader_set_status (if ?stop = length payload then EndOfMessage else NormalMessage) h = h'"
      using True by (auto simp: min_def h'_def)
    have d: "drop ?stop payload = drop psz ?rest" "take (?stop - offset) ?rest = take psz ?rest"
      using True by (auto simp: min_def drop_drop add.commute)
    have e: "?stop \<noteq> offset" "?stop \<le> length payload" using True 1(3) by auto
    have enc: "PacketHeader_encode h' [] = (Ok (), header_bytes h')" using header.enc_wire [of h' "[]"] by simp
    let ?p = "Packet_new h' (take psz ?rest)"
    let ?frame = "header_bytes h' @ take (?stop - offset) ?rest"
    let ?sz = "be_bytes 2 (of_nat (length ?frame) :: u16)"
    have unf: "frame_sensitive_login h payload psz offset =
        map_res ((#) (?frame[2 := ?sz ! 0, 3 := ?sz ! 1])) (frame_sensitive_login h' payload psz ?stop)"
      unfolding frame_sensitive_login.simps [of h payload psz offset] Let_def he using True e(1) enc by simp
    have IH: "frame_sensitive_login h' payload psz ?stop = Ok (map packet_bytes (split_packets h' psz (drop ?stop payload)))"
      using 1(1) [OF True refl refl, unfolded he, OF e(1) enc [symmetric] refl refl refl] e(2) 1(3,4) by simp
    have "?frame[2 := ?sz ! 0, 3 := ?sz ! 1] = packet_bytes ?p"
      using d(2) header_bytes_patch [of h' "take psz ?rest"]
      by (simp add: packet_bytes_def packet_sized_def Packet_new_def HEADER_BYTES_def add.commute)
    then show ?thesis unfolding unf IH s d(1) by simp
  qed
qed

lemma send_login_effect:
  assumes "context_ok (conn_context c)" "send_sensitive_login h payload c = (r, c')"
  shows "wire_ext c c'"
    and "conn_poisoned c \<or> conn_command_desync c \<Longrightarrow> c' = c \<and> (\<exists>e. r = Err e)"
    and "\<not> conn_poisoned c \<Longrightarrow> \<not> conn_command_desync c \<Longrightarrow>
      r \<noteq> Panic \<and>
      (if r = Ok () then \<not> conn_poisoned c' \<and>
         conn_out c' = conn_out c @ map (\<lambda>p. (conn_tls c, packet_bytes p))
            (split_packets h (unat (ctx_packet_size (conn_context c)) - 8) payload) @ [(conn_tls c, [])]
       else conn_poisoned c')"
proof -
  let ?psz = "unat (ctx_packet_size (conn_context c)) - 8" and ?c = "c\<lparr>conn_flushed := False\<rparr>"
  have psz: "0 < ?psz" "?psz + 8 \<le> 65535"
    using context_payload_room [OF assms(1)] by (auto simp: HEADER_BYTES_def)
  note start = assms(2) [unfolded send_sensitive_login_def request_start [OF assms(1)]]
  have guard: "c' = c \<and> (\<exists>e. r = Err e)" if "conn_poisoned c \<or> conn_command_desync c"
    using start that by (auto split: if_splits)
  have ok: "r \<noteq> Panic \<and> wire_ext ?c c' \<and>
      (if r = Ok () then \<not> conn_poisoned c' \<and>
           conn_out c' = conn_out ?c @ map (Pair (conn_tls ?c)) (map packet_bytes (split_packets h ?psz payload) @ [[]])
       else conn_poisoned c')"
    if i: "\<not> conn_poisoned c" "\<not> conn_command_desync c"
  proof (rule guarded_write)
    show "thenR poison (thenR (eachR await_write (map packet_bytes (split_packets h ?psz payload))) (thenR flush_sink unpoison)) ?c = (r, c')"
      using start i frame_login_split [OF psz, of 0 payload h] by (simp add: bindR_def liftR_def)
    fix c r c' assume w: "eachR await_write (map packet_bytes (split_packets h ?psz payload)) c = (r, c')"
    show "only_wire c c' \<and> r \<noteq> Panic \<and> (r = Ok () \<longrightarrow> conn_out c' = conn_out c @ map (Pair (conn_tls c)) (map packet_bytes (split_packets h ?psz payload)))"
      by (rule each_write_effect [OF _ w]) (use await_write_effect in auto)
  qed
  show "wire_ext c c'" using guard ok wire_ext_trans [OF wire_ext_refl(2)] by (cases "conn_poisoned c \<or> conn_command_desync c") auto
  show "conn_poisoned c \<or> conn_command_desync c \<Longrightarrow> c' = c \<and> (\<exists>e. r = Err e)" by (rule guard)
  show "\<not> conn_poisoned c \<Longrightarrow> \<not> conn_command_desync c \<Longrightarrow>
      r \<noteq> Panic \<and>
      (if r = Ok () then \<not> conn_poisoned c' \<and>
         conn_out c' = conn_out c @ map (\<lambda>p. (conn_tls c, packet_bytes p)) (split_packets h ?psz payload) @ [(conn_tls c, [])]
       else conn_poisoned c')"
    using ok by (auto simp: comp_def split: if_splits)
qed

lemma attention_fits: "packet_fits (Packet_new (PacketHeader_attention i) [])"
  by (simp add: packet_fits_def Packet_new_def HEADER_BYTES_def)

lemma attention_message: "is_message [Packet_new (PacketHeader_attention i) []]"
  using attention_fits [of i] by (simp add: is_message_def Packet_is_last_def Packet_new_def PacketHeader_attention_def)

lemma send_attention_effect:
  assumes "send_attention c = (r, c')"
  shows "conn_context c' = conn_context c \<or> conn_context c' = snd (next_packet_id (conn_context c))"
    and "conn_poisoned c \<or> conn_command_desync c \<Longrightarrow> c' = c \<and> (\<exists>e. r = Err e)"
    and "\<not> conn_poisoned c \<Longrightarrow> \<not> conn_command_desync c \<Longrightarrow>
      r \<noteq> Panic \<and> conn_in c' = conn_in c \<and> conn_buf c' = conn_buf c \<and>
      (if r = Ok () then \<not> conn_poisoned c' \<and>
         conn_out c' = conn_out c @ map (Pair (conn_tls c)) [packet_bytes (Packet_new (PacketHeader_attention (ctx_packet_id (conn_context c))) []), []]
       else conn_poisoned c')"
proof -
  obtain i ctx where n: "next_packet_id (conn_context c) = (i, ctx)" by (cases "next_packet_id (conn_context c)") auto
  have i: "i = ctx_packet_id (conn_context c)" using n by (simp add: next_packet_id_def)
  let ?c = "c\<lparr>conn_context := ctx\<rparr>"
  have guard: "c' = c \<and> (\<exists>e. r = Err e)" if "conn_poisoned c \<or> conn_command_desync c"
    using assms that by (auto simp: send_attention_def ensure_not_poisoned_def thenR_def bindR_def split: if_splits)
  have ok: "r \<noteq> Panic \<and> wire_ext ?c c' \<and>
      (if r = Ok () then \<not> conn_poisoned c' \<and>
         conn_out c' = conn_out ?c @ map (Pair (conn_tls ?c)) ([packet_bytes (Packet_new (PacketHeader_attention i) [])] @ [[]])
       else conn_poisoned c')"
    if "\<not> conn_poisoned c" "\<not> conn_command_desync c"
  proof (rule guarded_write)
    show "thenR poison (thenR (write_to_wire (PacketHeader_attention i) []) (thenR flush_sink unpoison)) ?c = (r, c')"
      using assms n that unfolding send_attention_def
      by (simp add: ensure_not_poisoned_def thenR_def [of "\<lambda>c. if _ c then _ c else _ c"] bindR_def thenR_def)
  qed (use write_to_wire_effect [OF attention_fits] in auto)
  show "conn_context c' = conn_context c \<or> conn_context c' = snd (next_packet_id (conn_context c))"
    using guard ok n by (auto simp: wire_ext_def)
  show "conn_poisoned c \<or> conn_command_desync c \<Longrightarrow> c' = c \<and> (\<exists>e. r = Err e)" by (rule guard)
  show "\<not> conn_poisoned c \<Longrightarrow> \<not> conn_command_desync c \<Longrightarrow>
      r \<noteq> Panic \<and> conn_in c' = conn_in c \<and> conn_buf c' = conn_buf c \<and>
      (if r = Ok () then \<not> conn_poisoned c' \<and>
         conn_out c' = conn_out c @ map (Pair (conn_tls c)) [packet_bytes (Packet_new (PacketHeader_attention (ctx_packet_id (conn_context c))) []), []]
       else conn_poisoned c')"
    using ok i by (auto simp: wire_ext_def split: if_splits)
qed

text \<open>Reading and draining write nothing.\<close>

definition only_read :: "Connection \<Rightarrow> Connection \<Rightarrow> bool" where
  "only_read c c' \<longleftrightarrow> conn_out c' = conn_out c \<and> conn_context c' = conn_context c \<and> (conn_poisoned c \<longrightarrow> conn_poisoned c') \<and>
     conn_command_desync c' = conn_command_desync c \<and> conn_tls c' = conn_tls c \<and> conn_fates c' = conn_fates c"

lemma only_read_next: "conn_next c = (r, c') \<Longrightarrow> only_read c c'"
  by (auto simp: conn_next_def only_read_def split: list.splits res.splits)

lemma only_read_fill: "conn_fill sz c = (r, c') \<Longrightarrow> only_read c c'"
proof (induction sz c arbitrary: r c' rule: conn_fill.induct)
  case (1 sz c)
  obtain q c1 where n: "conn_next c = (q, c1)" by (cases "conn_next c") auto
  note o = only_read_next [OF n]
  show ?case
  proof (cases "\<exists>p. q = Ok (Some p)")
    case True
    then obtain p where q: "q = Ok (Some p)" by blast
    let ?c = "c1\<lparr>conn_buf := conn_buf c1 @ snd (Packet_into_parts p)\<rparr>"
    have "c' = ?c \<or> only_read ?c c'"
      using 1(1) [OF n [symmetric] q refl refl] 1(2) n q by (auto simp: conn_fill.simps [of sz c] Let_def split: if_splits)
    then show ?thesis using o by (auto simp: only_read_def)
  next
    case False
    then show ?thesis using 1(2) n o by (auto simp: conn_fill.simps [of sz c] split: res.splits option.splits)
  qed
qed

lemma only_read_poll: "poll_read sz c = (r, c') \<Longrightarrow> only_read c c'"
  by (auto simp: poll_read_def bindR_def only_read_def split: if_splits res.splits prod.splits dest!: only_read_fill)

lemma only_read_drain: "drain_packets c = (r, c') \<Longrightarrow> only_read c c'"
proof (induction c arbitrary: r c' rule: drain_packets.induct)
  case (1 c)
  obtain q c1 where n: "conn_next c = (q, c1)" by (cases "conn_next c") auto
  note o = only_read_next [OF n]
  show ?case
  proof (cases "\<exists>p. q = Ok (Some p)")
    case True
    then obtain p where q: "q = Ok (Some p)" by blast
    have "c' = c1 \<or> only_read c1 c'"
      using 1(1) [OF n [symmetric] q refl] 1(2) n q by (auto simp: drain_packets.simps [of c] split: if_splits)
    then show ?thesis using o by (auto simp: only_read_def)
  next
    case False
    then show ?thesis using 1(2) n o by (auto simp: drain_packets.simps [of c] only_read_def split: res.splits option.splits)
  qed
qed

lemma only_read_flush: "flush_stream c = (r, c') \<Longrightarrow> only_read c c'"
  by (auto simp: flush_stream_def thenR_def bindR_def ensure_not_poisoned_def only_read_def Let_def split: if_splits dest!: only_read_drain)

section \<open>No partial message\<close>

inductive whole_messages :: "bytes \<Rightarrow> bool" where
  no_message: "whole_messages []"
| next_message: "whole_messages w \<Longrightarrow> is_message ps \<Longrightarrow> whole_messages (w @ concat (map packet_bytes ps))"

text \<open>What can happen to a connection that is not lent to a bulk load: a request, the login, a cancellation, draining, reading, a change of the context, a
  command timeout, the start or end of TLS (a new transport under the same flags), and the environment: the server sends packets, and the fates of the coming writes
  are anything. Bulk loads are added in \<^verbatim>\<open>Tds_Bulk\<close>.\<close>

inductive conn_op :: "Connection \<Rightarrow> Connection \<Rightarrow> bool" where
  op_send: "conn_op c (snd (send h item c))"
| op_login: "conn_op c (snd (send_sensitive_login h payload c))"
| op_attention: "conn_op c (snd (send_attention c))"
| op_flush: "conn_op c (snd (flush_stream c))"
| op_read: "conn_op c (snd (poll_read n c))"
| op_context: "context_ok ctx \<Longrightarrow> conn_op c (c\<lparr>conn_context := ctx\<rparr>)"
| op_timeout: "conn_op c (c\<lparr>conn_command_desync := True\<rparr>)"
| op_transport: "conn_op c (c\<lparr>conn_in := ins, conn_tls := tls, conn_flushed := b, conn_buf := buf\<rparr>)"
| op_environment: "conn_op c (c\<lparr>conn_in := conn_in c @ ins, conn_fates := fates\<rparr>)"

definition conn_inv :: "Connection \<Rightarrow> bool" where
  "conn_inv c \<longleftrightarrow> context_ok (conn_context c) \<and> (\<not> conn_poisoned c \<longrightarrow> whole_messages (wire c))"

lemma wire_packets:
  assumes "whole_messages (wire c)" "0 < psz" "psz + 8 \<le> 65535"
    "conn_out c' = conn_out c @ map (\<lambda>p. (b, packet_bytes p)) (split_packets h psz payload) @ [(b, [])]"
  shows "whole_messages (wire c')"
proof (cases "payload = []")
  case False
  then show ?thesis
    using next_message [OF assms(1) split_message [OF assms(2,3) False]] assms(4) by (simp add: wire_def comp_def)
qed (use assms in \<open>simp add: wire_def\<close>)

lemma only_read_inv: "conn_inv c \<Longrightarrow> only_read c c' \<Longrightarrow> conn_inv c'"
  by (auto simp: conn_inv_def only_read_def wire_def)

lemma conn_op_inv: "conn_op c c' \<Longrightarrow> conn_inv c \<Longrightarrow> conn_inv c'"
proof (induction rule: conn_op.induct)
  case (op_send c h item)
  obtain r c' where s: "send h item c = (r, c')" by (cases "send h item c") auto
  have ctx: "context_ok (conn_context c)" using op_send by (simp add: conn_inv_def)
  note e = send_effect [OF ctx s]
  show ?case
  proof (cases "conn_poisoned c \<or> conn_command_desync c")
    case False
    obtain q payload where i: "item [] = (q, payload)" by (cases "item []") auto
    have w: "whole_messages (wire c)" using op_send False by (simp add: conn_inv_def)
    have "context_ok (conn_context c')" using e(1) ctx by (simp add: wire_ext_def)
    moreover have "whole_messages (wire c')" if "\<not> conn_poisoned c'"
    proof (cases "q = Ok ()")
      case True
      then have "r = Ok ()" using e(3) i False that by (auto split: if_splits)
      then show ?thesis using e(3) i True False wire_packets [OF w, of "unat (ctx_packet_size (conn_context c)) - 8"] context_payload_room [OF ctx]
        by (auto simp: HEADER_BYTES_def)
    next
      case False2: False
      then show ?thesis using e(4) [OF _ _ i] False w by (auto simp: wire_def)
    qed
    ultimately show ?thesis using s by (simp add: conn_inv_def)
  qed (use e(2) s op_send in auto)
next
  case (op_login c h payload)
  obtain r c' where s: "send_sensitive_login h payload c = (r, c')" by (cases "send_sensitive_login h payload c") auto
  have ctx: "context_ok (conn_context c)" using op_login by (simp add: conn_inv_def)
  note e = send_login_effect [OF ctx s]
  show ?case
  proof (cases "conn_poisoned c \<or> conn_command_desync c")
    case False
    have w: "whole_messages (wire c)" using op_login False by (simp add: conn_inv_def)
    have "context_ok (conn_context c')" using e(1) ctx by (simp add: wire_ext_def)
    moreover have "whole_messages (wire c')" if "\<not> conn_poisoned c'"
      using e(3) that False wire_packets [OF w, of "unat (ctx_packet_size (conn_context c)) - 8"] context_payload_room [OF ctx]
      by (auto simp: HEADER_BYTES_def split: if_splits)
    ultimately show ?thesis using s by (simp add: conn_inv_def)
  qed (use e(2) s op_login in auto)
next
  case (op_attention c)
  obtain r c' where s: "send_attention c = (r, c')" by (cases "send_attention c") auto
  note e = send_attention_effect [OF s]
  show ?case
  proof (cases "conn_poisoned c \<or> conn_command_desync c")
    case False
    have w: "whole_messages (wire c)" and ctx: "context_ok (conn_context c)" using op_attention False by (auto simp: conn_inv_def)
    have "context_ok (conn_context c')" using e(1) ctx context_ok_setters(1) [OF ctx] by auto
    moreover have "whole_messages (wire c')" if "\<not> conn_poisoned c'"
      using e(3) that False next_message [OF w attention_message [of "ctx_packet_id (conn_context c)"]] by (auto simp: wire_def split: if_splits)
    ultimately show ?thesis using s by (simp add: conn_inv_def)
  qed (use e(2) s op_attention in auto)
next
  case (op_flush c)
  then show ?case using only_read_inv only_read_flush by (metis prod.collapse)
next
  case (op_read c n)
  then show ?case using only_read_inv only_read_poll by (metis prod.collapse)
qed (auto simp: conn_inv_def wire_def)

lemma conn_op_context: "conn_op c c' \<Longrightarrow> context_ok (conn_context c) \<Longrightarrow> context_ok (conn_context c')"
proof (induction rule: conn_op.induct)
  case (op_send c h item)
  then show ?case using send_effect(1) [of c h item] by (cases "send h item c") (auto simp: wire_ext_def)
next
  case (op_login c h payload)
  then show ?case using send_login_effect(1) [of c h payload] by (cases "send_sensitive_login h payload c") (auto simp: wire_ext_def)
next
  case (op_attention c)
  then show ?case using send_attention_effect(1) [of c] context_ok_setters(1) [of "conn_context c"] by (cases "send_attention c") auto
next
  case (op_flush c)
  then show ?case using only_read_flush [of c] by (cases "flush_stream c") (auto simp: only_read_def)
next
  case (op_read c n)
  then show ?case using only_read_poll [of n c] by (cases "poll_read n c") (auto simp: only_read_def)
qed auto

text \<open>A connection that is not usable refuses requests, and nothing changes.\<close>

lemma unusable_refuses:
  assumes "conn_poisoned c \<or> conn_command_desync c" "context_ok (conn_context c)"
  shows "\<exists>e. send h item c = (Err e, c)" "\<exists>e. send_sensitive_login h payload c = (Err e, c)" "\<exists>e. send_attention c = (Err e, c)"
  using assms send_effect(2) [OF assms(2)] send_login_effect(2) [OF assms(2)] send_attention_effect(2) by (metis prod.collapse)+

lemmas send_eval = send_def ensure_not_poisoned_def set_flushed_def payload_size_def encode_item_def poison_def unpoison_def
  flush_sink_def await_write_def thenR_def bindR_def HEADER_BYTES_def

section \<open>What the server receives\<close>

text \<open>The other end cuts the bytes into packets with the same codec.\<close>

function frames_of :: "bytes \<Rightarrow> Packet res list" where
  "frames_of s =
     (case PacketCodec_decode s of
        (Ok (Some p), s') \<Rightarrow> if length s' < length s then Ok p # frames_of s' else []
      | (Ok None, _) \<Rightarrow> []
      | (Err e, _) \<Rightarrow> [Err e]
      | (Panic, _) \<Rightarrow> [Panic]
      | (Diverge, _) \<Rightarrow> [Diverge])"
  by auto
termination by (relation "measure length") auto

declare frames_of.simps [simp del]

lemma frames_of_packets:
  "\<forall>p\<in>set ps. packet_fits p \<Longrightarrow> frames_of (concat (map packet_bytes ps)) = map (Ok \<circ> packet_sized) ps"
proof (induction ps)
  case Nil
  then show ?case by (simp add: frames_of.simps PacketCodec_decode_def HEADER_BYTES_def)
next
  case (Cons p ps)
  have "packet_bytes p \<noteq> []" using length_packet_bytes [of p] by (auto simp: HEADER_BYTES_def)
  then show ?case
    using Cons PacketCodec_decode_bytes [of p "concat (map packet_bytes ps)"]
    by (simp add: frames_of.simps [of "packet_bytes p @ _"])
qed

lemma collect_message:
  assumes "is_message ps"
  shows "collect_payload (map (Ok \<circ> packet_sized) ps) buf = Ok (buf @ concat (map pk_payload ps))"
proof -
  have "collect_payload (map (Ok \<circ> packet_sized) ps) buf = Ok (buf @ concat (map pk_payload ps))"
    if "ps \<noteq> []" "\<forall>p\<in>set (butlast ps). \<not> Packet_is_last p" "Packet_is_last (last ps)" for ps buf
    using that
  proof (induction ps arbitrary: buf)
    case (Cons p ps)
    then show ?case by (cases "ps = []") (auto simp: packet_sized_def Packet_is_last_def)
  qed simp
  then show ?thesis using assms by (simp add: is_message_def)
qed

lemma unat_of_nat_le: "unat (of_nat n :: 'a::len word) \<le> n"
  by (simp add: unat_of_nat)

lemma packet_eta: "Packet_new (pk_header p) (pk_payload p) = p"
  by (simp add: Packet_new_def)

lemma await_ok: "conn_fates c = [] \<Longrightarrow> \<exists>c'. await_write bs c = (Ok (), c') \<and> conn_fates c' = []"
  by (simp add: await_write_def)

lemma each_write_ok:
  assumes "\<And>x c. x \<in> set xs \<Longrightarrow> conn_fates c = [] \<Longrightarrow> \<exists>c'. w x c = (Ok (), c') \<and> conn_fates c' = []"
  shows "conn_fates c = [] \<Longrightarrow> \<exists>c'. eachR w xs c = (Ok (), c') \<and> conn_fates c' = []"
  using assms
proof (induction xs arbitrary: c)
  case (Cons x xs)
  then obtain c1 where c1: "w x c = (Ok (), c1)" "conn_fates c1 = []" by fastforce
  with Cons obtain c2 where "eachR w xs c1 = (Ok (), c2)" "conn_fates c2 = []" by fastforce
  with c1 show ?case by (simp add: thenR_def bindR_def)
qed (simp add: retR_def)

lemma send_succeeds:
  assumes "context_ok (conn_context c)" "\<not> conn_poisoned c" "\<not> conn_command_desync c" "conn_fates c = []" "item [] = (Ok (), payload)"
  shows "fst (send h item c) = Ok ()"
proof -
  let ?psz = "unat (ctx_packet_size (conn_context c)) - 8" and ?c = "c\<lparr>conn_flushed := False, conn_poisoned := True\<rparr>"
  let ?w = "\<lambda>p. write_to_wire (pk_header p) (pk_payload p)"
  have psz: "0 < ?psz" "?psz + 8 \<le> 65535"
    using context_payload_room [OF assms(1)] by (auto simp: HEADER_BYTES_def)
  have "\<exists>c1. eachR ?w (split_packets h ?psz payload) ?c = (Ok (), c1) \<and> conn_fates c1 = []"
  proof (rule each_write_ok)
    fix p and c :: Connection assume p: "p \<in> set (split_packets h ?psz payload)" "conn_fates c = []"
    have "packet_fits p" using split_sizes [OF p(1)] psz(2) by (simp add: packet_fits_def HEADER_BYTES_def)
    then have "?w p c = await_write (packet_bytes p) (c\<lparr>conn_flushed := False\<rparr>)"
      using write_to_wire_fits [of "pk_header p" "pk_payload p" c] packet_eta [of p] by simp
    then show "\<exists>c'. ?w p c = (Ok (), c') \<and> conn_fates c' = []" using await_ok [of "c\<lparr>conn_flushed := False\<rparr>"] p(2) by simp
  qed (use assms(4) in simp)
  then obtain c1 where "send_packets h ?psz payload ?c = (Ok (), c1)" "conn_fates c1 = []" by (auto simp: send_packets_split [OF psz(1)])
  then show ?thesis
    using assms(2,3,5) await_ok [of c1 "[]"] unfolding send_def request_start [OF assms(1)]
    by (auto simp: encode_item_def poison_def unpoison_def flush_sink_def thenR_def bindR_def)
qed



text \<open>C37: The login takes the same form on the wire. The frames built for the login outside the shared buffer are, byte for byte,
  the packets that sending the same payload the ordinary way would produce: same cut, same headers, end of message on the last one.\<close>

theorem login_frames_are_packets:
  assumes "0 < packet_size" "packet_size + 8 \<le> 65535"
  shows "\<exists>ps. frame_sensitive_login h payload packet_size 0 = Ok (map packet_bytes ps) \<and>
     send_packets h packet_size payload = eachR (\<lambda>p. write_to_wire (pk_header p) (pk_payload p)) ps \<and>
     concat (map pk_payload ps) = payload \<and> (payload \<noteq> [] \<longrightarrow> is_message ps)"
  using frame_login_split [OF assms, of 0 payload h] send_packets_split [OF assms(1)] split_payload [OF assms(1)] split_message [OF assms]
  by (intro exI [of _ "split_packets h packet_size payload"]) simp

theorem login_frames_are_packets_witness:
  "\<exists>ps. frame_sensitive_login (PacketHeader_login 0) [1, 2, 3, 4, 5] 2 0 = Ok (map packet_bytes ps) \<and>
     concat (map pk_payload ps) = [1, 2, 3, 4, 5] \<and> is_message ps"
  using login_frames_are_packets [of 2 "PacketHeader_login 0" "[1, 2, 3, 4, 5]"] by auto

end
