(* ===== verification/Tds_Stream.thy ===== *)
theory Tds_Stream
  imports Tds_Sending
begin

text \<open>
  The token stream of \<^verbatim>\<open>tds/stream/token.rs\<close>: one token after the other is read from the connection, and its
  effect on the context is applied, until the connection is at the end of the response. Decoders run on the
  connection by \<open>over_conn\<close>. What the target and \<^verbatim>\<open>encoding_rs\<close> provide is the
  argument \<open>env\<close>; the decoding preferences come from the context.
\<close>

datatype ReceivedToken =
    NewResultset TokenColMetaData
  | NewAltResultset TokenAltMetaData
  | RowToken TokenRow
  | AltRowToken TokenAltRow
  | DoneToken TokenDone
  | DoneInProcToken TokenDone
  | DoneProcToken TokenDone
  | ReturnStatusToken u32
  | ReturnValueToken TokenReturnValue
  | OrderToken TokenOrder
  | ColInfoToken TokenColInfo
  | TabNameToken TokenTabName
  | EnvChangeToken TokenEnvChange
  | InfoToken TokenInfo
  | LoginAckToken TokenLoginAck
  | SspiToken TokenSspi
  | FeatureExtAckToken TokenFeatureExtAck
  | SessionStateToken TokenSessionState
  | FedAuthInfoToken TokenFedAuthInfo
  | ErrorToken TokenError

record TokenStream =
  ts_conn :: Connection
  ts_last_error :: "error option"

definition TokenStream_new :: "Connection \<Rightarrow> TokenStream" where
  "TokenStream_new c = \<lparr>ts_conn = c, ts_last_error = None\<rparr>"

abbreviation ts_context :: "TokenStream \<Rightarrow> Context" where
  "ts_context ts \<equiv> conn_context (ts_conn ts)"

abbreviation ts_stream :: "TokenStream \<Rightarrow> bytes" where
  "ts_stream ts \<equiv> conn_stream (ts_conn ts)"

section \<open>Access to the connection\<close>

definition ts_read :: "(bytes, 'a) comp \<Rightarrow> (TokenStream, 'a) comp" where
  "ts_read m ts = (case over_conn m (ts_conn ts) of (r, c) \<Rightarrow> (r, ts\<lparr>ts_conn := c\<rparr>))"

definition ts_with_context :: "(Context \<Rightarrow> (TokenStream, 'a) comp) \<Rightarrow> (TokenStream, 'a) comp" where
  "ts_with_context f ts = f (ts_context ts) ts"

definition ts_update :: "(Context \<Rightarrow> Context) \<Rightarrow> (TokenStream, unit) comp" where
  "ts_update f ts = (Ok (), ts\<lparr>ts_conn := (ts_conn ts)\<lparr>conn_context := f (ts_context ts)\<rparr>\<rparr>)"

definition ts_note_error :: "error \<Rightarrow> (TokenStream, unit) comp" where
  "ts_note_error e ts = (Ok (), if ts_last_error ts = None then ts\<lparr>ts_last_error := Some e\<rparr> else ts)"

section \<open>Tokens\<close>

definition get_col_metadata :: "(TokenStream, ReceivedToken) comp" where
  "get_col_metadata =
     bindR (ts_read TokenColMetaData_decode) (\<lambda>meta.
     thenR (ts_update (set_last_meta meta)) (retR (NewResultset meta)))"

definition get_alt_col_metadata :: "(TokenStream, ReceivedToken) comp" where
  "get_alt_col_metadata =
     bindR (ts_read TokenAltMetaData_decode) (\<lambda>meta.
     thenR (ts_update (set_alt_meta meta)) (retR (NewAltResultset meta)))"

definition get_alt_row :: "value_env \<Rightarrow> (TokenStream, ReceivedToken) comp" where
  "get_alt_row env =
     bindR (ts_read read_u16_le) (\<lambda>aid.
     ts_with_context (\<lambda>ctx.
       bindR (ok_or (alt_meta aid ctx) (Protocol (StreamMsg (UnknownComputeId aid)))) (\<lambda>meta.
       bindR (ts_read (TokenAltRow_decode (context_env env ctx) aid meta)) (\<lambda>row. retR (AltRowToken row)))))"

definition get_row :: "value_env \<Rightarrow> (TokenStream, ReceivedToken) comp" where
  "get_row env =
     ts_with_context (\<lambda>ctx.
       bindR (ts_read (TokenRow_decode (context_env env ctx) (ctx_last_meta ctx))) (\<lambda>row. retR (RowToken row)))"

definition get_nbc_row :: "value_env \<Rightarrow> (TokenStream, ReceivedToken) comp" where
  "get_nbc_row env =
     ts_with_context (\<lambda>ctx.
       bindR (ts_read (TokenRow_decode_nbc (context_env env ctx) (ctx_last_meta ctx))) (\<lambda>row. retR (RowToken row)))"

definition get_return_value :: "value_env \<Rightarrow> (TokenStream, ReceivedToken) comp" where
  "get_return_value env =
     ts_with_context (\<lambda>ctx.
       bindR (ts_read (TokenReturnValue_decode (context_env env ctx))) (\<lambda>v. retR (ReturnValueToken v)))"

definition get_return_status :: "(TokenStream, ReceivedToken) comp" where
  "get_return_status = bindR (ts_read read_u32_le) (\<lambda>status. retR (ReturnStatusToken status))"

definition get_error :: "(TokenStream, ReceivedToken) comp" where
  "get_error =
     ts_with_context (\<lambda>ctx.
       bindR (ts_read (TokenError_decode (ctx_version ctx))) (\<lambda>err.
       thenR (ts_note_error (Server err)) (retR (ErrorToken err))))"

definition get_order :: "(TokenStream, ReceivedToken) comp" where
  "get_order = bindR (ts_read TokenOrder_decode) (\<lambda>order. retR (OrderToken order))"

definition get_col_info :: "(TokenStream, ReceivedToken) comp" where
  "get_col_info = bindR (ts_read TokenColInfo_decode) (\<lambda>info. retR (ColInfoToken info))"

definition get_tab_name :: "(TokenStream, ReceivedToken) comp" where
  "get_tab_name = bindR (ts_read TokenTabName_decode) (\<lambda>t. retR (TabNameToken t))"

definition get_done_value :: "(TokenStream, ReceivedToken) comp" where
  "get_done_value =
     ts_with_context (\<lambda>ctx. bindR (ts_read (TokenDone_decode (ctx_version ctx))) (\<lambda>d. retR (DoneToken d)))"

definition get_done_proc_value :: "(TokenStream, ReceivedToken) comp" where
  "get_done_proc_value =
     ts_with_context (\<lambda>ctx. bindR (ts_read (TokenDone_decode (ctx_version ctx))) (\<lambda>d. retR (DoneProcToken d)))"

definition get_done_in_proc_value :: "(TokenStream, ReceivedToken) comp" where
  "get_done_in_proc_value =
     ts_with_context (\<lambda>ctx. bindR (ts_read (TokenDone_decode (ctx_version ctx))) (\<lambda>d. retR (DoneInProcToken d)))"

fun env_change_effect :: "TokenEnvChange \<Rightarrow> (TokenStream, unit) comp" where
  "env_change_effect (PacketSizeChange old new_size) =
     (if 512 \<le> new_size \<and> new_size \<le> 32767 then ts_update (set_packet_size new_size)
      else errR (Protocol (StreamMsg (InvalidPacketSize new_size))))"
| "env_change_effect (BeginTransactionChange desc) = ts_update (set_transaction_descriptor desc)"
| "env_change_effect CommitTransactionChange = ts_update (set_transaction_descriptor (replicate 8 0))"
| "env_change_effect RollbackTransactionChange = ts_update (set_transaction_descriptor (replicate 8 0))"
| "env_change_effect DefectTransactionChange = ts_update (set_transaction_descriptor (replicate 8 0))"
| "env_change_effect _ = retR ()"

definition get_env_change :: "(TokenStream, ReceivedToken) comp" where
  "get_env_change =
     bindR (ts_read TokenEnvChange_decode) (\<lambda>change.
     thenR (env_change_effect change) (retR (EnvChangeToken change)))"

definition get_info :: "(TokenStream, ReceivedToken) comp" where
  "get_info =
     ts_with_context (\<lambda>ctx. bindR (ts_read (TokenInfo_decode (ctx_version ctx))) (\<lambda>info. retR (InfoToken info)))"

definition get_login_ack :: "(TokenStream, ReceivedToken) comp" where
  "get_login_ack =
     bindR (ts_read TokenLoginAck_decode) (\<lambda>ack.
     thenR (ts_update (set_version (ack_tds_version ack))) (retR (LoginAckToken ack)))"

definition get_feature_ext_ack :: "(TokenStream, ReceivedToken) comp" where
  "get_feature_ext_ack = bindR (ts_read TokenFeatureExtAck_decode) (\<lambda>ack. retR (FeatureExtAckToken ack))"

definition get_session_state :: "(TokenStream, ReceivedToken) comp" where
  "get_session_state = bindR (ts_read TokenSessionState_decode) (\<lambda>st. retR (SessionStateToken st))"

definition get_fed_auth_info :: "(TokenStream, ReceivedToken) comp" where
  "get_fed_auth_info = bindR (ts_read TokenFedAuthInfo_decode) (\<lambda>info. retR (FedAuthInfoToken info))"

definition get_sspi :: "(TokenStream, ReceivedToken) comp" where
  "get_sspi = bindR (ts_read TokenSspi_decode_async) (\<lambda>s. retR (SspiToken s))"

fun get_token :: "value_env \<Rightarrow> TokenType \<Rightarrow> (TokenStream, ReceivedToken) comp" where
  "get_token env TReturnStatus = get_return_status"
| "get_token env TColMetaData = get_col_metadata"
| "get_token env TAltMetaData = get_alt_col_metadata"
| "get_token env TRow = get_row env"
| "get_token env TAltRow = get_alt_row env"
| "get_token env TNbcRow = get_nbc_row env"
| "get_token env TDone = get_done_value"
| "get_token env TDoneProc = get_done_proc_value"
| "get_token env TDoneInProc = get_done_in_proc_value"
| "get_token env TReturnValue = get_return_value env"
| "get_token env TError = get_error"
| "get_token env TOrder = get_order"
| "get_token env TColInfo = get_col_info"
| "get_token env TTabName = get_tab_name"
| "get_token env TEnvChange = get_env_change"
| "get_token env TInfo = get_info"
| "get_token env TLoginAck = get_login_ack"
| "get_token env TSspi = get_sspi"
| "get_token env TSessionState = get_session_state"
| "get_token env TFedAuthInfo = get_fed_auth_info"
| "get_token env TFeatureExtAck = get_feature_ext_ack"

text \<open>One step of \<^verbatim>\<open>try_unfold\<close>: \<open>None\<close> is the end of the response.\<close>

definition receive :: "value_env \<Rightarrow> (TokenStream, ReceivedToken option) comp" where
  "receive env ts =
     (if is_eof (ts_conn ts) then
        (case ts_last_error ts of None \<Rightarrow> (Ok None, ts) | Some e \<Rightarrow> (Err e, ts))
      else
        bindR (ts_read read_u8) (\<lambda>ty_byte.
        bindR (ok_or (TokenType_try_from ty_byte) (Protocol (StreamMsg (InvalidTokenType ty_byte)))) (\<lambda>ty.
        bindR (get_token env ty) (\<lambda>token. retR (Some token)))) ts)"

section \<open>Loops over the tokens\<close>

text \<open>\<^verbatim>\<open>loop { match stream.try_next().await? ... }\<close>: the body goes on with a new state or ends
  with a result. A round that has read nothing would repeat for ever.\<close>

function token_loop :: "value_env \<Rightarrow> ('x \<Rightarrow> ReceivedToken option \<Rightarrow> 'x + 'a res) \<Rightarrow> 'x \<Rightarrow> (TokenStream, 'a) comp" where
  "token_loop env body x ts =
     (case receive env ts of
        (Ok tok, ts') \<Rightarrow>
          (case body x tok of
             Inr r \<Rightarrow> (r, ts')
           | Inl x' \<Rightarrow> if length (ts_stream ts') < length (ts_stream ts) then token_loop env body x' ts' else (Diverge, ts'))
      | (Err e, ts') \<Rightarrow> (Err e, ts')
      | (Panic, ts') \<Rightarrow> (Panic, ts')
      | (Diverge, ts') \<Rightarrow> (Diverge, ts'))"
  by auto
termination
  by (relation "measure (\<lambda>(_, _, _, ts). length (ts_stream ts))") auto

declare token_loop.simps [simp del]

fun flush_done_body ::
  "TokenError option \<times> error option \<Rightarrow> ReceivedToken option \<Rightarrow> (TokenError option \<times> error option) + TokenDone res" where
  "flush_done_body (last_error, routing) (Some (ErrorToken e)) =
     Inl (if last_error = None then Some e else last_error, routing)"
| "flush_done_body (last_error, routing) (Some (DoneToken token)) =
     Inr (case (last_error, routing) of
            (Some e, _) \<Rightarrow> Err (Server e)
          | (None, Some r) \<Rightarrow> Err r
          | (None, None) \<Rightarrow> Ok token)"
| "flush_done_body (last_error, routing) (Some (EnvChangeToken (RoutingChange host port))) =
     Inl (last_error, Some (Routing host port))"
| "flush_done_body st (Some _) = Inl st"
| "flush_done_body st None = Inr (Err (Protocol (StreamMsg NeverGotDone)))"

definition flush_done :: "value_env \<Rightarrow> (TokenStream, TokenDone) comp" where
  "flush_done env = token_loop env flush_done_body (None, None)"

fun flush_attention_body :: "unit \<Rightarrow> ReceivedToken option \<Rightarrow> unit + TokenDone res" where
  "flush_attention_body u (Some (DoneToken token)) = (if TokenDone_is_attention token then Inr (Ok token) else Inl ())"
| "flush_attention_body u (Some (DoneProcToken token)) = (if TokenDone_is_attention token then Inr (Ok token) else Inl ())"
| "flush_attention_body u (Some (DoneInProcToken token)) = (if TokenDone_is_attention token then Inr (Ok token) else Inl ())"
| "flush_attention_body u (Some _) = Inl ()"
| "flush_attention_body u None = Inr (Err (Protocol (StreamMsg NeverGotAttentionDone)))"

definition flush_done_attention :: "value_env \<Rightarrow> (TokenStream, TokenDone) comp" where
  "flush_done_attention env = token_loop env flush_attention_body ()"

fun flush_sspi_body :: "TokenError option \<Rightarrow> ReceivedToken option \<Rightarrow> TokenError option + TokenSspi res" where
  "flush_sspi_body last_error (Some (ErrorToken e)) = Inl (if last_error = None then Some e else last_error)"
| "flush_sspi_body last_error (Some (SspiToken token)) = Inr (Ok token)"
| "flush_sspi_body last_error (Some _) = Inl last_error"
| "flush_sspi_body last_error None =
     Inr (Err (case last_error of Some e \<Rightarrow> Server e | None \<Rightarrow> Protocol (StreamMsg NeverGotSspi)))"

definition flush_sspi :: "value_env \<Rightarrow> (TokenStream, TokenSspi) comp" where
  "flush_sspi env = token_loop env flush_sspi_body None"

text \<open>The wrappers of the connection.\<close>

definition on_tokens :: "(TokenStream, 'a) comp \<Rightarrow> (Connection, 'a) comp" where
  "on_tokens m c = (case m (TokenStream_new c) of (r, ts) \<Rightarrow> (r, ts_conn ts))"

definition cancel_request :: "value_env \<Rightarrow> (Connection, TokenDone) comp" where
  "cancel_request env = thenR send_attention (on_tokens (flush_done_attention env))"

end
