(* ===== verification/Tds_Tls.thy ===== *)
theory Tds_Tls
  imports Tds_Packet
begin

text \<open>
  The layer below the TLS library (\<^verbatim>\<open>client/tls.rs\<close>): while the TLS handshake runs, its bytes travel inside
  prelogin packets, afterwards they pass through. The socket is a generic \<^verbatim>\<open>AsyncRead + AsyncWrite\<close>; here it is what
  its peer sends, what was written, and a script of what each poll does, so that a statement about every script is a statement about
  every cut of the data, every wait and every failure. An exhausted script serves every poll completely.
\<close>

section \<open>Polls and the socket\<close>

datatype 'a poll = Pending | Ready 'a

datatype read_fate = ReadWait | ReadSome nat | ReadFail io_error_kind

text \<open>\<open>ReadSome\<close> gives at least one byte unless the input is at its end. \<open>WriteSome\<close> may take no byte at all; \<open>WriteNever\<close> is the
  documented meaning of a write of length zero: the object accepts no more bytes.\<close>

datatype write_fate = WriteWait | WriteSome nat | WriteNever | WriteFail io_error_kind

record Socket =
  sk_in :: bytes
  sk_reads :: "read_fate list"
  sk_out :: bytes
  sk_writes :: "write_fate list"

type_synonym ('s, 'a) polled = "'s \<Rightarrow> 'a res poll \<times> 's"

definition sock_give :: "nat \<Rightarrow> Socket \<Rightarrow> bytes res poll \<times> Socket" where
  "sock_give n s = (Ready (Ok (take n (sk_in s))), s\<lparr>sk_in := drop n (sk_in s)\<rparr>)"

definition sock_read :: "nat \<Rightarrow> (Socket, bytes) polled" where
  "sock_read n s =
     (case sk_reads s of
        [] \<Rightarrow> sock_give n s
      | ReadWait # fs \<Rightarrow> (Pending, s\<lparr>sk_reads := fs\<rparr>)
      | ReadSome k # fs \<Rightarrow> sock_give (min n (k + 1)) (s\<lparr>sk_reads := fs\<rparr>)
      | ReadFail e # fs \<Rightarrow> (Ready (Err (Io e)), s\<lparr>sk_reads := fs\<rparr>))"

definition sock_write :: "bytes \<Rightarrow> (Socket, nat) polled" where
  "sock_write bs s =
     (case sk_writes s of
        [] \<Rightarrow> (Ready (Ok (length bs)), s\<lparr>sk_out := sk_out s @ bs\<rparr>)
      | WriteWait # fs \<Rightarrow> (Pending, s\<lparr>sk_writes := fs\<rparr>)
      | WriteSome k # fs \<Rightarrow> (Ready (Ok (min k (length bs))), s\<lparr>sk_out := sk_out s @ take k bs, sk_writes := fs\<rparr>)
      | WriteNever # fs \<Rightarrow> (Ready (Ok 0), s)
      | WriteFail e # fs \<Rightarrow> (Ready (Err (Io e)), s\<lparr>sk_writes := fs\<rparr>))"

definition sock_flush :: "(Socket, unit) polled" where
  "sock_flush s =
     (case sk_writes s of
        WriteWait # fs \<Rightarrow> (Pending, s\<lparr>sk_writes := fs\<rparr>)
      | WriteFail e # fs \<Rightarrow> (Ready (Err (Io e)), s\<lparr>sk_writes := fs\<rparr>)
      | _ \<Rightarrow> (Ready (Ok ()), s))"

section \<open>The wrapper\<close>

record TlsPreloginWrapper =
  tw_stream :: "Socket option"
  tw_pending_handshake :: bool
  tw_header_buf :: bytes
  tw_header_pos :: nat
  tw_read_remaining :: nat
  tw_wr_buf :: bytes
  tw_header_written :: bool

definition TlsPreloginWrapper_new :: "Socket \<Rightarrow> TlsPreloginWrapper" where
  "TlsPreloginWrapper_new s =
     \<lparr>tw_stream = Some s, tw_pending_handshake = True, tw_header_buf = replicate HEADER_BYTES 0, tw_header_pos = 0,
      tw_read_remaining = 0, tw_wr_buf = replicate HEADER_BYTES 0, tw_header_written = False\<rparr>"

definition handshake_complete :: "TlsPreloginWrapper \<Rightarrow> TlsPreloginWrapper" where
  "handshake_complete w = w\<lparr>tw_pending_handshake := False\<rparr>"

text \<open>\<^verbatim>\<open>stream.as_mut().unwrap()\<close>.\<close>

definition on_stream :: "(Socket, 'a) polled \<Rightarrow> (TlsPreloginWrapper, 'a) polled" where
  "on_stream m w =
     (case tw_stream w of
        None \<Rightarrow> (Ready Panic, w)
      | Some s \<Rightarrow> (case m s of (r, s') \<Rightarrow> (r, w\<lparr>tw_stream := Some s'\<rparr>)))"

text \<open>\<^verbatim>\<open>ready!(..)?\<close>: waiting and failing leave the function.\<close>

definition bindP :: "('s, 'a) polled \<Rightarrow> ('a \<Rightarrow> ('s, 'b) polled) \<Rightarrow> ('s, 'b) polled" where
  "bindP m f s =
     (case m s of
        (Pending, s') \<Rightarrow> (Pending, s')
      | (Ready (Ok x), s') \<Rightarrow> f x s'
      | (Ready (Err e), s') \<Rightarrow> (Ready (Err e), s')
      | (Ready Panic, s') \<Rightarrow> (Ready Panic, s')
      | (Ready Diverge, s') \<Rightarrow> (Ready Diverge, s'))"

definition slice_write :: "nat \<Rightarrow> bytes \<Rightarrow> bytes \<Rightarrow> bytes" where
  "slice_write pos bs buf = take pos buf @ bs @ drop (pos + length bs) buf"

text \<open>The loop that collects the header; \<open>False\<close> is the end of the input.\<close>

function fill_header :: "(TlsPreloginWrapper, bool) polled" where
  "fill_header w =
     (if tw_header_pos w < HEADER_BYTES then
        (case on_stream (sock_read (HEADER_BYTES - tw_header_pos w)) w of
           (Pending, w1) \<Rightarrow> (Pending, w1)
         | (Ready (Ok bs), w1) \<Rightarrow>
             if bs = [] then (Ready (Ok False), w1)
             else fill_header (w1\<lparr>tw_header_buf := slice_write (tw_header_pos w) bs (tw_header_buf w), tw_header_pos := tw_header_pos w + length bs\<rparr>)
         | (Ready (Err e), w1) \<Rightarrow> (Ready (Err e), w1)
         | (Ready Panic, w1) \<Rightarrow> (Ready Panic, w1)
         | (Ready Diverge, w1) \<Rightarrow> (Ready Diverge, w1))
      else (Ready (Ok True), w))"
  by pat_completeness auto
termination
  by (relation "measure (\<lambda>w. HEADER_BYTES - tw_header_pos w)") (auto simp flip: length_greater_0_conv)

declare fill_header.simps [simp del]

text \<open>What a complete header says about the packet.\<close>

definition header_length :: "bytes \<Rightarrow> nat res" where
  "header_length buf =
     (case fst (PacketHeader_decode buf) of
        Ok h \<Rightarrow>
          if ph_ty h \<noteq> PreLoginPacket then Err (Io InvalidData)
          else if unat (ph_length h) < HEADER_BYTES then Err (Io InvalidData)
          else Ok (unat (ph_length h) - HEADER_BYTES)
      | Err _ \<Rightarrow> Err (Io OtherKind)
      | Panic \<Rightarrow> Panic
      | Diverge \<Rightarrow> Diverge)"

definition start_packet :: "(TlsPreloginWrapper, unit) polled" where
  "start_packet w = (Ready (map_res (\<lambda>_. ()) (header_length (tw_header_buf w))),
     (case header_length (tw_header_buf w) of Ok n \<Rightarrow> w\<lparr>tw_read_remaining := n\<rparr> | _ \<Rightarrow> w))"

definition read_payload :: "nat \<Rightarrow> (TlsPreloginWrapper, bytes) polled" where
  "read_payload n w =
     bindP (on_stream (sock_read (min (tw_read_remaining w) n))) (\<lambda>bs w.
       let left = tw_read_remaining w - length bs in
       (Ready (Ok bs), w\<lparr>tw_read_remaining := left, tw_header_pos := (if left = 0 then 0 else tw_header_pos w)\<rparr>)) w"

definition wrapper_poll_read :: "nat \<Rightarrow> (TlsPreloginWrapper, bytes) polled" where
  "wrapper_poll_read n w =
     (if \<not> tw_pending_handshake w then on_stream (sock_read n) w
      else if tw_header_pos w < HEADER_BYTES then
        bindP fill_header (\<lambda>complete.
          if complete then bindP start_packet (\<lambda>_. read_payload n) else (\<lambda>w. (Ready (Ok []), w))) w
      else read_payload n w)"

definition wrapper_poll_write :: "bytes \<Rightarrow> (TlsPreloginWrapper, nat) polled" where
  "wrapper_poll_write buf w =
     (if \<not> tw_pending_handshake w then on_stream (sock_write buf) w
      else (Ready (Ok (length buf)), w\<lparr>tw_wr_buf := tw_wr_buf w @ buf\<rparr>))"

text \<open>The loop of \<^verbatim>\<open>poll_flush\<close>. A socket that accepts nothing and does not change keeps it going for ever.\<close>

function write_loop :: "(TlsPreloginWrapper, unit) polled" where
  "write_loop w =
     (if tw_wr_buf w = [] then (Ready (Ok ()), w)
      else
        (case tw_stream w of
           None \<Rightarrow> (Ready Panic, w)
         | Some s \<Rightarrow>
             (case sock_write (tw_wr_buf w) s of
                (Pending, s1) \<Rightarrow> (Pending, w\<lparr>tw_stream := Some s1\<rparr>)
              | (Ready (Ok written), s1) \<Rightarrow>
                  if written = 0 \<and> s1 = s then (Ready Diverge, w)
                  else write_loop (w\<lparr>tw_stream := Some s1, tw_wr_buf := drop written (tw_wr_buf w)\<rparr>)
              | (Ready (Err e), s1) \<Rightarrow> (Ready (Err e), w\<lparr>tw_stream := Some s1\<rparr>)
              | (Ready Panic, s1) \<Rightarrow> (Ready Panic, w\<lparr>tw_stream := Some s1\<rparr>)
              | (Ready Diverge, s1) \<Rightarrow> (Ready Diverge, w\<lparr>tw_stream := Some s1\<rparr>))))"
  by pat_completeness auto
termination
  by (relation "measure (\<lambda>w. length (tw_wr_buf w) + (case tw_stream w of None \<Rightarrow> 0 | Some s \<Rightarrow> length (sk_writes s)))")
     (auto simp: sock_write_def split: list.splits write_fate.splits)

declare write_loop.simps [simp del]

definition back_fill_header :: "(TlsPreloginWrapper, unit) polled" where
  "back_fill_header w =
     (if tw_header_written w then (Ready (Ok ()), w)
      else
        (case PacketHeader_new (length (tw_wr_buf w)) 0 of
           Ok h \<Rightarrow>
             (case PacketHeader_encode (PacketHeader_set_status EndOfMessage (PacketHeader_set_type PreLoginPacket h)) [] of
                (Ok _, bs) \<Rightarrow> (Ready (Ok ()), w\<lparr>tw_wr_buf := slice_write 0 bs (tw_wr_buf w), tw_header_written := True\<rparr>)
              | (r, _) \<Rightarrow> (Ready r, w))
         | Err e \<Rightarrow> (Ready (Err e), w) | Panic \<Rightarrow> (Ready Panic, w) | Diverge \<Rightarrow> (Ready Diverge, w)))"

definition wrapper_poll_flush :: "(TlsPreloginWrapper, unit) polled" where
  "wrapper_poll_flush w =
     (if tw_pending_handshake w \<and> length (tw_wr_buf w) > HEADER_BYTES then
        bindP back_fill_header (\<lambda>_.
        bindP write_loop (\<lambda>_ w.
          on_stream sock_flush (w\<lparr>tw_wr_buf := replicate HEADER_BYTES 0, tw_header_written := False\<rparr>))) w
      else on_stream sock_flush w)"

text \<open>\<^verbatim>\<open>MaybeTlsStream\<close>: the plain socket, or the stream of the TLS library, which is not part of the sources. Its polls, and the access
  to the wrapper it was built on, are arguments.\<close>

datatype 't MaybeTlsStream = RawStream Socket | TlsStream 't

definition maybe_poll :: "(Socket, 'a) polled \<Rightarrow> ('t, 'a) polled \<Rightarrow> ('t MaybeTlsStream, 'a) polled" where
  "maybe_poll raw tls m =
     (case m of
        RawStream s \<Rightarrow> (case raw s of (r, s') \<Rightarrow> (r, RawStream s'))
      | TlsStream t \<Rightarrow> (case tls t of (r, t') \<Rightarrow> (r, TlsStream t')))"

definition maybe_poll_read :: "(nat \<Rightarrow> ('t, bytes) polled) \<Rightarrow> nat \<Rightarrow> ('t MaybeTlsStream, bytes) polled" where
  "maybe_poll_read tls n = maybe_poll (sock_read n) (tls n)"

definition maybe_poll_write :: "(bytes \<Rightarrow> ('t, nat) polled) \<Rightarrow> bytes \<Rightarrow> ('t MaybeTlsStream, nat) polled" where
  "maybe_poll_write tls bs = maybe_poll (sock_write bs) (tls bs)"

definition maybe_poll_flush :: "('t, unit) polled \<Rightarrow> ('t MaybeTlsStream, unit) polled" where
  "maybe_poll_flush tls = maybe_poll sock_flush tls"

definition maybe_into_inner :: "('t \<Rightarrow> TlsPreloginWrapper) \<Rightarrow> 't MaybeTlsStream \<Rightarrow> Socket res" where
  "maybe_into_inner get_mut m =
     (case m of
        RawStream s \<Rightarrow> Ok s
      | TlsStream t \<Rightarrow> (case tw_stream (get_mut t) of Some s \<Rightarrow> Ok s | None \<Rightarrow> Panic))"

section \<open>Reading through the packets\<close>

definition tls_packet :: "Packet \<Rightarrow> bool" where
  "tls_packet p \<longleftrightarrow> packet_fits p \<and> ph_ty (pk_header p) = PreLoginPacket \<and> pk_payload p \<noteq> []"

text \<open>The bytes of the handshake that a wrapper has still to deliver, when the peer sends packets.\<close>

definition carries :: "TlsPreloginWrapper \<Rightarrow> bytes \<Rightarrow> bool" where
  "carries w bs \<longleftrightarrow> tw_pending_handshake w \<and> length (tw_header_buf w) = HEADER_BYTES \<and>
     (\<exists>s current ps. tw_stream w = Some s \<and> (\<forall>p\<in>set ps. tls_packet p) \<and> bs = current @ concat (map pk_payload ps) \<and>
        (if tw_header_pos w < HEADER_BYTES then
           current = [] \<and> take (tw_header_pos w) (tw_header_buf w) @ sk_in s = concat (map packet_bytes ps)
         else tw_header_pos w = HEADER_BYTES \<and> current \<noteq> [] \<and> tw_read_remaining w = length current \<and>
           sk_in s = current @ concat (map packet_bytes ps)))"

lemma carries_header:
  assumes "tw_pending_handshake w" "length (tw_header_buf w) = HEADER_BYTES" "tw_stream w = Some s" "\<forall>p\<in>set ps. tls_packet p"
    "tw_header_pos w < HEADER_BYTES" "take (tw_header_pos w) (tw_header_buf w) @ sk_in s = concat (map packet_bytes ps)"
  shows "carries w (concat (map pk_payload ps))"
  unfolding carries_def using assms by (intro conjI exI [of _ s] exI [of _ "[]"] exI [of _ ps]) simp_all

lemma carries_payload:
  assumes "tw_pending_handshake w" "length (tw_header_buf w) = HEADER_BYTES" "tw_stream w = Some s" "\<forall>p\<in>set ps. tls_packet p"
    "tw_header_pos w = HEADER_BYTES" "current \<noteq> []" "tw_read_remaining w = length current" "sk_in s = current @ concat (map packet_bytes ps)"
  shows "carries w (current @ concat (map pk_payload ps))"
  unfolding carries_def using assms by (intro conjI exI [of _ s] exI [of _ current] exI [of _ ps]) simp_all

lemma carriesE:
  assumes "carries w bs"
  obtains (header) s ps where "tw_pending_handshake w" "length (tw_header_buf w) = HEADER_BYTES" "tw_stream w = Some s" "\<forall>p\<in>set ps. tls_packet p"
      "bs = concat (map pk_payload ps)"
      "tw_header_pos w < HEADER_BYTES" "take (tw_header_pos w) (tw_header_buf w) @ sk_in s = concat (map packet_bytes ps)"
    | (payload) s current ps where "tw_pending_handshake w" "length (tw_header_buf w) = HEADER_BYTES" "tw_stream w = Some s" "\<forall>p\<in>set ps. tls_packet p"
      "bs = current @ concat (map pk_payload ps)"
      "tw_header_pos w = HEADER_BYTES" "current \<noteq> []" "tw_read_remaining w = length current" "sk_in s = current @ concat (map packet_bytes ps)"
  using assms unfolding carries_def by (cases "tw_header_pos w < HEADER_BYTES") auto

lemma sock_read_effect:
  assumes "sock_read n s = (r, s')"
  shows "(r = Pending \<or> (\<exists>e. r = Ready (Err e))) \<and> sk_in s' = sk_in s \<or>
    (\<exists>bs. r = Ready (Ok bs) \<and> sk_in s = bs @ sk_in s' \<and> length bs \<le> n \<and> (bs = [] \<longrightarrow> n = 0 \<or> sk_in s = []))"
proof (cases "sk_reads s")
  case Nil
  then show ?thesis using assms by (auto simp: sock_read_def sock_give_def)
next
  case (Cons f fs)
  then show ?thesis using assms by (cases f) (auto simp: sock_read_def sock_give_def)
qed

text \<open>The header is collected across polls.\<close>

definition collected_to :: "TlsPreloginWrapper \<Rightarrow> TlsPreloginWrapper \<Rightarrow> bool" where
  "collected_to w w' \<longleftrightarrow> tw_pending_handshake w' = tw_pending_handshake w \<and> length (tw_header_buf w') = HEADER_BYTES \<and>
     tw_header_pos w' \<le> HEADER_BYTES \<and>
     (\<exists>s s'. tw_stream w = Some s \<and> tw_stream w' = Some s' \<and>
        take (tw_header_pos w') (tw_header_buf w') @ sk_in s' = take (tw_header_pos w) (tw_header_buf w) @ sk_in s)"

lemma fill_header_effect:
  assumes "fill_header w = (r, w')" "tw_stream w = Some s" "length (tw_header_buf w) = HEADER_BYTES" "tw_header_pos w \<le> HEADER_BYTES"
  shows "collected_to w w' \<and>
    (r = Pending \<and> tw_header_pos w' < HEADER_BYTES \<or> (\<exists>e. r = Ready (Err e)) \<and> tw_header_pos w' < HEADER_BYTES \<or>
     r = Ready (Ok True) \<and> tw_header_pos w' = HEADER_BYTES \<or>
     r = Ready (Ok False) \<and> tw_header_pos w' < HEADER_BYTES \<and> sk_in (the (tw_stream w')) = [])"
  using assms
proof (induction w arbitrary: s rule: fill_header.induct)
  case (1 w)
  show ?case
  proof (cases "tw_header_pos w < HEADER_BYTES")
    case False
    then show ?thesis using 1(2-5) by (simp add: fill_header.simps [of w] collected_to_def)
  next
    case True
    let ?n = "HEADER_BYTES - tw_header_pos w"
    obtain q s1 where q: "sock_read ?n s = (q, s1)" by (cases "sock_read ?n s") auto
    have o: "on_stream (sock_read ?n) w = (q, w\<lparr>tw_stream := Some s1\<rparr>)" using 1(3) q by (simp add: on_stream_def)
    show ?thesis
    proof (cases "\<exists>bs. q = Ready (Ok bs) \<and> bs \<noteq> []")
      case False
      then consider "q = Pending" "sk_in s1 = sk_in s" | e where "q = Ready (Err e)" "sk_in s1 = sk_in s" | "q = Ready (Ok [])" "sk_in s1 = []" "sk_in s = []"
        using sock_read_effect [OF q] True by auto
      note case_q = this
      have "fill_header w = (case q of Ready (Ok bs) \<Rightarrow> (Ready (Ok False), w\<lparr>tw_stream := Some s1\<rparr>) | Ready (Err e) \<Rightarrow> (Ready (Err e), w\<lparr>tw_stream := Some s1\<rparr>)
          | _ \<Rightarrow> (Pending, w\<lparr>tw_stream := Some s1\<rparr>))"
        by (rule case_q) (subst fill_header.simps, simp add: True o)+
      then have "w' = w\<lparr>tw_stream := Some s1\<rparr>" "r = (case q of Ready (Ok bs) \<Rightarrow> Ready (Ok False) | Ready (Err e) \<Rightarrow> Ready (Err e) | _ \<Rightarrow> Pending)"
        using 1(2) by (auto split: poll.splits res.splits)
      with case_q show ?thesis using 1(3-5) True by cases (auto simp: collected_to_def)
    next
      case bs: True
      then obtain bs where bs: "q = Ready (Ok bs)" "bs \<noteq> []" "sk_in s = bs @ sk_in s1" "length bs \<le> ?n" using sock_read_effect [OF q] by auto
      let ?w = "w\<lparr>tw_stream := Some s1, tw_header_buf := slice_write (tw_header_pos w) bs (tw_header_buf w),
        tw_header_pos := tw_header_pos w + length bs\<rparr>"
      have f: "fill_header ?w = (r, w')" using 1(2) o bs(1,2) True by (simp add: fill_header.simps [of w])
      have b: "length (tw_header_buf ?w) = HEADER_BYTES" "tw_header_pos ?w \<le> HEADER_BYTES" "tw_stream ?w = Some s1"
        using 1(4,5) bs(4) by (auto simp: slice_write_def)
      have w: "collected_to w ?w" using 1(3,4) b bs by (auto simp: collected_to_def slice_write_def)
      have "collected_to ?w w'" "r = Pending \<and> tw_header_pos w' < HEADER_BYTES \<or> (\<exists>e. r = Ready (Err e)) \<and> tw_header_pos w' < HEADER_BYTES \<or>
          r = Ready (Ok True) \<and> tw_header_pos w' = HEADER_BYTES \<or>
          r = Ready (Ok False) \<and> tw_header_pos w' < HEADER_BYTES \<and> sk_in (the (tw_stream w')) = []"
        using 1(1) [OF True o [symmetric] bs(1) refl bs(2), of s1] f b by simp_all
      then show ?thesis using w by (auto simp: collected_to_def)
    qed
  qed
qed

lemma header_length_packet:
  "tls_packet p \<Longrightarrow> header_length (header_bytes (pk_header (packet_sized p))) = Ok (length (pk_payload p))"
  using header.dec_wire [of "pk_header (packet_sized p)" "[]"] unat_of_nat_u16 [of "length (pk_payload p) + HEADER_BYTES"]
  by (simp add: header_length_def tls_packet_def packet_fits_def packet_sized_def)

lemma first_packet:
  assumes "hb @ rest = concat (map packet_bytes ps)" "length hb = HEADER_BYTES"
  obtains p ps' where "ps = p # ps'" "hb = header_bytes (pk_header (packet_sized p))" "rest = pk_payload p @ concat (map packet_bytes ps')"
proof (cases ps)
  case Nil
  then show ?thesis using assms by (simp add: HEADER_BYTES_def)
next
  case (Cons p ps')
  then have "hb @ rest = header_bytes (pk_header (packet_sized p)) @ pk_payload p @ concat (map packet_bytes ps')"
    using assms(1) by (simp add: packet_bytes_def)
  then show ?thesis using Cons assms(2) by (intro that) (simp_all add: HEADER_BYTES_def)
qed

text \<open>What one poll may do to the bytes that are still to come.\<close>

definition read_step :: "nat \<Rightarrow> bytes \<Rightarrow> bytes res poll \<Rightarrow> TlsPreloginWrapper \<Rightarrow> bool" where
  "read_step n bs r w' \<longleftrightarrow>
     (case r of
        Pending \<Rightarrow> carries w' bs
      | Ready (Ok out) \<Rightarrow> length out \<le> n \<and> (out = [] \<longrightarrow> n = 0 \<or> bs = []) \<and> (\<exists>rest. bs = out @ rest \<and> carries w' rest)
      | Ready (Err _) \<Rightarrow> carries w' bs
      | _ \<Rightarrow> False)"

lemma read_payload_step:
  assumes "carries w bs" "tw_header_pos w = HEADER_BYTES" "read_payload n w = (r, w')"
  shows "read_step n bs r w'"
  using assms(1)
proof (cases rule: carriesE)
  case (payload s current ps)
  obtain q s1 where q: "sock_read (min (tw_read_remaining w) n) s = (q, s1)" by (cases "sock_read (min (tw_read_remaining w) n) s") auto
  have p: "read_payload n w = bindP (\<lambda>_. (q, w\<lparr>tw_stream := Some s1\<rparr>)) (\<lambda>out w.
       let left = tw_read_remaining w - length out in
       (Ready (Ok out), w\<lparr>tw_read_remaining := left, tw_header_pos := (if left = 0 then 0 else tw_header_pos w)\<rparr>)) w"
    using q payload(3) by (simp add: read_payload_def bindP_def on_stream_def)
  show ?thesis
  proof (cases "\<exists>out. q = Ready (Ok out)")
    case True
    then obtain out where out: "q = Ready (Ok out)" "sk_in s = out @ sk_in s1" "length out \<le> min (length current) n" "out = [] \<longrightarrow> min (length current) n = 0 \<or> sk_in s = []"
      using sock_read_effect [OF q] unfolding payload(8) by blast
    have z: "out = [] \<longrightarrow> n = 0" using out(4) payload(7,9) by (auto simp: min_def split: if_splits)
    have "out @ sk_in s1 = current @ concat (map packet_bytes ps)" using out(2) payload(9) by simp
    then obtain left where left: "current = out @ left" "sk_in s1 = left @ concat (map packet_bytes ps)"
      using out(3) by (fastforce simp: append_eq_append_conv2)
    have rw: "r = Ready (Ok out)" "w' = w\<lparr>tw_stream := Some s1, tw_read_remaining := length left, tw_header_pos := (if left = [] then 0 else tw_header_pos w)\<rparr>"
      using assms(3) p out(1) payload(8) left(1) by (auto simp: bindP_def Let_def)
    have "carries w' (left @ concat (map pk_payload ps))"
    proof (cases "left = []")
      case True
      then show ?thesis using carries_header [of w' s1 ps] rw(2) payload(1-4) left(2) by (simp add: HEADER_BYTES_def)
    next
      case False
      then show ?thesis using carries_payload [of w' s1 ps left] rw(2) payload(1-6) left(2) by simp
    qed
    then show ?thesis using rw(1) out(3) z payload(5) left(1) by (simp add: read_step_def)
  next
    case False
    then have e: "q = Pending \<or> (\<exists>e. q = Ready (Err e))" "sk_in s1 = sk_in s" using sock_read_effect [OF q] by auto
    have "carries (w\<lparr>tw_stream := Some s1\<rparr>) bs"
      unfolding payload(5) by (rule carries_payload [of _ s1]) (simp_all add: payload(1-4,6-8) e(2) payload(9))
    then show ?thesis using e(1) assms(3) p by (auto simp: bindP_def read_step_def)
  qed
qed (use assms(2) in simp)

text \<open>C13: TLS sees its own bytes and nothing else. While the peer sends prelogin packets that are not empty, each poll of the wrapper hands over the next
  bytes of their concatenated payloads, whatever the cut of the data, and stands where it stood after a wait or a failed
  read, also in the middle of a header; it reports the end only when all has been handed over.\<close>

theorem tls_read_refines:
  assumes "carries w bs" "wrapper_poll_read n w = (r, w')"
  shows "read_step n bs r w'"
  using assms(1)
proof (cases rule: carriesE)
  case (payload s current ps)
  then show ?thesis using read_payload_step [OF assms(1)] assms(2) by (simp add: wrapper_poll_read_def)
next
  case (header s ps)
  obtain q w1 where f: "fill_header w = (q, w1)" by (cases "fill_header w") auto
  have p: "wrapper_poll_read n w = bindP (\<lambda>_. (q, w1)) (\<lambda>complete.
      if complete then bindP start_packet (\<lambda>_. read_payload n) else (\<lambda>w. (Ready (Ok []), w))) w"
    using f header by (simp add: wrapper_poll_read_def bindP_def)
  note e = fill_header_effect [OF f header(3,2)]
  obtain s1 where s1: "tw_stream w1 = Some s1" "tw_pending_handshake w1" "length (tw_header_buf w1) = HEADER_BYTES"
      "take (tw_header_pos w1) (tw_header_buf w1) @ sk_in s1 = concat (map packet_bytes ps)"
    using e header by (auto simp: collected_to_def)
  have c: "carries w1 bs" if "tw_header_pos w1 < HEADER_BYTES" using carries_header [OF s1(2,3,1) header(4) that s1(4)] header(5) by simp
  consider "q = Pending \<or> (\<exists>e. q = Ready (Err e))" "tw_header_pos w1 < HEADER_BYTES" | "q = Ready (Ok False)" "tw_header_pos w1 < HEADER_BYTES" "sk_in s1 = []"
    | "q = Ready (Ok True)" "tw_header_pos w1 = HEADER_BYTES" using e s1(1) header(6) by auto
  then show ?thesis
  proof cases
    case 1
    then show ?thesis using c assms(2) p by (auto simp: bindP_def read_step_def)
  next
    case 2
    then have "ps = []" using s1(3,4) by (cases ps) (auto simp: packet_bytes_def HEADER_BYTES_def dest!: arg_cong [of _ _ length])
    then show ?thesis using 2 c assms(2) p header(5) by (auto simp: bindP_def read_step_def)
  next
    case 3
    then obtain p0 ps' where ps: "ps = p0 # ps'" "tw_header_buf w1 = header_bytes (pk_header (packet_sized p0))" "sk_in s1 = pk_payload p0 @ concat (map packet_bytes ps')"
      using s1(3,4) first_packet [of "tw_header_buf w1" "sk_in s1" ps] by auto
    let ?w = "w1\<lparr>tw_read_remaining := length (pk_payload p0)\<rparr>"
    have "tls_packet p0" using header(4) ps(1) by simp
    then have "wrapper_poll_read n w = read_payload n ?w"
      using p 3(1) header_length_packet [of p0] by (simp add: bindP_def start_packet_def ps(2))
    moreover have "carries ?w bs"
      using carries_payload [of ?w s1 ps' "pk_payload p0"] s1 3(2) ps header(4,5) \<open>tls_packet p0\<close> by (simp add: tls_packet_def)
    ultimately show ?thesis using read_payload_step [of ?w bs n r w'] assms(2) 3(2) by simp
  qed
qed

definition one_flight :: Packet where
  "one_flight = Packet_new (PacketHeader_set_type PreLoginPacket (PacketHeader_base 0 0)) [22, 3, 1]"

theorem tls_read_refines_witness:
  "\<exists>r w'. carries (TlsPreloginWrapper_new \<lparr>sk_in = packet_bytes one_flight, sk_reads = [ReadSome 1, ReadWait], sk_out = [], sk_writes = []\<rparr>) [22, 3, 1] \<and>
     wrapper_poll_read 5 (TlsPreloginWrapper_new \<lparr>sk_in = packet_bytes one_flight, sk_reads = [ReadSome 1, ReadWait], sk_out = [], sk_writes = []\<rparr>) = (r, w') \<and>
     read_step 5 [22, 3, 1] r w'"
proof -
  let ?w = "TlsPreloginWrapper_new \<lparr>sk_in = packet_bytes one_flight, sk_reads = [ReadSome 1, ReadWait], sk_out = [], sk_writes = []\<rparr>"
  have "tls_packet one_flight"
    by (simp add: one_flight_def tls_packet_def packet_fits_def Packet_new_def PacketHeader_set_type_def HEADER_BYTES_def)
  then have c: "carries ?w [22, 3, 1]"
    using carries_header [of ?w _ "[one_flight]"] by (simp add: TlsPreloginWrapper_new_def one_flight_def Packet_new_def HEADER_BYTES_def)
  obtain r w' where "wrapper_poll_read 5 ?w = (r, w')" by (cases "wrapper_poll_read 5 ?w") auto
  with tls_read_refines [OF c this] c show ?thesis by blast
qed

text \<open>An empty packet looks like the end of the connection.\<close>

lemma empty_packet_is_eof:
  assumes "packet_fits p" "ph_ty (pk_header p) = PreLoginPacket" "pk_payload p = []"
  shows "fst (wrapper_poll_read n (TlsPreloginWrapper_new \<lparr>sk_in = packet_bytes p @ rest, sk_reads = [], sk_out = [], sk_writes = []\<rparr>)) = Ready (Ok [])"
proof -
  let ?s = "\<lparr>sk_in = packet_bytes p @ rest, sk_reads = [], sk_out = [], sk_writes = []\<rparr>"
  let ?w = "TlsPreloginWrapper_new ?s"
  have h: "packet_bytes p = header_bytes (pk_header (packet_sized p))" using assms(3) by (simp add: packet_bytes_def)
  have "unat (of_nat HEADER_BYTES :: u16) = HEADER_BYTES" by (simp add: HEADER_BYTES_def)
  then have len: "header_length (header_bytes (pk_header (packet_sized p))) = Ok 0"
    using header.dec_wire [of "pk_header (packet_sized p)" "[]"] assms(2,3) by (simp add: header_length_def packet_sized_def)
  have n: "length (header_bytes (pk_header (packet_sized p))) = HEADER_BYTES" by (simp add: HEADER_BYTES_def)
  have "fill_header ?w = (Ready (Ok True), ?w\<lparr>tw_stream := Some (?s\<lparr>sk_in := rest\<rparr>), tw_header_buf := packet_bytes p, tw_header_pos := HEADER_BYTES\<rparr>)"
    using n by (subst fill_header.simps, subst fill_header.simps)
      (auto simp: TlsPreloginWrapper_new_def on_stream_def sock_read_def sock_give_def h slice_write_def simp flip: length_0_conv)
  then show ?thesis
    using len by (simp add: wrapper_poll_read_def bindP_def TlsPreloginWrapper_new_def start_packet_def h read_payload_def on_stream_def sock_read_def sock_give_def HEADER_BYTES_def)
qed

section \<open>Writing one packet per flush\<close>

text \<open>The packet that a flush puts around what was written.\<close>

definition flight_packet :: "bytes \<Rightarrow> Packet" where
  "flight_packet payload =
     Packet_new (PacketHeader_set_status EndOfMessage (PacketHeader_set_type PreLoginPacket (PacketHeader_base (length payload + HEADER_BYTES) 0))) payload"

text \<open>What is still to be sent: the whole packet, or the rest of the one an earlier flush began.\<close>

definition unsent :: "TlsPreloginWrapper \<Rightarrow> bytes" where
  "unsent w = (if tw_header_written w then tw_wr_buf w else packet_bytes (flight_packet (drop HEADER_BYTES (tw_wr_buf w))))"

lemma back_fill:
  assumes "HEADER_BYTES < length (tw_wr_buf w)" "length (tw_wr_buf w) \<le> 65535"
  shows "back_fill_header w = (Ready (Ok ()), w\<lparr>tw_wr_buf := unsent w, tw_header_written := True\<rparr>)"
proof -
  have "length (drop HEADER_BYTES (tw_wr_buf w)) + HEADER_BYTES = length (tw_wr_buf w)" using assms by simp
  then show ?thesis using assms
    by (simp add: back_fill_header_def unsent_def PacketHeader_new_def header.enc_wire slice_write_def flight_packet_def packet_bytes_def packet_sized_def
        Packet_new_def PacketHeader_set_status_def PacketHeader_set_type_def PacketHeader_base_def HEADER_BYTES_def)
qed

text \<open>The loop sends a prefix, and all of it when it ends well.\<close>

definition loop_post :: "TlsPreloginWrapper \<Rightarrow> Socket \<Rightarrow> unit res poll \<Rightarrow> TlsPreloginWrapper \<Rightarrow> bool" where
  "loop_post w s r w' \<longleftrightarrow>
     (\<exists>s' sent. w' = w\<lparr>tw_stream := Some s', tw_wr_buf := tw_wr_buf w'\<rparr> \<and> tw_wr_buf w = sent @ tw_wr_buf w' \<and>
        sk_out s' = sk_out s @ sent \<and> sk_in s' = sk_in s \<and> set (sk_writes s') \<subseteq> set (sk_writes s) \<and>
        (r = Ready (Ok ()) \<longleftrightarrow> tw_wr_buf w' = []) \<and> r \<noteq> Ready Panic \<and> (r = Ready Diverge \<longrightarrow> WriteNever \<in> set (sk_writes s)) \<and>
        ((\<forall>f\<in>set (sk_writes s). \<exists>k. f = WriteSome k) \<longrightarrow> r = Ready (Ok ())))"

lemma sock_write_effect:
  assumes "sock_write bs s = (r, s')" "bs \<noteq> []"
  shows "sk_in s' = sk_in s" "set (sk_writes s') \<subseteq> set (sk_writes s)"
    "r = Ready (Ok n) \<Longrightarrow> n \<le> length bs \<and> sk_out s' = sk_out s @ take n bs \<and> (n = 0 \<and> s' = s \<longrightarrow> WriteNever \<in> set (sk_writes s))"
    "\<nexists>n. r = Ready (Ok n) \<Longrightarrow> (r = Pending \<or> (\<exists>e. r = Ready (Err e))) \<and> sk_out s' = sk_out s \<and> \<not> (\<forall>f\<in>set (sk_writes s). \<exists>k. f = WriteSome k)"
proof -
  show "sk_in s' = sk_in s" "set (sk_writes s') \<subseteq> set (sk_writes s)"
    "r = Ready (Ok n) \<Longrightarrow> n \<le> length bs \<and> sk_out s' = sk_out s @ take n bs \<and> (n = 0 \<and> s' = s \<longrightarrow> WriteNever \<in> set (sk_writes s))"
    "\<nexists>n. r = Ready (Ok n) \<Longrightarrow> (r = Pending \<or> (\<exists>e. r = Ready (Err e))) \<and> sk_out s' = sk_out s \<and> \<not> (\<forall>f\<in>set (sk_writes s). \<exists>k. f = WriteSome k)"
    using assms by (auto simp: sock_write_def min_def split: list.splits write_fate.splits if_splits dest: arg_cong [of _ _ sk_writes])
qed

lemma tls_write_loop_effect: "write_loop w = (r, w') \<Longrightarrow> tw_stream w = Some s \<Longrightarrow> loop_post w s r w'"
proof (induction w arbitrary: s rule: write_loop.induct)
  case (1 w)
  show ?case
  proof (cases "tw_wr_buf w = []")
    case True
    then show ?thesis using 1(2,3) by (auto simp: write_loop.simps [of w] loop_post_def intro!: exI [of _ s])
  next
    case False
    obtain q s1 where q: "sock_write (tw_wr_buf w) s = (q, s1)" by (cases "sock_write (tw_wr_buf w) s") auto
    note e = sock_write_effect [OF q False]
    show ?thesis
    proof (cases "\<exists>n. q = Ready (Ok n) \<and> \<not> (n = 0 \<and> s1 = s)")
      case True
      then obtain n where n: "q = Ready (Ok n)" "\<not> (n = 0 \<and> s1 = s)" by blast
      let ?w = "w\<lparr>tw_stream := Some s1, tw_wr_buf := drop n (tw_wr_buf w)\<rparr>"
      have "write_loop ?w = (r, w')" using 1(2,3) q n False by (simp add: write_loop.simps [of w])
      then have "loop_post ?w s1 r w'" using 1(1) [OF False 1(3) q [symmetric] n(1) refl n(2)] by simp
      then obtain s' sent where p: "w' = ?w\<lparr>tw_stream := Some s', tw_wr_buf := tw_wr_buf w'\<rparr>" "drop n (tw_wr_buf w) = sent @ tw_wr_buf w'"
          "sk_out s' = sk_out s1 @ sent" "sk_in s' = sk_in s1" "set (sk_writes s') \<subseteq> set (sk_writes s1)" "r = Ready (Ok ()) \<longleftrightarrow> tw_wr_buf w' = []"
          "r \<noteq> Ready Panic" "r = Ready Diverge \<longrightarrow> WriteNever \<in> set (sk_writes s1)" "(\<forall>f\<in>set (sk_writes s1). \<exists>k. f = WriteSome k) \<longrightarrow> r = Ready (Ok ())"
        unfolding loop_post_def by auto
      have "tw_wr_buf w = (take n (tw_wr_buf w) @ sent) @ tw_wr_buf w'" by (simp add: p(2) [symmetric])
      moreover have "w' = w\<lparr>tw_stream := Some s', tw_wr_buf := tw_wr_buf w'\<rparr>" using p(1) by simp
      ultimately show ?thesis unfolding loop_post_def using p(3-9) e(1,2) e(3) [OF n(1)]
        by (intro exI [of _ s'] exI [of _ "take n (tw_wr_buf w) @ sent"] conjI) auto
    next
      case stop: False
      have nw: "\<not> (\<forall>f\<in>set (sk_writes s). \<exists>k. f = WriteSome k) \<and> sk_out s1 = sk_out s"
      proof (cases "q = Ready (Ok 0)")
        case True
        then show ?thesis using stop e(3) [of 0] by fastforce
      next
        case False
        then have "\<nexists>n. q = Ready (Ok n)" using stop by auto
        then show ?thesis using e(4) by blast
      qed
      have "r \<noteq> Ready (Ok ()) \<and> r \<noteq> Ready Panic \<and> (r = Ready Diverge \<longrightarrow> q = Ready (Ok 0)) \<and> w' = w\<lparr>tw_stream := Some s1\<rparr>"
        using 1(2,3) q False stop e(4) by (subst (asm) write_loop.simps) (auto split: poll.splits res.splits if_splits)
      moreover have "q = Ready (Ok 0) \<Longrightarrow> WriteNever \<in> set (sk_writes s)" using stop e(3) [of 0] by blast
      ultimately show ?thesis unfolding loop_post_def using False nw e(1,2) by (intro exI [of _ s1] exI [of _ "[]"] conjI) auto
    qed
  qed
qed

lemma sock_flush_effect:
  assumes "sock_flush s = (r, s')"
  shows "sk_out s' = sk_out s" "sk_in s' = sk_in s" "r \<noteq> Ready Panic" "r \<noteq> Ready Diverge"
    "(\<forall>f\<in>set (sk_writes s). \<exists>k. f = WriteSome k) \<Longrightarrow> r = Ready (Ok ())" "set (sk_writes s') \<subseteq> set (sk_writes s)"
  using assms by (auto simp: sock_flush_def split: list.splits write_fate.splits)

text \<open>What one flush may do: everything has been sent and a new packet can begin, or a part was sent and the rest is kept.\<close>

definition flush_step :: "TlsPreloginWrapper \<Rightarrow> Socket \<Rightarrow> unit res poll \<Rightarrow> TlsPreloginWrapper \<Rightarrow> bool" where
  "flush_step w s r w' \<longleftrightarrow>
     (\<exists>s'. tw_stream w' = Some s' \<and> sk_in s' = sk_in s \<and> set (sk_writes s') \<subseteq> set (sk_writes s) \<and>
        tw_pending_handshake w' = tw_pending_handshake w \<and> (r = Ready Diverge \<longrightarrow> WriteNever \<in> set (sk_writes s)) \<and>
        (sk_out s' = sk_out s @ unsent w \<and> tw_wr_buf w' = replicate HEADER_BYTES 0 \<and> \<not> tw_header_written w' \<or>
         r \<noteq> Ready (Ok ()) \<and> tw_header_written w' \<and> tw_wr_buf w' \<noteq> [] \<and> (\<exists>sent. unsent w = sent @ tw_wr_buf w' \<and> sk_out s' = sk_out s @ sent)))"

lemma flush_once:
  assumes "tw_pending_handshake w" "tw_stream w = Some s" "HEADER_BYTES < length (tw_wr_buf w)" "length (tw_wr_buf w) \<le> 65535"
    and "wrapper_poll_flush w = (r, w')"
  shows "flush_step w s r w' \<and> r \<noteq> Ready Panic \<and> ((\<forall>f\<in>set (sk_writes s). \<exists>k. f = WriteSome k) \<longrightarrow> r = Ready (Ok ()))"
proof -
  let ?w = "w\<lparr>tw_wr_buf := unsent w, tw_header_written := True\<rparr>"
  obtain q w1 where q: "write_loop ?w = (q, w1)" by (cases "write_loop ?w") auto
  have f: "wrapper_poll_flush w = bindP (\<lambda>_. (q, w1)) (\<lambda>_ w. on_stream sock_flush (w\<lparr>tw_wr_buf := replicate HEADER_BYTES 0, tw_header_written := False\<rparr>)) w"
    using assms(1,3) back_fill [OF assms(3,4)] q by (simp add: wrapper_poll_flush_def bindP_def)
  obtain s1 sent where p: "w1 = ?w\<lparr>tw_stream := Some s1, tw_wr_buf := tw_wr_buf w1\<rparr>" "unsent w = sent @ tw_wr_buf w1" "sk_out s1 = sk_out s @ sent"
      "sk_in s1 = sk_in s" "set (sk_writes s1) \<subseteq> set (sk_writes s)" "q = Ready (Ok ()) \<longleftrightarrow> tw_wr_buf w1 = []" "q \<noteq> Ready Panic"
      "q = Ready Diverge \<longrightarrow> WriteNever \<in> set (sk_writes s)" "(\<forall>f\<in>set (sk_writes s). \<exists>k. f = WriteSome k) \<longrightarrow> q = Ready (Ok ())"
    using tls_write_loop_effect [OF q, of s] assms(2) unfolding loop_post_def by auto
  have w1: "tw_stream w1 = Some s1" "tw_header_written w1" "tw_pending_handshake w1 = tw_pending_handshake w" by (subst p(1), simp)+
  show ?thesis
  proof (cases "q = Ready (Ok ())")
    case True
    obtain q2 s2 where fl: "sock_flush s1 = (q2, s2)" by (cases "sock_flush s1") auto
    note e = sock_flush_effect [OF fl]
    have "r = q2" "w' = w1\<lparr>tw_stream := Some s2, tw_wr_buf := replicate HEADER_BYTES 0, tw_header_written := False\<rparr>"
      using f assms(5) True fl w1(1) by (simp_all add: bindP_def on_stream_def)
    then show ?thesis using True p e w1(3) by (fastforce simp: flush_step_def)
  next
    case False
    then have "r = q" "w' = w1" using f assms(5) p(7) by (auto simp: bindP_def split: poll.splits res.splits)
    then show ?thesis using False p w1 by (auto simp: flush_step_def unsent_def)
  qed
qed

text \<open>Flushing until it ends, or fails: a flush that has to wait is repeated while more than eight bytes are left.\<close>

inductive flush_on :: "TlsPreloginWrapper \<Rightarrow> unit res poll \<Rightarrow> TlsPreloginWrapper \<Rightarrow> bool" where
  flush_last: "wrapper_poll_flush w = (r, w') \<Longrightarrow> flush_on w r w'"
| flush_again: "wrapper_poll_flush w = (Pending, w1) \<Longrightarrow> HEADER_BYTES < length (tw_wr_buf w1) \<Longrightarrow> flush_on w1 r w' \<Longrightarrow> flush_on w r w'"

lemma length_unsent: "HEADER_BYTES < length (tw_wr_buf w) \<Longrightarrow> length (unsent w) = length (tw_wr_buf w)"
  by (simp add: unsent_def length_packet_bytes flight_packet_def Packet_new_def HEADER_BYTES_def)

lemma flush_on_effect:
  "flush_on w r w' \<Longrightarrow> tw_pending_handshake w \<Longrightarrow> tw_stream w = Some s \<Longrightarrow> HEADER_BYTES < length (tw_wr_buf w) \<Longrightarrow> length (tw_wr_buf w) \<le> 65535 \<Longrightarrow>
     flush_step w s r w' \<and> r \<noteq> Ready Panic \<and> ((\<forall>f\<in>set (sk_writes s). \<exists>k. f = WriteSome k) \<longrightarrow> r = Ready (Ok ()))"
proof (induction arbitrary: s rule: flush_on.induct)
  case (flush_last w r w')
  then show ?case by (intro flush_once)
next
  case (flush_again w w1 r w')
  have once: "flush_step w s Pending w1" "\<not> (\<forall>f\<in>set (sk_writes s). \<exists>k. f = WriteSome k)"
    using flush_once [OF flush_again.prems flush_again.hyps(1)] by auto
  obtain s1 sent where s1: "tw_stream w1 = Some s1" "sk_in s1 = sk_in s" "set (sk_writes s1) \<subseteq> set (sk_writes s)" "tw_pending_handshake w1"
      "tw_header_written w1" "unsent w = sent @ tw_wr_buf w1" "sk_out s1 = sk_out s @ sent"
    using once(1) flush_again.hyps(2) flush_again.prems(1) by (auto simp: flush_step_def)
  have "length (tw_wr_buf w1) \<le> 65535" using arg_cong [OF s1(6), of length] length_unsent [OF flush_again.prems(3)] flush_again.prems(4) by simp
  with flush_again.IH [OF s1(4,1) flush_again.hyps(2)] have "flush_step w1 s1 r w'" "r \<noteq> Ready Panic" by auto
  moreover have "unsent w1 = tw_wr_buf w1" using s1(5) by (simp add: unsent_def)
  ultimately show ?case using s1 once(2) flush_again.prems(1) unfolding flush_step_def by fastforce
qed

text \<open>A flight: the writes of the TLS library since the last flush.\<close>

fun write_all :: "bytes list \<Rightarrow> (TlsPreloginWrapper, nat list) polled" where
  "write_all [] w = (Ready (Ok []), w)"
| "write_all (buf # bufs) w = bindP (wrapper_poll_write buf) (\<lambda>n. bindP (write_all bufs) (\<lambda>ns w. (Ready (Ok (n # ns)), w))) w"

definition between_flights :: "TlsPreloginWrapper \<Rightarrow> Socket \<Rightarrow> bool" where
  "between_flights w s \<longleftrightarrow> tw_pending_handshake w \<and> tw_stream w = Some s \<and> tw_wr_buf w = replicate HEADER_BYTES 0 \<and> \<not> tw_header_written w"

lemma write_all_buffers:
  "tw_pending_handshake w \<Longrightarrow> write_all bufs w = (Ready (Ok (map length bufs)), w\<lparr>tw_wr_buf := tw_wr_buf w @ concat bufs\<rparr>)"
  by (induction bufs arbitrary: w) (simp_all add: bindP_def wrapper_poll_write_def)

text \<open>C14: A flush during the handshake sends one well-formed packet. Let the TLS library write a flight, in any number of portions and of at most 65527 bytes together,
  and then flush. Every write is taken in full and sends nothing. The flush puts the whole flight inside a single prelogin packet with its length and the end-of-message mark, in
  whatever portions the socket takes it; one that has to wait is repeated, as long as more than eight bytes are left. When flushing ends well, exactly that packet has
  been sent and the next flight can begin; at any other end the packet was sent, or a part of it and exactly the missing bytes are kept. A socket that always takes a part lets the
  flush succeed, and only one that never takes anything keeps it going for ever. (An interrupted flush with eight bytes or less left
  is taken for complete, and a longer flight panics: \<open>tail_is_lost\<close>, \<open>long_flight_panics\<close>.)\<close>

theorem tls_flush_frames:
  assumes "between_flights w s" "concat bufs \<noteq> []" "length (concat bufs) \<le> 65527"
  shows "\<exists>w1. write_all bufs w = (Ready (Ok (map length bufs)), w1) \<and> tw_stream w1 = Some s \<and>
    (\<forall>r w'. flush_on w1 r w' \<longrightarrow>
      (\<exists>s'. tw_stream w' = Some s' \<and> sk_in s' = sk_in s \<and>
         (sk_out s' = sk_out s @ packet_bytes (flight_packet (concat bufs)) \<and> between_flights w' s' \<or>
          r \<noteq> Ready (Ok ()) \<and> tw_wr_buf w' \<noteq> [] \<and> sk_out s' @ tw_wr_buf w' = sk_out s @ packet_bytes (flight_packet (concat bufs)))) \<and>
      r \<noteq> Ready Panic \<and> (r = Ready Diverge \<longrightarrow> WriteNever \<in> set (sk_writes s)) \<and>
      ((\<forall>f\<in>set (sk_writes s). \<exists>k. f = WriteSome k) \<longrightarrow> r = Ready (Ok ())))"
proof -
  let ?w = "w\<lparr>tw_wr_buf := replicate HEADER_BYTES 0 @ concat bufs\<rparr>"
  have w: "tw_pending_handshake ?w" "tw_stream ?w = Some s" "HEADER_BYTES < length (tw_wr_buf ?w)" "length (tw_wr_buf ?w) \<le> 65535"
      "unsent ?w = packet_bytes (flight_packet (concat bufs))"
    using assms by (auto simp: between_flights_def HEADER_BYTES_def unsent_def)
  have "write_all bufs w = (Ready (Ok (map length bufs)), ?w)" using write_all_buffers [of w bufs] assms(1) by (simp add: between_flights_def)
  moreover have "(\<exists>s'. tw_stream w' = Some s' \<and> sk_in s' = sk_in s \<and>
         (sk_out s' = sk_out s @ packet_bytes (flight_packet (concat bufs)) \<and> between_flights w' s' \<or>
          r \<noteq> Ready (Ok ()) \<and> tw_wr_buf w' \<noteq> [] \<and> sk_out s' @ tw_wr_buf w' = sk_out s @ packet_bytes (flight_packet (concat bufs)))) \<and>
      r \<noteq> Ready Panic \<and> (r = Ready Diverge \<longrightarrow> WriteNever \<in> set (sk_writes s)) \<and>
      ((\<forall>f\<in>set (sk_writes s). \<exists>k. f = WriteSome k) \<longrightarrow> r = Ready (Ok ()))" if "flush_on ?w r w'" for r w'
    using flush_on_effect [OF that w(1-4)] w(1,5) unfolding flush_step_def between_flights_def by auto
  ultimately show ?thesis using w(2) by blast
qed

definition flight_socket :: "write_fate list \<Rightarrow> Socket" where
  "flight_socket fates = \<lparr>sk_in = [], sk_reads = [], sk_out = [], sk_writes = fates\<rparr>"

theorem tls_flush_frames_witness:
  "\<exists>w1 w' s'. write_all [[22], [3, 1]] (TlsPreloginWrapper_new (flight_socket [WriteSome 4, WriteSome 0, WriteSome 2])) = (Ready (Ok [1, 2]), w1) \<and>
     wrapper_poll_flush w1 = (Ready (Ok ()), w') \<and> tw_stream w' = Some s' \<and> sk_out s' = packet_bytes (flight_packet [22, 3, 1])"
proof -
  let ?s = "flight_socket [WriteSome 4, WriteSome 0, WriteSome 2]" and ?p = "packet_bytes (flight_packet [22, 3, 1])"
  have start: "between_flights (TlsPreloginWrapper_new ?s) ?s" by (simp add: between_flights_def TlsPreloginWrapper_new_def)
  have s: "\<forall>f\<in>set (sk_writes ?s). \<exists>k. f = WriteSome k" "sk_out ?s = []" by (simp_all add: flight_socket_def)
  obtain w1 where w1: "write_all [[22], [3, 1]] (TlsPreloginWrapper_new ?s) = (Ready (Ok [1, 2]), w1)"
      and fl: "\<And>r w'. flush_on w1 r w' \<Longrightarrow> r = Ready (Ok ()) \<and> (r = Ready (Ok ()) \<longrightarrow> (\<exists>s'. tw_stream w' = Some s' \<and> sk_out s' = ?p))"
    using tls_flush_frames [OF start, of "[[22], [3, 1]]"] s by fastforce
  obtain r w' where "wrapper_poll_flush w1 = (r, w')" by (cases "wrapper_poll_flush w1") auto
  with fl [OF flush_last [OF this]] w1 show ?thesis by auto
qed

definition flight_wrapper :: "write_fate list \<Rightarrow> TlsPreloginWrapper" where
  "flight_wrapper fates = (TlsPreloginWrapper_new (flight_socket fates))\<lparr>tw_wr_buf := replicate HEADER_BYTES 0 @ [22, 3, 1]\<rparr>"

text \<open>The packets of a flush are what the wrapper of the peer reads.\<close>

lemma flight_readable:
  assumes "\<forall>payload\<in>set flights. payload \<noteq> [] \<and> length payload + HEADER_BYTES \<le> 65535"
  shows "carries (TlsPreloginWrapper_new \<lparr>sk_in = concat (map (packet_bytes \<circ> flight_packet) flights), sk_reads = fates, sk_out = [], sk_writes = []\<rparr>) (concat flights)"
proof -
  have "\<forall>p\<in>set (map flight_packet flights). tls_packet p"
    using assms by (auto simp: tls_packet_def packet_fits_def flight_packet_def Packet_new_def PacketHeader_set_type_def PacketHeader_set_status_def)
  moreover have "concat (map pk_payload (map flight_packet flights)) = concat flights"
    by (simp add: comp_def flight_packet_def Packet_new_def)
  ultimately show ?thesis
    using carries_header [of "TlsPreloginWrapper_new \<lparr>sk_in = concat (map (packet_bytes \<circ> flight_packet) flights), sk_reads = fates, sk_out = [], sk_writes = []\<rparr>" _ "map flight_packet flights"]
    by (simp add: TlsPreloginWrapper_new_def HEADER_BYTES_def)
qed

text \<open>When an interrupted flush leaves eight bytes or less, the next flush no longer recognises that something is left: it reports success and sends nothing.\<close>

lemma flush_forgets_tail:
  assumes "length (tw_wr_buf w) \<le> HEADER_BYTES"
  shows "wrapper_poll_flush w = on_stream sock_flush w"
  using assms by (simp add: wrapper_poll_flush_def)

lemma tail_is_lost:
  "\<exists>w1 w2 s2. wrapper_poll_flush (flight_wrapper [WriteSome 9, WriteWait]) = (Pending, w1) \<and> wrapper_poll_flush w1 = (Ready (Ok ()), w2) \<and>
     tw_stream w2 = Some s2 \<and> sk_out s2 = take 9 (packet_bytes (flight_packet [22, 3, 1]))"
proof -
  let ?w = "flight_wrapper [WriteSome 9, WriteWait]" and ?p = "packet_bytes (flight_packet [22, 3, 1])"
  have len: "length ?p = 11" by (simp add: length_packet_bytes flight_packet_def Packet_new_def HEADER_BYTES_def)
  then have d: "?p \<noteq> []" "drop 9 ?p \<noteq> []" "length (drop 9 ?p) = 2" by auto
  have u: "unsent ?w = ?p" by (simp add: unsent_def flight_wrapper_def TlsPreloginWrapper_new_def)
  define w1 where "w1 = ?w\<lparr>tw_stream := Some (flight_socket []\<lparr>sk_out := take 9 ?p\<rparr>), tw_wr_buf := drop 9 ?p, tw_header_written := True\<rparr>"
  have st: "tw_stream ?w = Some (flight_socket [WriteSome 9, WriteWait])" by (simp add: flight_wrapper_def TlsPreloginWrapper_new_def)
  have "write_loop (?w\<lparr>tw_wr_buf := ?p, tw_header_written := True\<rparr>) = (Pending, w1)"
    using d st len by (subst write_loop.simps, subst write_loop.simps) (simp add: sock_write_def flight_socket_def w1_def)
  then have "wrapper_poll_flush ?w = (Pending, w1)"
    using back_fill [of ?w] u by (simp add: wrapper_poll_flush_def bindP_def flight_wrapper_def TlsPreloginWrapper_new_def HEADER_BYTES_def)
  moreover have "wrapper_poll_flush w1 = (Ready (Ok ()), w1)"
    using d(3) flush_forgets_tail [of w1] by (simp add: w1_def HEADER_BYTES_def on_stream_def sock_flush_def flight_socket_def)
  ultimately show ?thesis by (auto simp: w1_def)
qed

text \<open>A flight that does not fit in one packet panics, although the bytes came from the TLS library.\<close>

lemma long_flight_panics:
  assumes "tw_pending_handshake w" "\<not> tw_header_written w" "65535 < length (tw_wr_buf w)"
  shows "wrapper_poll_flush w = (Ready Panic, w)"
  using assms by (simp add: wrapper_poll_flush_def bindP_def back_fill_header_def PacketHeader_new_def HEADER_BYTES_def)

end
