(* ===== verification/Tds_Timeout.thy ===== *)
theory Tds_Timeout
  imports Tds_Stream Tds_Tls
begin

text \<open>
  The bound on a round trip (\<^verbatim>\<open>RoundTripTimeout\<close> of \<^verbatim>\<open>tds/stream/token.rs\<close>): the stream of tokens is polled through a layer that
  starts a timer when the server keeps it waiting and drops it when something arrives. The inner stream and the timer of the
  crate \<^verbatim>\<open>futures-timer\<close> are arguments: \<open>delay_new now t\<close> is a timer made at a time, \<open>delay_ready now d\<close> says whether it has run out.
\<close>

section \<open>The layer\<close>

record 'd RoundTripTimeout =
  rt_timeout :: "nat option"
  rt_delay :: "'d option"

definition RoundTripTimeout_new :: "nat option \<Rightarrow> 'd RoundTripTimeout" where
  "RoundTripTimeout_new timeout = \<lparr>rt_timeout = timeout, rt_delay = None\<rparr>"

text \<open>An item of the stream is an error or a token; \<open>None\<close> is its end. The flag that is shared with the connection is the field of
  the connection.\<close>

definition round_trip_poll ::
  "(nat \<Rightarrow> nat \<Rightarrow> 'd) \<Rightarrow> (nat \<Rightarrow> 'd \<Rightarrow> bool) \<Rightarrow> nat \<Rightarrow> (Connection \<Rightarrow> (error + ReceivedToken) option poll \<times> Connection)
     \<Rightarrow> 'd RoundTripTimeout \<times> Connection \<Rightarrow> (error + ReceivedToken) option poll \<times> 'd RoundTripTimeout \<times> Connection" where
  "round_trip_poll delay_new delay_ready now inner st =
     (case st of (rt, c) \<Rightarrow>
        (case inner c of
           (Ready item, c1) \<Rightarrow> (Ready item, rt\<lparr>rt_delay := None\<rparr>, c1)
         | (Pending, c1) \<Rightarrow>
             (case rt_timeout rt of
                None \<Rightarrow> (Pending, rt, c1)
              | Some timeout \<Rightarrow>
                  let delay = (case rt_delay rt of Some d \<Rightarrow> d | None \<Rightarrow> delay_new now timeout) in
                  if delay_ready now delay
                  then (Ready (Some (Inl (Io TimedOut))), rt\<lparr>rt_delay := None\<rparr>, c1\<lparr>conn_command_desync := True\<rparr>)
                  else (Pending, rt\<lparr>rt_delay := Some delay\<rparr>, c1))))"

section \<open>How long the server has kept it waiting\<close>

text \<open>The history of the polls, the latest first: the time, whether the inner stream had nothing, and whether the answer was the timeout.\<close>

type_synonym poll_history = "(nat \<times> bool \<times> bool) list"

fun waiting_since :: "poll_history \<Rightarrow> nat option" where
  "waiting_since [] = None"
| "waiting_since ((now, waiting, fired) # h) =
     (if waiting \<and> \<not> fired then (case waiting_since h of None \<Rightarrow> Some now | Some s \<Rightarrow> Some s) else None)"

definition timed_out :: "(error + ReceivedToken) option poll \<Rightarrow> bool" where
  "timed_out r \<longleftrightarrow> (case r of Ready (Some (Inl e)) \<Rightarrow> e = Io TimedOut | _ \<Rightarrow> False)"

inductive timed_run ::
  "(nat \<Rightarrow> nat \<Rightarrow> 'd) \<Rightarrow> (nat \<Rightarrow> 'd \<Rightarrow> bool) \<Rightarrow> nat option \<Rightarrow> poll_history \<Rightarrow> 'd RoundTripTimeout \<Rightarrow> Connection \<Rightarrow> bool"
  for delay_new delay_ready timeout where
  run_start: "timed_run delay_new delay_ready timeout [] (RoundTripTimeout_new timeout) c"
| run_poll: "timed_run delay_new delay_ready timeout h rt c \<Longrightarrow>
    round_trip_poll delay_new delay_ready now inner (rt, c) = (r, rt', c') \<Longrightarrow>
    timed_run delay_new delay_ready timeout ((now, fst (inner c) = Pending, fst (inner c) = Pending \<and> timed_out r) # h) rt' c'"

text \<open>What is documented of the timer: it is ready once its time has passed.\<close>

locale timer =
  fixes delay_new :: "nat \<Rightarrow> nat \<Rightarrow> 'd" and delay_ready :: "nat \<Rightarrow> 'd \<Rightarrow> bool"
  assumes delay_law: "delay_ready now (delay_new start t) \<longleftrightarrow> start + t \<le> now"
begin

definition deadline :: "nat option \<Rightarrow> poll_history \<Rightarrow> 'd option" where
  "deadline timeout h = (case timeout of None \<Rightarrow> None | Some t \<Rightarrow> map_option (\<lambda>s. delay_new s t) (waiting_since h))"

lemma run_deadline:
  "timed_run delay_new delay_ready timeout h rt c \<Longrightarrow> rt_timeout rt = timeout \<and> rt_delay rt = deadline timeout h"
proof (induction rule: timed_run.induct)
  case (run_start c)
  then show ?case by (simp add: RoundTripTimeout_new_def deadline_def split: option.split)
next
  case (run_poll h rt c now inner r rt' c')
  then show ?case
    by (cases "inner c"; cases timeout; cases "waiting_since h")
       (auto simp: round_trip_poll_def deadline_def timed_out_def Let_def split: poll.splits if_splits)
qed

text \<open>The answer to a poll that finds nothing, by the history.\<close>

lemma pending_answer:
  assumes "timed_run delay_new delay_ready timeout h rt c" "inner c = (Pending, c1)"
    "round_trip_poll delay_new delay_ready now inner (rt, c) = (r, rt', c')"
  shows "if \<exists>t. timeout = Some t \<and> (case waiting_since h of None \<Rightarrow> t = 0 | Some s \<Rightarrow> s + t \<le> now)
    then r = Ready (Some (Inl (Io TimedOut))) \<and> c' = c1\<lparr>conn_command_desync := True\<rparr> else r = Pending \<and> c' = c1"
  using run_deadline [OF assms(1)] assms(2,3)
  by (cases timeout; cases "waiting_since h")
     (auto simp: round_trip_poll_def deadline_def delay_law Let_def split: if_splits)

end

section \<open>A stall is noticed, and only a stall\<close>

text \<open>A connection out of step refuses every further use before a byte is written.\<close>

definition refuses :: "Connection \<Rightarrow> bool" where
  "refuses c \<longleftrightarrow> (\<forall>header item. \<exists>e. send header item c = (Err e, c)) \<and> (\<exists>e. flush_stream c = (Err e, c)) \<and> (\<exists>e. send_attention c = (Err e, c))"

lemma desync_refuses: "conn_command_desync c \<Longrightarrow> refuses c"
  by (auto simp: refuses_def send_def flush_stream_def send_attention_def ensure_not_poisoned_def thenR_def bindR_def)

text \<open>C6: A stalled server is noticed, and nothing else is taken for one. In every course of polls, an item that arrives is passed on and changes nothing else. When there is nothing, the
  poll times out exactly when a bound is set and the server has kept the stream waiting for that long since the first fruitless poll after the last
  item, so that a caller who polls rarely is not blamed; otherwise it waits. After a timeout the connection refuses to send, to drain and to cancel.\<close>

theorem stall_detected:
  assumes "timer delay_new delay_ready" "timed_run delay_new delay_ready timeout h rt c"
    and "round_trip_poll delay_new delay_ready now inner (rt, c) = (r, rt', c')" "inner c = (answer, c1)"
  shows "case answer of
      Ready item \<Rightarrow> r = Ready item \<and> c' = c1
    | Pending \<Rightarrow>
        (if \<exists>t. timeout = Some t \<and> (case waiting_since h of None \<Rightarrow> t = 0 | Some s \<Rightarrow> s + t \<le> now)
         then r = Ready (Some (Inl (Io TimedOut))) \<and> refuses c' \<and> conn_out c' = conn_out c1
         else r = Pending \<and> c' = c1)"
proof (cases answer)
  case Pending
  then show ?thesis
    using timer.pending_answer [OF assms(1,2) _ assms(3), of c1] assms(4) by (auto intro: desync_refuses split: if_splits)
next
  case (Ready item)
  then show ?thesis using assms(3,4) by (auto simp: round_trip_poll_def)
qed

text \<open>The timer as a point in time.\<close>

definition clock_new :: "nat \<Rightarrow> nat \<Rightarrow> nat" where
  "clock_new now t = now + t"

definition clock_ready :: "nat \<Rightarrow> nat \<Rightarrow> bool" where
  "clock_ready now d \<longleftrightarrow> d \<le> now"

interpretation clock: timer clock_new clock_ready
  by unfold_locales (simp add: clock_new_def clock_ready_def)

definition silent :: "Connection \<Rightarrow> (error + ReceivedToken) option poll \<times> Connection" where
  "silent c = (Pending, c)"

lemma two_polls:
  "timed_run clock_new clock_ready (Some 5) [(10, True, False)] \<lparr>rt_timeout = Some 5, rt_delay = Some 15\<rparr> (Connection_new False Context_new [])"
  using run_poll [OF run_start, of clock_new clock_ready 10 silent "Some 5" "Connection_new False Context_new []"]
  by (simp add: round_trip_poll_def RoundTripTimeout_new_def silent_def clock_new_def clock_ready_def timed_out_def)

theorem stall_detected_witness:
  "\<exists>rt' c'. round_trip_poll clock_new clock_ready 15 silent (\<lparr>rt_timeout = Some 5, rt_delay = Some 15\<rparr>, Connection_new False Context_new []) =
     (Ready (Some (Inl (Io TimedOut))), rt', c') \<and> refuses c'"
proof -
  let ?c = "Connection_new False Context_new []" and ?rt = "\<lparr>rt_timeout = Some 5, rt_delay = Some 15\<rparr>"
  obtain r rt' c' where p: "round_trip_poll clock_new clock_ready 15 silent (?rt, ?c) = (r, rt', c')"
    by (cases "round_trip_poll clock_new clock_ready 15 silent (?rt, ?c)") auto
  from stall_detected [OF clock.timer_axioms two_polls p, of Pending ?c] p show ?thesis by (auto simp: silent_def)
qed

end
