(* ===== verification/Tds_Responses.thy ===== *)
theory Tds_Responses
  imports Tds_Stream
begin

text \<open>
  What the token stream promises to its callers. A response is a sequence of packets, the
  last one marked; \<open>ts_ok\<close> is the invariant of a stream that reads one. Two streams are \<open>alike\<close> when the
  bytes still to come, the context and the remembered error agree, whatever the packets. A
  \<open>token_op\<close> answers alike streams alike, never panics, keeps the invariant and
  never gives bytes back; every handler is one, so the loops over the tokens are. A \<open>steady\<close> operation that
  succeeds has not looked behind what it needed: \<open>later\<close> input changes nothing.
\<close>

section \<open>Responses\<close>

fun response :: "Packet res list \<Rightarrow> bool" where
  "response [] \<longleftrightarrow> True"
| "response (Ok p # rest) \<longleftrightarrow> (Packet_is_last p \<longleftrightarrow> rest = []) \<and> (rest = [] \<longrightarrow> pk_payload p \<noteq> []) \<and> response rest"
| "response (_ # rest) \<longleftrightarrow> False"

definition framed :: "Connection \<Rightarrow> bool" where
  "framed c \<longleftrightarrow> response (conn_in c) \<and> (conn_flushed c \<longleftrightarrow> conn_in c = [])"

lemma response_clean: "response ins \<Longrightarrow> \<forall>x\<in>set ins. \<exists>p. x = Ok p"
  by (induction ins rule: response.induct) auto

lemma framed_clean: "framed c \<Longrightarrow> clean_input c"
  using response_clean by (auto simp: framed_def clean_input_def)

lemma response_payloads: "response ins \<Longrightarrow> payloads ins = [] \<longleftrightarrow> ins = []"
  by (induction ins rule: response.induct) auto

lemma framed_eof: "framed c \<Longrightarrow> is_eof c \<longleftrightarrow> conn_stream c = []"
  by (auto simp: framed_def is_eof_def conn_stream_def response_payloads)

lemma pull_response: "pull sz ins buf fl = (ins', buf', fl') \<Longrightarrow> response ins \<Longrightarrow> fl \<longleftrightarrow> ins = [] \<Longrightarrow>
   response ins' \<and> (fl' \<longleftrightarrow> ins' = [])"
  by (induction sz ins buf fl rule: pull.induct) (auto split: if_splits)

lemma framed_skip: "framed c \<Longrightarrow> framed (skip_bytes n c)"
  by (auto simp: framed_def skip_bytes_def pulled_def Let_def dest!: pull_response split: prod.splits)

lemma skip_context [simp]: "conn_context (skip_bytes n c) = conn_context c"
  by (auto simp: skip_bytes_def pulled_def Let_def split: prod.split)

section \<open>Streams that are alike\<close>

definition ts_ok :: "TokenStream \<Rightarrow> bool" where
  "ts_ok ts \<longleftrightarrow> framed (ts_conn ts) \<and> context_ok (ts_context ts)"

definition alike :: "TokenStream \<Rightarrow> TokenStream \<Rightarrow> bool" where
  "alike t u \<longleftrightarrow> ts_ok t \<and> ts_ok u \<and> ts_stream t = ts_stream u \<and> ts_context t = ts_context u \<and> ts_last_error t = ts_last_error u"

definition token_op :: "('a \<Rightarrow> bool) \<Rightarrow> (TokenStream, 'a) comp \<Rightarrow> bool" where
  "token_op Q m \<longleftrightarrow>
     (\<forall>t u r t'. alike t u \<and> m t = (r, t') \<longrightarrow>
        (\<exists>u'. m u = (r, u') \<and> alike t' u') \<and> returns r \<and> length (ts_stream t') \<le> length (ts_stream t) \<and> (\<forall>a. r = Ok a \<longrightarrow> Q a))"

named_theorems op_intros "closure rules of the token_op predicate"

lemma token_opI:
  assumes "\<And>t u r t'. alike t u \<Longrightarrow> m t = (r, t') \<Longrightarrow>
     (\<exists>u'. m u = (r, u') \<and> alike t' u') \<and> returns r \<and> length (ts_stream t') \<le> length (ts_stream t) \<and> (\<forall>a. r = Ok a \<longrightarrow> Q a)"
  shows "token_op Q m"
  using assms by (auto simp: token_op_def)

lemma token_opD:
  assumes "token_op Q m" "alike t u" "m t = (r, t')"
  obtains u' where "m u = (r, u')" "alike t' u'" "returns r" "length (ts_stream t') \<le> length (ts_stream t)" "\<And>a. r = Ok a \<Longrightarrow> Q a"
proof -
  have "(\<exists>u'. m u = (r, u') \<and> alike t' u') \<and> returns r \<and> length (ts_stream t') \<le> length (ts_stream t) \<and> (\<forall>a. r = Ok a \<longrightarrow> Q a)"
    using assms(1) [unfolded token_op_def, rule_format, OF conjI [OF assms(2,3)]] .
  with that show ?thesis by blast
qed

lemma op_weaken: "token_op P m \<Longrightarrow> (\<And>a. P a \<Longrightarrow> Q a) \<Longrightarrow> token_op Q m"
  unfolding token_op_def by blast

lemma op_retR [op_intros]: "Q a \<Longrightarrow> token_op Q (retR a)"
  and op_errR [op_intros]: "token_op Q (errR e)"
  by (auto simp: token_op_def retR_def errR_def)

lemma op_ok_or: "token_op (\<lambda>a. x = Some a) (ok_or x e)"
  by (cases x) (auto simp: ok_or_def intro!: op_intros)

lemma op_bindR:
  assumes m: "token_op P m" and f: "\<And>a. P a \<Longrightarrow> token_op Q (f a)"
  shows "token_op Q (bindR m f)"
proof (rule token_opI)
  fix t u r t' assume a: "alike t u" and b: "bindR m f t = (r, t')"
  obtain r1 t1 where m1: "m t = (r1, t1)" by (cases "m t") auto
  obtain u1 where u1: "m u = (r1, u1)" "alike t1 u1" "returns r1" "length (ts_stream t1) \<le> length (ts_stream t)"
      "\<And>a. r1 = Ok a \<Longrightarrow> P a"
    by (rule token_opD [OF m a m1]) blast
  show "(\<exists>u'. bindR m f u = (r, u') \<and> alike t' u') \<and> returns r \<and> length (ts_stream t') \<le> length (ts_stream t) \<and> (\<forall>a. r = Ok a \<longrightarrow> Q a)"
  proof (cases r1)
    case (Ok x)
    with b m1 have "f x t1 = (r, t')" by (simp add: bindR_def)
    from token_opD [OF f [OF u1(5) [OF Ok]] u1(2) this] obtain u' where "f x u1 = (r, u')" "alike t' u'" "returns r"
        "length (ts_stream t') \<le> length (ts_stream t1)" "\<And>a. r = Ok a \<Longrightarrow> Q a" by blast
    then show ?thesis using Ok u1 by (auto simp: bindR_def)
  qed (use b m1 u1 in \<open>auto simp: bindR_def\<close>)
qed

lemma op_thenR [op_intros]: "token_op (\<lambda>_. True) m \<Longrightarrow> token_op Q k \<Longrightarrow> token_op Q (thenR m k)"
  unfolding thenR_def by (rule op_bindR)

lemma op_with_context [op_intros]: "(\<And>ctx. context_ok ctx \<Longrightarrow> token_op Q (f ctx)) \<Longrightarrow> token_op Q (ts_with_context f)"
proof (rule token_opI)
  fix t u r t' assume f: "\<And>ctx. context_ok ctx \<Longrightarrow> token_op Q (f ctx)" and a: "alike t u" and b: "ts_with_context f t = (r, t')"
  have c: "ts_context t = ts_context u" "context_ok (ts_context t)" using a by (simp_all add: alike_def ts_ok_def)
  from b have "f (ts_context t) t = (r, t')" by (simp add: ts_with_context_def)
  from token_opD [OF f [OF c(2)] a this] show "(\<exists>u'. ts_with_context f u = (r, u') \<and> alike t' u') \<and> returns r \<and>
      length (ts_stream t') \<le> length (ts_stream t) \<and> (\<forall>a. r = Ok a \<longrightarrow> Q a)"
    unfolding ts_with_context_def c(1) by blast
qed

lemma context_update_view [simp]:
  "conn_stream (c\<lparr>conn_context := x\<rparr>) = conn_stream c" "framed (c\<lparr>conn_context := x\<rparr>) = framed c"
  by (simp_all add: conn_stream_def framed_def)

lemma op_update: "(\<And>ctx. context_ok ctx \<Longrightarrow> context_ok (f ctx)) \<Longrightarrow> token_op (\<lambda>_. True) (ts_update f)"
  by (auto simp: token_op_def ts_update_def alike_def ts_ok_def)

lemma op_note_error [op_intros]: "token_op (\<lambda>_. True) (ts_note_error e)"
  by (auto simp: token_op_def ts_note_error_def alike_def ts_ok_def)

lemma op_read:
  assumes "reader m" "safe m" "\<And>s a s'. m s = (Ok a, s') \<Longrightarrow> Q a"
  shows "token_op Q (ts_read m)"
proof (rule token_opI)
  fix t u r t' assume a: "alike t u" and b: "ts_read m t = (r, t')"
  obtain c where c: "over_conn m (ts_conn t) = (r, c)" "t' = t\<lparr>ts_conn := c\<rparr>" using b by (auto simp: ts_read_def split: prod.splits)
  obtain q d where d: "over_conn m (ts_conn u) = (q, d)" by (cases "over_conn m (ts_conn u)") auto
  have clean: "clean_input (ts_conn t)" "clean_input (ts_conn u)" using a by (auto simp: alike_def ts_ok_def framed_clean)
  have s: "ts_stream t = ts_stream u" using a by (simp add: alike_def)
  note ft = over_conn_frame [OF assms(1) clean(1) c(1)] and fu = over_conn_frame [OF assms(1) clean(2) d]
  have q: "q = r" "conn_stream c = conn_stream d" using ft fu s by auto
  have keep: "framed c" "framed d" "conn_context c = ts_context t" "conn_context d = ts_context u"
    using a c(1) d by (auto simp: alike_def ts_ok_def over_conn_def intro: framed_skip split: prod.splits)
  have "alike t' (u\<lparr>ts_conn := d\<rparr>)" using a c(2) q keep by (simp add: alike_def ts_ok_def)
  moreover have "ts_read m u = (r, u\<lparr>ts_conn := d\<rparr>)" using d q by (simp add: ts_read_def)
  moreover have "returns r" using assms(2) ft(1) by (auto simp: safe_def)
  moreover have "length (ts_stream t') \<le> length (ts_stream t)"
    using reader_length [OF assms(1), of "ts_stream t" "fst (m (ts_stream t))" "conn_stream c"] ft(2) c(2) by (simp add: prod_eq_iff)
  moreover have "Q x" if "r = Ok x" for x using assms(3) [of "ts_stream t" x "conn_stream c"] ft that by (simp add: prod_eq_iff)
  ultimately show "(\<exists>u'. ts_read m u = (r, u') \<and> alike t' u') \<and> returns r \<and> length (ts_stream t') \<le> length (ts_stream t) \<and> (\<forall>a. r = Ok a \<longrightarrow> Q a)"
    by blast
qed

lemma op_read_any: "reader m \<Longrightarrow> safe m \<Longrightarrow> token_op (\<lambda>_. True) (ts_read m)"
  by (rule op_read) auto

section \<open>Every handler\<close>

lemma op_read_ret [op_intros]: "reader m \<Longrightarrow> safe m \<Longrightarrow> token_op (\<lambda>_. True) (bindR (ts_read m) (\<lambda>x. retR (f x)))"
  by (rule op_bindR [OF op_read_any]) (auto intro: op_intros)

lemma op_simple_handlers [op_intros]:
  "token_op (\<lambda>_. True) get_return_status" "token_op (\<lambda>_. True) get_order"
  "token_op (\<lambda>_. True) get_col_info" "token_op (\<lambda>_. True) get_tab_name" "token_op (\<lambda>_. True) get_done_value"
  "token_op (\<lambda>_. True) get_done_proc_value" "token_op (\<lambda>_. True) get_done_in_proc_value" "token_op (\<lambda>_. True) get_info"
  "token_op (\<lambda>_. True) get_feature_ext_ack" "token_op (\<lambda>_. True) get_session_state" "token_op (\<lambda>_. True) get_fed_auth_info"
  "token_op (\<lambda>_. True) get_sspi" "token_op (\<lambda>_. True) (get_return_value env)"
  unfolding get_return_status_def get_order_def get_col_info_def get_tab_name_def get_done_value_def
    get_done_proc_value_def get_done_in_proc_value_def get_info_def get_feature_ext_ack_def get_session_state_def
    get_fed_auth_info_def get_sspi_def get_return_value_def
  by (intro op_with_context op_read_ret reader_fixed safe_fixed reader_tokens safe_tokens reader_col_info safe_col_info
      reader_feature_ack safe_feature_ack reader_rows safe_return_value)+

lemma op_get_error [op_intros]: "token_op (\<lambda>_. True) get_error"
  unfolding get_error_def
  by (intro op_with_context op_bindR [OF op_read_any] op_thenR op_note_error op_retR reader_tokens safe_tokens TrueI)

lemma op_get_rows [op_intros]: "token_op (\<lambda>_. True) (get_row env)" "token_op (\<lambda>_. True) (get_nbc_row env)"
  unfolding get_row_def get_nbc_row_def
  by (intro op_with_context op_read_ret reader_rows safe_row safe_nbc_row; simp add: context_ok_def)+

lemma op_get_alt_row [op_intros]: "token_op (\<lambda>_. True) (get_alt_row env)"
  unfolding get_alt_row_def
  by (intro op_bindR [OF op_read_any] op_with_context op_bindR [OF op_ok_or] op_read_ret reader_rows reader_fixed safe_fixed safe_alt_row)
    (auto simp: context_ok_def alt_meta_def)

lemma op_get_col_metadata [op_intros]: "token_op (\<lambda>_. True) get_col_metadata"
  unfolding get_col_metadata_def
  by (intro op_bindR [OF op_read [where Q = meta_wf]] op_thenR op_update op_retR reader_metadata safe_metadata)
    (auto dest: col_metadata_wf simp: context_ok_def context_setters)

lemma op_get_alt_col_metadata [op_intros]: "token_op (\<lambda>_. True) get_alt_col_metadata"
  unfolding get_alt_col_metadata_def
  by (intro op_bindR [OF op_read [where Q = alt_meta_wf]] op_thenR op_update op_retR reader_metadata safe_metadata)
    (auto dest: alt_metadata_wf simp: context_ok_def context_setters)

lemma op_get_login_ack [op_intros]: "token_op (\<lambda>_. True) get_login_ack"
  unfolding get_login_ack_def
  by (intro op_bindR [OF op_read_any] op_thenR op_update op_retR reader_tokens safe_tokens context_ok_setters TrueI)

definition desc_ok :: "TokenEnvChange \<Rightarrow> bool" where
  "desc_ok change \<longleftrightarrow> (\<forall>d. change = BeginTransactionChange d \<longrightarrow> length d = 8)"

lemma env_change_desc: "TokenEnvChange_decode s = (Ok change, s') \<Longrightarrow> desc_ok change"
proof -
  have "desc_ok change" if "env_change_body ty s = (Ok change, s')" for ty s s'
    using that by (cases ty) (auto simp: desc_ok_def bindR_eq_Ok retR_eq_Ok read_n_def errR_def split: if_splits)
  then show "TokenEnvChange_decode s = (Ok change, s') \<Longrightarrow> desc_ok change"
    by (auto simp: TokenEnvChange_decode_def env_change_parse_def on_buffer_def liftR_def bindR_eq_Ok
        dest!: eq_fst_iff [THEN iffD1, OF sym])
qed

lemma op_env_change_effect: "desc_ok change \<Longrightarrow> token_op (\<lambda>_. True) (env_change_effect change)"
  by (cases change) (auto intro!: op_intros op_update simp: desc_ok_def context_ok_def context_setters)

lemma op_get_env_change [op_intros]: "token_op (\<lambda>_. True) get_env_change"
  unfolding get_env_change_def
  by (intro op_bindR [OF op_read [where Q = desc_ok]] op_thenR op_retR op_env_change_effect reader_tokens safe_tokens TrueI)
    (auto dest: env_change_desc)

lemma op_get_token: "token_op (\<lambda>_. True) (get_token env ty)"
  by (cases ty) (simp_all add: op_intros)

section \<open>One step of the stream\<close>

lemma op_receive [op_intros]: "token_op (\<lambda>_. True) (receive env)"
proof (rule token_opI)
  fix t u r t' assume a: "alike t u" and b: "receive env t = (r, t')"
  let ?step = "bindR (ts_read read_u8) (\<lambda>ty_byte.
        bindR (ok_or (TokenType_try_from ty_byte) (Protocol (StreamMsg (InvalidTokenType ty_byte)))) (\<lambda>ty.
        bindR (get_token env ty) (\<lambda>token. retR (Some token))))"
  have eof: "is_eof (ts_conn u) \<longleftrightarrow> is_eof (ts_conn t)" using a by (simp add: alike_def ts_ok_def framed_eof)
  show "(\<exists>u'. receive env u = (r, u') \<and> alike t' u') \<and> returns r \<and> length (ts_stream t') \<le> length (ts_stream t) \<and> (\<forall>a. r = Ok a \<longrightarrow> True)"
  proof (cases "is_eof (ts_conn t)")
    case True
    with a b eof show ?thesis by (auto simp: receive_def alike_def split: option.splits)
  next
    case False
    have op: "token_op (\<lambda>_. True) ?step"
      by (intro op_bindR [OF op_read_any] op_bindR [OF op_ok_or] op_bindR [OF op_get_token] op_retR reader_fixed safe_fixed TrueI)
    have "?step t = (r, t')" and u: "receive env u = ?step u" using b False eof by (simp_all add: receive_def)
    from token_opD [OF op a this(1)] show ?thesis unfolding u by blast
  qed
qed

lemma alike_refl: "ts_ok ts \<Longrightarrow> alike ts ts"
  by (simp add: alike_def)

lemma ts_read_shorter:
  assumes "ts_ok ts" "consumes m" "reader m" "ts_read m ts = (Ok a, ts')"
  shows "length (ts_stream ts') < length (ts_stream ts)" "ts_ok ts'"
proof -
  obtain c where c: "over_conn m (ts_conn ts) = (Ok a, c)" "ts' = ts\<lparr>ts_conn := c\<rparr>" using assms(4) by (auto simp: ts_read_def split: prod.splits)
  have clean: "clean_input (ts_conn ts)" using assms(1) by (simp add: ts_ok_def framed_clean)
  note f = over_conn_frame [OF assms(3) clean c(1)]
  then have "m (ts_stream ts) = (Ok a, ts_stream ts')" using c(2) by (simp add: prod_eq_iff)
  then show "length (ts_stream ts') < length (ts_stream ts)" using assms(2) by (auto simp: consumes_def)
  show "ts_ok ts'" using assms(1) c by (auto simp: ts_ok_def over_conn_def intro: framed_skip split: prod.splits)
qed

lemma token_op_unary:
  assumes "token_op Q m" "ts_ok ts" "m ts = (r, ts')"
  shows "ts_ok ts'" "returns r" "length (ts_stream ts') \<le> length (ts_stream ts)" "\<And>a. r = Ok a \<Longrightarrow> Q a"
proof -
  obtain u' where u: "alike ts' u'" "returns r" "length (ts_stream ts') \<le> length (ts_stream ts)" "\<And>a. r = Ok a \<Longrightarrow> Q a"
    by (rule token_opD [OF assms(1) alike_refl [OF assms(2)] assms(3)]) blast
  show "ts_ok ts'" using u(1) by (simp add: alike_def)
  show "returns r" "length (ts_stream ts') \<le> length (ts_stream ts)" "\<And>a. r = Ok a \<Longrightarrow> Q a" by (fact u)+
qed

lemma receive_shorter:
  assumes "ts_ok ts" "receive env ts = (Ok (Some tok), ts')"
  shows "length (ts_stream ts') < length (ts_stream ts)"
proof -
  from assms(2) have ne: "\<not> is_eof (ts_conn ts)" by (auto simp: receive_def split: if_splits option.splits)
  with assms(2) obtain b ts1 ty where 1: "ts_read read_u8 ts = (Ok b, ts1)" "get_token env ty ts1 = (Ok tok, ts')"
    by (auto simp: receive_def bindR_eq_Ok retR_eq_Ok ok_or_Ok)
  have "length (ts_stream ts1) < length (ts_stream ts)" "ts_ok ts1"
    using ts_read_shorter [OF assms(1) _ _ 1(1)] by (auto intro: consumes_intros consumes_fixed reader_fixed)
  with token_op_unary(3) [OF op_get_token this(2) 1(2)] show ?thesis by simp
qed

lemma receive_None: "ts_ok ts \<Longrightarrow> receive env ts = (Ok None, ts') \<Longrightarrow> ts' = ts \<and> ts_stream ts = []"
  by (auto simp: receive_def ts_ok_def framed_eof bindR_eq_Ok retR_eq_Ok split: if_splits option.splits)

section \<open>Loops over the tokens\<close>

lemma op_token_loop:
  assumes body: "\<And>x tok r. body x tok = Inr r \<Longrightarrow> returns r" "\<And>x. \<not> isl (body x None)"
  shows "token_op (\<lambda>_. True) (token_loop env body x)"
proof (rule token_opI)
  fix t u r t' assume "alike t u" "token_loop env body x t = (r, t')"
  then show "(\<exists>u'. token_loop env body x u = (r, u') \<and> alike t' u') \<and> returns r \<and>
      length (ts_stream t') \<le> length (ts_stream t) \<and> (\<forall>a. r = Ok a \<longrightarrow> True)"
  proof (induction "length (ts_stream t)" arbitrary: t u x rule: less_induct)
    case less
    obtain q t1 where q: "receive env t = (q, t1)" by (cases "receive env t") auto
    obtain u1 where u1: "receive env u = (q, u1)" "alike t1 u1" "returns q" "length (ts_stream t1) \<le> length (ts_stream t)"
      by (rule token_opD [OF op_receive less(2) q]) blast
    note unf = token_loop.simps [of env body x t] token_loop.simps [of env body x u]
    show ?case
    proof (cases q)
      case (Ok tok)
      show ?thesis
      proof (cases "body x tok")
        case (Inr z)
        with less(3) q u1 Ok body(1) show ?thesis by (auto simp: unf)
      next
        case (Inl y)
        with body(2) [of x] obtain k where k: "tok = Some k" by (cases tok) auto
        have ok: "ts_ok t" "ts_stream u = ts_stream t" "ts_stream u1 = ts_stream t1" using less(2) u1(2) by (auto simp: alike_def)
        have lt: "length (ts_stream t1) < length (ts_stream t)" using receive_shorter [OF ok(1)] q Ok k by simp
        then have n: "token_loop env body x t = token_loop env body y t1" "token_loop env body x u = token_loop env body y u1"
          using q u1(1) Ok Inl ok by (simp_all add: unf)
        from less(1) [OF lt u1(2), of y] less(3) n lt show ?thesis by auto
      qed
    qed (use less(3) q u1 in \<open>auto simp: unf\<close>)
  qed
qed

lemma op_flush [op_intros]:
  "token_op (\<lambda>_. True) (flush_done env)" "token_op (\<lambda>_. True) (flush_done_attention env)" "token_op (\<lambda>_. True) (flush_sspi env)"
proof -
  have "returns r" if "flush_done_body x tok = Inr r" for x tok r
    using that by (cases "(x, tok)" rule: flush_done_body.cases) (auto split: option.splits)
  then show "token_op (\<lambda>_. True) (flush_done env)" unfolding flush_done_def by (intro op_token_loop) auto
  have "returns r" if "flush_attention_body x tok = Inr r" for x tok r
    using that by (cases "(x, tok)" rule: flush_attention_body.cases) (auto split: if_splits)
  then show "token_op (\<lambda>_. True) (flush_done_attention env)" unfolding flush_done_attention_def by (intro op_token_loop) auto
  have "returns r" if "flush_sspi_body x tok = Inr r" for x tok r
    using that by (cases "(x, tok)" rule: flush_sspi_body.cases) auto
  then show "token_op (\<lambda>_. True) (flush_sspi env)" unfolding flush_sspi_def by (intro op_token_loop) auto
qed

section \<open>What a sequence of tokens does\<close>

inductive emits :: "value_env \<Rightarrow> TokenStream \<Rightarrow> ReceivedToken list \<Rightarrow> TokenStream \<Rightarrow> bool" for env where
  emits_nil: "emits env ts [] ts"
| emits_cons: "receive env ts = (Ok (Some tok), ts1) \<Longrightarrow> emits env ts1 toks ts' \<Longrightarrow> emits env ts (tok # toks) ts'"

inductive_simps emits_Cons: "emits env ts (tok # toks) ts'"
inductive_simps emits_Nil: "emits env ts [] ts'"

lemma emits_append: "emits env ts (xs @ ys) ts' \<longleftrightarrow> (\<exists>ts1. emits env ts xs ts1 \<and> emits env ts1 ys ts')"
  by (induction xs arbitrary: ts) (auto simp: emits_Cons emits_Nil)

lemma emits_ok: "emits env ts toks ts' \<Longrightarrow> ts_ok ts \<Longrightarrow> ts_ok ts'"
  by (induction rule: emits.induct) (use token_op_unary(1) [OF op_receive] in blast)+

fun context_effect :: "ReceivedToken \<Rightarrow> Context \<Rightarrow> Context" where
  "context_effect (NewResultset m) = set_last_meta m"
| "context_effect (NewAltResultset m) = set_alt_meta m"
| "context_effect (LoginAckToken ack) = set_version (ack_tds_version ack)"
| "context_effect (EnvChangeToken (PacketSizeChange old n)) = set_packet_size n"
| "context_effect (EnvChangeToken (BeginTransactionChange d)) = set_transaction_descriptor d"
| "context_effect (EnvChangeToken CommitTransactionChange) = set_transaction_descriptor (replicate 8 0)"
| "context_effect (EnvChangeToken RollbackTransactionChange) = set_transaction_descriptor (replicate 8 0)"
| "context_effect (EnvChangeToken DefectTransactionChange) = set_transaction_descriptor (replicate 8 0)"
| "context_effect _ = id"

fun error_effect :: "ReceivedToken \<Rightarrow> error option \<Rightarrow> error option" where
  "error_effect (ErrorToken e) None = Some (Server e)"
| "error_effect _ le = le"

lemma ts_read_view: "ts_read m ts = (r, ts') \<Longrightarrow> ts_context ts' = ts_context ts \<and> ts_last_error ts' = ts_last_error ts"
  by (auto simp: ts_read_def over_conn_def split: prod.splits)

lemmas handler_defs = get_col_metadata_def get_alt_col_metadata_def get_alt_row_def get_row_def get_nbc_row_def get_return_value_def
  get_return_status_def get_error_def get_order_def get_col_info_def get_tab_name_def get_done_value_def get_done_proc_value_def
  get_done_in_proc_value_def get_env_change_def get_info_def get_login_ack_def get_feature_ext_ack_def get_session_state_def
  get_fed_auth_info_def get_sspi_def

lemma env_change_effect_context:
  assumes "env_change_effect change ts = (Ok (), ts')"
  shows "ts_context ts' = context_effect (EnvChangeToken change) (ts_context ts)" "ts_last_error ts' = ts_last_error ts"
  using assms by (cases change; auto simp: ts_update_def errR_def retR_def split: if_splits)+

lemma get_token_effect:
  assumes "get_token env ty ts = (Ok tok, ts')"
  shows "ts_context ts' = context_effect tok (ts_context ts) \<and> ts_last_error ts' = error_effect tok (ts_last_error ts)"
  using assms
  by (cases ty) (auto simp: handler_defs thenR_def bindR_eq_Ok retR_eq_Ok ts_with_context_def ok_or_Ok ts_update_def ts_note_error_def
      env_change_effect_context dest!: ts_read_view)

lemma receive_effect:
  assumes "receive env ts = (Ok (Some tok), ts')"
  shows "ts_context ts' = context_effect tok (ts_context ts)" "ts_last_error ts' = error_effect tok (ts_last_error ts)"
proof -
  from assms have "\<not> is_eof (ts_conn ts)" by (auto simp: receive_def split: if_splits option.splits)
  with assms obtain b ts1 ty where "ts_read read_u8 ts = (Ok b, ts1)" "get_token env ty ts1 = (Ok tok, ts')"
    by (auto simp: receive_def bindR_eq_Ok retR_eq_Ok ok_or_Ok)
  then show "ts_context ts' = context_effect tok (ts_context ts)" "ts_last_error ts' = error_effect tok (ts_last_error ts)"
    using ts_read_view get_token_effect by (metis, metis)
qed

lemma emits_effect:
  "emits env ts toks ts' \<Longrightarrow> ts_context ts' = fold context_effect toks (ts_context ts) \<and>
     ts_last_error ts' = fold error_effect toks (ts_last_error ts)"
  by (induction rule: emits.induct) (auto simp: receive_effect)

fun loop_run :: "('x \<Rightarrow> ReceivedToken option \<Rightarrow> 'x + 'a res) \<Rightarrow> 'x \<Rightarrow> ReceivedToken list \<Rightarrow> 'x option" where
  "loop_run body x [] = Some x"
| "loop_run body x (tok # toks) = (case body x (Some tok) of Inl y \<Rightarrow> loop_run body y toks | Inr _ \<Rightarrow> None)"

lemma token_loop_emits:
  "emits env ts toks ts' \<Longrightarrow> ts_ok ts \<Longrightarrow> loop_run body x toks = Some y \<Longrightarrow> token_loop env body x ts = token_loop env body y ts'"
proof (induction arbitrary: x rule: emits.induct)
  case (emits_cons ts tok ts1 toks ts')
  then obtain z where z: "body x (Some tok) = Inl z" "loop_run body z toks = Some y" by (auto split: sum.splits)
  have "token_loop env body x ts = token_loop env body z ts1"
    using emits_cons(1,4) z(1) receive_shorter by (subst token_loop.simps) simp
  then show ?case using emits_cons.IH [OF _ z(2)] token_op_unary(1) [OF op_receive] emits_cons(1,4) by metis
qed simp

section \<open>What lies behind a response\<close>

text \<open>More input behind what a connection holds: packets, failures, or (\<open>Diverge\<close>) a server that stays silent.\<close>

definition later :: "Packet res list \<Rightarrow> Connection \<Rightarrow> Connection" where
  "later behind c = c\<lparr>conn_in := conn_in c @ behind\<rparr>"

abbreviation ts_later :: "Packet res list \<Rightarrow> TokenStream \<Rightarrow> TokenStream" where
  "ts_later behind ts \<equiv> ts\<lparr>ts_conn := later behind (ts_conn ts)\<rparr>"

lemma later_view [simp]:
  "conn_context (later behind c) = conn_context c" "is_eof (later behind c) = is_eof c"
  by (simp_all add: later_def is_eof_def)

lemma later_stream: "clean_input c \<Longrightarrow> conn_stream (later behind c) = conn_stream c @ payloads behind"
proof -
  have "\<forall>x\<in>set ins. \<exists>p. x = Ok p \<Longrightarrow> payloads (ins @ behind) = payloads ins @ payloads behind" for ins
    by (induction ins) auto
  then show "clean_input c \<Longrightarrow> ?thesis" by (simp add: clean_input_def conn_stream_def later_def)
qed

lemma pull_later: "pull sz ins buf fl = (ins', buf', fl') \<Longrightarrow> sz \<le> length buf' \<Longrightarrow> pull sz (ins @ behind) buf fl = (ins' @ behind, buf', fl')"
  by (induction sz ins buf fl rule: pull.induct) (auto split: if_splits simp: pull_done)

lemma skip_later:
  assumes "clean_input c" "sz \<le> length (conn_stream c)"
  shows "skip_bytes sz (later behind c) = later behind (skip_bytes sz c)"
proof -
  obtain ins buf fl where p: "pull sz (conn_in c) (conn_buf c) (conn_flushed c) = (ins, buf, fl)"
    by (cases "pull sz (conn_in c) (conn_buf c) (conn_flushed c)") auto
  have "sz \<le> length buf" using pulled_buf(1) [OF assms] p by (simp add: pulled_def)
  from pull_later [OF p this, of behind] p show ?thesis by (simp add: later_def skip_bytes_def pulled_def Let_def)
qed

text \<open>A \<open>steady\<close> operation keeps the context valid on any input, and when it succeeds it has read only what
  it needed: whatever lies behind changes nothing and is left where it is.\<close>

definition steady :: "('a \<Rightarrow> bool) \<Rightarrow> (TokenStream, 'a) comp \<Rightarrow> bool" where
  "steady Q m \<longleftrightarrow>
     (\<forall>ts r ts'. context_ok (ts_context ts) \<and> m ts = (r, ts') \<longrightarrow> context_ok (ts_context ts') \<and>
        (\<forall>a. r = Ok a \<longrightarrow> Q a \<and> (clean_input (ts_conn ts) \<longrightarrow>
           clean_input (ts_conn ts') \<and> (\<forall>behind. m (ts_later behind ts) = (Ok a, ts_later behind ts')))))"

named_theorems steady_intros "closure rules of the steady predicate"

lemma steadyD:
  assumes "steady Q m" "context_ok (ts_context ts)" "m ts = (r, ts')"
  shows "context_ok (ts_context ts')" "\<And>a. r = Ok a \<Longrightarrow> Q a"
    "\<And>a. r = Ok a \<Longrightarrow> clean_input (ts_conn ts) \<Longrightarrow> clean_input (ts_conn ts')"
    "\<And>a behind. r = Ok a \<Longrightarrow> clean_input (ts_conn ts) \<Longrightarrow> m (ts_later behind ts) = (Ok a, ts_later behind ts')"
  using assms unfolding steady_def by blast+

lemma steady_retR [steady_intros]: "Q a \<Longrightarrow> steady Q (retR a)"
  and steady_errR [steady_intros]: "steady Q (errR e)"
  by (auto simp: steady_def retR_def errR_def)

lemma steady_ok_or: "steady (\<lambda>a. x = Some a) (ok_or x e)"
  by (cases x) (auto simp: ok_or_def intro!: steady_intros)

lemma steady_bindR:
  assumes m: "steady P m" and f: "\<And>a. P a \<Longrightarrow> steady Q (f a)"
  shows "steady Q (bindR m f)"
  unfolding steady_def
proof (intro allI impI)
  fix ts r ts' assume a: "context_ok (ts_context ts) \<and> bindR m f ts = (r, ts')"
  obtain q t1 where q: "m ts = (q, t1)" by (cases "m ts") auto
  note d = steadyD [OF m _ q]
  show "context_ok (ts_context ts') \<and> (\<forall>a. r = Ok a \<longrightarrow> Q a \<and> (clean_input (ts_conn ts) \<longrightarrow>
           clean_input (ts_conn ts') \<and> (\<forall>behind. bindR m f (ts_later behind ts) = (Ok a, ts_later behind ts'))))"
  proof (cases q)
    case (Ok x)
    then have k: "f x t1 = (r, ts')" using a q by (simp add: bindR_def)
    note e = steadyD [OF f [OF d(2)] _ k]
    show ?thesis using a d e Ok by (auto simp: bindR_def)
  qed (use a q d in \<open>auto simp: bindR_def\<close>)
qed

lemma steady_thenR [steady_intros]: "steady (\<lambda>_. True) m \<Longrightarrow> steady Q k \<Longrightarrow> steady Q (thenR m k)"
  unfolding thenR_def by (rule steady_bindR)

lemma steady_with_context [steady_intros]: "(\<And>ctx. context_ok ctx \<Longrightarrow> steady Q (f ctx)) \<Longrightarrow> steady Q (ts_with_context f)"
  unfolding steady_def ts_with_context_def by (simp add: later_def) blast

lemma steady_update: "(\<And>ctx. context_ok ctx \<Longrightarrow> context_ok (f ctx)) \<Longrightarrow> steady (\<lambda>_. True) (ts_update f)"
  by (auto simp: steady_def ts_update_def later_def clean_input_def)

lemma steady_note_error [steady_intros]: "steady (\<lambda>_. True) (ts_note_error e)"
  by (auto simp: steady_def ts_note_error_def)

lemma steady_read:
  assumes "reader m" "\<And>s a s'. m s = (Ok a, s') \<Longrightarrow> Q a"
  shows "steady Q (ts_read m)"
  unfolding steady_def
proof (intro allI impI)
  fix ts r ts' assume a: "context_ok (ts_context ts) \<and> ts_read m ts = (r, ts')"
  let ?c = "ts_conn ts"
  obtain s' where m: "m (conn_stream ?c) = (r, s')" and t: "ts' = ts\<lparr>ts_conn := skip_bytes (length (conn_stream ?c) - length s') ?c\<rparr>"
    using a by (auto simp: ts_read_def over_conn_def split: prod.splits)
  have "clean_input (ts_conn ts') \<and> (\<forall>behind. ts_read m (ts_later behind ts) = (Ok x, ts_later behind ts'))"
    if x: "r = Ok x" and c: "clean_input ?c" for x
  proof -
    obtain p where p: "conn_stream ?c = p @ s'" "\<And>t. m (p @ t) = (Ok x, t)" using readerE [OF assms(1) m] x by metis
    then have ext: "m (conn_stream ?c @ e) = (Ok x, s' @ e)" for e by simp
    show ?thesis using skip_later [OF c, of "length p"] skip_stream(2) [OF c, of "length p"] p(1) t ext
      by (simp add: ts_read_def over_conn_def later_stream [OF c])
  qed
  then show "context_ok (ts_context ts') \<and> (\<forall>a. r = Ok a \<longrightarrow> Q a \<and> (clean_input ?c \<longrightarrow>
           clean_input (ts_conn ts') \<and> (\<forall>behind. ts_read m (ts_later behind ts) = (Ok a, ts_later behind ts'))))"
    using a t m assms(2) by auto
qed

lemma steady_read_any: "reader m \<Longrightarrow> steady (\<lambda>_. True) (ts_read m)"
  by (rule steady_read) auto

lemma steady_read_ret [steady_intros]: "reader m \<Longrightarrow> steady (\<lambda>_. True) (bindR (ts_read m) (\<lambda>x. retR (f x)))"
  by (rule steady_bindR [OF steady_read_any]) (auto intro: steady_intros)

lemma steady_env_change: "desc_ok change \<Longrightarrow> steady (\<lambda>_. True) (env_change_effect change)"
  by (cases change) (auto intro!: steady_intros steady_update simp: desc_ok_def context_ok_def context_setters)

lemma steady_get_env_change [steady_intros]: "steady (\<lambda>_. True) get_env_change"
  unfolding get_env_change_def
  by (intro steady_bindR [OF steady_read [where Q = desc_ok]] steady_thenR steady_retR steady_env_change reader_tokens TrueI)
    (auto dest: env_change_desc)

lemma steady_metadata [steady_intros]: "steady (\<lambda>_. True) get_col_metadata" "steady (\<lambda>_. True) get_alt_col_metadata"
  unfolding get_col_metadata_def get_alt_col_metadata_def
  by (intro steady_bindR [OF steady_read [where Q = meta_wf]] steady_bindR [OF steady_read [where Q = alt_meta_wf]]
       steady_thenR steady_update steady_retR reader_metadata;
      auto dest: col_metadata_wf alt_metadata_wf simp: context_ok_def context_setters)+

lemma steady_get_login_ack [steady_intros]: "steady (\<lambda>_. True) get_login_ack"
  unfolding get_login_ack_def
  by (intro steady_bindR [OF steady_read_any] steady_thenR steady_update steady_retR reader_tokens context_ok_setters TrueI)

lemma steady_get_token [steady_intros]: "steady (\<lambda>_. True) (get_token env ty)"
  by (cases ty) (simp_all add: steady_intros, simp_all add: handler_defs,
    (intro steady_with_context steady_read_ret steady_bindR [OF steady_ok_or] steady_bindR [OF steady_read_any] steady_thenR steady_note_error steady_retR
     reader_fixed reader_tokens reader_col_info reader_feature_ack reader_rows TrueI)+)

lemma steady_receive [steady_intros]: "steady (\<lambda>_. True) (receive env)"
proof -
  have "steady (\<lambda>_. True) (bindR (ts_read read_u8) (\<lambda>ty_byte.
        bindR (ok_or (TokenType_try_from ty_byte) (Protocol (StreamMsg (InvalidTokenType ty_byte)))) (\<lambda>ty.
        bindR (get_token env ty) (\<lambda>token. retR (Some token)))))"
    by (intro steady_bindR [OF steady_read_any] steady_bindR [OF steady_ok_or] steady_bindR [OF steady_get_token] steady_retR reader_fixed TrueI)
  then show ?thesis unfolding steady_def receive_def by (auto split: option.splits)
qed


text \<open>A loop over the tokens keeps the context valid on any input.\<close>

lemma token_loop_context: "context_ok (ts_context ts) \<Longrightarrow> context_ok (ts_context (snd (token_loop env body x ts)))"
proof (induction env body x ts rule: token_loop.induct)
  case (1 env body x ts)
  obtain q t1 where q: "receive env ts = (q, t1)" by (cases "receive env ts") auto
  have c: "context_ok (ts_context t1)" using steadyD(1) [OF steady_receive 1(2) q] .
  show ?case
  proof (cases q)
    case (Ok tok)
    show ?thesis
    proof (cases "body x tok")
      case (Inl y)
      then show ?thesis using 1(1) [OF q [symmetric] Ok Inl] c q Ok by (subst token_loop.simps) auto
    qed (use q c Ok in \<open>simp add: token_loop.simps\<close>)
  qed (use q c in \<open>simp_all add: token_loop.simps\<close>)
qed

text \<open>On a response a loop stops within it, or at a token that cannot be read.\<close>

lemma token_loop_within:
  assumes "ts_ok ts" "token_loop env body x ts = (r, ts')" "\<And>x. \<not> isl (body x None)"
  shows "(\<forall>behind. token_loop env body x (ts_later behind ts) = (r, ts_later behind ts')) \<or>
    (\<exists>toks ts1 e. emits env ts toks ts1 \<and> ts_stream ts1 \<noteq> [] \<and> receive env ts1 = (Err e, ts') \<and> r = Err e)"
  using assms(1,2)
proof (induction "length (ts_stream ts)" arbitrary: ts x rule: less_induct)
  case less
  obtain q t1 where q: "receive env ts = (q, t1)" by (cases "receive env ts") auto
  have ok: "context_ok (ts_context ts)" "clean_input (ts_conn ts)" using less(2) by (auto simp: ts_ok_def framed_clean)
  note op = token_op_unary [OF op_receive less(2) q] and st = steadyD [OF steady_receive ok(1) q]
  show ?case
  proof (cases q)
    case (Ok tok)
    have l: "receive env (ts_later behind ts) = (Ok tok, ts_later behind t1)" for behind using st(4) Ok ok(2) .
    show ?thesis
    proof (cases "body x tok")
      case (Inr z)
      then show ?thesis using less(3) q Ok l by (simp add: token_loop.simps)
    next
      case (Inl y)
      with assms(3) [of x] obtain k where k: "tok = Some k" by (cases tok) auto
      have lt: "length (ts_stream t1) < length (ts_stream ts)" using receive_shorter [OF less(2)] q Ok k by simp
      have n: "token_loop env body x ts = token_loop env body y t1" using q Ok Inl lt by (subst token_loop.simps) simp
      have nl: "token_loop env body x (ts_later behind ts) = token_loop env body y (ts_later behind t1)" for behind
        using l [of behind] Inl lt later_stream ok(2) st(3) Ok by (subst token_loop.simps) simp
      have em: "emits env t1 toks ts1 \<Longrightarrow> emits env ts (k # toks) ts1" for toks ts1 using q Ok k by (auto intro: emits_cons)
      from less(1) [OF lt op(1), of y] less(3) n nl em show ?thesis by metis
    qed
  next
    case (Err e)
    then have r: "r = Err e" "ts' = t1" using less(3) q by (simp_all add: token_loop.simps)
    show ?thesis
    proof (cases "is_eof (ts_conn ts)")
      case True
      then have "receive env (ts_later behind ts) = (Err e, ts_later behind t1)" for behind
        using q Err by (auto simp: receive_def split: option.splits)
      then show ?thesis using r by (simp add: token_loop.simps)
    next
      case False
      then have "ts_stream ts \<noteq> []" using less(2) by (simp add: ts_ok_def framed_eof)
      then show ?thesis using q Err r emits_nil by metis
    qed
  qed (use op(2) in auto)
qed

text \<open>A wait over the tokens of a response ends with a result or an error. It needs nothing behind the response and takes nothing
  of it, or it ends with the error of a token that cannot be read from what the response still holds.\<close>

definition ends_within :: "value_env \<Rightarrow> (TokenStream, 'a) comp \<Rightarrow> Connection \<Rightarrow> bool" where
  "ends_within env m c \<longleftrightarrow>
     (\<exists>r c'. on_tokens m c = (r, c') \<and> returns r \<and> context_ok (conn_context c') \<and> framed c' \<and>
        ((\<forall>behind. on_tokens m (later behind c) = (r, later behind c')) \<or>
         (\<exists>toks ts e ts'. emits env (TokenStream_new c) toks ts \<and> ts_stream ts \<noteq> [] \<and> receive env ts = (Err e, ts') \<and> r = Err e)))"

lemma loop_ends_within:
  assumes "framed c" "context_ok (conn_context c)" "token_op (\<lambda>_. True) (token_loop env body x)" "\<And>x. \<not> isl (body x None)"
  shows "ends_within env (token_loop env body x) c"
proof -
  let ?ts = "TokenStream_new c"
  have ok: "ts_ok ?ts" using assms(1,2) by (simp add: ts_ok_def TokenStream_new_def)
  obtain r ts' where l: "token_loop env body x ?ts = (r, ts')" by (cases "token_loop env body x ?ts") auto
  have new: "TokenStream_new (later behind c) = ts_later behind ?ts" for behind by (simp add: TokenStream_new_def)
  note w = token_loop_within [OF ok l assms(4)] and op = token_op_unary [OF assms(3) ok l]
  have "(\<forall>behind. on_tokens (token_loop env body x) (later behind c) = (r, later behind (ts_conn ts'))) \<or>
      (\<exists>toks ts e ts'. emits env ?ts toks ts \<and> ts_stream ts \<noteq> [] \<and> receive env ts = (Err e, ts') \<and> r = Err e)"
    using w by (auto simp: on_tokens_def new)
  then show ?thesis using op l unfolding ends_within_def by (auto simp: on_tokens_def ts_ok_def)
qed

section \<open>Properties of the token stream\<close>

text \<open>C5: Reading a response comes to an end within the response. For a response of one or more packets, the last one marked and not empty,
  holding any bytes at all, waiting for the final DONE, for the acknowledgement of a cancellation or for the
  next authentication message returns a result or an error. None of them panics or runs for ever, and afterwards the
  session context is valid: the packet size is between 512 and 32767 and every column type kept is well formed.
  Either the wait needed nothing but the response: whatever follows it, further packets, a failure, the end of the connection or a
  server that stays silent, the outcome is the same and what follows is left unread. Or it stopped at a token that cannot
  be read from what is left of the response, and the result is that error. Only in this last case, when the token runs past
  the marked packet and the connection is still open, does reading wait for more
  (\<open>poll_read_waits\<close>); the command timeout bounds that wait.\<close>

theorem response_always_ends:
  assumes "framed c" "context_ok (conn_context c)"
  shows "ends_within env (flush_done env) c \<and> ends_within env (flush_done_attention env) c \<and> ends_within env (flush_sspi env) c"
  using op_flush [of env] assms unfolding flush_done_def flush_done_attention_def flush_sspi_def by (auto intro!: loop_ends_within)

text \<open>A response in one packet.\<close>

definition reply :: "bytes \<Rightarrow> Packet res list" where
  "reply bs = [Ok (Packet_new (PacketHeader_set_status EndOfMessage (PacketHeader_batch 0)) bs)]"

lemma framed_reply: "bs \<noteq> [] \<Longrightarrow> framed (Connection_new tls ctx (reply bs))"
  by (simp add: framed_def Connection_new_def reply_def Packet_is_last_def Packet_new_def PacketHeader_set_status_def)

lemma new_context [simp]: "conn_context (Connection_new tls ctx ins) = ctx"
  by (simp add: Connection_new_def)

lemma stream_reply: "conn_stream (Connection_new tls ctx (reply bs)) = bs"
  by (simp add: conn_stream_def Connection_new_def reply_def Packet_new_def)

lemmas stream_eval = receive_def ts_read_def over_conn_def skip_bytes_def pulled_def conn_stream_def is_eof_def bindR_def retR_def
  ts_with_context_def TokenStream_new_def Connection_new_def Context_new_def reply_def Packet_new_def Packet_is_last_def PacketHeader_set_status_def
  ok_or_def TokenType_try_from_def TokenType_variants_def uint_enum_try_from_def handler_defs

theorem response_always_ends_witness:
  "\<forall>env. let c = Connection_new False Context_new (reply [0xFD, 0x10, 0, 0, 0, 1, 0, 0, 0, 0, 0, 0, 0]) in
     \<exists>c'. on_tokens (flush_done env) c = (Ok \<lparr>done_status = 0x10, done_cur_cmd = 0, done_done_rows = 1\<rparr>, c') \<and>
       (\<forall>behind. on_tokens (flush_done env) (later behind c) = (Ok \<lparr>done_status = 0x10, done_cur_cmd = 0, done_done_rows = 1\<rparr>, later behind c'))"
proof
  fix env
  let ?c = "Connection_new False Context_new (reply [0xFD, 0x10, 0, 0, 0, 1, 0, 0, 0, 0, 0, 0, 0])"
  let ?d = "\<lparr>done_status = 0x10, done_cur_cmd = 0, done_done_rows = 1\<rparr>"
  have "ends_within env (flush_done env) ?c"
    using response_always_ends [OF framed_reply, of "[0xFD, 0x10, 0, 0, 0, 1, 0, 0, 0, 0, 0, 0, 0]" False Context_new env] context_ok_new by simp
  moreover have "fst (on_tokens (flush_done env) ?c) = Ok ?d"
    by (simp add: on_tokens_def flush_done_def token_loop.simps stream_eval fixed_reader_defs read_le_def read_n_def TokenDone_decode_def
        done_row_count_bytes_def DoneStatus_all_def Context_new_def wire_eval)
  ultimately show "let c = ?c in \<exists>c'. on_tokens (flush_done env) c = (Ok ?d, c') \<and>
       (\<forall>behind. on_tokens (flush_done env) (later behind c) = (Ok ?d, later behind c'))"
    by (auto simp: ends_within_def Let_def)
qed

text \<open>A marked last packet without payload is read as if more were to come: the connection does not see the end of the response, and the
  next read waits for a packet behind it, or fails when the connection is closed.\<close>

lemma empty_last_packet:
  assumes "Packet_is_last p" "pk_payload p = []" "conn_buf c = []" "\<not> conn_flushed c"
  shows "conn_in c = [Ok p, Diverge] \<Longrightarrow> \<not> is_eof c \<and> fst (poll_read 1 c) = Diverge"
    and "conn_in c = [Ok p] \<Longrightarrow> fst (receive env (TokenStream_new c)) = Err (Io UnexpectedEof)"
proof -
  show "conn_in c = [Ok p, Diverge] \<Longrightarrow> \<not> is_eof c \<and> fst (poll_read 1 c) = Diverge"
    using poll_read_waits [of c "[p]" "[]" 1] assms by (simp add: is_eof_def)
  show "conn_in c = [Ok p] \<Longrightarrow> fst (receive env (TokenStream_new c)) = Err (Io UnexpectedEof)"
    using assms by (simp add: receive_def is_eof_def TokenStream_new_def bindR_def ts_read_def over_conn_def conn_stream_def read_u8_def
        read_n_def read_le_def fixed_reader_defs)
qed

text \<open>C2: The cut into packets is invisible. Two connections whose responses carry the same bytes, cut into packets in any two
  ways in which the marked last packet is not empty, with the same context, deliver the same tokens: after any number of steps the tokens or the
  error are the same, and so is the context. (Packets before the last may be empty. An empty last packet is not seen as
  the end of the response: \<open>empty_last_packet\<close>. The server is taken to close the connection behind the response: a token that runs past it
  is the end-of-input error for both, and on an open connection both wait.)\<close>

theorem packetisation_invisible:
  assumes "framed c" "framed d" "conn_stream c = conn_stream d" "context_ok (conn_context c)" "conn_context c = conn_context d"
  shows "\<exists>r t u. repeatR n (receive env) (TokenStream_new c) = (r, t) \<and> repeatR n (receive env) (TokenStream_new d) = (r, u) \<and>
     ts_context t = ts_context u \<and> ts_stream t = ts_stream u \<and> returns r"
proof -
  have op: "token_op (\<lambda>_. True) (repeatR n (receive env))"
    by (induction n) (auto intro!: op_bindR [where P = "\<lambda>_. True"] op_intros)
  have al: "alike (TokenStream_new c) (TokenStream_new d)" using assms by (simp add: alike_def ts_ok_def TokenStream_new_def)
  obtain r t where r: "repeatR n (receive env) (TokenStream_new c) = (r, t)"
    by (cases "repeatR n (receive env) (TokenStream_new c)") auto
  obtain u where "repeatR n (receive env) (TokenStream_new d) = (r, u)" "alike t u" "returns r"
    by (rule token_opD [OF op al r]) blast
  with r show ?thesis by (auto simp: alike_def)
qed

theorem packetisation_invisible_witness:
  "\<forall>env. let c = Connection_new False Context_new (reply [0x79, 7, 0, 0, 0]);
       d = Connection_new False Context_new (Ok (Packet_new (PacketHeader_batch 0) [0x79, 7]) # reply [0, 0, 0]) in
   \<exists>r t u. repeatR 1 (receive env) (TokenStream_new c) = (r, t) \<and> repeatR 1 (receive env) (TokenStream_new d) = (r, u) \<and>
     ts_context t = ts_context u"
proof
  fix env
  let ?c = "Connection_new False Context_new (reply [0x79, 7, 0, 0, 0])"
  let ?d = "Connection_new False Context_new (Ok (Packet_new (PacketHeader_batch 0) [0x79, 7]) # reply [0, 0, 0])"
  have "framed ?d" "conn_stream ?c = conn_stream ?d" "conn_context ?c = conn_context ?d" "context_ok (conn_context ?c)"
    using context_ok_new
    by (simp_all add: framed_def conn_stream_def Connection_new_def reply_def Packet_is_last_def Packet_new_def PacketHeader_set_status_def
        PacketHeader_batch_def PacketHeader_base_def)
  from packetisation_invisible [OF framed_reply this(1,2,4,3), of 1 env]
  show "let c = ?c; d = ?d in \<exists>r t u. repeatR 1 (receive env) (TokenStream_new c) = (r, t) \<and> repeatR 1 (receive env) (TokenStream_new d) = (r, u) \<and>
     ts_context t = ts_context u" by (auto simp: Let_def)
qed

fun first_error :: "ReceivedToken list \<Rightarrow> TokenError option" where
  "first_error [] = None"
| "first_error (ErrorToken e # toks) = Some e"
| "first_error (tok # toks) = first_error toks"

fun last_routing :: "ReceivedToken list \<Rightarrow> error option" where
  "last_routing [] = None"
| "last_routing (tok # toks) =
     (case last_routing toks of
        Some r \<Rightarrow> Some r
      | None \<Rightarrow> (case tok of EnvChangeToken (RoutingChange host port) \<Rightarrow> Some (Routing host port) | _ \<Rightarrow> None))"

fun is_done :: "ReceivedToken \<Rightarrow> bool" where
  "is_done (DoneToken d) = True"
| "is_done _ = False"

definition or_else :: "'a option \<Rightarrow> 'a option \<Rightarrow> 'a option" where
  "or_else x y = (if x = None then y else x)"

lemma flush_done_run:
  "\<not> list_ex is_done toks \<Longrightarrow>
     loop_run flush_done_body (le, ro) toks = Some (or_else le (first_error toks), or_else (last_routing toks) ro)"
proof (induction toks arbitrary: le ro)
  case (Cons tok toks)
  then show ?case
    by (cases "((le, ro), Some tok)" rule: flush_done_body.cases) (auto simp: or_else_def split: option.splits TokenEnvChange.splits)
qed (simp add: or_else_def)

lemma error_effect_Some: "fold error_effect toks (Some e) = Some e"
  by (induction toks) auto

lemma error_effect_first: "fold error_effect toks le = or_else le (map_option Server (first_error toks))"
  by (induction toks arbitrary: le rule: first_error.induct) (auto simp: or_else_def error_effect_Some split: option.splits)

definition flush_outcome :: "ReceivedToken list \<Rightarrow> TokenDone \<Rightarrow> TokenDone res" where
  "flush_outcome toks d =
     (case first_error toks of
        Some e \<Rightarrow> Err (Server e)
      | None \<Rightarrow> (case last_routing toks of Some r \<Rightarrow> Err r | None \<Rightarrow> Ok d))"

text \<open>C8: The server's first complaint is what the caller sees. When the tokens up to the first DONE are \<open>toks\<close>, waiting for the
  end of a login or a request gives the first server error among them; without an error, the last
  redirection to another server; and only without either is it the DONE. When the response
  ends before any DONE, the answer is the first server error, or that the DONE never came. (The response is one of packets of
  which the last one is marked and not empty.)\<close>

theorem flush_done_first_error:
  assumes "framed c" "context_ok (conn_context c)" "emits env (TokenStream_new c) toks ts" "\<not> list_ex is_done toks"
  shows "(receive env ts = (Ok (Some (DoneToken d)), ts') \<longrightarrow>
       on_tokens (flush_done env) c = (flush_outcome toks d, ts_conn ts')) \<and>
    (conn_stream (ts_conn ts) = [] \<longrightarrow>
       fst (on_tokens (flush_done env) c) =
         Err (case first_error toks of Some e \<Rightarrow> Server e | None \<Rightarrow> Protocol (StreamMsg NeverGotDone)))"
proof -
  have ok: "ts_ok (TokenStream_new c)" using assms(1,2) by (simp add: ts_ok_def TokenStream_new_def)
  have loop: "flush_done env (TokenStream_new c) = token_loop env flush_done_body (first_error toks, last_routing toks) ts"
    using token_loop_emits [OF assms(3) ok flush_done_run [OF assms(4), of None None]] by (simp add: flush_done_def or_else_def)
  have le: "ts_last_error ts = map_option Server (first_error toks)"
    using emits_effect [OF assms(3)] by (simp add: error_effect_first or_else_def TokenStream_new_def)
  have eof: "is_eof (ts_conn ts) \<longleftrightarrow> ts_stream ts = []" using emits_ok [OF assms(3) ok] by (simp add: ts_ok_def framed_eof)
  show ?thesis
    using loop le eof
    by (auto simp: on_tokens_def flush_outcome_def token_loop.simps [of env _ _ ts] receive_def split: option.splits)
qed

theorem flush_done_first_error_witness:
  "\<forall>env. fst (on_tokens (flush_done env) (Connection_new False Context_new (reply [0xFD, 0, 0, 0, 0, 0, 0, 0, 0, 0, 0, 0, 0]))) =
     Ok \<lparr>done_status = 0, done_cur_cmd = 0, done_done_rows = 0\<rparr>"
proof
  fix env
  let ?c = "Connection_new False Context_new (reply [0xFD, 0, 0, 0, 0, 0, 0, 0, 0, 0, 0, 0, 0])"
  obtain ts' where "receive env (TokenStream_new ?c) = (Ok (Some (DoneToken \<lparr>done_status = 0, done_cur_cmd = 0, done_done_rows = 0\<rparr>)), ts')"
    by (simp add: stream_eval TokenDone_decode_def fixed_reader_defs read_le_def read_n_def wire_simps wire_eval done_row_count_bytes_def)
  moreover have "framed ?c" "context_ok (conn_context ?c)" using context_ok_new by (auto intro: framed_reply)
  ultimately show "fst (on_tokens (flush_done env) ?c) = Ok \<lparr>done_status = 0, done_cur_cmd = 0, done_done_rows = 0\<rparr>"
    using flush_done_first_error [of ?c env "[]" "TokenStream_new ?c" _ ts'] emits_nil by (simp add: flush_outcome_def)
qed

section \<open>The session follows the tokens\<close>

fun transaction_after :: "ReceivedToken list \<Rightarrow> bytes \<Rightarrow> bytes" where
  "transaction_after [] desc = desc"
| "transaction_after (EnvChangeToken (BeginTransactionChange d) # toks) desc = transaction_after toks d"
| "transaction_after (EnvChangeToken CommitTransactionChange # toks) desc = transaction_after toks (replicate 8 0)"
| "transaction_after (EnvChangeToken RollbackTransactionChange # toks) desc = transaction_after toks (replicate 8 0)"
| "transaction_after (EnvChangeToken DefectTransactionChange # toks) desc = transaction_after toks (replicate 8 0)"
| "transaction_after (tok # toks) desc = transaction_after toks desc"

fun metadata_after :: "ReceivedToken list \<Rightarrow> TokenColMetaData option \<Rightarrow> TokenColMetaData option" where
  "metadata_after [] m = m"
| "metadata_after (NewResultset m' # toks) m = metadata_after toks (Some m')"
| "metadata_after (tok # toks) m = metadata_after toks m"

lemma fold_transaction: "ctx_transaction_desc (fold context_effect toks ctx) = transaction_after toks (ctx_transaction_desc ctx)"
  by (induction toks "ctx_transaction_desc ctx" arbitrary: ctx rule: transaction_after.induct) (simp_all add: context_setters)

lemma fold_metadata: "ctx_last_meta (fold context_effect toks ctx) = metadata_after toks (ctx_last_meta ctx)"
proof (induction toks arbitrary: ctx)
  case (Cons tok toks)
  then show ?case
    by (cases tok rule: context_effect.cases) (simp_all add: context_setters)
qed simp

lemma forR_length: "forR f xs s = (Ok ys, s') \<Longrightarrow> length ys = length xs"
  by (induction xs arbitrary: s ys) (auto simp: bindR_eq_Ok retR_eq_Ok)

lemma row_lengths:
  "TokenRow_decode env meta s = (Ok row, s') \<Longrightarrow> \<exists>m. meta = Some m \<and> length row = length (tcm_columns m)"
  "TokenRow_decode_nbc env meta s = (Ok row, s') \<Longrightarrow> \<exists>m. meta = Some m \<and> length row = length (tcm_columns m)"
  by (auto simp: TokenRow_decode_def TokenRow_decode_nbc_def bindR_eq_Ok ok_or_Ok dest!: forR_length)

lemma ts_read_OkE:
  assumes "ts_read m ts = (Ok a, ts')"
  obtains s where "m (ts_stream ts) = (Ok a, s)"
  using assms by (auto simp: ts_read_def over_conn_def split: prod.splits)

lemma receive_row:
  assumes "receive env ts = (Ok (Some (RowToken row)), ts')"
  shows "\<exists>m. ctx_last_meta (ts_context ts) = Some m \<and> length row = length (tcm_columns m)"
proof -
  from assms have "\<not> is_eof (ts_conn ts)" by (auto simp: receive_def split: if_splits option.splits)
  with assms obtain b ts1 ty where 1: "ts_read read_u8 ts = (Ok b, ts1)" "get_token env ty ts1 = (Ok (RowToken row), ts')"
    by (auto simp: receive_def bindR_eq_Ok retR_eq_Ok ok_or_Ok)
  have "\<exists>m. ctx_last_meta (ts_context ts1) = Some m \<and> length row = length (tcm_columns m)"
    using 1(2) by (cases ty) (auto simp: handler_defs thenR_def bindR_eq_Ok retR_eq_Ok ts_with_context_def elim!: ts_read_OkE dest!: row_lengths)
  then show ?thesis using ts_read_view [OF 1(1)] by simp
qed

text \<open>C10: The session follows the tokens. After any tokens, the transaction descriptor sent with the next request is the one of
  the last transaction begun, and zero when that transaction was committed, rolled back or lost; a row has
  exactly one value for each column of the result set announced last, and no row is delivered when none was
  announced; and the packet size is one the protocol allows. (The marked last packet of the response is not empty.)\<close>

theorem session_follows_tokens:
  assumes "framed c" "context_ok (conn_context c)" "emits env (TokenStream_new c) toks ts"
  shows "ctx_transaction_desc (ts_context ts) = transaction_after toks (ctx_transaction_desc (conn_context c)) \<and>
    (\<forall>row ts'. receive env ts = (Ok (Some (RowToken row)), ts') \<longrightarrow>
       (\<exists>m. metadata_after toks (ctx_last_meta (conn_context c)) = Some m \<and> length row = length (tcm_columns m))) \<and>
    512 \<le> ctx_packet_size (ts_context ts) \<and> ctx_packet_size (ts_context ts) \<le> 32767"
proof -
  have "ts_ok (TokenStream_new c)" using assms(1,2) by (simp add: ts_ok_def TokenStream_new_def)
  then have "context_ok (ts_context ts)" using emits_ok [OF assms(3)] by (simp add: ts_ok_def)
  moreover have "ts_context ts = fold context_effect toks (conn_context c)"
    using emits_effect [OF assms(3)] by (simp add: TokenStream_new_def)
  ultimately show ?thesis using receive_row [of env ts] by (auto simp: context_ok_def fold_transaction fold_metadata)
qed

theorem session_follows_tokens_witness:
  "\<forall>env. let c = Connection_new False Context_new (reply [0xE3, 11, 0, 8, 8, 1, 2, 3, 4, 5, 6, 7, 8, 0]) in
   \<exists>ts. emits env (TokenStream_new c) [EnvChangeToken (BeginTransactionChange [1, 2, 3, 4, 5, 6, 7, 8])] ts \<and>
     ctx_transaction_desc (ts_context ts) = [1, 2, 3, 4, 5, 6, 7, 8]"
proof
  fix env
  let ?c = "Connection_new False Context_new (reply [0xE3, 11, 0, 8, 8, 1, 2, 3, 4, 5, 6, 7, 8, 0])"
  let ?tok = "EnvChangeToken (BeginTransactionChange [1, 2, 3, 4, 5, 6, 7, 8])"
  obtain ts where "receive env (TokenStream_new ?c) = (Ok (Some ?tok), ts)"
    by (simp add: stream_eval TokenEnvChange_decode_def env_change_parse_def on_buffer_def liftR_def EnvChangeTy_try_from_def EnvChangeTy_variants_def
        thenR_def ts_update_def fixed_reader_defs read_le_def read_n_def wire_simps wire_eval)
  then have e: "emits env (TokenStream_new ?c) [?tok] ts" by (auto simp: emits_Cons emits_Nil)
  have "framed ?c" "context_ok (conn_context ?c)" using context_ok_new by (auto intro: framed_reply)
  from session_follows_tokens [OF this e] e
  show "let c = ?c in \<exists>ts. emits env (TokenStream_new c) [?tok] ts \<and> ctx_transaction_desc (ts_context ts) = [1, 2, 3, 4, 5, 6, 7, 8]"
    unfolding Let_def by auto
qed

end
