(* ===== verification/Tds_Login.thy ===== *)
theory Tds_Login
  imports Tds_Responses
begin

text \<open>
  The login message of \<^verbatim>\<open>tds/codec/login.rs\<close>: the LOGIN7 record and its encoder, which writes a table of
  offsets and lengths and, jumping back and forth in a cursor over one preallocated buffer, the data the table points to.
  The name of the host (\<^verbatim>\<open>gethostname\<close>) is an argument.
\<close>

section \<open>The message\<close>

definition OptionFlag1_UseDbNotify :: u8 where "OptionFlag1_UseDbNotify = push_bit 5 1"
definition OptionFlag1_InitDbFatal :: u8 where "OptionFlag1_InitDbFatal = push_bit 6 1"
definition OptionFlag2_InitLangFatal :: u8 where "OptionFlag2_InitLangFatal = push_bit 0 1"
definition OptionFlag2_OdbcDriver :: u8 where "OptionFlag2_OdbcDriver = push_bit 1 1"
definition OptionFlag2_IntegratedSecurity :: u8 where "OptionFlag2_IntegratedSecurity = push_bit 7 1"
definition OptionFlag3_UnknownCollationHandling :: u8 where "OptionFlag3_UnknownCollationHandling = push_bit 3 1"
definition OptionFlag3_ExtensionUsed :: u8 where "OptionFlag3_ExtensionUsed = push_bit 4 1"
definition LoginTypeFlag_ReadOnlyIntent :: u8 where "LoginTypeFlag_ReadOnlyIntent = push_bit 5 1"
definition FED_AUTH_LIBRARYSECURITYTOKEN :: u8 where "FED_AUTH_LIBRARYSECURITYTOKEN = 0x01"

record FedAuthExt =
  fa_echo :: bool
  fa_token :: rstring
  fa_nonce :: "bytes option"

record LoginMessage =
  lm_tds_version :: FeatureLevel
  lm_packet_size :: u32
  lm_client_prog_ver :: u32
  lm_client_pid :: u32
  lm_connection_id :: u32
  lm_option_flags_1 :: u8
  lm_option_flags_2 :: u8
  lm_integrated_security :: "bytes option"
  lm_type_flags :: u8
  lm_option_flags_3 :: u8
  lm_client_timezone :: u32
  lm_client_lcid :: u32
  lm_hostname :: rstring
  lm_username :: rstring
  lm_password :: rstring
  lm_app_name :: rstring
  lm_server_name :: rstring
  lm_db_name :: rstring
  lm_fed_auth_ext :: "FedAuthExt option"

definition LoginMessage_new :: "rstring \<Rightarrow> LoginMessage" where
  "LoginMessage_new host =
     \<lparr>lm_tds_version = SqlServerN, lm_packet_size = 4096, lm_client_prog_ver = 0, lm_client_pid = 0, lm_connection_id = 0,
      lm_option_flags_1 = or OptionFlag1_UseDbNotify OptionFlag1_InitDbFatal,
      lm_option_flags_2 = or OptionFlag2_InitLangFatal OptionFlag2_OdbcDriver,
      lm_integrated_security = None, lm_type_flags = 0, lm_option_flags_3 = OptionFlag3_UnknownCollationHandling,
      lm_client_timezone = 0, lm_client_lcid = 0, lm_hostname = host, lm_username = [], lm_password = [],
      lm_app_name = lit ''tiberius'', lm_server_name = [], lm_db_name = [], lm_fed_auth_ext = None\<rparr>"

definition login_integrated_security :: "bytes option \<Rightarrow> LoginMessage \<Rightarrow> LoginMessage" where
  "login_integrated_security bs m =
     m\<lparr>lm_option_flags_2 :=
         (if bs \<noteq> None then or (lm_option_flags_2 m) OptionFlag2_IntegratedSecurity
          else and (lm_option_flags_2 m) (not OptionFlag2_IntegratedSecurity)),
       lm_integrated_security := bs\<rparr>"

definition login_app_name :: "rstring \<Rightarrow> LoginMessage \<Rightarrow> LoginMessage" where
  "login_app_name s m = m\<lparr>lm_app_name := s\<rparr>"

definition login_db_name :: "rstring \<Rightarrow> LoginMessage \<Rightarrow> LoginMessage" where
  "login_db_name s m = m\<lparr>lm_db_name := s\<rparr>"

definition login_server_name :: "rstring \<Rightarrow> LoginMessage \<Rightarrow> LoginMessage" where
  "login_server_name s m = m\<lparr>lm_server_name := s\<rparr>"

definition login_hostname :: "rstring \<Rightarrow> LoginMessage \<Rightarrow> LoginMessage" where
  "login_hostname s m = m\<lparr>lm_hostname := s\<rparr>"

definition login_user_name :: "rstring \<Rightarrow> LoginMessage \<Rightarrow> LoginMessage" where
  "login_user_name s m = m\<lparr>lm_username := s\<rparr>"

definition login_password :: "rstring \<Rightarrow> LoginMessage \<Rightarrow> LoginMessage" where
  "login_password s m = m\<lparr>lm_password := s\<rparr>"

definition login_aad_token :: "rstring \<Rightarrow> bool \<Rightarrow> bytes option \<Rightarrow> LoginMessage \<Rightarrow> LoginMessage" where
  "login_aad_token token echo nonce m =
     m\<lparr>lm_option_flags_3 := or (lm_option_flags_3 m) OptionFlag3_ExtensionUsed,
       lm_fed_auth_ext := Some \<lparr>fa_echo = echo, fa_token = token, fa_nonce = nonce\<rparr>\<rparr>"

definition login_readonly :: "bool \<Rightarrow> LoginMessage \<Rightarrow> LoginMessage" where
  "login_readonly readonly m =
     m\<lparr>lm_type_flags :=
         (if readonly then or (lm_type_flags m) LoginTypeFlag_ReadOnlyIntent
          else and (lm_type_flags m) (not LoginTypeFlag_ReadOnlyIntent))\<rparr>"

definition login_packet_size :: "u32 \<Rightarrow> LoginMessage \<Rightarrow> LoginMessage" where
  "login_packet_size n m = m\<lparr>lm_packet_size := n\<rparr>"

section \<open>The encoder\<close>

definition FIXED_OVERHEAD :: nat where "FIXED_OVERHEAD = 94"

definition utf16_len :: "rstring \<Rightarrow> nat" where
  "utf16_len s = length (encode_utf16 s) * 2"

definition encoded_len :: "LoginMessage \<Rightarrow> nat" where
  "encoded_len m =
     FIXED_OVERHEAD + utf16_len (lm_hostname m) + utf16_len (lm_username m) + utf16_len (lm_password m) + utf16_len (lm_app_name m)
     + utf16_len (lm_server_name m) + utf16_len (lm_db_name m)
     + (case lm_integrated_security m of Some bs \<Rightarrow> length bs | None \<Rightarrow> 0)
     + (case lm_fed_auth_ext m of
          Some ext \<Rightarrow> 15 + utf16_len (fa_token ext) + (if fa_nonce ext \<noteq> None then 32 else 0)
        | None \<Rightarrow> 0)"

text \<open>A cursor over a growing buffer: a write beyond the end fills the gap with zeros.\<close>

type_synonym cursor = "bytes \<times> nat"

definition overwrite :: "nat \<Rightarrow> bytes \<Rightarrow> bytes \<Rightarrow> bytes" where
  "overwrite pos bs buf = take pos (buf @ replicate (pos - length buf) 0) @ bs @ drop (pos + length bs) buf"

definition cursor_write :: "bytes \<Rightarrow> (cursor, unit) comp" where
  "cursor_write bs c = (case c of (buf, pos) \<Rightarrow> (Ok (), (overwrite pos bs buf, pos + length bs)))"

definition cursor_position :: "(cursor, nat) comp" where
  "cursor_position c = (Ok (snd c), c)"

definition set_position :: "nat \<Rightarrow> (cursor, unit) comp" where
  "set_position pos c = (Ok (), (fst c, pos))"

definition write_utf16 :: "rstring \<Rightarrow> (cursor, unit) comp" where
  "write_utf16 s = eachR (\<lambda>u. cursor_write (le_bytes 2 u)) (encode_utf16 s)"

definition scramble_byte :: "u8 \<Rightarrow> u8" where
  "scramble_byte b = xor (or (and (push_bit 4 b) 0xf0) (and (drop_bit 4 b) 0x0f)) 0xA5"

definition scramble_range :: "nat \<Rightarrow> nat \<Rightarrow> (cursor, unit) comp" where
  "scramble_range from till c =
     (case c of (buf, pos) \<Rightarrow>
        (Ok (), (take from buf @ map scramble_byte (drop from (take till buf)) @ drop (max from till) buf, pos)))"

text \<open>One round of the loop over the table: the two offsets are its state.\<close>

definition login_entry :: "LoginMessage \<Rightarrow> nat \<times> rstring \<Rightarrow> nat \<times> nat \<Rightarrow> (cursor, nat \<times> nat) comp" where
  "login_entry m iv st =
     (case (iv, st) of ((i, value), (data_offset, fea_ext_offset)) \<Rightarrow>
        bindR cursor_position (\<lambda>here.
        let fea_ext_offset = (if i = 5 then here else fea_ext_offset) in
        if i = 9 then
          thenR (cursor_write (le_bytes 4 (0 :: u32))) (thenR (cursor_write (le_bytes 2 (42 :: u16))) (retR (data_offset, fea_ext_offset)))
        else
          thenR (cursor_write (le_bytes 2 (of_nat data_offset :: u16)))
           (if i = 10 then
              (case lm_integrated_security m of
                 Some bs \<Rightarrow>
                   bindR cursor_position (\<lambda>bak.
                   thenR (set_position data_offset) (thenR (cursor_write bs) (thenR (set_position bak)
                     (thenR (cursor_write (le_bytes 2 (of_nat (length bs) :: u16))) (retR (data_offset + length bs, fea_ext_offset))))))
               | None \<Rightarrow> thenR (cursor_write (le_bytes 2 (0 :: u16))) (retR (data_offset, fea_ext_offset)))
            else
              bindR cursor_position (\<lambda>bak.
              thenR (set_position data_offset) (thenR (write_utf16 value) (bindR cursor_position (\<lambda>new_position.
              thenR (if i = 2 then scramble_range data_offset new_position else retR ())
               (let len = new_position - data_offset in
                thenR (set_position bak)
               (thenR (cursor_write (le_bytes 2 ((of_nat len :: u16) div 2))) (retR (data_offset + len, fea_ext_offset)))))))))))"

primrec login_entries :: "LoginMessage \<Rightarrow> (nat \<times> rstring) list \<Rightarrow> nat \<times> nat \<Rightarrow> (cursor, nat \<times> nat) comp" where
  "login_entries m [] st = retR st"
| "login_entries m (iv # ivs) st = bindR (login_entry m iv st) (login_entries m ivs)"

definition login_var_data :: "LoginMessage \<Rightarrow> rstring list" where
  "login_var_data m =
     [lm_hostname m, lm_username m, lm_password m, lm_app_name m, lm_server_name m, [], [], [], lm_db_name m, [], [], [], []]"

definition login_header :: "LoginMessage \<Rightarrow> (cursor, unit) comp" where
  "login_header m =
     thenR (cursor_write (le_bytes 4 (0 :: u32)))
    (thenR (cursor_write (le_bytes 4 (FeatureLevel_value (lm_tds_version m))))
    (thenR (cursor_write (le_bytes 4 (lm_packet_size m)))
    (thenR (cursor_write (le_bytes 4 (lm_client_prog_ver m)))
    (thenR (cursor_write (le_bytes 4 (lm_client_pid m)))
    (thenR (cursor_write (le_bytes 4 (lm_connection_id m)))
    (thenR (cursor_write [lm_option_flags_1 m])
    (thenR (cursor_write [lm_option_flags_2 m])
    (thenR (cursor_write [lm_type_flags m])
    (thenR (cursor_write [lm_option_flags_3 m])
    (thenR (cursor_write (le_bytes 4 (lm_client_timezone m)))
           (cursor_write (le_bytes 4 (lm_client_lcid m)))))))))))))"

definition login_fed_auth :: "FedAuthExt \<Rightarrow> nat \<Rightarrow> nat \<Rightarrow> (cursor, unit) comp" where
  "login_fed_auth ext data_offset fea_ext_offset =
     (let token = utf16_bytes (fa_token ext);
          feature_ext_length = 1 + 4 + length token + (if fa_nonce ext \<noteq> None then 32 else 0);
          options = push_bit 1 FED_AUTH_LIBRARYSECURITYTOKEN in
      thenR (set_position fea_ext_offset)
     (thenR (cursor_write (le_bytes 2 (of_nat data_offset :: u16)))
     (thenR (cursor_write (le_bytes 2 (4 :: u16)))
     (thenR (set_position data_offset)
     (thenR (cursor_write (le_bytes 4 (of_nat (data_offset + 4) :: u32)))
     (thenR (cursor_write [FEA_EXT_FEDAUTH])
     (thenR (cursor_write (le_bytes 4 (of_nat feature_ext_length :: u32)))
     (thenR (cursor_write [if fa_echo ext then or options 1 else options])
     (thenR (cursor_write (le_bytes 4 (of_nat (length token) :: u32)))
     (thenR (cursor_write token)
     (thenR (case fa_nonce ext of Some nonce \<Rightarrow> cursor_write nonce | None \<Rightarrow> retR ())
            (cursor_write [FEA_EXT_TERMINATOR]))))))))))))"

definition login_body :: "LoginMessage \<Rightarrow> (cursor, unit) comp" where
  "login_body m =
     thenR (login_header m)
    (bindR cursor_position (\<lambda>here.
     bindR (login_entries m (enumerate 0 (login_var_data m)) (here + length (login_var_data m) * 2 * 2 + 6, 0)) (\<lambda>st.
     case st of (data_offset, fea_ext_offset) \<Rightarrow>
     thenR (cursor_write (le_bytes 4 (0 :: u32)))
    (thenR (case lm_fed_auth_ext m of Some ext \<Rightarrow> login_fed_auth ext data_offset fea_ext_offset | None \<Rightarrow> retR ())
    (thenR (set_position 0)
       (\<lambda>c. cursor_write (le_bytes 4 (of_nat (length (fst c)) :: u32)) c))))))"

text \<open>The buffer is allocated with room for \<open>encoded_len\<close> bytes; when it had to grow, the final assertion fires.\<close>

definition encode_to_boxed_slice :: "LoginMessage \<Rightarrow> bytes res" where
  "encode_to_boxed_slice m =
     (case login_body m ([], 0) of
        (Ok _, (buf, _)) \<Rightarrow> if length buf > encoded_len m then Panic else Ok buf
      | (Err e, _) \<Rightarrow> Err e | (Panic, _) \<Rightarrow> Panic | (Diverge, _) \<Rightarrow> Diverge)"

definition LoginMessage_encode :: "LoginMessage \<Rightarrow> (bytes, unit) comp" where
  "LoginMessage_encode m = bindR (liftR (encode_to_boxed_slice m)) put_bytes"

section \<open>Writing around in the buffer\<close>

text \<open>The first 94 bytes are the header and the table. Filling them up with zeros beforehand makes no difference
  in the end, and makes every write either an append or a replacement of zeros.\<close>

definition padded :: "bytes \<Rightarrow> bytes" where
  "padded buf = buf @ replicate (94 - length buf) 0"

lemma length_overwrite: "length (overwrite pos bs buf) = max (pos + length bs) (length buf)"
  by (auto simp: overwrite_def)

lemma overwrite_nth: "k < length (overwrite pos bs buf) \<Longrightarrow> overwrite pos bs buf ! k =
    (if pos \<le> k \<and> k < pos + length bs then bs ! (k - pos) else if k < length buf then buf ! k else 0)"
  by (auto simp: overwrite_def nth_append min_def length_overwrite not_less)

lemma padded_nth: "k < length (padded buf) \<Longrightarrow> padded buf ! k = (if k < length buf then buf ! k else 0)"
  by (auto simp: padded_def nth_append)

lemma length_padded: "length (padded buf) = max 94 (length buf)"
  by (auto simp: padded_def)

lemma padded_overwrite:
  assumes "pos + length bs \<le> 94 \<or> pos = length (padded buf)"
  shows "padded (overwrite pos bs buf) = overwrite pos bs (padded buf)"
  using assms
  by (intro nth_equalityI) (auto simp: padded_nth overwrite_nth length_padded length_overwrite)

lemma overwrite_append: "pos = length buf \<Longrightarrow> overwrite pos bs buf = buf @ bs"
  by (simp add: overwrite_def)

lemma overwrite_zeros:
  assumes "length X = pos" "length bs \<le> n"
  shows "overwrite pos bs (X @ replicate n 0 @ Y) = (X @ bs) @ replicate (n - length bs) 0 @ Y"
  using assms by (simp add: overwrite_def)

lemma padded_id: "94 \<le> length buf \<Longrightarrow> padded buf = buf"
  by (simp add: padded_def)

lemma write_utf16_padded:
  assumes "pos = length (padded buf)"
  shows "\<exists>buf'. write_utf16 s (buf, pos) = (Ok (), (buf', pos + length (utf16_bytes s))) \<and> padded buf' = padded buf @ utf16_bytes s"
proof -
  have "\<exists>buf'. eachR (\<lambda>u. cursor_write (le_bytes 2 u)) us (buf, pos) = (Ok (), (buf', pos + 2 * length us)) \<and>
      padded buf' = padded buf @ concat (map (le_bytes 2) us)" for us :: "u16 list"
    using assms
  proof (induction us arbitrary: buf pos)
    case (Cons u us)
    let ?b = "overwrite pos (le_bytes 2 u) buf"
    have p: "padded ?b = padded buf @ le_bytes 2 u" using Cons.prems by (simp add: padded_overwrite overwrite_append)
    then have "pos + 2 = length (padded ?b)" using Cons.prems by simp
    from Cons.IH [OF this] p show ?case by (auto simp: cursor_write_def thenR_def bindR_def)
  qed (simp add: retR_def)
  from this [of "encode_utf16 s"] show ?thesis by (simp add: write_utf16_def utf16_bytes_def length_utf16_bytes)
qed

lemma scramble_padded:
  assumes "from = length (padded buf0)" "padded buf = padded buf0 @ bs" "till = from + length bs"
  shows "\<exists>buf'. scramble_range from till (buf, pos) = (Ok (), (buf', pos)) \<and> padded buf' = padded buf0 @ map scramble_byte bs"
proof (cases "bs = []")
  case True
  with assms show ?thesis by (auto simp: scramble_range_def)
next
  case False
  then have "94 < length (padded buf)" using assms(2) by (cases bs) (simp_all add: length_padded)
  then have "padded buf = buf" by (simp add: length_padded padded_id)
  with assms show ?thesis by (auto simp: scramble_range_def padded_id length_padded)
qed

section \<open>The table\<close>

text \<open>What a round adds to the table and to the data.\<close>

definition field_bytes :: "nat \<Rightarrow> rstring \<Rightarrow> bytes" where
  "field_bytes i value = (if i = 2 then map scramble_byte (utf16_bytes value) else utf16_bytes value)"

definition sspi_bytes :: "LoginMessage \<Rightarrow> bytes" where
  "sspi_bytes m = (case lm_integrated_security m of Some bs \<Rightarrow> bs | None \<Rightarrow> [])"

definition layout_step :: "LoginMessage \<Rightarrow> nat \<times> rstring \<Rightarrow> bytes \<times> bytes \<times> nat \<Rightarrow> bytes \<times> bytes \<times> nat" where
  "layout_step m iv st =
     (case (iv, st) of ((i, value), (tab, dat, fea)) \<Rightarrow>
        let fea = (if i = 5 then 36 + length tab else fea); off = le_bytes 2 (of_nat (94 + length dat) :: u16) in
        if i = 9 then (tab @ le_bytes 4 (0 :: u32) @ le_bytes 2 (42 :: u16), dat, fea)
        else if i = 10 then (tab @ off @ le_bytes 2 (of_nat (length (sspi_bytes m)) :: u16), dat @ sspi_bytes m, fea)
        else (tab @ off @ le_bytes 2 ((of_nat (length (field_bytes i value)) :: u16) div 2), dat @ field_bytes i value, fea))"

definition laid_out :: "bytes \<Rightarrow> bytes \<times> bytes \<times> nat \<Rightarrow> cursor \<Rightarrow> nat \<times> nat \<Rightarrow> bool" where
  "laid_out hdr st c offs \<longleftrightarrow>
     (case (st, c) of ((tab, dat, fea), (buf, pos)) \<Rightarrow>
        length hdr = 36 \<and> length tab \<le> 58 \<and> padded buf = (hdr @ tab) @ replicate (58 - length tab) 0 @ dat \<and>
        pos = 36 + length tab \<and> offs = (94 + length dat, fea))"

lemma table_write:
  assumes "laid_out hdr (tab, dat, fea) (buf, pos) offs" "length tab + length bs \<le> 58"
  shows "\<exists>buf'. cursor_write bs (buf, pos) = (Ok (), (buf', pos + length bs)) \<and> laid_out hdr (tab @ bs, dat, fea) (buf', pos + length bs) offs"
  using assms overwrite_zeros [of "hdr @ tab" pos bs "58 - length tab" dat] padded_overwrite [of pos bs buf]
  by (auto simp: laid_out_def cursor_write_def)

lemma data_write:
  assumes "laid_out hdr (tab, dat, fea) (buf, pos) (off, fea)" "padded buf' = padded buf @ bs"
  shows "laid_out hdr (tab, dat @ bs, fea) (buf', pos) (off + length bs, fea)"
  using assms by (simp add: laid_out_def)

lemma laid_out_data: "laid_out hdr (tab, dat, fea) (buf, pos) (off, fe) \<Longrightarrow> off = length (padded buf) \<and> off = 94 + length dat \<and> pos = 36 + length tab \<and> fe = fea"
  by (auto simp: laid_out_def)

lemma laid_out_fea: "laid_out hdr (tab, dat, fea) c (off, fe) \<Longrightarrow> laid_out hdr (tab, dat, fea') c (off, fea')"
  by (auto simp: laid_out_def)

lemma overwrite_nothing: "pos = length (padded buf) \<Longrightarrow> padded (overwrite pos bs buf) = padded buf @ bs"
  by (simp add: padded_overwrite overwrite_append)

lemmas entry_simps = login_entry_def layout_step_def cursor_position_def set_position_def bindR_def thenR_def retR_def Let_def

lemma login_entry_client_id:
  assumes lo: "laid_out hdr (tab, dat, fea) (buf, pos) (off, fea)" and room: "length tab + 6 \<le> 58"
  shows "\<exists>c offs. login_entry m (9, value) (off, fea) (buf, pos) = (Ok offs, c) \<and> laid_out hdr (layout_step m (9, value) (tab, dat, fea)) c offs"
proof -
  obtain b1 where b1: "cursor_write (le_bytes 4 (0 :: u32)) (buf, pos) = (Ok (), (b1, pos + 4))"
      "laid_out hdr (tab @ le_bytes 4 (0 :: u32), dat, fea) (b1, pos + 4) (off, fea)"
    using table_write [OF lo, of "le_bytes 4 (0 :: u32)"] room by auto
  obtain b2 where "cursor_write (le_bytes 2 (42 :: u16)) (b1, pos + 4) = (Ok (), (b2, pos + 4 + 2))"
      "laid_out hdr ((tab @ le_bytes 4 (0 :: u32)) @ le_bytes 2 (42 :: u16), dat, fea) (b2, pos + 4 + 2) (off, fea)"
    using table_write [OF b1(2), of "le_bytes 2 (42 :: u16)"] room by auto
  with b1 show ?thesis by (simp add: entry_simps)
qed

lemma entry_offset:
  assumes "laid_out hdr (tab, dat, fea) (buf, pos) (off, fea)" "length tab + 4 \<le> 58"
  obtains b1 where "cursor_write (le_bytes 2 (of_nat off :: u16)) (buf, pos) = (Ok (), (b1, pos + 2))"
    "laid_out hdr (tab @ le_bytes 2 (of_nat off :: u16), dat, fea) (b1, pos + 2) (off, fea)" "off = length (padded b1)" "off = 94 + length dat"
proof -
  obtain b1 where "cursor_write (le_bytes 2 (of_nat off :: u16)) (buf, pos) = (Ok (), (b1, pos + 2))"
    "laid_out hdr (tab @ le_bytes 2 (of_nat off :: u16), dat, fea) (b1, pos + 2) (off, fea)"
    using table_write [OF assms(1), of "le_bytes 2 (of_nat off :: u16)"] assms(2) by auto
  then show ?thesis using that laid_out_data by blast
qed

lemma login_entry_sspi:
  assumes lo: "laid_out hdr (tab, dat, fea) (buf, pos) (off, fea)" and room: "length tab + 4 \<le> 58"
  shows "\<exists>c offs. login_entry m (10, value) (off, fea) (buf, pos) = (Ok offs, c) \<and> laid_out hdr (layout_step m (10, value) (tab, dat, fea)) c offs"
proof -
  let ?o = "le_bytes 2 (of_nat off :: u16)" and ?l = "le_bytes 2 (of_nat (length (sspi_bytes m)) :: u16)"
  obtain b1 where b1: "cursor_write ?o (buf, pos) = (Ok (), (b1, pos + 2))" "laid_out hdr (tab @ ?o, dat, fea) (b1, pos + 2) (off, fea)"
      "off = length (padded b1)" "off = 94 + length dat"
    by (rule entry_offset [OF lo room])
  show ?thesis
  proof (cases "lm_integrated_security m")
    case None
    obtain b3 where "cursor_write ?l (b1, pos + 2) = (Ok (), (b3, pos + 2 + 2))" "laid_out hdr ((tab @ ?o) @ ?l, dat, fea) (b3, pos + 2 + 2) (off, fea)"
      using table_write [OF b1(2), of ?l] room by auto
    then show ?thesis using b1(1,4) None by (simp add: entry_simps sspi_bytes_def)
  next
    case (Some sspi)
    let ?b2 = "overwrite off (sspi_bytes m) b1"
    have b2: "laid_out hdr (tab @ ?o, dat @ sspi_bytes m, fea) (?b2, pos + 2) (off + length (sspi_bytes m), fea)"
      using data_write [OF b1(2) overwrite_nothing [OF b1(3)]] .
    obtain b3 where "cursor_write ?l (?b2, pos + 2) = (Ok (), (b3, pos + 2 + 2))"
        "laid_out hdr ((tab @ ?o) @ ?l, dat @ sspi_bytes m, fea) (b3, pos + 2 + 2) (off + length (sspi_bytes m), fea)"
      using table_write [OF b2, of ?l] room by auto
    then show ?thesis using b1(1,4) Some by (simp add: entry_simps cursor_write_def [of sspi] sspi_bytes_def)
  qed
qed

lemma login_entry_string:
  assumes lo: "laid_out hdr (tab, dat, fe) (buf, pos) (off, fe)" and room: "length tab + 4 \<le> 58" and i: "i \<noteq> 9" "i \<noteq> 10"
    and fe: "fe = (if i = 5 then 36 + length tab else fea)"
  shows "\<exists>c offs. login_entry m (i, value) (off, fea) (buf, pos) = (Ok offs, c) \<and> laid_out hdr (layout_step m (i, value) (tab, dat, fea)) c offs"
proof -
  let ?o = "le_bytes 2 (of_nat off :: u16)" and ?f = "field_bytes i value"
  obtain b1 where b1: "cursor_write ?o (buf, pos) = (Ok (), (b1, pos + 2))" "laid_out hdr (tab @ ?o, dat, fe) (b1, pos + 2) (off, fe)"
      "off = length (padded b1)" "off = 94 + length dat"
    by (rule entry_offset [OF lo room])
  obtain b2 where b2: "write_utf16 value (b1, off) = (Ok (), (b2, off + length (utf16_bytes value)))" "padded b2 = padded b1 @ utf16_bytes value"
    using write_utf16_padded [OF b1(3)] by auto
  have flen: "length ?f = length (utf16_bytes value)" by (simp add: field_bytes_def)
  have "\<exists>b3. (if i = 2 then scramble_range off (off + length ?f) else retR ()) (b2, off + length ?f) = (Ok (), (b3, off + length ?f)) \<and>
      padded b3 = padded b1 @ ?f"
    using scramble_padded [OF b1(3) b2(2) refl, of "off + length ?f"] b2(2) flen
    by (cases "i = 2") (auto simp: field_bytes_def retR_def)
  then obtain b3 where b3: "(if i = 2 then scramble_range off (off + length ?f) else retR ()) (b2, off + length ?f) = (Ok (), (b3, off + length ?f))"
      "padded b3 = padded b1 @ ?f" by blast
  have l3: "laid_out hdr (tab @ ?o, dat @ ?f, fe) (b3, pos + 2) (off + length ?f, fe)" using data_write [OF b1(2) b3(2)] .
  let ?l = "le_bytes 2 ((of_nat (length ?f) :: u16) div 2)"
  obtain b4 where "cursor_write ?l (b3, pos + 2) = (Ok (), (b4, pos + 2 + 2))"
      "laid_out hdr ((tab @ ?o) @ ?l, dat @ ?f, fe) (b4, pos + 2 + 2) (off + length ?f, fe)"
    using table_write [OF l3, of ?l] room by auto
  moreover have "pos = 36 + length tab" using laid_out_data [OF lo] by simp
  ultimately show ?thesis using i fe b1(1,4) b2(1) b3(1) flen
    by (cases "i = 2"; cases "i = 5") (simp_all add: entry_simps)
qed

lemma login_entry_step:
  assumes lo: "laid_out hdr (tab, dat, fea) (buf, pos) (off, fea)" and room: "length tab + (if i = 9 then 6 else 4) \<le> 58"
  shows "\<exists>c offs. login_entry m (i, value) (off, fea) (buf, pos) = (Ok offs, c) \<and> laid_out hdr (layout_step m (i, value) (tab, dat, fea)) c offs"
  using login_entry_client_id [OF lo] login_entry_sspi [OF lo] login_entry_string [OF laid_out_fea [OF lo], of i] room
  by (cases "i = 9"; cases "i = 10") auto

lemma layout_step_tab: "layout_step m (i, v) (tab, dat, fea) = (tab', dat', fea') \<Longrightarrow> length tab' = length tab + (if i = 9 then 6 else 4)"
  by (auto simp: layout_step_def Let_def split: if_splits)

lemma login_entries_layout:
  "laid_out hdr st c offs \<Longrightarrow> length (fst st) + (\<Sum>(i, v)\<leftarrow>ivs. if i = 9 then 6 else 4) \<le> 58 \<Longrightarrow>
   \<exists>c' offs'. login_entries m ivs offs c = (Ok offs', c') \<and> laid_out hdr (fold (layout_step m) ivs st) c' offs'"
proof (induction ivs arbitrary: st c offs)
  case (Cons iv ivs)
  obtain tab dat fea buf pos i v where x: "st = (tab, dat, fea)" "c = (buf, pos)" "iv = (i, v)" by (cases st; cases c; cases iv) auto
  then obtain off where o: "offs = (off, fea)" using Cons.prems(1) by (auto simp: laid_out_def)
  have r: "length tab + (if i = 9 then 6 else 4) \<le> 58" using Cons.prems(2) x by auto
  obtain c1 offs1 where s: "login_entry m (i, v) (off, fea) (buf, pos) = (Ok offs1, c1)" "laid_out hdr (layout_step m (i, v) (tab, dat, fea)) c1 offs1"
    using login_entry_step [OF Cons.prems(1) [unfolded x o] r] by blast
  have "length (fst (layout_step m (i, v) (tab, dat, fea))) = length tab + (if i = 9 then 6 else 4)"
    using layout_step_tab by (metis prod.collapse)
  then have "length (fst (layout_step m (i, v) (tab, dat, fea))) + (\<Sum>(i, v)\<leftarrow>ivs. if i = 9 then 6 else 4) \<le> 58"
    using Cons.prems(2) x by simp
  from Cons.IH [OF s(2) this] s(1) show ?case using x o by (auto simp: bindR_def)
qed (auto simp: retR_def)

text \<open>The rows of the table for fields that lie one after the other.\<close>

fun tab_of :: "nat \<Rightarrow> bytes list \<Rightarrow> bytes" where
  "tab_of off [] = []"
| "tab_of off (f # fs) = le_bytes 2 (of_nat off :: u16) @ le_bytes 2 ((of_nat (length f) :: u16) div 2) @ tab_of (off + length f) fs"

definition name_fields :: "LoginMessage \<Rightarrow> bytes list" where
  "name_fields m = [utf16_bytes (lm_hostname m), utf16_bytes (lm_username m), map scramble_byte (utf16_bytes (lm_password m)),
     utf16_bytes (lm_app_name m), utf16_bytes (lm_server_name m)]"

definition login_data :: "LoginMessage \<Rightarrow> bytes" where
  "login_data m = concat (name_fields m) @ utf16_bytes (lm_db_name m) @ sspi_bytes m"

definition tab_tail :: "LoginMessage \<Rightarrow> bytes" where
  "tab_tail m =
     (let o5 = 94 + length (concat (name_fields m)); o9 = o5 + length (utf16_bytes (lm_db_name m)); o10 = o9 + length (sspi_bytes m) in
      tab_of o5 [[], [], utf16_bytes (lm_db_name m)] @ le_bytes 4 (0 :: u32) @ le_bytes 2 (42 :: u16)
      @ le_bytes 2 (of_nat o9 :: u16) @ le_bytes 2 (of_nat (length (sspi_bytes m)) :: u16) @ tab_of o10 [[], []] @ le_bytes 4 (0 :: u32))"

lemma length_tab_of [simp]: "length (tab_of off fs) = 4 * length fs"
  by (induction fs arbitrary: off) auto

lemma layout_fold:
  "\<exists>tab. fold (layout_step m) (enumerate 0 (login_var_data m)) ([], [], 0) = (tab, login_data m, 56) \<and> length tab = 54 \<and>
     tab @ le_bytes 4 (0 :: u32) = tab_of 94 (name_fields m) @ tab_of (94 + length (concat (name_fields m))) [[]] @ tab_tail m"
  by (simp add: login_var_data_def layout_step_def Let_def name_fields_def login_data_def tab_tail_def field_bytes_def utf16_bytes_def [of "[]"]
      add.assoc)

section \<open>The finished message\<close>

definition login_fixed :: "LoginMessage \<Rightarrow> bytes" where
  "login_fixed m =
     le_bytes 4 (FeatureLevel_value (lm_tds_version m)) @ le_bytes 4 (lm_packet_size m) @ le_bytes 4 (lm_client_prog_ver m)
     @ le_bytes 4 (lm_client_pid m) @ le_bytes 4 (lm_connection_id m)
     @ [lm_option_flags_1 m, lm_option_flags_2 m, lm_type_flags m, lm_option_flags_3 m]
     @ le_bytes 4 (lm_client_timezone m) @ le_bytes 4 (lm_client_lcid m)"

definition ext_entry :: "LoginMessage \<Rightarrow> bytes" where
  "ext_entry m =
     (case lm_fed_auth_ext m of
        None \<Rightarrow> tab_of (94 + length (concat (name_fields m))) [[]]
      | Some ext \<Rightarrow> le_bytes 2 (of_nat (94 + length (login_data m)) :: u16) @ le_bytes 2 (4 :: u16))"

definition fed_auth_data :: "FedAuthExt \<Rightarrow> bytes" where
  "fed_auth_data ext =
     (let token = utf16_bytes (fa_token ext) in
      [or (push_bit 1 FED_AUTH_LIBRARYSECURITYTOKEN) (if fa_echo ext then 1 else 0)] @ le_bytes 4 (of_nat (length token) :: u32) @ token
      @ (case fa_nonce ext of Some nonce \<Rightarrow> nonce | None \<Rightarrow> []))"

definition ext_data :: "LoginMessage \<Rightarrow> bytes" where
  "ext_data m =
     (case lm_fed_auth_ext m of
        None \<Rightarrow> []
      | Some ext \<Rightarrow> le_bytes 4 (of_nat (94 + length (login_data m) + 4) :: u32) @ [FEA_EXT_FEDAUTH]
          @ le_bytes 4 (of_nat (length (fed_auth_data ext)) :: u32) @ fed_auth_data ext @ [FEA_EXT_TERMINATOR])"

definition login_image :: "LoginMessage \<Rightarrow> bytes" where
  "login_image m =
     le_bytes 4 (of_nat (encoded_len m) :: u32) @ login_fixed m @ tab_of 94 (name_fields m) @ ext_entry m @ tab_tail m @ login_data m @ ext_data m"

text \<open>The nonce of the server is an array of 32 bytes.\<close>

definition nonce_ok :: "LoginMessage \<Rightarrow> bool" where
  "nonce_ok m \<longleftrightarrow> (\<forall>ext n. lm_fed_auth_ext m = Some ext \<longrightarrow> fa_nonce ext = Some n \<longrightarrow> length n = 32)"

lemma length_login_fixed: "length (login_fixed m) = 32"
  by (simp add: login_fixed_def)

lemma length_tab_tail: "length (tab_tail m) = 34"
  by (simp add: tab_tail_def Let_def)

lemma length_ext_entry: "length (ext_entry m) = 4"
  by (simp add: ext_entry_def split: option.split)

lemma length_name_fields: "length (name_fields m) = 5"
  by (simp add: name_fields_def)

lemma length_login_image: "nonce_ok m \<Longrightarrow> length (login_image m) = encoded_len m"
  by (auto simp: login_image_def encoded_len_def FIXED_OVERHEAD_def utf16_len_def length_login_fixed length_tab_tail length_ext_entry
      length_name_fields ext_data_def fed_auth_data_def login_data_def name_fields_def sspi_bytes_def length_utf16_bytes nonce_ok_def Let_def
      split: option.split)

lemma login_header_eq: "login_header m ([], 0) = (Ok (), (le_bytes 4 (0 :: u32) @ login_fixed m, 36))"
  by (simp add: login_header_def login_fixed_def cursor_write_def overwrite_append thenR_def bindR_def)

lemma overwrite_part: "length X = pos \<Longrightarrow> length old = length bs \<Longrightarrow> overwrite pos bs (X @ old @ Y) = X @ bs @ Y"
  by (simp add: overwrite_def)

lemma append_write: "pos = length buf \<Longrightarrow> cursor_write bs (buf, pos) = (Ok (), (buf @ bs, length (buf @ bs)))"
  by (simp add: cursor_write_def overwrite_append)

lemma login_fed_auth_eq:
  assumes "length X = 56" "length o1 = 2" "length o2 = 2" "off = length X + 4 + length Y" "\<And>n. fa_nonce ext = Some n \<Longrightarrow> length n = 32"
  shows "\<exists>pos'. login_fed_auth ext off 56 (X @ o1 @ o2 @ Y, pos) =
    (Ok (), (X @ (le_bytes 2 (of_nat off :: u16) @ le_bytes 2 (4 :: u16)) @ Y @ le_bytes 4 (of_nat (off + 4) :: u32) @ [FEA_EXT_FEDAUTH]
       @ le_bytes 4 (of_nat (length (fed_auth_data ext)) :: u32) @ fed_auth_data ext @ [FEA_EXT_TERMINATOR], pos'))"
proof -
  have 1: "cursor_write (le_bytes 2 (of_nat off :: u16)) (X @ o1 @ o2 @ Y, 56) = (Ok (), (X @ le_bytes 2 (of_nat off :: u16) @ o2 @ Y, 58))"
    using overwrite_part [OF assms(1), of o1 "le_bytes 2 (of_nat off :: u16)" "o2 @ Y"] assms(2) by (simp add: cursor_write_def)
  have 2: "cursor_write (le_bytes 2 (4 :: u16)) (X @ le_bytes 2 (of_nat off :: u16) @ o2 @ Y, 58) =
      (Ok (), (X @ le_bytes 2 (of_nat off :: u16) @ le_bytes 2 (4 :: u16) @ Y, 60))"
    using overwrite_part [of "X @ le_bytes 2 (of_nat off :: u16)" 58 o2 "le_bytes 2 (4 :: u16)" Y] assms(1,3) by (simp add: cursor_write_def)
  have len: "length (fed_auth_data ext) = 5 + length (utf16_bytes (fa_token ext)) + (if fa_nonce ext \<noteq> None then 32 else 0)"
    using assms(5) by (auto simp: fed_auth_data_def Let_def split: option.split)
  have o: "off = length (X @ le_bytes 2 (of_nat off :: u16) @ le_bytes 2 (4 :: u16) @ Y)" using assms(4) by simp
  show ?thesis
    unfolding login_fed_auth_def Let_def
    by (cases "fa_nonce ext")
      (simp_all add: thenR_def bindR_def retR_def set_position_def 1 2 append_write [OF o] append_write len
        fed_auth_data_def Let_def add.assoc assms(5))
qed

lemma tab_of_single: "tab_of off [[]] = le_bytes 2 (of_nat off :: u16) @ le_bytes 2 (0 :: u16)"
  by simp

lemma login_table_eq:
  "\<exists>c buf. login_header m ([], 0) = (Ok (), c) \<and> snd c = 36 \<and>
     bindR (login_entries m (enumerate 0 (login_var_data m)) (94, 0)) (\<lambda>st. thenR (cursor_write (le_bytes 4 (0 :: u32))) (retR st)) c =
       (Ok (94 + length (login_data m), 56), (buf, 94)) \<and>
     buf = (le_bytes 4 (0 :: u32) @ login_fixed m) @ tab_of 94 (name_fields m) @ tab_of (94 + length (concat (name_fields m))) [[]] @ tab_tail m @ login_data m"
proof -
  let ?hdr = "le_bytes 4 (0 :: u32) @ login_fixed m"
  have "laid_out ?hdr ([], [], 0) (?hdr, 36) (94, 0)" by (simp add: laid_out_def padded_def length_login_fixed)
  from login_entries_layout [OF this, of "enumerate 0 (login_var_data m)" m] obtain c offs where
    e: "login_entries m (enumerate 0 (login_var_data m)) (94, 0) (?hdr, 36) = (Ok offs, c)"
       "laid_out ?hdr (fold (layout_step m) (enumerate 0 (login_var_data m)) ([], [], 0)) c offs"
    by (auto simp: login_var_data_def)
  obtain tab where tab: "fold (layout_step m) (enumerate 0 (login_var_data m)) ([], [], 0) = (tab, login_data m, 56)" "length tab = 54"
      "tab @ le_bytes 4 (0 :: u32) = tab_of 94 (name_fields m) @ tab_of (94 + length (concat (name_fields m))) [[]] @ tab_tail m"
    using layout_fold by blast
  obtain buf pos where c: "c = (buf, pos)" by (cases c)
  have l: "laid_out ?hdr (tab, login_data m, 56) (buf, pos) offs" using e(2) tab(1) c by simp
  then have offs: "offs = (94 + length (login_data m), 56)" "pos = 90" using tab(2) by (auto simp: laid_out_def)
  obtain b where b: "cursor_write (le_bytes 4 (0 :: u32)) (buf, pos) = (Ok (), (b, 94))"
      "laid_out ?hdr (tab @ le_bytes 4 (0 :: u32), login_data m, 56) (b, 94) offs"
    using table_write [OF l, of "le_bytes 4 (0 :: u32)"] tab(2) offs(2) by auto
  have "94 \<le> length b" using b(1) offs(2) by (auto simp: cursor_write_def length_overwrite)
  then have "b = ?hdr @ (tab @ le_bytes 4 (0 :: u32)) @ login_data m" using b(2) tab(2) by (simp add: laid_out_def padded_id)
  then show ?thesis using e(1) c b(1) offs(1) unfolding tab(3) by (simp add: login_header_eq bindR_def thenR_def retR_def)
qed

lemma encode_login_image:
  assumes "nonce_ok m"
  shows "encode_to_boxed_slice m = Ok (login_image m)"
proof -
  obtain c buf where t: "login_header m ([], 0) = (Ok (), c)" "snd c = 36"
     "bindR (login_entries m (enumerate 0 (login_var_data m)) (94, 0)) (\<lambda>st. thenR (cursor_write (le_bytes 4 (0 :: u32))) (retR st)) c =
       (Ok (94 + length (login_data m), 56), (buf, 94))"
     "buf = (le_bytes 4 (0 :: u32) @ login_fixed m) @ tab_of 94 (name_fields m) @ tab_of (94 + length (concat (name_fields m))) [[]] @ tab_tail m @ login_data m"
    using login_table_eq by blast
  obtain c1 where c1: "login_entries m (enumerate 0 (login_var_data m)) (94, 0) c = (Ok (94 + length (login_data m), 56), c1)"
      "cursor_write (le_bytes 4 (0 :: u32)) c1 = (Ok (), (buf, 94))"
    using t(3) by (auto simp: bindR_eq_Ok thenR_def retR_eq_Ok)
  let ?full = "(le_bytes 4 (0 :: u32) @ login_fixed m) @ tab_of 94 (name_fields m) @ ext_entry m @ tab_tail m @ login_data m @ ext_data m"
  have fed: "\<exists>pos. (case lm_fed_auth_ext m of Some ext \<Rightarrow> login_fed_auth ext (94 + length (login_data m)) 56 | None \<Rightarrow> retR ()) (buf, 94) = (Ok (), (?full, pos))"
  proof (cases "lm_fed_auth_ext m")
    case None
    then show ?thesis using t(4) by (simp add: retR_def ext_entry_def ext_data_def)
  next
    case (Some ext)
    have n: "\<And>n. fa_nonce ext = Some n \<Longrightarrow> length n = 32" using assms Some by (simp add: nonce_ok_def)
    let ?X = "(le_bytes 4 (0 :: u32) @ login_fixed m) @ tab_of 94 (name_fields m)"
    have x: "length ?X = 56" by (simp add: length_login_fixed length_name_fields)
    have o: "94 + length (login_data m) = length ?X + 4 + length (tab_tail m @ login_data m)" using x by (simp add: length_tab_tail)
    show ?thesis
      using login_fed_auth_eq [where pos = 94, OF x _ _ o n, of "le_bytes 2 (of_nat (94 + length (concat (name_fields m))) :: u16)" "le_bytes 2 (0 :: u16)"] t(4) Some
      unfolding tab_of_single by (auto simp: ext_entry_def ext_data_def add.commute)
  qed
  have len: "length ?full = encoded_len m" using length_login_image [OF assms] by (simp add: login_image_def)
  have w: "overwrite 0 (le_bytes 4 (of_nat (encoded_len m) :: u32)) ?full = login_image m" by (simp add: overwrite_def login_image_def)
  have n: "length (login_var_data m) = 13" by (simp add: login_var_data_def)
  obtain pos where f: "(case lm_fed_auth_ext m of Some ext \<Rightarrow> login_fed_auth ext (94 + length (login_data m)) 56 | None \<Rightarrow> retR ()) (buf, 94) =
      (Ok (), (?full, pos))" using fed by blast
  have "login_body m ([], 0) = (Ok (), (login_image m, 4))"
    using t(1,2) c1 f len w n by (simp add: login_body_def thenR_def bindR_def cursor_position_def set_position_def cursor_write_def)
  then show ?thesis using length_login_image [OF assms] by (simp add: encode_to_boxed_slice_def)
qed

section \<open>Reading the message\<close>

text \<open>The server's side of MS-TDS 2.2.6.4: the field whose offset and length stand at position \<open>k\<close>, the length being counted in
  units of \<open>w\<close> bytes.\<close>

definition login_slice :: "nat \<Rightarrow> nat \<Rightarrow> bytes \<Rightarrow> bytes" where
  "login_slice w k bs = take (w * le_nat (take 2 (drop (k + 2) bs))) (drop (le_nat (take 2 (drop k bs))) bs)"

definition unscramble_byte :: "u8 \<Rightarrow> u8" where
  "unscramble_byte b = (let x = xor b 0xA5 in or (push_bit 4 x) (drop_bit 4 x))"

lemma unscramble_scramble [simp]: "unscramble_byte (scramble_byte b) = b"
proof -
  let ?y = "or (and (push_bit 4 b) 0xf0) (and (drop_bit 4 b) 0x0f)"
  have "xor (scramble_byte b) 0xA5 = ?y" by (simp add: scramble_byte_def xor.assoc)
  moreover have "or (push_bit 4 ?y) (drop_bit 4 ?y) = b"
  proof (rule bit_word_eqI)
    fix n assume "n < LENGTH(8)"
    then consider "n = 0" | "n = 1" | "n = 2" | "n = 3" | "n = 4" | "n = 5" | "n = 6" | "n = 7" by fastforce
    then show "bit (or (push_bit 4 ?y) (drop_bit 4 ?y)) n = bit b n" by cases (simp_all add: bit_simps)
  qed
  ultimately show ?thesis by (simp add: unscramble_byte_def Let_def)
qed

lemma le_nat_le_bytes2: "n < 65536 \<Longrightarrow> le_nat (le_bytes 2 (of_nat n :: u16)) = n"
  by (simp add: le_bytes_def le_nat_nat_le unat_of_nat)

lemma le_nat_le_bytes4: "n < 2 ^ 32 \<Longrightarrow> le_nat (le_bytes 4 (of_nat n :: u32)) = n"
  unfolding le_bytes_def le_nat_nat_le by (simp add: unat_of_nat)

lemma login_slice_at:
  assumes "bs = A @ le_bytes 2 (of_nat (length P) :: u16) @ le_bytes 2 (of_nat n :: u16) @ B" "bs = P @ f @ Q"
    and "length A = k" "length bs < 65536" "n < 65536" "w * n = length f"
  shows "login_slice w k bs = f"
proof -
  have "take 2 (drop k bs) = le_bytes 2 (of_nat (length P) :: u16)" "take 2 (drop (k + 2) bs) = le_bytes 2 (of_nat n :: u16)"
    unfolding assms(1) using assms(3) by auto
  moreover have "length P < 65536" using arg_cong [OF assms(2), of length] assms(4) by simp
  ultimately show ?thesis using assms(2,5,6) by (simp add: login_slice_def le_nat_le_bytes2)
qed

lemma half_length:
  assumes "even n" "n < 65536"
  shows "(of_nat n :: u16) div 2 = of_nat (n div 2)"
proof -
  have "unat ((of_nat n :: u16) div 2) = n div 2" using assms(2) by (simp add: unat_div unat_of_nat)
  then show ?thesis by (metis word_of_nat_unat_eq)
qed

lemma slice_tab:
  assumes "bs = A @ tab_of (length P) fs @ B" "bs = P @ concat fs @ Q" "length bs < 65536" "\<forall>f\<in>set fs. even (length f)" "j < length fs"
  shows "login_slice 2 (length A + 4 * j) bs = fs ! j"
  using assms
proof (induction fs arbitrary: A P j)
  case (Cons f fs)
  have f: "even (length f)" "length f < 65536" using Cons.prems(2,3,4) arg_cong [OF Cons.prems(2), of length] by auto
  show ?case
  proof (cases j)
    case 0
    have "login_slice 2 (length A) bs = f"
    proof (rule login_slice_at [OF _ _ refl Cons.prems(3)])
      show "bs = A @ le_bytes 2 (of_nat (length P) :: u16) @ le_bytes 2 (of_nat (length f div 2) :: u16) @ tab_of (length P + length f) fs @ B"
        using Cons.prems(1) by (simp add: half_length [OF f])
    qed (use Cons.prems(2) f in auto)
    then show ?thesis using 0 by simp
  next
    case (Suc i)
    let ?A = "A @ le_bytes 2 (of_nat (length P) :: u16) @ le_bytes 2 ((of_nat (length f) :: u16) div 2)"
    have "login_slice 2 (length ?A + 4 * i) bs = fs ! i"
      using Cons.prems Suc by (intro Cons.IH [where P = "P @ f"]) simp_all
    then show ?thesis using Suc by (simp add: add.assoc)
  qed
qed simp

definition login_prefix :: "LoginMessage \<Rightarrow> bytes" where
  "login_prefix m = le_bytes 4 (of_nat (encoded_len m) :: u32) @ login_fixed m @ tab_of 94 (name_fields m) @ ext_entry m @ tab_tail m"

lemma length_login_prefix: "length (login_prefix m) = 94"
  by (simp add: login_prefix_def length_login_fixed length_name_fields length_ext_entry length_tab_tail)

lemma login_image_prefix: "login_image m = login_prefix m @ concat (name_fields m) @ utf16_bytes (lm_db_name m) @ sspi_bytes m @ ext_data m"
  by (simp add: login_image_def login_prefix_def login_data_def)

lemma even_utf16: "even (length (utf16_bytes s))"
  by (simp add: length_utf16_bytes)

lemma login_names:
  assumes "length (login_image m) < 65536" "j < 5"
  shows "login_slice 2 (36 + 4 * j) (login_image m) = name_fields m ! j"
proof -
  let ?A = "le_bytes 4 (of_nat (encoded_len m) :: u32) @ login_fixed m"
  have "login_slice 2 (length ?A + 4 * j) (login_image m) = name_fields m ! j"
  proof (rule slice_tab [OF _ _ assms(1)])
    show "login_image m = ?A @ tab_of (length (login_prefix m)) (name_fields m) @ ext_entry m @ tab_tail m @ login_data m @ ext_data m"
      by (simp add: login_image_def length_login_prefix)
    show "login_image m = login_prefix m @ concat (name_fields m) @ utf16_bytes (lm_db_name m) @ sspi_bytes m @ ext_data m"
      by (rule login_image_prefix)
  qed (use assms(2) even_utf16 in \<open>auto simp: name_fields_def\<close>)
  then show ?thesis by (simp add: length_login_fixed)
qed

lemma login_db:
  assumes "length (login_image m) < 65536"
  shows "login_slice 2 68 (login_image m) = utf16_bytes (lm_db_name m)"
proof -
  let ?A = "le_bytes 4 (of_nat (encoded_len m) :: u32) @ login_fixed m @ tab_of 94 (name_fields m) @ ext_entry m"
  let ?P = "login_prefix m @ concat (name_fields m)" and ?fs = "[[], [], utf16_bytes (lm_db_name m)]"
  obtain B where B: "tab_tail m = tab_of (length ?P) ?fs @ B"
    unfolding length_append length_login_prefix by (auto simp: tab_tail_def Let_def)
  have "login_slice 2 (length ?A + 4 * 2) (login_image m) = ?fs ! 2"
  proof (rule slice_tab [OF _ _ assms])
    show "login_image m = ?A @ tab_of (length ?P) ?fs @ B @ login_data m @ ext_data m" by (simp only: login_image_def B append_assoc)
    show "login_image m = ?P @ concat ?fs @ sspi_bytes m @ ext_data m" by (simp add: login_image_prefix)
  qed (use even_utf16 in auto)
  then show ?thesis by (simp add: length_login_fixed length_name_fields length_ext_entry)
qed

lemma login_sspi:
  assumes "length (login_image m) < 65536"
  shows "login_slice 1 78 (login_image m) = sspi_bytes m"
proof -
  let ?P = "login_prefix m @ concat (name_fields m) @ utf16_bytes (lm_db_name m)"
  let ?A = "le_bytes 4 (of_nat (encoded_len m) :: u32) @ login_fixed m @ tab_of 94 (name_fields m) @ ext_entry m
     @ tab_of (94 + length (concat (name_fields m))) [[], [], utf16_bytes (lm_db_name m)] @ le_bytes 4 (0 :: u32) @ le_bytes 2 (42 :: u16)"
  obtain B where B: "login_image m = ?A @ le_bytes 2 (of_nat (length ?P) :: u16) @ le_bytes 2 (of_nat (length (sspi_bytes m)) :: u16) @ B"
    unfolding length_append length_login_prefix by (auto simp: login_image_def tab_tail_def Let_def add.assoc)
  show ?thesis
  proof (rule login_slice_at [OF B _ _ assms])
    show "login_image m = ?P @ sspi_bytes m @ ext_data m" by (simp add: login_image_prefix)
    show "length ?A = 78" by (simp add: length_login_fixed length_name_fields length_ext_entry)
  qed (use assms in \<open>auto simp: login_image_prefix\<close>)
qed

lemma login_fed_auth_ext:
  assumes "length (login_image m) < 65536" "lm_fed_auth_ext m = Some ext"
  shows "drop (le_nat (login_slice 1 56 (login_image m))) (login_image m) =
    FEA_EXT_FEDAUTH # le_bytes 4 (of_nat (length (fed_auth_data ext)) :: u32) @ fed_auth_data ext @ [FEA_EXT_TERMINATOR]"
proof -
  let ?P = "login_prefix m @ login_data m"
  let ?A = "le_bytes 4 (of_nat (encoded_len m) :: u32) @ login_fixed m @ tab_of 94 (name_fields m)"
  let ?E = "FEA_EXT_FEDAUTH # le_bytes 4 (of_nat (length (fed_auth_data ext)) :: u32) @ fed_auth_data ext @ [FEA_EXT_TERMINATOR]"
  have P: "login_image m = ?P @ le_bytes 4 (of_nat (length ?P + 4) :: u32) @ ?E"
    unfolding length_append length_login_prefix using assms(2) by (simp add: login_image_prefix login_data_def ext_data_def add.assoc)
  have "login_slice 1 56 (login_image m) = le_bytes 4 (of_nat (length ?P + 4) :: u32)"
  proof (rule login_slice_at [OF _ P _ assms(1)])
    show "login_image m = ?A @ le_bytes 2 (of_nat (length ?P) :: u16) @ le_bytes 2 (of_nat 4 :: u16) @ tab_tail m @ login_data m @ ext_data m"
      unfolding length_append length_login_prefix using assms(2) by (simp add: login_image_def ext_entry_def)
    show "length ?A = 56" by (simp add: length_login_fixed length_name_fields)
  qed auto
  moreover have "le_nat (le_bytes 4 (of_nat (length ?P + 4) :: u32)) = length ?P + 4"
    using arg_cong [OF P, of length] assms(1) by (intro le_nat_le_bytes4) simp
  ultimately have "drop (le_nat (login_slice 1 56 (login_image m))) (login_image m) = drop (length ?P + 4) (?P @ le_bytes 4 (of_nat (length ?P + 4) :: u32) @ ?E)"
    using P by simp
  then show ?thesis by simp
qed

text \<open>C19: The login message can be read back by the rules of the protocol. Encoding a login returns for every message (the check that
  the buffer with the password never had to move cannot fire), and the result has exactly the size that was reserved. When it is
  shorter than 64 kilobytes, the offset table leads to the host name, user, application, server and database
  given, to the password in its scrambled form, to the security blob, and the extension pointer
  to the federated authentication data with its announced length and terminator.\<close>

theorem login_readable:
  assumes "nonce_ok m" "encoded_len m < 65536"
  shows "\<exists>bs. encode_to_boxed_slice m = Ok bs \<and> length bs = encoded_len m \<and> le_nat (take 4 bs) = length bs \<and>
    login_slice 2 36 bs = utf16_bytes (lm_hostname m) \<and> login_slice 2 40 bs = utf16_bytes (lm_username m) \<and>
    map unscramble_byte (login_slice 2 44 bs) = utf16_bytes (lm_password m) \<and> login_slice 2 48 bs = utf16_bytes (lm_app_name m) \<and>
    login_slice 2 52 bs = utf16_bytes (lm_server_name m) \<and> login_slice 2 68 bs = utf16_bytes (lm_db_name m) \<and>
    login_slice 1 78 bs = (case lm_integrated_security m of Some sspi \<Rightarrow> sspi | None \<Rightarrow> []) \<and>
    (\<forall>ext. lm_fed_auth_ext m = Some ext \<longrightarrow>
       drop (le_nat (login_slice 1 56 bs)) bs =
         FEA_EXT_FEDAUTH # le_bytes 4 (of_nat (length (fed_auth_data ext)) :: u32) @ fed_auth_data ext @ [FEA_EXT_TERMINATOR])"
proof -
  have len: "length (login_image m) < 65536" using length_login_image [OF assms(1)] assms(2) by simp
  have "le_nat (take 4 (login_image m)) = encoded_len m" using le_nat_le_bytes4 [of "encoded_len m"] assms(2) by (simp add: login_image_def)
  moreover note encode_login_image [OF assms(1)] length_login_image [OF assms(1)] login_db [OF len] login_sspi [OF len] login_fed_auth_ext [OF len]
  moreover note login_names [OF len, of 0] login_names [OF len, of 1] login_names [OF len, of 2] login_names [OF len, of 3] login_names [OF len, of 4]
  ultimately show ?thesis by (simp add: name_fields_def sspi_bytes_def o_def)
qed

definition sample_login :: LoginMessage where
  "sample_login = login_db_name (lit ''tempdb'') (login_password (lit ''aPassword!'') (login_user_name (lit ''sa'') (LoginMessage_new (lit ''host''))))"

theorem login_readable_witness:
  "\<exists>bs. encode_to_boxed_slice sample_login = Ok bs \<and> length bs = 154 \<and> login_slice 2 40 bs = utf16_bytes (lit ''sa'') \<and>
     map unscramble_byte (login_slice 2 44 bs) = utf16_bytes (lit ''aPassword!'')"
proof -
  have "encoded_len sample_login = 154" "nonce_ok sample_login"
    by (simp_all add: sample_login_def encoded_len_def FIXED_OVERHEAD_def utf16_len_def nonce_ok_def LoginMessage_new_def login_db_name_def
        login_password_def login_user_name_def lit_def encode_utf16_def utf16_char_def)
  with login_readable [of sample_login] show ?thesis
    by (auto simp: sample_login_def LoginMessage_new_def login_db_name_def login_password_def login_user_name_def)
qed

end
