(* ===== verification/Tds_Config.thy ===== *)
theory Tds_Config
  imports Tds_Login
begin

text \<open>
  The configuration of a connection (\<^verbatim>\<open>client/config.rs\<close>, \<^verbatim>\<open>client/auth.rs\<close>) and the two steps that read it from an ADO.NET
  connection string: the tokenizer of \<^verbatim>\<open>client/config/ado_parser.rs\<close> and the interpretation of
  its key/value pairs (\<^verbatim>\<open>ado_net.rs\<close> and the trait \<^verbatim>\<open>ConfigString\<close>). The build has a TLS backend and the
  \<^verbatim>\<open>tds80\<close> feature, which are the defaults; which integrated authentication it has is a parameter.
  A JDBC string is parsed by a third-party crate: only what is done with its pairs is modelled. Paths are strings.
\<close>

section \<open>Authentication\<close>

datatype AuthMethod =
    SqlServerAuth (auth_user: rstring) (auth_password: rstring)
  | WindowsAuth rstring rstring "rstring option" \<comment> \<open>user, password, domain\<close>
  | IntegratedAuth
  | AADToken rstring
  | NoAuth

definition AuthMethod_windows :: "rstring \<Rightarrow> rstring \<Rightarrow> AuthMethod" where
  "AuthMethod_windows user password =
     (if 92 \<in> set user
      then WindowsAuth (tl (dropWhile (\<lambda>c. c \<noteq> 92) user)) password (Some (takeWhile (\<lambda>c. c \<noteq> 92) user))
      else WindowsAuth user password None)"

section \<open>The configuration\<close>

datatype RootSource = NativeRoots | WebpkiRoots

datatype ExtraCa = CaFile rstring | CaBundle bytes

record TrustConfig =
  trust_source :: RootSource
  trust_extra_cas :: "ExtraCa list"
  trust_bypass :: bool

datatype ClientCertSource = CertAndKey rstring rstring | Pkcs12 rstring rstring

record Config =
  cfg_host :: "rstring option"
  cfg_port :: "u16 option"
  cfg_database :: "rstring option"
  cfg_instance_name :: "rstring option"
  cfg_application_name :: "rstring option"
  cfg_encryption :: EncryptionLevel
  cfg_trust :: TrustConfig
  cfg_auth :: AuthMethod
  cfg_readonly :: bool
  cfg_packet_size :: "u32 option"
  cfg_hostname_in_certificate :: "rstring option"
  cfg_client_name :: "rstring option"
  cfg_multi_subnet_failover :: bool
  cfg_handshake_timeout :: "nat option"
  cfg_command_timeout :: "nat option"
  cfg_lossy_utf16_decoding :: bool
  cfg_lossy_codepage_decoding :: bool
  cfg_client_cert :: "ClientCertSource option"

text \<open>Durations are in seconds.\<close>

definition DEFAULT_HANDSHAKE_TIMEOUT :: nat where "DEFAULT_HANDSHAKE_TIMEOUT = 15"
definition DEFAULT_COMMAND_TIMEOUT :: nat where "DEFAULT_COMMAND_TIMEOUT = 30"

definition TrustConfig_default :: TrustConfig where
  "TrustConfig_default = \<lparr>trust_source = NativeRoots, trust_extra_cas = [], trust_bypass = False\<rparr>"

definition Config_default :: Config where
  "Config_default =
     \<lparr>cfg_host = None, cfg_port = None, cfg_database = None, cfg_instance_name = None, cfg_application_name = None,
      cfg_encryption = EncRequired, cfg_trust = TrustConfig_default, cfg_auth = NoAuth, cfg_readonly = False, cfg_packet_size = None,
      cfg_hostname_in_certificate = None, cfg_client_name = None, cfg_multi_subnet_failover = False,
      cfg_handshake_timeout = Some DEFAULT_HANDSHAKE_TIMEOUT, cfg_command_timeout = Some DEFAULT_COMMAND_TIMEOUT,
      cfg_lossy_utf16_decoding = False, cfg_lossy_codepage_decoding = False, cfg_client_cert = None\<rparr>"

definition trust_cert :: "(Config, unit) comp" where
  "trust_cert cfg =
     (if trust_extra_cas (cfg_trust cfg) \<noteq> [] \<or> trust_source (cfg_trust cfg) \<noteq> NativeRoots then (Panic, cfg)
      else (Ok (), cfg\<lparr>cfg_trust := (cfg_trust cfg)\<lparr>trust_bypass := True\<rparr>\<rparr>))"

definition add_ca :: "ExtraCa \<Rightarrow> (Config, unit) comp" where
  "add_ca ca cfg =
     (if trust_bypass (cfg_trust cfg) then (Panic, cfg)
      else (Ok (), cfg\<lparr>cfg_trust := (cfg_trust cfg)\<lparr>trust_extra_cas := trust_extra_cas (cfg_trust cfg) @ [ca]\<rparr>\<rparr>))"

definition trust_cert_ca :: "rstring \<Rightarrow> (Config, unit) comp" where
  "trust_cert_ca path = add_ca (CaFile path)"

definition trust_cert_ca_bundle :: "bytes \<Rightarrow> (Config, unit) comp" where
  "trust_cert_ca_bundle bundle = add_ca (CaBundle bundle)"

definition trust_webpki_roots :: "(Config, unit) comp" where
  "trust_webpki_roots cfg =
     (if trust_bypass (cfg_trust cfg) then (Panic, cfg)
      else (Ok (), cfg\<lparr>cfg_trust := (cfg_trust cfg)\<lparr>trust_source := WebpkiRoots\<rparr>\<rparr>))"

definition get_host :: "Config \<Rightarrow> rstring" where
  "get_host cfg = (case cfg_host cfg of Some h \<Rightarrow> if h \<noteq> lit ''.'' then h else lit ''localhost'' | None \<Rightarrow> lit ''localhost'')"

definition get_hostname_in_certificate :: "Config \<Rightarrow> rstring" where
  "get_hostname_in_certificate cfg = (case cfg_hostname_in_certificate cfg of Some h \<Rightarrow> h | None \<Rightarrow> get_host cfg)"

definition get_port :: "Config \<Rightarrow> u16" where
  "get_port cfg =
     (case (cfg_port cfg, cfg_instance_name cfg) of
        (Some port, _) \<Rightarrow> port | (None, Some _) \<Rightarrow> 1434 | (None, None) \<Rightarrow> 1433)"

definition get_addr :: "Config \<Rightarrow> rstring" where
  "get_addr cfg = get_host cfg @ lit '':'' @ show_nat (unat (get_port cfg))"

section \<open>Setters\<close>

text \<open>The plain setters of \<^verbatim>\<open>Config\<close>; the builder forwards to them.\<close>

definition config_host :: "rstring \<Rightarrow> Config \<Rightarrow> Config" where "config_host x cfg = cfg\<lparr>cfg_host := Some x\<rparr>"
definition config_port :: "u16 \<Rightarrow> Config \<Rightarrow> Config" where "config_port x cfg = cfg\<lparr>cfg_port := Some x\<rparr>"
definition config_database :: "rstring \<Rightarrow> Config \<Rightarrow> Config" where "config_database x cfg = cfg\<lparr>cfg_database := Some x\<rparr>"
definition config_instance_name :: "rstring \<Rightarrow> Config \<Rightarrow> Config" where "config_instance_name x cfg = cfg\<lparr>cfg_instance_name := Some x\<rparr>"
definition config_application_name :: "rstring \<Rightarrow> Config \<Rightarrow> Config" where "config_application_name x cfg = cfg\<lparr>cfg_application_name := Some x\<rparr>"
definition config_packet_size :: "u32 \<Rightarrow> Config \<Rightarrow> Config" where "config_packet_size x cfg = cfg\<lparr>cfg_packet_size := Some x\<rparr>"
definition config_encryption :: "EncryptionLevel \<Rightarrow> Config \<Rightarrow> Config" where "config_encryption x cfg = cfg\<lparr>cfg_encryption := x\<rparr>"
definition config_hostname_in_certificate :: "rstring \<Rightarrow> Config \<Rightarrow> Config" where "config_hostname_in_certificate x cfg = cfg\<lparr>cfg_hostname_in_certificate := Some x\<rparr>"
definition config_client_name :: "rstring \<Rightarrow> Config \<Rightarrow> Config" where "config_client_name x cfg = cfg\<lparr>cfg_client_name := Some x\<rparr>"
definition config_authentication :: "AuthMethod \<Rightarrow> Config \<Rightarrow> Config" where "config_authentication x cfg = cfg\<lparr>cfg_auth := x\<rparr>"
definition config_readonly :: "bool \<Rightarrow> Config \<Rightarrow> Config" where "config_readonly x cfg = cfg\<lparr>cfg_readonly := x\<rparr>"
definition config_multi_subnet_failover :: "bool \<Rightarrow> Config \<Rightarrow> Config" where "config_multi_subnet_failover x cfg = cfg\<lparr>cfg_multi_subnet_failover := x\<rparr>"
definition config_handshake_timeout :: "nat option \<Rightarrow> Config \<Rightarrow> Config" where "config_handshake_timeout x cfg = cfg\<lparr>cfg_handshake_timeout := x\<rparr>"
definition config_command_timeout :: "nat option \<Rightarrow> Config \<Rightarrow> Config" where "config_command_timeout x cfg = cfg\<lparr>cfg_command_timeout := x\<rparr>"
definition config_lossy_utf16_decoding :: "bool \<Rightarrow> Config \<Rightarrow> Config" where "config_lossy_utf16_decoding x cfg = cfg\<lparr>cfg_lossy_utf16_decoding := x\<rparr>"
definition config_lossy_codepage_decoding :: "bool \<Rightarrow> Config \<Rightarrow> Config" where "config_lossy_codepage_decoding x cfg = cfg\<lparr>cfg_lossy_codepage_decoding := x\<rparr>"

definition config_client_certificate :: "rstring \<Rightarrow> rstring \<Rightarrow> Config \<Rightarrow> Config" where
  "config_client_certificate cert key cfg = cfg\<lparr>cfg_client_cert := Some (CertAndKey cert key)\<rparr>"

definition config_client_certificate_pkcs12 :: "rstring \<Rightarrow> rstring \<Rightarrow> Config \<Rightarrow> Config" where
  "config_client_certificate_pkcs12 path password cfg = cfg\<lparr>cfg_client_cert := Some (Pkcs12 path password)\<rparr>"

lemmas setter_defs =
  config_host_def config_port_def config_database_def config_instance_name_def config_application_name_def
  config_encryption_def config_hostname_in_certificate_def config_client_name_def config_authentication_def config_readonly_def
  config_multi_subnet_failover_def

section \<open>The connection-string tokenizer\<close>

definition is_ascii :: "rstring \<Rightarrow> bool" where
  "is_ascii s \<longleftrightarrow> (\<forall>c\<in>set s. c < 128)"

definition ascii_whitespace :: "rchar \<Rightarrow> bool" where
  "ascii_whitespace c \<longleftrightarrow> c \<in> {32, 9, 10, 12, 13}"

definition ascii_lower :: "rchar \<Rightarrow> rchar" where
  "ascii_lower c = (if 65 \<le> c \<and> c \<le> 90 then c + 32 else c)"

definition trim_end_with :: "(rchar \<Rightarrow> bool) \<Rightarrow> rstring \<Rightarrow> rstring" where
  "trim_end_with p s = rev (dropWhile p (rev s))"

datatype ado_error = NonAscii | NoEquals | EmptyKey | UnclosedSingle | UnclosedDouble | AfterQuoted | UnclosedBrace | AfterBrace

text \<open>Positions in the input are suffixes of it. 59 is a semicolon, 61 the equals sign, 39 and 34 the quotes, 123 and 125 the braces.\<close>

fun ado_key :: "rstring \<Rightarrow> rstring \<Rightarrow> ado_error + (rstring \<times> rstring)" where
  "ado_key key [] = Inl NoEquals"
| "ado_key key (c # b) =
     (if c = 59 then Inl NoEquals
      else if c = 61 then (case b of d # b' \<Rightarrow> if d = 61 then ado_key (key @ [61]) b' else Inr (key, b) | [] \<Rightarrow> Inr (key, b))
      else ado_key (key @ [c]) b)"

fun ado_quoted :: "rchar \<Rightarrow> rstring \<Rightarrow> rstring \<Rightarrow> ado_error + (rstring \<times> rstring)" where
  "ado_quoted quote v [] = Inl (if quote = 39 then UnclosedSingle else UnclosedDouble)"
| "ado_quoted quote v (c # b) =
     (if c = quote then (case b of d # b' \<Rightarrow> if d = quote then ado_quoted quote (v @ [quote]) b' else Inr (v, b) | [] \<Rightarrow> Inr (v, b))
      else ado_quoted quote (v @ [c]) b)"

fun ado_braced :: "rstring \<Rightarrow> rstring \<Rightarrow> ado_error + (rstring \<times> rstring)" where
  "ado_braced v [] = Inl UnclosedBrace"
| "ado_braced v (c # b) = (if c = 125 then Inr (v, b) else ado_braced (v @ [c]) b)"

fun skip_trailing :: "ado_error \<Rightarrow> rstring \<Rightarrow> ado_error + rstring" where
  "skip_trailing err [] = Inr []"
| "skip_trailing err (c # b) =
     (if c = 59 then Inr (c # b) else if \<not> ascii_whitespace c then Inl err else skip_trailing err b)"

definition after_value :: "ado_error \<Rightarrow> ado_error + (rstring \<times> rstring) \<Rightarrow> ado_error + (rstring \<times> rstring)" where
  "after_value err r =
     (case r of Inl e \<Rightarrow> Inl e
      | Inr (v, b) \<Rightarrow> (case skip_trailing err b of Inl e \<Rightarrow> Inl e | Inr b' \<Rightarrow> Inr (v, b')))"

definition ado_value :: "rstring \<Rightarrow> ado_error + (rstring \<times> rstring)" where
  "ado_value b =
     (case b of
        c # rest \<Rightarrow>
          if c = 39 \<or> c = 34 then after_value AfterQuoted (ado_quoted c [] rest)
          else if c = 123 then after_value AfterBrace (ado_braced [] rest)
          else Inr (trim_end_with ascii_whitespace (takeWhile (\<lambda>c. c \<noteq> 59) b), dropWhile (\<lambda>c. c \<noteq> 59) b)
      | [] \<Rightarrow> Inr ([], []))"

definition ado_pair :: "rstring \<Rightarrow> ado_error + ((rstring \<times> rstring) \<times> rstring)" where
  "ado_pair b =
     (case ado_key [] b of
        Inl e \<Rightarrow> Inl e
      | Inr (key, b) \<Rightarrow>
          let key = map ascii_lower (trim_end_with ascii_whitespace (dropWhile ascii_whitespace key)) in
          if key = [] then Inl EmptyKey
          else
            (case ado_value (dropWhile ascii_whitespace b) of
               Inl e \<Rightarrow> Inl e
             | Inr (value, b) \<Rightarrow> Inr ((key, value), (case b of c # b' \<Rightarrow> if c = 59 then b' else b | [] \<Rightarrow> []))))"

definition ado_separator :: "rchar \<Rightarrow> bool" where
  "ado_separator c \<longleftrightarrow> c = 59 \<or> ascii_whitespace c"

type_synonym dict = "rstring \<rightharpoonup> rstring"

lemma ado_key_shorter: "ado_key key b = Inr (k, b') \<Longrightarrow> length b' < length b"
  by (induction key b arbitrary: k rule: ado_key.induct) (fastforce split: if_splits list.splits intro: less_SucI)+

lemma ado_quoted_shorter: "ado_quoted q v b = Inr (k, b') \<Longrightarrow> length b' < length b"
  by (induction q v b arbitrary: k rule: ado_quoted.induct) (fastforce split: if_splits list.splits intro: less_SucI)+

lemma ado_braced_shorter: "ado_braced v b = Inr (k, b') \<Longrightarrow> length b' < length b"
  by (induction v b rule: ado_braced.induct) (auto split: if_splits)

lemma skip_trailing_shorter: "skip_trailing e b = Inr b' \<Longrightarrow> length b' \<le> length b"
  by (induction e b rule: skip_trailing.induct) (auto split: if_splits)

lemma ado_value_shorter: "ado_value b = Inr (v, b') \<Longrightarrow> length b' \<le> length b"
proof (cases b)
  case (Cons c rest)
  assume "ado_value b = Inr (v, b')"
  then show ?thesis using Cons length_dropWhile_le [of "\<lambda>c. c \<noteq> 59" b]
    by (auto simp: ado_value_def after_value_def split: if_splits sum.splits prod.splits
        dest!: ado_quoted_shorter ado_braced_shorter skip_trailing_shorter)
qed (auto simp: ado_value_def)

lemma ado_pair_shorter: "ado_pair b = Inr (kv, b') \<Longrightarrow> length b' < length b"
proof -
  assume a: "ado_pair b = Inr (kv, b')"
  then obtain key b1 where k: "ado_key [] b = Inr (key, b1)" by (auto simp: ado_pair_def split: sum.splits)
  with a obtain v b2 where v: "ado_value (dropWhile ascii_whitespace b1) = Inr (v, b2)" "length b' \<le> length b2"
    by (auto simp: ado_pair_def Let_def split: sum.splits if_splits list.splits)
  have "length b2 \<le> length b1" using ado_value_shorter [OF v(1)] length_dropWhile_le [of ascii_whitespace b1] by simp
  then show ?thesis using ado_key_shorter [OF k] v(2) by simp
qed

function ado_pairs :: "rstring \<Rightarrow> dict \<Rightarrow> ado_error + dict" where
  "ado_pairs b pairs =
     (let b = dropWhile ado_separator b in
      if b = [] then Inr pairs
      else
        (case ado_pair b of
           Inl e \<Rightarrow> Inl e
         | Inr ((key, value), b') \<Rightarrow> ado_pairs b' (pairs(key \<mapsto> value))))"
  by pat_completeness auto
termination
  by (relation "measure (\<lambda>(b, _). length b)")
    (auto dest!: sym [of _ "ado_pair _"] ado_pair_shorter intro: less_le_trans [OF _ length_dropWhile_le])

declare ado_pairs.simps [simp del]

definition ado_parse :: "rstring \<Rightarrow> ado_error + dict" where
  "ado_parse input = (if \<not> is_ascii input then Inl NonAscii else ado_pairs input (\<lambda>_. None))"

section \<open>From pairs to a configuration\<close>

text \<open>\<^verbatim>\<open>char::is_whitespace\<close>\<close>

definition unicode_whitespace :: "rchar \<Rightarrow> bool" where
  "unicode_whitespace c \<longleftrightarrow> 9 \<le> c \<and> c \<le> 13 \<or> c \<in> {32, 0x85, 0xA0, 0x1680, 0x2028, 0x2029, 0x202F, 0x205F, 0x3000} \<or> 0x2000 \<le> c \<and> c \<le> 0x200A"

definition str_trim :: "rstring \<Rightarrow> rstring" where
  "str_trim s = trim_end_with unicode_whitespace (dropWhile unicode_whitespace s)"

definition eq_ignore_ascii_case :: "rstring \<Rightarrow> rstring \<Rightarrow> bool" where
  "eq_ignore_ascii_case s t \<longleftrightarrow> map ascii_lower s = map ascii_lower t"

text \<open>\<^verbatim>\<open>parse_bool\<close>: lowering a letter outside ASCII never gives one of the four words.\<close>

definition parse_bool :: "rstring \<Rightarrow> bool res" where
  "parse_bool v =
     (let w = map ascii_lower (str_trim v) in
      if w \<in> {lit ''true'', lit ''yes''} then Ok True
      else if w \<in> {lit ''false'', lit ''no''} then Ok False
      else Err (Conversion (lit ''Connection string: Not a valid boolean'')))"

fun first_of :: "dict \<Rightarrow> string list \<Rightarrow> rstring option" where
  "first_of d [] = None"
| "first_of d (k # ks) = (case d (lit k) of Some v \<Rightarrow> Some v | None \<Rightarrow> first_of d ks)"

text \<open>Which authentication a build offers for \<^verbatim>\<open>IntegratedSecurity\<close>.\<close>

datatype auth_build = PasswordOnly | WinAuthBuild | SspiBuild | SspiGssBuild | GssBuild

definition is_sspi_or_truthy :: "rstring \<Rightarrow> bool res" where
  "is_sspi_or_truthy v = (if eq_ignore_ascii_case v (lit ''sspi'') then Ok True else parse_bool v)"

definition str_or_empty :: "rstring option \<Rightarrow> rstring" where
  "str_or_empty s = (case s of Some v \<Rightarrow> v | None \<Rightarrow> [])"

definition cs_authentication :: "auth_build \<Rightarrow> dict \<Rightarrow> AuthMethod res" where
  "cs_authentication build d =
     (let user = first_of d [''uid'', ''username'', ''user'', ''user id'']; pw = first_of d [''password'', ''pwd''];
          sql = SqlServerAuth (str_or_empty user) (str_or_empty pw) in
      case first_of d [''integratedsecurity'', ''integrated security''] of
        None \<Rightarrow> Ok sql
      | Some val \<Rightarrow>
          if build = PasswordOnly then Ok sql
          else
            (case is_sspi_or_truthy val of
               Ok True \<Rightarrow>
                 (if build = GssBuild then Ok IntegratedAuth
                  else if user = None \<and> pw = None \<and> build \<noteq> SspiBuild then Ok IntegratedAuth
                  else Ok (AuthMethod_windows (str_or_empty user) (str_or_empty pw)))
             | Ok False \<Rightarrow> Ok sql
             | Err e \<Rightarrow> Err e | Panic \<Rightarrow> Panic | Diverge \<Rightarrow> Diverge))"

definition cs_trust_cert :: "dict \<Rightarrow> bool res" where
  "cs_trust_cert d = (case d (lit ''trustservercertificate'') of Some v \<Rightarrow> parse_bool v | None \<Rightarrow> Ok False)"

definition cs_encrypt :: "dict \<Rightarrow> EncryptionLevel res" where
  "cs_encrypt d =
     (case d (lit ''encrypt'') of
        None \<Rightarrow> Ok EncRequired
      | Some val \<Rightarrow>
          (case parse_bool val of
             Ok True \<Rightarrow> Ok EncRequired
           | Ok False \<Rightarrow> Ok EncOff
           | Err e \<Rightarrow>
               if val = lit ''DANGER_PLAINTEXT'' then Ok EncNotSupported
               else if eq_ignore_ascii_case val (lit ''strict'') then Ok EncStrict
               else Err e
           | Panic \<Rightarrow> Panic | Diverge \<Rightarrow> Diverge))"

definition cs_readonly :: "dict \<Rightarrow> bool" where
  "cs_readonly d = (case d (lit ''applicationintent'') of Some v \<Rightarrow> eq_ignore_ascii_case (str_trim v) (lit ''ReadOnly'') | None \<Rightarrow> False)"

definition cs_multi_subnet_failover :: "dict \<Rightarrow> bool res" where
  "cs_multi_subnet_failover d = (case d (lit ''multisubnetfailover'') of Some v \<Rightarrow> parse_bool v | None \<Rightarrow> Ok False)"

record ServerDefinition =
  sd_host :: "rstring option"
  sd_port :: "u16 option"
  sd_instance :: "rstring option"

definition str_split :: "rchar \<Rightarrow> rstring \<Rightarrow> rstring list" where
  "str_split sep s = splitn (Suc (length s)) sep s"

text \<open>\<^verbatim>\<open>str::replace\<close>\<close>

function str_replace :: "rstring \<Rightarrow> rstring \<Rightarrow> rstring \<Rightarrow> rstring" where
  "str_replace pat rep s =
     (case s of
        [] \<Rightarrow> []
      | c # cs \<Rightarrow> if pat \<noteq> [] \<and> take (length pat) s = pat then rep @ str_replace pat rep (drop (length pat) s) else c # str_replace pat rep cs)"
  by pat_completeness auto
termination
  by (relation "measure (\<lambda>(_, _, s). length s)") auto

declare str_replace.simps [simp del]

definition parse_port :: "rstring list \<Rightarrow> u16 option res" where
  "parse_port parts =
     (case parts of
        s # _ \<Rightarrow> (case parse_uint (2 ^ 16) s of Inr n \<Rightarrow> Ok (Some (of_nat n)) | Inl e \<Rightarrow> Err (ParseInt e))
      | [] \<Rightarrow> Ok None)"

text \<open>\<^verbatim>\<open>parts[0]\<close> and \<^verbatim>\<open>parts[1]\<close> are slices: out of range they panic.\<close>

definition nth_or_panic :: "'a list \<Rightarrow> nat \<Rightarrow> 'a res" where
  "nth_or_panic xs i = (if i < length xs then Ok (xs ! i) else Panic)"

definition parse_server :: "rstring list \<Rightarrow> (unit, ServerDefinition) comp" where
  "parse_server parts =
     (if parts = [] \<or> 3 \<le> length parts then errR (Conversion (lit ''Server value faulty.''))
      else
        bindR (liftR (nth_or_panic parts 0)) (\<lambda>p0.
        if 92 \<in> set p0 then
          bindR (liftR (parse_port (drop 1 parts))) (\<lambda>port.
          bindR (liftR (nth_or_panic (str_split 92 p0) 0)) (\<lambda>host.
          bindR (liftR (nth_or_panic (str_split 92 p0) 1)) (\<lambda>inst.
          retR \<lparr>sd_host = Some (str_replace (lit ''(local)'') (lit ''localhost'') host), sd_port = port, sd_instance = Some inst\<rparr>)))
        else
          bindR (liftR (parse_port (drop 1 parts))) (\<lambda>port.
          retR \<lparr>sd_host = Some (str_replace (lit ''(local)'') (lit ''localhost'') p0), sd_port = port, sd_instance = None\<rparr>)))"

definition ado_server :: "dict \<Rightarrow> (unit, ServerDefinition) comp" where
  "ado_server d =
     (case first_of d [''server'', ''data source''] of
        Some value \<Rightarrow> if take 4 value = lit ''tcp:'' then parse_server (str_split 44 (drop 4 value)) else parse_server (str_split 44 value)
      | None \<Rightarrow> retR \<lparr>sd_host = None, sd_port = None, sd_instance = None\<rparr>)"

definition quoted :: "rstring \<Rightarrow> rstring" where
  "quoted s = [39] @ s @ [39]"

definition when_some :: "'a option \<Rightarrow> ('a \<Rightarrow> 'b \<Rightarrow> 'b) \<Rightarrow> ('b, unit) comp" where
  "when_some x f b = (Ok (), (case x of Some a \<Rightarrow> f a b | None \<Rightarrow> b))"

definition modifyR :: "('b \<Rightarrow> 'b) \<Rightarrow> ('b, unit) comp" where
  "modifyR f b = (Ok (), f b)"

text \<open>\<^verbatim>\<open>from_config_string\<close> on a new configuration; \<open>config_rest\<close> are its steps after the trust settings.\<close>

definition config_rest :: "dict \<Rightarrow> (Config, unit) comp" where
  "config_rest d =
     thenR (when_some (first_of d [''hostnameincertificate'', ''hostname in certificate'']) config_hostname_in_certificate)
    (bindR (liftR (cs_encrypt d)) (\<lambda>enc.
     thenR (modifyR (config_encryption enc))
    (thenR (modifyR (config_readonly (cs_readonly d)))
    (thenR (when_some (first_of d [''workstationid'', ''workstation id'']) config_client_name)
    (bindR (liftR (cs_multi_subnet_failover d)) (\<lambda>m.
     modifyR (config_multi_subnet_failover m)))))))"

definition from_config_string :: "auth_build \<Rightarrow> dict \<Rightarrow> ServerDefinition res \<Rightarrow> (Config, unit) comp" where
  "from_config_string build d server_def =
     bindR (liftR server_def) (\<lambda>server.
     thenR (when_some (sd_host server) config_host)
    (thenR (when_some (sd_port server) config_port)
    (thenR (when_some (sd_instance server) config_instance_name)
    (bindR (liftR (cs_authentication build d)) (\<lambda>auth.
     thenR (modifyR (config_authentication auth))
    (thenR (when_some (first_of d [''database'', ''initial catalog'', ''databasename'']) config_database)
    (thenR (when_some (first_of d [''application name'', ''applicationname'']) config_application_name)
    (bindR (liftR (cs_trust_cert d)) (\<lambda>tc.
     let ca = first_of d [''trustservercertificateca''] in
     if tc \<and> ca \<noteq> None then errR (Conversion (quoted (lit ''TrustServerCertificate'') @ lit '' and '' @ quoted (lit ''TrustServerCertificateCA'') @
            lit '' are mutually exclusive; specify only one''))
     else
       thenR (if tc then trust_cert else retR ())
      (thenR (case ca of Some path \<Rightarrow> trust_cert_ca path | None \<Rightarrow> retR ())
             (config_rest d)))))))))))"

text \<open>The error texts. 8212 is a dash, 8230 an ellipsis, 34 a double quote.\<close>

primrec ado_reason :: "ado_error \<Rightarrow> rstring" where
  "ado_reason NonAscii = lit ''the connection string contains non-ASCII characters''"
| "ado_reason NoEquals = lit ''key-value pairs must be joined by a `=`''"
| "ado_reason EmptyKey = lit ''a key in the connection string is empty''"
| "ado_reason UnclosedSingle = lit ''the connection string has an unclosed single quote''"
| "ado_reason UnclosedDouble = lit ''the connection string has an unclosed double quote''"
| "ado_reason AfterQuoted = lit ''unexpected characters after a quoted value''"
| "ado_reason UnclosedBrace = lit ''the connection string has an unclosed brace `{`''"
| "ado_reason AfterBrace = lit ''unexpected characters after a `{'' @ [8230] @ lit ''}` value; quote with '' @ [39, 39] @ lit '' or '' @ [34, 34]
     @ lit '' if the value contains `}`''"

definition ado_quoting :: rstring where
  "ado_quoting = lit ''wrap the value in single quotes (e.g. `password='' @ quoted (lit ''p@ss;word'') @
     lit ''`), double quotes, or braces (e.g. `password={p@ss;word}`), and quote leading spaces too''"

definition hinted_conversion_error :: "rstring \<Rightarrow> rstring \<Rightarrow> rstring \<Rightarrow> error" where
  "hinted_conversion_error detail quoting docs =
     Conversion (detail @ lit ''. hint: if a value such as a password contains a special character (for example `;`, `=` or `{`), it must be quoted ''
       @ [8212] @ lit '' '' @ quoting @ lit ''. Do not URL-encode the value (`%24` is sent literally, not decoded to `$`). Non-ASCII values are not accepted by the connection-string parser; build the `Config` programmatically (see `''
       @ docs @ lit ''`) to pass any value without escaping.'')"

text \<open>\<^verbatim>\<open>from_jdbc_string\<close>. The parser of JDBC strings is the crate \<^verbatim>\<open>connection_string\<close>: its outcome, an error text or the properties
  with the server, is the parameter.\<close>

definition connection_string_error :: "rstring \<Rightarrow> rstring \<Rightarrow> rstring \<Rightarrow> error" where
  "connection_string_error err quoting docs =
     hinted_conversion_error (case strip_prefix (lit ''Conversion error: '') err of Some d \<Rightarrow> d | None \<Rightarrow> err) quoting docs"

definition jdbc_quoting :: rstring where
  "jdbc_quoting = lit ''wrap the value in braces (e.g. `password={p@ss;word}`); single and double quotes are ordinary characters in JDBC, not escapes''"

definition finish_config :: "unit res \<times> Config \<Rightarrow> Config res" where
  "finish_config r = (case r of (Ok _, cfg) \<Rightarrow> Ok cfg | (Err e, _) \<Rightarrow> Err e | (Panic, _) \<Rightarrow> Panic | (Diverge, _) \<Rightarrow> Diverge)"

definition from_jdbc_string :: "auth_build \<Rightarrow> (rstring \<Rightarrow> rstring + (dict \<times> ServerDefinition)) \<Rightarrow> rstring \<Rightarrow> Config res" where
  "from_jdbc_string build jdbc_parse s =
     (case jdbc_parse s of
        Inl err \<Rightarrow> Err (connection_string_error err jdbc_quoting (lit ''Config::from_jdbc_string''))
      | Inr (d, server) \<Rightarrow> finish_config (from_config_string build d (Ok server) Config_default))"

definition from_ado_string :: "auth_build \<Rightarrow> rstring \<Rightarrow> Config res" where
  "from_ado_string build s =
     (case ado_parse s of
        Inl e \<Rightarrow> Err (hinted_conversion_error (ado_reason e) ado_quoting (lit ''Config::from_ado_string''))
      | Inr d \<Rightarrow>
          finish_config (from_config_string build d (fst (ado_server d ())) Config_default))"

section \<open>Quoted values\<close>

definition ado_quote :: "rchar \<Rightarrow> rstring \<Rightarrow> rstring" where
  "ado_quote q v = q # concat (map (\<lambda>c. if c = q then [q, q] else [c]) v) @ [q]"

fun ado_render :: "(rstring \<times> rchar \<times> rstring) list \<Rightarrow> rstring" where
  "ado_render [] = []"
| "ado_render ((k, q, v) # kvs) = k @ [61] @ ado_quote q v @ [59] @ ado_render kvs"

definition ado_entry_ok :: "rstring \<times> rchar \<times> rstring \<Rightarrow> bool" where
  "ado_entry_ok kqv \<longleftrightarrow>
     (case kqv of (k, q, v) \<Rightarrow>
        k \<noteq> [] \<and> 61 \<notin> set k \<and> 59 \<notin> set k \<and> is_ascii k \<and> map ascii_lower k = k \<and> \<not> ascii_whitespace (hd k) \<and> \<not> ascii_whitespace (last k) \<and>
        q \<in> {34, 39} \<and> is_ascii v)"

lemma ado_key_plain: "61 \<notin> set k \<Longrightarrow> 59 \<notin> set k \<Longrightarrow> take 1 b \<noteq> [61] \<Longrightarrow> ado_key acc (k @ 61 # b) = Inr (acc @ k, b)"
proof (induction k arbitrary: acc)
  case Nil
  then show ?case by (cases b) auto
qed auto

lemma ado_quoted_escaped: "take 1 b \<noteq> [q] \<Longrightarrow> ado_quoted q acc (concat (map (\<lambda>c. if c = q then [q, q] else [c]) v) @ q # b) = Inr (acc @ v, b)"
proof (induction v arbitrary: acc)
  case Nil
  then show ?case by (cases b) auto
qed auto

lemma trim_nothing: "k \<noteq> [] \<Longrightarrow> \<not> p (hd k) \<Longrightarrow> \<not> p (last k) \<Longrightarrow> trim_end_with p (dropWhile p k) = k"
proof -
  assume k: "k \<noteq> []" "\<not> p (hd k)" "\<not> p (last k)"
  then have "dropWhile p k = k" by (cases k) auto
  moreover have "dropWhile p (rev k) = rev k" using k(1,3) by (cases k rule: rev_cases) auto
  ultimately show ?thesis by (simp add: trim_end_with_def)
qed

lemma ado_pair_entry:
  assumes "ado_entry_ok (k, q, v)"
  shows "ado_pair (k @ [61] @ ado_quote q v @ [59] @ rest) = Inr ((k, v), rest)"
proof -
  have q: "q \<noteq> 61" "q \<noteq> 59" "\<not> ascii_whitespace q" "q = 39 \<or> q = 34" using assms by (auto simp: ado_entry_ok_def ascii_whitespace_def)
  have "ado_key [] (k @ 61 # (ado_quote q v @ [59] @ rest)) = Inr ([] @ k, ado_quote q v @ [59] @ rest)"
    using assms q(1) by (intro ado_key_plain) (auto simp: ado_entry_ok_def ado_quote_def)
  moreover have "ado_value (ado_quote q v @ [59] @ rest) = Inr (v, 59 # rest)"
    using ado_quoted_escaped [of "59 # rest" q "[]" v] q(2,4) by (auto simp: ado_value_def ado_quote_def after_value_def)
  moreover have "dropWhile ascii_whitespace (ado_quote q v @ [59] @ rest) = ado_quote q v @ [59] @ rest" using q(3) by (simp add: ado_quote_def)
  moreover have "trim_end_with ascii_whitespace (dropWhile ascii_whitespace k) = k" "map ascii_lower k = k" "k \<noteq> []"
    using assms trim_nothing [of k ascii_whitespace] by (auto simp: ado_entry_ok_def)
  ultimately show ?thesis by (simp add: ado_pair_def Let_def)
qed

lemma ado_pairs_render:
  "\<forall>e\<in>set kvs. ado_entry_ok e \<Longrightarrow> ado_pairs (ado_render kvs) m = Inr (m ++ map_of (rev (map (\<lambda>(k, q, v). (k, v)) kvs)))"
proof (induction kvs arbitrary: m)
  case Nil
  then show ?case by (simp add: ado_pairs.simps [of "[]"])
next
  case (Cons e kvs)
  obtain k q v where e: "e = (k, q, v)" by (cases e)
  have ok: "ado_entry_ok (k, q, v)" using Cons.prems e by simp
  then have k: "k \<noteq> []" "59 \<notin> set k" "\<not> ascii_whitespace (hd k)" by (auto simp: ado_entry_ok_def)
  then have "\<not> ado_separator (hd k)" using hd_in_set [of k] unfolding ado_separator_def by metis
  then have "dropWhile ado_separator (ado_render (e # kvs)) = ado_render (e # kvs)" "ado_render (e # kvs) \<noteq> []"
    using k(1) by (auto simp: e neq_Nil_conv)
  moreover have "ado_pair (ado_render (e # kvs)) = Inr ((k, v), ado_render kvs)" using ado_pair_entry [OF ok] e by simp
  moreover have "ado_pairs (ado_render kvs) m' = Inr (m' ++ map_of (rev (map (\<lambda>(k, q, v). (k, v)) kvs)))" for m'
    using Cons.IH Cons.prems by simp
  ultimately show ?case by (subst ado_pairs.simps) (simp add: Let_def e del: ado_render.simps)
qed

lemma ascii_append: "is_ascii (s @ t) \<longleftrightarrow> is_ascii s \<and> is_ascii t" "is_ascii (c # s) \<longleftrightarrow> c < 128 \<and> is_ascii s" "is_ascii []"
  by (auto simp: is_ascii_def)

lemma ascii_quote: "q < 128 \<Longrightarrow> is_ascii v \<Longrightarrow> is_ascii (ado_quote q v)"
  unfolding ado_quote_def by (induction v) (auto simp: ascii_append)

lemma ascii_render: "\<forall>e\<in>set kvs. ado_entry_ok e \<Longrightarrow> is_ascii (ado_render kvs)"
proof (induction kvs rule: ado_render.induct)
  case (2 k q v kvs)
  then have "is_ascii k" "q < 128" "is_ascii v" by (auto simp: ado_entry_ok_def)
  then show ?case using 2 ascii_quote [of q v] by (simp add: ascii_append)
qed (simp add: ascii_append)

text \<open>C25: Any ASCII value can be passed in a connection string. Write key/value pairs with each value in single or double quotes, doubling
  the quote inside it, whatever the value holds (semicolons, equals signs, blanks, braces, quotes): parsing the string gives back
  exactly these pairs, the last one winning when a key is repeated.\<close>

theorem ado_quoted_roundtrip:
  assumes "\<forall>e\<in>set kvs. ado_entry_ok e"
  shows "ado_parse (ado_render kvs) = Inr (map_of (rev (map (\<lambda>(k, q, v). (k, v)) kvs)))"
  using ado_pairs_render [OF assms] ascii_render [OF assms] by (simp add: ado_parse_def)

theorem ado_quoted_roundtrip_witness:
  "\<exists>d. ado_parse (ado_render [(lit ''password'', 39, lit ''p@ss;w=rd {'' @ [39] @ lit '' ''), (lit ''encrypt'', 34, lit ''strict'')]) = Inr d \<and>
     d (lit ''password'') = Some (lit ''p@ss;w=rd {'' @ [39] @ lit '' '') \<and> d (lit ''encrypt'') = Some (lit ''strict'')"
proof -
  let ?kvs = "[(lit ''password'', 39, lit ''p@ss;w=rd {'' @ [39] @ lit '' ''), (lit ''encrypt'', 34, lit ''strict'')]"
  have "\<forall>e\<in>set ?kvs. ado_entry_ok e"
    by (simp add: ado_entry_ok_def lit_def is_ascii_def ascii_lower_def ascii_whitespace_def)
  from ado_quoted_roundtrip [OF this] show ?thesis by (simp add: lit_def)
qed

section \<open>No silent plaintext, no panic\<close>

lemma length_splitn_aux: "sep \<in> set s \<Longrightarrow> 1 < n \<Longrightarrow> 2 \<le> length (splitn_aux n sep cur s)"
proof (induction n sep cur s rule: splitn_aux.induct)
  case (2 n sep cur c cs)
  have "1 \<le> length (splitn_aux m sep x cs)" for m x by (induction m sep x cs rule: splitn_aux.induct) auto
  then show ?case using 2 by auto
qed simp

lemma splitn_nonempty: "splitn_aux n sep cur s \<noteq> []"
  by (induction n sep cur s rule: splitn_aux.induct) auto

lemma safe_parse_server: "safe (parse_server parts)"
proof -
  have "returns (nth_or_panic (str_split 92 p) i)" if "92 \<in> set p" "i < 2" for p i
  proof -
    have "1 < Suc (length p)" using that(1) by (cases p) auto
    then show ?thesis using length_splitn_aux [OF that(1), of "Suc (length p)" "[]"] that(2) by (auto simp: nth_or_panic_def str_split_def splitn_def)
  qed
  moreover have "returns (parse_port ps)" for ps by (auto simp: parse_port_def split: list.split sum.split)
  ultimately show ?thesis
    unfolding parse_server_def by (intro safe_intros) (auto simp: nth_or_panic_def [of parts])
qed

lemma returns_parse_bool: "returns (parse_bool v)"
  by (simp add: parse_bool_def Let_def)

lemma parse_bool_cases:
  obtains "parse_bool v = Ok True" | "parse_bool v = Ok False" | e where "parse_bool v = Err e"
proof (cases "parse_bool v")
  case (Ok b)
  then show ?thesis using that by (cases b) auto
qed (use that returns_parse_bool [of v] in \<open>auto simp: returns_def\<close>)

lemma returns_settings:
  "returns (cs_authentication build d)" "returns (cs_trust_cert d)" "returns (cs_encrypt d)" "returns (cs_multi_subnet_failover d)"
proof -
  show "returns (cs_trust_cert d)" "returns (cs_multi_subnet_failover d)"
    by (simp_all add: cs_trust_cert_def cs_multi_subnet_failover_def returns_parse_bool split: option.split)
  show "returns (cs_encrypt d)"
  proof (cases "d (lit ''encrypt'')")
    case (Some v)
    then show ?thesis by (cases v rule: parse_bool_cases) (simp_all add: cs_encrypt_def)
  qed (simp add: cs_encrypt_def)
  have "returns (is_sspi_or_truthy v)" for v by (simp add: is_sspi_or_truthy_def returns_parse_bool)
  then show "returns (cs_authentication build d)"
    unfolding cs_authentication_def Let_def
    by (cases "first_of d [''integratedsecurity'', ''integrated security'']"; cases "is_sspi_or_truthy (the (first_of d [''integratedsecurity'', ''integrated security'']))")
      (auto simp: returns_def simp del: first_of.simps split: bool.split)
qed

text \<open>Steps that leave the trust settings alone, and computations that return when started with given ones.\<close>

definition neutral :: "(Config, 'a) comp \<Rightarrow> bool" where
  "neutral m \<longleftrightarrow> (\<forall>cfg. returns (fst (m cfg)) \<and> cfg_trust (snd (m cfg)) = cfg_trust cfg)"

definition returns_at :: "TrustConfig \<Rightarrow> (Config, 'a) comp \<Rightarrow> bool" where
  "returns_at t m \<longleftrightarrow> (\<forall>cfg. cfg_trust cfg = t \<longrightarrow> returns (fst (m cfg)))"

lemma neutral_steps:
  "returns r \<Longrightarrow> neutral (liftR r)" "(\<And>a c. cfg_trust (f a c) = cfg_trust c) \<Longrightarrow> neutral (when_some x f)"
  "(\<And>c. cfg_trust (g c) = cfg_trust c) \<Longrightarrow> neutral (modifyR g)"
  by (auto simp: neutral_def liftR_def when_some_def modifyR_def split: option.split)

lemma returns_at_bind: "neutral m \<Longrightarrow> (\<And>a. returns_at t (f a)) \<Longrightarrow> returns_at t (bindR m f)"
  by (fastforce simp: neutral_def returns_at_def bindR_def split: prod.split res.split)

lemma returns_at_then: "neutral m \<Longrightarrow> returns_at t k \<Longrightarrow> returns_at t (thenR m k)"
  unfolding thenR_def by (rule returns_at_bind)

lemma returns_at_neutral: "neutral m \<Longrightarrow> returns_at t m"
  by (simp add: neutral_def returns_at_def)

lemma returns_at_trust:
  assumes "\<not> (tc \<and> ca \<noteq> None)" "\<And>t. returns_at t k"
  shows "returns_at TrustConfig_default (thenR (if tc then trust_cert else retR ()) (thenR (case ca of Some path \<Rightarrow> trust_cert_ca path | None \<Rightarrow> retR ()) k))"
  using assms
  by (auto simp: returns_at_def thenR_def bindR_def retR_def trust_cert_def trust_cert_ca_def add_ca_def TrustConfig_default_def split: option.split)

lemma returns_at_rest: "returns_at t (config_rest d)"
  unfolding config_rest_def
  by (intro returns_at_bind returns_at_then returns_at_neutral neutral_steps returns_settings) (simp_all add: setter_defs)

lemma returns_at_err: "returns_at t (errR e)"
  by (simp add: returns_at_def errR_def)

lemma returns_at_if: "(b \<Longrightarrow> returns_at t m) \<Longrightarrow> (\<not> b \<Longrightarrow> returns_at t k) \<Longrightarrow> returns_at t (if b then m else k)"
  by simp

lemma from_config_string_returns:
  assumes "returns sd"
  shows "returns_at TrustConfig_default (from_config_string build d sd)"
proof -
  have tail: "returns_at TrustConfig_default (if tc \<and> ca \<noteq> None then errR e else
      thenR (if tc then trust_cert else retR ()) (thenR (case ca of Some path \<Rightarrow> trust_cert_ca path | None \<Rightarrow> retR ()) (config_rest d)))" for tc ca e
    by (rule returns_at_if [OF returns_at_err returns_at_trust [OF _ returns_at_rest]])
  show ?thesis
    unfolding from_config_string_def Let_def
    by (intro returns_at_bind [OF neutral_steps(1) [OF assms]] returns_at_bind [OF neutral_steps(1) [OF returns_settings(1)]]
        returns_at_bind [OF neutral_steps(1) [OF returns_settings(2)]] returns_at_then [OF neutral_steps(2)] returns_at_then [OF neutral_steps(3)] tail) (simp_all add: setter_defs)
qed

lemma when_some_field: "when_some x f c = (Ok a, c') \<Longrightarrow> (\<And>b d. g (f b d) = g d) \<Longrightarrow> g c' = g c"
  by (auto simp: when_some_def split: option.splits)

lemma config_rest_encryption: "config_rest d cfg = (Ok (), cfg') \<Longrightarrow> cs_encrypt d = Ok (cfg_encryption cfg')"
  by (auto simp: config_rest_def thenR_def bindR_eq_Ok liftR_def modifyR_def setter_defs dest!: when_some_field [where g = cfg_encryption])

lemma from_config_string_encryption:
  assumes "from_config_string build d sd c = (Ok (), cfg)"
  shows "cs_encrypt d = Ok (cfg_encryption cfg)"
proof -
  obtain c' where "config_rest d c' = (Ok (), cfg)"
    using assms unfolding from_config_string_def Let_def thenR_def by (auto simp: bindR_eq_Ok errR_def simp del: first_of.simps split: if_splits)
  then show ?thesis by (rule config_rest_encryption)
qed

lemma cs_encrypt_off: "cs_encrypt d = Ok lvl \<Longrightarrow> lvl \<in> {EncOff, EncNotSupported} \<Longrightarrow>
   \<exists>v. d (lit ''encrypt'') = Some v \<and> (parse_bool v = Ok False \<or> v = lit ''DANGER_PLAINTEXT'')"
  by (auto simp: cs_encrypt_def split: option.splits res.splits bool.splits if_splits)

text \<open>C24: A connection string never panics the driver, and never weakens encryption silently. For every string, reading the
  configuration returns a configuration or an error. And when the configuration asks for less than full encryption, the string
  said so itself: its \<open>encrypt\<close> entry reads as false, or is the word DANGER\_PLAINTEXT. Without an \<open>encrypt\<close> entry, encryption is required.\<close>

theorem config_string_safe:
  "returns (from_ado_string build s) \<and>
   (\<forall>cfg. from_ado_string build s = Ok cfg \<longrightarrow>
      (\<exists>d. ado_parse s = Inr d \<and>
         (d (lit ''encrypt'') = None \<longrightarrow> cfg_encryption cfg = EncRequired) \<and>
         (cfg_encryption cfg \<in> {EncOff, EncNotSupported} \<longrightarrow>
            (\<exists>v. d (lit ''encrypt'') = Some v \<and> (parse_bool v = Ok False \<or> v = lit ''DANGER_PLAINTEXT'')))))"
proof (cases "ado_parse s")
  case (Inl e)
  then show ?thesis by (simp add: from_ado_string_def)
next
  case (Inr d)
  let ?r = "from_config_string build d (fst (ado_server d ())) Config_default"
  have "safe (ado_server d)" unfolding ado_server_def by (intro safe_intros safe_parse_server)
  then have "returns (fst ?r)"
    using from_config_string_returns [of "fst (ado_server d ())" build d] by (simp add: returns_at_def safe_def Config_default_def)
  moreover have "from_ado_string build s = finish_config ?r"
    using Inr by (simp add: from_ado_string_def)
  ultimately show ?thesis
    using Inr cs_encrypt_off [of d] from_config_string_encryption [of build d "fst (ado_server d ())" Config_default]
    by (auto simp: cs_encrypt_def finish_config_def split: prod.splits res.splits)
qed

lemma sample_string:
  "ado_parse (lit ''encrypt=no'') = Inr ((\<lambda>_. None)(lit ''encrypt'' \<mapsto> lit ''no''))"
  by (simp add: ado_parse_def is_ascii_def lit_def ado_pairs.simps ado_pair_def ado_value_def trim_end_with_def ascii_whitespace_def ado_separator_def ascii_lower_def)

lemma sample_encrypt: "cs_encrypt ((\<lambda>_. None)(lit ''encrypt'' \<mapsto> lit ''no'')) = Ok EncOff"
  by (simp add: cs_encrypt_def parse_bool_def lit_def str_trim_def trim_end_with_def unicode_whitespace_def ascii_lower_def)

lemma lit_eq [simp]: "lit s = lit t \<longleftrightarrow> s = t"
  by (auto simp: lit_def inj_map_eq_map inj_def)

theorem config_string_safe_witness:
  "\<exists>cfg d. from_ado_string PasswordOnly (lit ''encrypt=no'') = Ok cfg \<and> cfg_encryption cfg = EncOff \<and>
     ado_parse (lit ''encrypt=no'') = Inr d \<and>
     (\<exists>v. d (lit ''encrypt'') = Some v \<and> (parse_bool v = Ok False \<or> v = lit ''DANGER_PLAINTEXT''))"
proof -
  have "\<exists>cfg. from_ado_string PasswordOnly (lit ''encrypt=no'') = Ok cfg \<and> cfg_encryption cfg = EncOff"
    using sample_encrypt
    by (simp add: from_ado_string_def sample_string from_config_string_def config_rest_def finish_config_def ado_server_def
        cs_authentication_def cs_trust_cert_def cs_multi_subnet_failover_def setter_defs
        thenR_def bindR_def liftR_def retR_def when_some_def modifyR_def)
  then show ?thesis using config_string_safe [of PasswordOnly "lit ''encrypt=no''"] by blast
qed

end
