(* ===== verification/Tds_Browser.thy ===== *)
theory Tds_Browser
  imports Tds_Config
begin

text \<open>
  Finding the port of a named instance (\<^verbatim>\<open>sql_browser.rs\<close>, \<^verbatim>\<open>sql_browser/tokio.rs\<close>, \<^verbatim>\<open>sql_browser/smol.rs\<close>): a request by UDP, the port taken from the
  answer, and the first address that can be connected. Name lookup, UDP and TCP belong to the runtimes and are arguments; both runtimes
  have the same code around them. The answer comes unauthenticated from the network.
\<close>

section \<open>The answer of the browser\<close>

definition SSRP_CLIENT_UNICAST :: u8 where "SSRP_CLIENT_UNICAST = 4"

definition SSRP_REPLY_BUF_LEN :: nat where "SSRP_REPLY_BUF_LEN = 4096"

definition DELIMITER :: bytes where "DELIMITER = [116, 99, 112, 59]"

text \<open>\<^verbatim>\<open>slice::windows\<close> and \<^verbatim>\<open>str::from_utf8\<close>.\<close>

definition windows :: "nat \<Rightarrow> 'a list \<Rightarrow> 'a list list" where
  "windows n xs = map (\<lambda>i. take n (drop i xs)) [0..<length xs + 1 - n]"

function utf8_strict :: "nat list \<Rightarrow> rstring option" where
  "utf8_strict [] = Some []"
| "utf8_strict (b # bs) =
     (case utf8_next b bs of (Some c, r) \<Rightarrow> map_option ((#) c) (utf8_strict r) | (None, r) \<Rightarrow> None)"
  by pat_completeness auto
termination
  by (relation "measure length") (auto, metis le_imp_less_Suc snd_conv utf8_next_shorter)

definition from_utf8 :: "bytes \<Rightarrow> rstring option" where
  "from_utf8 bs = utf8_strict (map unat bs)"

definition unresolved :: "rstring \<Rightarrow> error" where
  "unresolved instance_name = Conversion (lit ''Could not resolve SQL browser instance '' @ instance_name)"

definition get_port_from_sql_browser_reply :: "bytes \<Rightarrow> nat \<Rightarrow> rstring \<Rightarrow> u16 res" where
  "get_port_from_sql_browser_reply raw len instance_name =
     (let buf = take len raw in
      if len < 3 then Err (unresolved instance_name)
      else if length buf < len then Panic
      else
        let rsp = drop 3 buf in
        (case position (\<lambda>window. window = DELIMITER) (rev (windows (length DELIMITER) rsp)) of
           None \<Rightarrow> Err (unresolved instance_name)
         | Some pos \<Rightarrow>
             (case from_utf8 (takeWhile (\<lambda>item. item \<noteq> 59) (drop (length rsp - pos) rsp)) of
                None \<Rightarrow> Err (unresolved instance_name)
              | Some val \<Rightarrow>
                  (case parse_uint (2 ^ 16) val of
                     Inl _ \<Rightarrow> Err (unresolved instance_name)
                   | Inr port \<Rightarrow> Ok (of_nat port)))))"

section \<open>Connecting\<close>

record SocketAddr =
  sa_ip :: rstring
  sa_port :: u16

datatype udp_answer = UdpFailed error | UdpSilent | UdpReply bytes

text \<open>The runtime: the addresses of a name, one UDP exchange within the time limit, a TCP connection, and the order in which concurrent attempts finish.\<close>

record 'c net_env =
  ne_lookup :: "rstring \<Rightarrow> SocketAddr list res"
  ne_udp :: "SocketAddr \<Rightarrow> bytes \<Rightarrow> udp_answer"
  ne_tcp :: "SocketAddr \<Rightarrow> 'c res"
  ne_order :: "'c res list \<Rightarrow> 'c res list"

definition browser_timeout :: "Config \<Rightarrow> rstring \<Rightarrow> error" where
  "browser_timeout cfg instance_name =
     Conversion (lit ''SQL browser timeout during resolving instance '' @ instance_name @ lit ''. Please check if browser is running in port '' @
       show_nat (unat (get_port cfg)) @ lit '' and does the instance exist.'')"

text \<open>The datagram is read into a buffer of fixed size.\<close>

definition received :: "bytes \<Rightarrow> bytes \<times> nat" where
  "received datagram =
     (let bs = take SSRP_REPLY_BUF_LEN datagram in (bs @ replicate (SSRP_REPLY_BUF_LEN - length bs) 0, length bs))"

definition connect_addr :: "'c net_env \<Rightarrow> Config \<Rightarrow> SocketAddr \<Rightarrow> 'c res" where
  "connect_addr env cfg addr =
     (case cfg_instance_name cfg of
        None \<Rightarrow> ne_tcp env addr
      | Some instance_name \<Rightarrow>
          (case ne_udp env addr (SSRP_CLIENT_UNICAST # as_bytes instance_name) of
             UdpFailed e \<Rightarrow> Err e
           | UdpSilent \<Rightarrow> Err (browser_timeout cfg instance_name)
           | UdpReply datagram \<Rightarrow>
               (case received datagram of (buf, len) \<Rightarrow>
                  (case get_port_from_sql_browser_reply buf len instance_name of
                     Ok port \<Rightarrow> ne_tcp env (addr\<lparr>sa_port := port\<rparr>)
                   | Err e \<Rightarrow> Err e | Panic \<Rightarrow> Panic | Diverge \<Rightarrow> Diverge))))"

fun first_connection :: "error option \<Rightarrow> 'c res list \<Rightarrow> 'c res" where
  "first_connection earlier [] = Err (case earlier of Some e \<Rightarrow> e | None \<Rightarrow> Io NotFound)"
| "first_connection earlier (attempt # attempts) =
     (case attempt of
        Ok connection \<Rightarrow> Ok connection
      | Err e \<Rightarrow> first_connection (case earlier of None \<Rightarrow> Some e | Some e0 \<Rightarrow> Some e0) attempts
      | Panic \<Rightarrow> Panic
      | Diverge \<Rightarrow> Diverge)"

definition connect_named :: "'c net_env \<Rightarrow> Config \<Rightarrow> 'c res" where
  "connect_named env cfg =
     (case ne_lookup env (get_addr cfg) of
        Ok addrs \<Rightarrow>
          let attempts = map (connect_addr env cfg) addrs in
          first_connection None (if cfg_multi_subnet_failover cfg then ne_order env attempts else attempts)
      | Err e \<Rightarrow> Err e | Panic \<Rightarrow> Panic | Diverge \<Rightarrow> Diverge)"

section \<open>What can be relied on\<close>

text \<open>No datagram makes the client panic, and a port is only taken from text after the last delimiter.\<close>

lemma reply_returns: "len \<le> length raw \<Longrightarrow> returns (get_port_from_sql_browser_reply raw len instance_name)"
  by (auto simp: get_port_from_sql_browser_reply_def Let_def split: option.split sum.split)

lemma connect_addr_returns: "(\<And>a. returns (ne_tcp env a)) \<Longrightarrow> returns (connect_addr env cfg addr)"
proof (cases "cfg_instance_name cfg")
  case (Some n)
  assume tcp: "\<And>a. returns (ne_tcp env a)"
  have "returns (get_port_from_sql_browser_reply (fst (received d)) (snd (received d)) n)" for d
    by (rule reply_returns) (simp add: received_def Let_def)
  then show ?thesis using Some tcp by (auto simp: connect_addr_def split: udp_answer.split prod.split res.split) (metis fst_conv snd_conv returns_simps)+
qed (simp add: connect_addr_def)

lemma first_connection_fails:
  "\<forall>a\<in>set attempts. \<exists>e. a = Err e \<Longrightarrow>
     first_connection earlier attempts = Err (case earlier of Some e \<Rightarrow> e | None \<Rightarrow> (case attempts of Err e # _ \<Rightarrow> e | _ \<Rightarrow> Io NotFound))"
  by (induction earlier attempts rule: first_connection.induct) (auto split: option.split list.split res.split)

lemma first_connection_finds:
  "\<forall>a\<in>set before. \<exists>e. a = Err e \<Longrightarrow> first_connection earlier (before @ Ok c # rest) = Ok c"
  by (induction "before" arbitrary: earlier) auto

text \<open>A host is tried address by address: the one that answers first in the list wins, and when none does the caller sees the error of the first one.\<close>

lemma connect_in_order:
  assumes "ne_lookup env (get_addr cfg) = Ok (before @ addr # rest)" "\<not> cfg_multi_subnet_failover cfg"
    "\<forall>a\<in>set before. \<exists>e. connect_addr env cfg a = Err e" "connect_addr env cfg addr = Ok c"
  shows "connect_named env cfg = Ok c"
  using first_connection_finds [of "map (connect_addr env cfg) before" None c "map (connect_addr env cfg) rest"] assms
  by (auto simp: connect_named_def)

section \<open>Reading the port back\<close>

lemma position_skip: "\<forall>z\<in>set zs. \<not> P z \<Longrightarrow> P y \<Longrightarrow> position P (zs @ y # xs) = Some (length zs)"
  by (induction zs) auto

lemma last_delimiter:
  assumes "\<forall>i. take 4 (drop i rest) \<noteq> DELIMITER"
  shows "position (\<lambda>w. w = DELIMITER) (rev (windows (length DELIMITER) (pre @ DELIMITER @ rest))) = Some (length rest)"
proof -
  let ?xs = "pre @ DELIMITER @ rest" and ?w = "\<lambda>i. take 4 (drop i (pre @ DELIMITER @ rest))"
  have l: "length DELIMITER = 4" by (simp add: DELIMITER_def)
  have u: "[0..<length pre + (length rest + 1)] = [0..<length pre] @ length pre # [Suc (length pre)..<length pre + (length rest + 1)]"
    using upt_add_eq_append [of 0 "length pre" "length rest + 1"] upt_conv_Cons [of "length pre" "length pre + (length rest + 1)"] by simp
  have "windows (length DELIMITER) ?xs = map ?w [0..<length pre + (length rest + 1)]"
    using l by (simp add: windows_def)
  also have "\<dots> = map ?w [0..<length pre] @ DELIMITER # map ?w [Suc (length pre)..<length pre + (length rest + 1)]"
    unfolding u by (simp add: DELIMITER_def del: upt_Suc)
  finally have r: "rev (windows (length DELIMITER) ?xs) =
      rev (map ?w [Suc (length pre)..<length pre + (length rest + 1)]) @ DELIMITER # rev (map ?w [0..<length pre])" by simp
  have "?w i \<noteq> DELIMITER" if lt: "length pre < i" for i
  proof -
    obtain j where j: "i = length pre + Suc j" using less_imp_Suc_add [OF lt] by auto
    show ?thesis using assms
      by (cases "j < 3") (auto simp: j DELIMITER_def less_Suc_eq numeral_3_eq_3 drop_Cons' not_less dest!: arg_cong [of _ _ hd] split: if_splits)
  qed
  then have "\<forall>z\<in>set (rev (map ?w [Suc (length pre)..<length pre + (length rest + 1)])). z \<noteq> DELIMITER"
    unfolding set_rev set_map set_upt by (metis (no_types, lifting) atLeastLessThan_iff imageE Suc_le_lessD)
  from position_skip [OF this, of DELIMITER] show ?thesis unfolding r by (simp del: upt_Suc)
qed

lemma utf8_ascii: "\<forall>c\<in>set s. c < 128 \<Longrightarrow> from_utf8 (as_bytes s) = Some s"
proof (induction s)
  case (Cons c s)
  have "unat (of_nat c :: u8) = c" using Cons.prems by (simp add: unat_of_nat)
  then show ?case using Cons by (simp add: from_utf8_def as_bytes_def utf8_char_def utf8_next_def)
qed (simp add: from_utf8_def)

text \<open>The port that the browser states last is the one that is used.\<close>

lemma reply_port:
  assumes "length head = 3" "\<forall>i. take 4 (drop i rest) \<noteq> DELIMITER" "port < 2 ^ 16" "rest = as_bytes (show_nat port) @ 59 # more_fields"
  shows "get_port_from_sql_browser_reply (head @ pre @ DELIMITER @ rest) (length (head @ pre @ DELIMITER @ rest)) inst = Ok (of_nat port)"
proof -
  have d: "\<forall>c\<in>set (show_nat port). 48 \<le> c \<and> c \<le> 57" using show_nat_digits [of port] by auto
  have "\<forall>b\<in>set (as_bytes (show_nat port)). b \<noteq> 59"
  proof
    fix b assume "b \<in> set (as_bytes (show_nat port))"
    then obtain c where "c \<in> set (show_nat port)" "b = of_nat c" using d by (force simp: as_bytes_def utf8_char_def)
    then show "b \<noteq> 59" using d by (auto dest!: arg_cong [of _ _ unat] simp: unat_of_nat)
  qed
  then have "takeWhile (\<lambda>i. i \<noteq> 59) rest = as_bytes (show_nat port)" by (simp add: assms(4) takeWhile_append2)
  moreover have "from_utf8 (as_bytes (show_nat port)) = Some (show_nat port)" using d by (intro utf8_ascii) auto
  moreover have "parse_uint (2 ^ 16) (show_nat port) = Inr port" by (rule parse_uint_show [OF assms(3)])
  moreover have "drop (length (pre @ DELIMITER @ rest) - length rest) (pre @ DELIMITER @ rest) = rest" by simp
  ultimately show ?thesis
    using assms(1) last_delimiter [OF assms(2), of pre] by (simp add: get_port_from_sql_browser_reply_def Let_def)
qed

end
