(* ===== verification/Tds_Trust.thy ===== *)
theory Tds_Trust
  imports Tds_Browser
begin

text \<open>
  Whom the client trusts: the certificate sources of a configuration (\<^verbatim>\<open>client/tls_stream/certs.rs\<close>) and what the rustls backend makes of
  them (\<^verbatim>\<open>client/tls_stream/rustls_tls_stream.rs\<close>), and the same for the backends of the platform (\<^verbatim>\<open>native_tls_stream.rs\<close>,
  \<^verbatim>\<open>opentls_tls_stream.rs\<close>). The file system, the PEM parser, the root stores of the platform and rustls itself
  are arguments. A certificate is its DER bytes.
\<close>

section \<open>The libraries\<close>

text \<open>Reading a file, all blocks of a PEM text, the certificates of the platform with the mark that some could not be loaded, the bundled
  roots, what the store accepts as a trust anchor, valid server names, private keys, whether a key fits a chain, and the two kinds
  of identities of the other backends.\<close>

record tls_lib =
  tl_read :: "rstring \<Rightarrow> bytes option"
  tl_pem :: "bytes \<Rightarrow> bytes list option"
  tl_native :: "bytes list \<times> bool"
  tl_webpki :: "bytes list"
  tl_valid :: "bytes \<Rightarrow> bool"
  tl_name :: "rstring \<Rightarrow> bool"
  tl_pem_key :: "bytes \<Rightarrow> bytes option"
  tl_der_key :: "bytes \<Rightarrow> bytes option"
  tl_auth :: "bytes list \<Rightarrow> bytes \<Rightarrow> bool"
  tl_pkcs8 :: "bytes \<Rightarrow> bytes \<Rightarrow> bytes option"
  tl_pkcs12 :: "bytes \<Rightarrow> rstring \<Rightarrow> bytes option"

text \<open>\<^verbatim>\<open>Path::extension\<close>: of the last component, after its last full stop, unless that is its first character.\<close>

definition file_name :: "rstring \<Rightarrow> rstring option" where
  "file_name path =
     (let parts = filter (\<lambda>p. p \<noteq> [] \<and> p \<noteq> lit ''.'') (str_split 47 path) in
      if parts = [] \<or> last parts = lit ''..'' then None else Some (last parts))"

definition file_extension :: "rstring \<Rightarrow> rstring option" where
  "file_extension path =
     (case file_name path of
        None \<Rightarrow> None
      | Some file \<Rightarrow>
          let after = rev (takeWhile (\<lambda>c. c \<noteq> 46) (rev file)) in
          if length file \<le> length after + 1 then None else Some after)"

definition has_extension :: "rstring \<Rightarrow> rstring \<Rightarrow> bool" where
  "has_extension path ext \<longleftrightarrow> (case file_extension path of Some e \<Rightarrow> eq_ignore_ascii_case e ext | None \<Rightarrow> False)"

section \<open>Certificate sources\<close>

definition strip_bom :: "bytes \<Rightarrow> bytes" where
  "strip_bom bs = (if take 3 bs = [0xEF, 0xBB, 0xBF] then drop 3 bs else bs)"

definition pem_certs :: "tls_lib \<Rightarrow> bytes \<Rightarrow> bytes list res" where
  "pem_certs lib bs = (case tl_pem lib bs of Some certs \<Rightarrow> Ok certs | None \<Rightarrow> Err (Io InvalidData))"

definition certs_from_file :: "tls_lib \<Rightarrow> rstring \<Rightarrow> bytes list res" where
  "certs_from_file lib path =
     (case tl_read lib path of
        None \<Rightarrow> Err (Io InvalidData)
      | Some buf \<Rightarrow>
          if has_extension path (lit ''pem'') \<or> has_extension path (lit ''crt'') then pem_certs lib (strip_bom buf)
          else if has_extension path (lit ''der'') \<and> buf = [] then Ok []
          else if has_extension path (lit ''der'') then Ok [buf]
          else Err (Io InvalidInput))"

definition PEM_MARKER :: bytes where "PEM_MARKER = as_bytes (lit ''-----BEGIN'')"

definition looks_like_pem :: "bytes \<Rightarrow> bool" where
  "looks_like_pem bs \<longleftrightarrow>
     take (length PEM_MARKER) bs = PEM_MARKER \<or>
     list_ex (\<lambda>w. (hd w = 10 \<or> hd w = 13) \<and> tl w = PEM_MARKER) (windows (length PEM_MARKER + 1) bs)"

definition certs_from_bundle :: "tls_lib \<Rightarrow> bytes \<Rightarrow> bytes list res" where
  "certs_from_bundle lib bundle =
     (let bs = strip_bom bundle in
      if looks_like_pem bs then pem_certs lib bs else if bs = [] then Ok [] else Ok [bs])"

definition trust_anchors :: "tls_lib \<Rightarrow> ExtraCa \<Rightarrow> bytes list res" where
  "trust_anchors lib extra =
     (case (case extra of CaFile path \<Rightarrow> certs_from_file lib path | CaBundle bundle \<Rightarrow> certs_from_bundle lib bundle) of
        Ok certs \<Rightarrow> if certs = [] then Err (Io InvalidData) else Ok certs
      | e \<Rightarrow> e)"

section \<open>The trust store\<close>

text \<open>The store is the state: the certificates added so far.\<close>

fun load_native_roots_into :: "tls_lib \<Rightarrow> bytes list \<Rightarrow> nat \<Rightarrow> (bytes list, nat) comp" where
  "load_native_roots_into lib [] added store = (Ok added, store)"
| "load_native_roots_into lib (cert # certs) added store =
     (if tl_valid lib cert then load_native_roots_into lib certs (added + 1) (store @ [cert])
      else load_native_roots_into lib certs added store)"

definition base_roots :: "tls_lib \<Rightarrow> RootSource \<Rightarrow> (bytes list, nat \<times> bool) comp" where
  "base_roots lib source =
     (case source of
        NativeRoots \<Rightarrow> bindR (load_native_roots_into lib (fst (tl_native lib)) 0) (\<lambda>added. retR (added, snd (tl_native lib)))
      | WebpkiRoots \<Rightarrow> (\<lambda>store. (Ok (length (tl_webpki lib), False), store @ tl_webpki lib)))"

definition store_add :: "tls_lib \<Rightarrow> bytes \<Rightarrow> (bytes list, unit) comp" where
  "store_add lib cert store = (if tl_valid lib cert then (Ok (), store @ [cert]) else (Err (Io InvalidData), store))"

definition ensure_base_or_extra :: "nat \<Rightarrow> bool \<Rightarrow> bool \<Rightarrow> unit res" where
  "ensure_base_or_extra base_added base_had_errors has_extras = (if base_added = 0 \<and> \<not> has_extras then Err (Io NotFound) else Ok ())"

definition add_extra :: "tls_lib \<Rightarrow> ExtraCa \<Rightarrow> (bytes list, unit) comp" where
  "add_extra lib extra = bindR (liftR (trust_anchors lib extra)) (\<lambda>certs. eachR (store_add lib) certs)"

definition build_trust_store :: "tls_lib \<Rightarrow> TrustConfig \<Rightarrow> (bytes list, unit) comp" where
  "build_trust_store lib trust =
     bindR (base_roots lib (trust_source trust)) (\<lambda>(base_added, base_had_errors).
     thenR (eachR (add_extra lib) (trust_extra_cas trust))
           (liftR (ensure_base_or_extra base_added base_had_errors (trust_extra_cas trust \<noteq> []))))"

section \<open>The TLS configuration\<close>

definition get_server_name :: "tls_lib \<Rightarrow> Config \<Rightarrow> rstring res" where
  "get_server_name lib cfg =
     (let name = get_hostname_in_certificate cfg in
      if tl_name lib name then Ok name
      else if trust_bypass (cfg_trust cfg) then Ok (lit ''placeholder.domain.com'')
      else Err Tls)"

definition read_private_key :: "tls_lib \<Rightarrow> rstring \<Rightarrow> bytes res" where
  "read_private_key lib path =
     (case tl_read lib path of
        None \<Rightarrow> Err (Io InvalidData)
      | Some buf \<Rightarrow>
          if has_extension path (lit ''pem'') \<or> has_extension path (lit ''key'')
          then (case tl_pem_key lib buf of Some key \<Rightarrow> Ok key | None \<Rightarrow> Err (Io InvalidData))
          else if has_extension path (lit ''der'')
          then (case tl_der_key lib buf of Some key \<Rightarrow> Ok key | None \<Rightarrow> Err (Io InvalidData))
          else Err (Io InvalidInput))"

fun load_client_auth :: "tls_lib \<Rightarrow> ClientCertSource \<Rightarrow> (bytes list \<times> bytes) res" where
  "load_client_auth lib (CertAndKey cert key) =
     (case certs_from_file lib cert of
        Ok chain \<Rightarrow>
          if chain = [] then Err (Io InvalidInput)
          else (case read_private_key lib key of Ok k \<Rightarrow> Ok (chain, k) | Err e \<Rightarrow> Err e | Panic \<Rightarrow> Panic | Diverge \<Rightarrow> Diverge)
      | Err e \<Rightarrow> Err e | Panic \<Rightarrow> Panic | Diverge \<Rightarrow> Diverge)"
| "load_client_auth lib (Pkcs12 _ _) = Err Tls"

datatype verifier = NoCertVerifier | Roots "bytes list"

record tls_config =
  tc_verifier :: verifier
  tc_client_auth :: "(bytes list \<times> bytes) option"
  tc_alpn :: "rstring list"
  tc_server_name :: rstring

definition TDS_ALPN_PROTOCOL_NAME :: rstring where "TDS_ALPN_PROTOCOL_NAME = lit ''tds/8.0''"

definition choose_verifier :: "tls_lib \<Rightarrow> TrustConfig \<Rightarrow> verifier res" where
  "choose_verifier lib trust =
     (if trust_bypass trust then Ok NoCertVerifier
      else (case build_trust_store lib trust [] of
              (Ok _, store) \<Rightarrow> Ok (Roots store) | (Err e, _) \<Rightarrow> Err e | (Panic, _) \<Rightarrow> Panic | (Diverge, _) \<Rightarrow> Diverge))"

definition choose_client_auth :: "tls_lib \<Rightarrow> Config \<Rightarrow> (bytes list \<times> bytes) option res" where
  "choose_client_auth lib cfg =
     (case cfg_client_cert cfg of
        None \<Rightarrow> Ok None
      | Some cert \<Rightarrow>
          (case load_client_auth lib cert of
             Ok (chain, key) \<Rightarrow> if tl_auth lib chain key then Ok (Some (chain, key)) else Err Tls
           | Err e \<Rightarrow> Err e | Panic \<Rightarrow> Panic | Diverge \<Rightarrow> Diverge))"

text \<open>\<^verbatim>\<open>TlsStream::new\<close> up to the call of the connector, which the result is given to.\<close>

definition TlsStream_config :: "tls_lib \<Rightarrow> Config \<Rightarrow> tls_config res" where
  "TlsStream_config lib cfg = fst (
     bindR (liftR (choose_verifier lib (cfg_trust cfg))) (\<lambda>v.
     bindR (liftR (choose_client_auth lib cfg)) (\<lambda>auth.
     bindR (liftR (get_server_name lib cfg)) (\<lambda>name.
     retR \<lparr>tc_verifier = v, tc_client_auth = auth,
           tc_alpn = (if cfg_encryption cfg = EncStrict then [TDS_ALPN_PROTOCOL_NAME] else []), tc_server_name = name\<rparr>))) ())"

text \<open>A failed handshake, given by its I/O kind and whether it wraps a rejected certificate.\<close>

definition map_handshake_error :: "io_error_kind \<times> bool \<Rightarrow> TrustConfig \<Rightarrow> error" where
  "map_handshake_error err trust = (if \<not> trust_bypass trust \<and> snd err then Tls else Io (fst err))"

section \<open>The backends of the platform\<close>

text \<open>The connector of \<^verbatim>\<open>native-tls\<close> and \<^verbatim>\<open>opentls\<close>: the base roots are those of the platform, and the builder holds what is added.\<close>

record tls_builder =
  tb_alpns :: "rstring list"
  tb_identity :: "bytes option"
  tb_accept_invalid_certs :: bool
  tb_accept_invalid_hostnames :: bool
  tb_use_sni :: bool
  tb_roots :: "bytes list"
  tb_host :: rstring

definition tls_builder_new :: tls_builder where
  "tls_builder_new = \<lparr>tb_alpns = [], tb_identity = None, tb_accept_invalid_certs = False, tb_accept_invalid_hostnames = False, tb_use_sni = True,
     tb_roots = [], tb_host = []\<rparr>"

definition identity_pkcs12 :: "tls_lib \<Rightarrow> rstring \<Rightarrow> rstring \<Rightarrow> bytes res" where
  "identity_pkcs12 lib path password =
     (case tl_read lib path of
        None \<Rightarrow> Err (Io InvalidData)
      | Some buf \<Rightarrow> (case tl_pkcs12 lib buf password of Some i \<Rightarrow> Ok i | None \<Rightarrow> Err Tls))"

fun native_load_identity :: "tls_lib \<Rightarrow> ClientCertSource \<Rightarrow> bytes res" where
  "native_load_identity lib (CertAndKey cert key) =
     (if \<not> (has_extension cert (lit ''pem'') \<or> has_extension cert (lit ''crt'')) \<or>
         \<not> (has_extension key (lit ''pem'') \<or> has_extension key (lit ''key'')) then Err Tls
      else (case tl_read lib cert of
              None \<Rightarrow> Err (Io InvalidData)
            | Some cert_buf \<Rightarrow>
                (case tl_read lib key of
                   None \<Rightarrow> Err (Io InvalidData)
                 | Some key_buf \<Rightarrow> (case tl_pkcs8 lib cert_buf key_buf of Some i \<Rightarrow> Ok i | None \<Rightarrow> Err Tls))))"
| "native_load_identity lib (Pkcs12 path password) = identity_pkcs12 lib path password"

fun opentls_load_identity :: "tls_lib \<Rightarrow> ClientCertSource \<Rightarrow> bytes res" where
  "opentls_load_identity lib (Pkcs12 path password) = identity_pkcs12 lib path password"
| "opentls_load_identity lib (CertAndKey _ _) = Err Tls"

definition load_extra_cas :: "tls_lib \<Rightarrow> ExtraCa list \<Rightarrow> (bytes list, unit) comp" where
  "load_extra_cas lib extras = eachR (add_extra lib) extras"

definition present_identity :: "(ClientCertSource \<Rightarrow> bytes res) \<Rightarrow> Config \<Rightarrow> (tls_builder, unit) comp" where
  "present_identity load_identity cfg =
     (case cfg_client_cert cfg of
        None \<Rightarrow> retR ()
      | Some cert \<Rightarrow> bindR (liftR (load_identity cert)) (\<lambda>i b. (Ok (), b\<lparr>tb_identity := Some i\<rparr>)))"

definition apply_trust :: "tls_lib \<Rightarrow> TrustConfig \<Rightarrow> (tls_builder, unit) comp" where
  "apply_trust lib trust b =
     (if trust_bypass trust
      then (Ok (), b\<lparr>tb_accept_invalid_certs := True, tb_accept_invalid_hostnames := True, tb_use_sni := False\<rparr>)
      else (case load_extra_cas lib (trust_extra_cas trust) [] of
              (Ok _, certs) \<Rightarrow> (Ok (), b\<lparr>tb_roots := tb_roots b @ certs\<rparr>)
            | (Err e, _) \<Rightarrow> (Err e, b) | (Panic, _) \<Rightarrow> (Panic, b) | (Diverge, _) \<Rightarrow> (Diverge, b)))"

definition native_tls_config :: "tls_lib \<Rightarrow> Config \<Rightarrow> (tls_builder, unit) comp" where
  "native_tls_config lib cfg =
     thenR (\<lambda>b. (Ok (), if cfg_encryption cfg = EncStrict then b\<lparr>tb_alpns := [TDS_ALPN_PROTOCOL_NAME]\<rparr> else b))
    (thenR (present_identity (native_load_identity lib) cfg)
    (thenR (apply_trust lib (cfg_trust cfg))
           (\<lambda>b. (Ok (), b\<lparr>tb_host := get_hostname_in_certificate cfg\<rparr>))))"

definition opentls_tls_config :: "tls_lib \<Rightarrow> Config \<Rightarrow> (tls_builder, unit) comp" where
  "opentls_tls_config lib cfg =
     thenR (present_identity (opentls_load_identity lib) cfg)
    (thenR (apply_trust lib (cfg_trust cfg))
           (\<lambda>b. (Ok (), b\<lparr>tb_host := get_hostname_in_certificate cfg\<rparr>)))"

section \<open>A build without TLS\<close>

text \<open>The reading of the keyword \<^verbatim>\<open>encrypt\<close> when no backend is compiled in.\<close>

definition tls_backend_missing :: error where "tls_backend_missing = Tls"

definition cs_encrypt_no_tls :: "dict \<Rightarrow> EncryptionLevel res" where
  "cs_encrypt_no_tls d =
     (case d (lit ''encrypt'') of
        None \<Rightarrow> Ok EncNotSupported
      | Some val \<Rightarrow>
          (case parse_bool val of
             Ok False \<Rightarrow> Ok EncNotSupported
           | Ok True \<Rightarrow> Err tls_backend_missing
           | Err e \<Rightarrow>
               if val = lit ''DANGER_PLAINTEXT'' then Ok EncNotSupported
               else if eq_ignore_ascii_case val (lit ''strict'') then Err tls_backend_missing
               else Err e
           | Panic \<Rightarrow> Panic | Diverge \<Rightarrow> Diverge))"

text \<open>Such a build accepts a setting only when it is absent or opts out of encryption; what a build with TLS would encrypt it refuses, and both refuse the
  same misspellings.\<close>

lemma no_silent_plaintext:
  "cs_encrypt_no_tls d = Ok level \<longleftrightarrow>
     level = EncNotSupported \<and> (d (lit ''encrypt'') = None \<or> cs_encrypt d = Ok EncOff \<or> cs_encrypt d = Ok EncNotSupported)"
  "d (lit ''encrypt'') \<noteq> None \<Longrightarrow> cs_encrypt d \<in> {Ok EncRequired, Ok EncStrict} \<Longrightarrow> cs_encrypt_no_tls d = Err tls_backend_missing"
  "cs_encrypt d = Err e \<Longrightarrow> cs_encrypt_no_tls d = Err e"
  by (auto simp: cs_encrypt_no_tls_def cs_encrypt_def split: option.splits res.splits bool.splits if_splits)

section \<open>Trust is never wider or narrower than asked for\<close>

lemma native_roots: "load_native_roots_into lib certs added store = (Ok (added + length (filter (tl_valid lib) certs)), store @ filter (tl_valid lib) certs)"
  by (induction lib certs added store rule: load_native_roots_into.induct) auto

definition base_certs :: "tls_lib \<Rightarrow> RootSource \<Rightarrow> bytes list" where
  "base_certs lib source = (case source of NativeRoots \<Rightarrow> filter (tl_valid lib) (fst (tl_native lib)) | WebpkiRoots \<Rightarrow> tl_webpki lib)"

lemma base_roots_eq: "\<exists>err. base_roots lib source store = (Ok (length (base_certs lib source), err), store @ base_certs lib source)"
  by (cases source) (auto simp: base_roots_def base_certs_def native_roots bindR_def retR_def)

lemma store_adds: "eachR (store_add lib) certs store = (Ok (), store') \<Longrightarrow> store' = store @ certs \<and> (\<forall>c\<in>set certs. tl_valid lib c)"
proof (induction certs arbitrary: store)
  case Nil
  then show ?case by (simp add: retR_def)
next
  case (Cons cert certs)
  have valid: "tl_valid lib cert" and rest: "eachR (store_add lib) certs (store @ [cert]) = (Ok (), store')"
    using Cons.prems store_add_def [of lib cert store] by (auto simp: thenR_def bindR_def split: if_splits)
  show ?case using Cons.IH [OF rest] valid by simp
qed

lemma extras_added:
  "eachR (add_extra lib) extras store = (Ok (), store') \<Longrightarrow>
     \<exists>css. list_all2 (\<lambda>extra certs. trust_anchors lib extra = Ok certs \<and> certs \<noteq> [] \<and> (\<forall>c\<in>set certs. tl_valid lib c)) extras css \<and> store' = store @ concat css"
proof (induction extras arbitrary: store)
  case Nil
  then show ?case by (simp add: retR_def)
next
  case (Cons extra extras)
  obtain s1 where s1: "add_extra lib extra store = (Ok (), s1)" "eachR (add_extra lib) extras s1 = (Ok (), store')"
    using Cons.prems by (auto simp: thenR_def bindR_eq_Ok)
  obtain certs where c: "trust_anchors lib extra = Ok certs" "eachR (store_add lib) certs store = (Ok (), s1)"
    using s1(1) by (auto simp: add_extra_def bindR_eq_Ok liftR_def)
  have "certs \<noteq> []" using c(1) by (auto simp: trust_anchors_def split: res.splits if_splits)
  with Cons.IH [OF s1(2)] c store_adds [OF c(2)] show ?case by (fastforce simp: list_all2_Cons1 intro: exI [of _ "certs # _"])
qed

text \<open>With the other backends: the checks are switched off exactly under the bypass, and otherwise every extra source is among the roots.\<close>

definition builder_trusts :: "tls_lib \<Rightarrow> Config \<Rightarrow> tls_builder \<Rightarrow> bool" where
  "builder_trusts lib cfg b \<longleftrightarrow>
     tb_host b = get_hostname_in_certificate cfg \<and>
     (if trust_bypass (cfg_trust cfg) then tb_accept_invalid_certs b \<and> tb_accept_invalid_hostnames b
      else \<not> tb_accept_invalid_certs b \<and> \<not> tb_accept_invalid_hostnames b \<and>
        (\<exists>css. list_all2 (\<lambda>extra certs. trust_anchors lib extra = Ok certs \<and> certs \<noteq> [] \<and> (\<forall>c\<in>set certs. tl_valid lib c)) (trust_extra_cas (cfg_trust cfg)) css \<and>
           tb_roots b = concat css))"

lemma present_identity_keeps:
  "present_identity load cfg b = (Ok (), b') \<Longrightarrow> \<exists>i. b' = b\<lparr>tb_identity := i\<rparr>"
  by (auto simp: present_identity_def retR_def bindR_eq_Ok liftR_def split: option.splits intro: exI [of _ "tb_identity b"])

lemma trust_applied:
  assumes "apply_trust lib (cfg_trust cfg) b = (Ok (), b')" "tb_roots b = []" "\<not> tb_accept_invalid_certs b" "\<not> tb_accept_invalid_hostnames b"
  shows "builder_trusts lib cfg (b'\<lparr>tb_host := get_hostname_in_certificate cfg\<rparr>)"
proof (cases "trust_bypass (cfg_trust cfg)")
  case True
  then show ?thesis using assms by (auto simp: apply_trust_def builder_trusts_def)
next
  case False
  then obtain certs where c: "eachR (add_extra lib) (trust_extra_cas (cfg_trust cfg)) [] = (Ok (), certs)" "b' = b\<lparr>tb_roots := certs\<rparr>"
    using assms(1,2) by (auto simp: apply_trust_def load_extra_cas_def split: prod.splits res.splits)
  show ?thesis using extras_added [OF c(1)] c(2) False assms(3,4) by (auto simp: builder_trusts_def)
qed

lemma native_trust_as_configured:
  "native_tls_config lib cfg tls_builder_new = (Ok (), b) \<Longrightarrow> builder_trusts lib cfg b"
  "opentls_tls_config lib cfg tls_builder_new = (Ok (), b) \<Longrightarrow> builder_trusts lib cfg b"
  by (auto simp: native_tls_config_def opentls_tls_config_def thenR_def bindR_eq_Ok dest!: present_identity_keeps
      intro!: trust_applied split: if_splits) (auto simp: tls_builder_new_def)

text \<open>C4: Trust is exactly what the configuration asks for. When a TLS configuration comes about without the bypass, the server certificate is verified, under the host name of the configuration,
  against a store that is not empty and holds the base roots together with the certificates of every extra source, each of which gave at least one valid certificate: a mistyped path, an empty bundle
  or a broken block never shrinks the trust to the base roots. Verification is left out exactly when the bypass was asked for.\<close>

theorem trust_as_configured:
  assumes "TlsStream_config lib cfg = Ok tc"
  shows "(tc_verifier tc = NoCertVerifier \<longleftrightarrow> trust_bypass (cfg_trust cfg)) \<and>
    (\<forall>store. tc_verifier tc = Roots store \<longrightarrow>
       tc_server_name tc = get_hostname_in_certificate cfg \<and> store \<noteq> [] \<and>
       (\<exists>css. list_all2 (\<lambda>extra certs. trust_anchors lib extra = Ok certs \<and> certs \<noteq> [] \<and> (\<forall>c\<in>set certs. tl_valid lib c)) (trust_extra_cas (cfg_trust cfg)) css \<and>
          store = base_certs lib (trust_source (cfg_trust cfg)) @ concat css)) \<and>
    (cfg_encryption cfg = EncStrict \<longrightarrow> TDS_ALPN_PROTOCOL_NAME \<in> set (tc_alpn tc))"
proof -
  have parts: "choose_verifier lib (cfg_trust cfg) = Ok (tc_verifier tc)" "get_server_name lib cfg = Ok (tc_server_name tc)"
      "tc_alpn tc = (if cfg_encryption cfg = EncStrict then [TDS_ALPN_PROTOCOL_NAME] else [])"
    using assms by (auto simp: TlsStream_config_def fst_def bindR_eq_Ok liftR_def retR_def split: prod.splits)
  have "tc_server_name tc = get_hostname_in_certificate cfg \<and> store \<noteq> [] \<and>
      (\<exists>css. list_all2 (\<lambda>extra certs. trust_anchors lib extra = Ok certs \<and> certs \<noteq> [] \<and> (\<forall>c\<in>set certs. tl_valid lib c)) (trust_extra_cas (cfg_trust cfg)) css \<and>
          store = base_certs lib (trust_source (cfg_trust cfg)) @ concat css)"
    if v: "tc_verifier tc = Roots store" for store
  proof -
    let ?t = "cfg_trust cfg"
    have b: "build_trust_store lib ?t [] = (Ok (), store)" and nb: "\<not> trust_bypass ?t"
      using parts(1) v by (auto simp: choose_verifier_def split: if_splits prod.splits res.splits)
    obtain err where base: "base_roots lib (trust_source ?t) [] = (Ok (length (base_certs lib (trust_source ?t)), err), base_certs lib (trust_source ?t))"
      using base_roots_eq [of lib "trust_source ?t" "[]"] by auto
    then have e: "eachR (add_extra lib) (trust_extra_cas ?t) (base_certs lib (trust_source ?t)) = (Ok (), store)"
        "ensure_base_or_extra (length (base_certs lib (trust_source ?t))) err (trust_extra_cas ?t \<noteq> []) = Ok ()"
      using b by (auto simp: build_trust_store_def bindR_eq_Ok thenR_def liftR_def)
    from extras_added [OF e(1)] obtain css where css:
      "list_all2 (\<lambda>extra certs. trust_anchors lib extra = Ok certs \<and> certs \<noteq> [] \<and> (\<forall>c\<in>set certs. tl_valid lib c)) (trust_extra_cas ?t) css"
      "store = base_certs lib (trust_source ?t) @ concat css" by blast
    have "store \<noteq> []" using css e(2) by (cases "trust_extra_cas ?t") (auto simp: ensure_base_or_extra_def list_all2_Cons1 split: if_splits)
    then show ?thesis using css parts(2) nb by (auto simp: get_server_name_def Let_def split: if_splits)
  qed
  then show ?thesis using parts(1,3) by (auto simp: choose_verifier_def split: if_splits prod.splits res.splits)
qed

definition plain_lib :: tls_lib where
  "plain_lib = \<lparr>tl_read = (\<lambda>_. Some [48, 3]), tl_pem = (\<lambda>_. None), tl_native = ([[1], [2]], True), tl_webpki = [], tl_valid = (\<lambda>c. c \<noteq> [2]),
     tl_name = (\<lambda>_. True), tl_pem_key = (\<lambda>_. None), tl_der_key = (\<lambda>_. None), tl_auth = (\<lambda>_ _. False),
     tl_pkcs8 = (\<lambda>_ _. None), tl_pkcs12 = (\<lambda>_ _. None)\<rparr>"

theorem trust_as_configured_witness:
  "\<exists>tc. TlsStream_config plain_lib (Config_default\<lparr>cfg_trust := TrustConfig_default\<lparr>trust_extra_cas := [CaFile (lit ''ca/root.DER'')]\<rparr>\<rparr>) = Ok tc \<and>
     tc_verifier tc = Roots [[1], [48, 3]] \<and> tc_server_name tc = lit ''localhost''"
proof -
  let ?cfg = "Config_default\<lparr>cfg_trust := TrustConfig_default\<lparr>trust_extra_cas := [CaFile (lit ''ca/root.DER'')]\<rparr>\<rparr>"
  have "TlsStream_config plain_lib ?cfg =
      Ok \<lparr>tc_verifier = Roots [[1], [48, 3]], tc_client_auth = None, tc_alpn = [], tc_server_name = lit ''localhost''\<rparr>"
    by code_simp
  then obtain tc where tc: "TlsStream_config plain_lib ?cfg = Ok tc" "tc_verifier tc = Roots [[1], [48, 3]]" by simp
  have "get_hostname_in_certificate ?cfg = lit ''localhost''" by code_simp
  with trust_as_configured [OF tc(1)] tc show ?thesis by auto
qed

end
