(* ===== verification/Tds_Row.thy ===== *)
theory Tds_Row
  imports Tds_Metadata
begin

text \<open>
  The rows a caller sees (\<^verbatim>\<open>row.rs\<close>): columns with their simplified type, the access to a cell by position
  or by name, the row builder; the conversions between cells and Rust values (\<^verbatim>\<open>from_sql.rs\<close>, \<^verbatim>\<open>to_sql.rs\<close> and
  their macros); and the typing of decoded rows. Borrowed and owned values are the same value here.
\<close>

section \<open>Columns\<close>

datatype ColumnType =
    ColNull | ColBit | ColInt1 | ColInt2 | ColInt4 | ColInt8 | ColDatetime4 | ColFloat4
  | ColFloat8 | ColMoney | ColDatetime | ColMoney4 | ColGuid | ColIntn | ColBitn | ColDecimaln
  | ColNumericn | ColFloatn | ColDatetimen | ColDaten | ColTimen | ColDatetime2 | ColDatetimeOffsetn | ColBigVarBin
  | ColBigVarChar | ColBigBinary | ColBigChar | ColNVarchar | ColNChar | ColXml | ColUdt | ColText
  | ColImage | ColNText | ColSSVariant

fun ColumnType_fixed :: "FixedLenType \<Rightarrow> ColumnType" where
  "ColumnType_fixed FNull = ColNull"
| "ColumnType_fixed FBit = ColBit"
| "ColumnType_fixed FInt1 = ColInt1"
| "ColumnType_fixed FInt2 = ColInt2"
| "ColumnType_fixed FInt4 = ColInt4"
| "ColumnType_fixed FInt8 = ColInt8"
| "ColumnType_fixed FDatetime4 = ColDatetime4"
| "ColumnType_fixed FFloat4 = ColFloat4"
| "ColumnType_fixed FFloat8 = ColFloat8"
| "ColumnType_fixed FMoney = ColMoney"
| "ColumnType_fixed FDatetime = ColDatetime"
| "ColumnType_fixed FMoney4 = ColMoney4"

text \<open>The sized and the precision table differ in the integer and float arms, where the sized one looks at the length.\<close>

fun ColumnType_var :: "nat option \<Rightarrow> VarLenType \<Rightarrow> ColumnType" where
  "ColumnType_var len VGuid = ColGuid"
| "ColumnType_var len VIntn =
     (if len = Some 1 then ColInt1 else if len = Some 2 then ColInt2 else if len = Some 4 then ColInt4
      else if len = Some 8 then ColInt8 else ColIntn)"
| "ColumnType_var len VBitn = ColBitn"
| "ColumnType_var len VDecimaln = ColDecimaln"
| "ColumnType_var len VNumericn = ColNumericn"
| "ColumnType_var len VFloatn = (if len = Some 4 then ColFloat4 else if len = Some 8 then ColFloat8 else ColFloatn)"
| "ColumnType_var len VMoney = ColMoney"
| "ColumnType_var len VDatetimen = ColDatetimen"
| "ColumnType_var len VDaten = ColDaten"
| "ColumnType_var len VTimen = ColTimen"
| "ColumnType_var len VDatetime2 = ColDatetime2"
| "ColumnType_var len VDatetimeOffsetn = ColDatetimeOffsetn"
| "ColumnType_var len VBigVarBin = ColBigVarBin"
| "ColumnType_var len VBigVarChar = ColBigVarChar"
| "ColumnType_var len VBigBinary = ColBigBinary"
| "ColumnType_var len VBigChar = ColBigChar"
| "ColumnType_var len VNVarchar = ColNVarchar"
| "ColumnType_var len VNChar = ColNChar"
| "ColumnType_var len VXml = ColXml"
| "ColumnType_var len VUdt = ColUdt"
| "ColumnType_var len VText = ColText"
| "ColumnType_var len VImage = ColImage"
| "ColumnType_var len VNText = ColNText"
| "ColumnType_var len VSSVariant = ColSSVariant"


fun ColumnType_from :: "TypeInfo \<Rightarrow> ColumnType" where
  "ColumnType_from (FixedLen flt) = ColumnType_fixed flt"
| "ColumnType_from (VarLenSized cx) = ColumnType_var (Some (vlc_len cx)) (vlc_type cx)"
| "ColumnType_from (VarLenSizedPrecision ty _ _ _) = ColumnType_var None ty"
| "ColumnType_from (XmlType _ _) = ColXml"
| "ColumnType_from (Udt _) = ColUdt"

record Column =
  col_name :: rstring
  col_type :: ColumnType

definition Column_new :: "rstring \<Rightarrow> ColumnType \<Rightarrow> Column" where
  "Column_new name ty = \<lparr>col_name = name, col_type = ty\<rparr>"

text \<open>\<^verbatim>\<open>TokenColMetaData::columns\<close>.\<close>

definition meta_columns :: "TokenColMetaData \<Rightarrow> Column list" where
  "meta_columns m = map (\<lambda>x. Column_new (mdc_col_name x) (ColumnType_from (bmc_ty (mdc_base x)))) (tcm_columns m)"

section \<open>Rows\<close>

record Row =
  row_columns :: "Column list"
  row_data :: TokenRow
  row_result_index :: nat

text \<open>\<^verbatim>\<open>QueryIdx\<close>, for the two types that implement it.\<close>

datatype QueryIdx = ByPos nat | ByName rstring

fun QueryIdx_idx :: "QueryIdx \<Rightarrow> Row \<Rightarrow> nat option" where
  "QueryIdx_idx (ByPos n) row = (if n < length (row_columns row) then Some n else None)"
| "QueryIdx_idx (ByName s) row =
     (case position (\<lambda>c. col_name c = s) (row_columns row) of
        Some p \<Rightarrow> Some p
      | None \<Rightarrow> (case strip_prefix (lit ''r#'') s of
                   Some n \<Rightarrow> position (\<lambda>c. col_name c = n) (row_columns row)
                 | None \<Rightarrow> None))"

fun QueryIdx_display :: "QueryIdx \<Rightarrow> rstring" where
  "QueryIdx_display (ByPos n) = show_nat n"
| "QueryIdx_display (ByName s) = s"

definition cells :: "Row \<Rightarrow> (Column \<times> ColumnData) list" where
  "cells row = zip (row_columns row) (row_data row)"

definition get_column_data :: "QueryIdx \<Rightarrow> Row \<Rightarrow> ColumnData res" where
  "get_column_data idx row =
     (case QueryIdx_idx idx row of
        None \<Rightarrow> Err (Conversion (lit ''Could not find column with index '' @ QueryIdx_display idx))
      | Some i \<Rightarrow> if i < length (row_data row) then Ok (row_data row ! i) else Err (Protocol (ClientMsg (RowMissingValue i))))"

text \<open>The conversion is the argument, one of those below.\<close>

definition try_get :: "(ColumnData \<Rightarrow> 'a option res) \<Rightarrow> QueryIdx \<Rightarrow> Row \<Rightarrow> 'a option res" where
  "try_get from_sql idx row =
     (case get_column_data idx row of Ok d \<Rightarrow> from_sql d | Err e \<Rightarrow> Err e | Panic \<Rightarrow> Panic | Diverge \<Rightarrow> Diverge)"

definition row_get :: "(ColumnData \<Rightarrow> 'a option res) \<Rightarrow> QueryIdx \<Rightarrow> Row \<Rightarrow> 'a option res" where
  "row_get from_sql idx row = (case try_get from_sql idx row of Err e \<Rightarrow> Panic | r \<Rightarrow> r)"

record RowBuilder =
  rb_columns :: "Column list"
  rb_data :: TokenRow
  rb_result_index :: nat

definition row_builder :: RowBuilder where
  "row_builder = \<lparr>rb_columns = [], rb_data = [], rb_result_index = 0\<rparr>"

definition rb_column :: "rstring \<Rightarrow> ColumnType \<Rightarrow> ColumnData \<Rightarrow> RowBuilder \<Rightarrow> RowBuilder" where
  "rb_column name ty value b = b\<lparr>rb_columns := rb_columns b @ [Column_new name ty], rb_data := rb_data b @ [value]\<rparr>"

definition rb_set_result_index :: "nat \<Rightarrow> RowBuilder \<Rightarrow> RowBuilder" where
  "rb_set_result_index i b = b\<lparr>rb_result_index := i\<rparr>"

definition rb_build :: "RowBuilder \<Rightarrow> Row" where
  "rb_build b = \<lparr>row_columns = rb_columns b, row_data = rb_data b, row_result_index = rb_result_index b\<rparr>"

section \<open>From cells to values\<close>

text \<open>The debug text of a value, which the compiler derives, is the argument \<open>dbg\<close> of every conversion.\<close>

definition cannot_interpret :: "(ColumnData \<Rightarrow> rstring) \<Rightarrow> ColumnData \<Rightarrow> rstring \<Rightarrow> error" where
  "cannot_interpret dbg d ty = Conversion (lit ''cannot interpret '' @ dbg d @ lit '' as '' @ ty @ lit '' value'')"

text \<open>\<^verbatim>\<open>i32::from\<close> of an \<^verbatim>\<open>i16\<close>.\<close>

definition i32_from :: "u16 \<Rightarrow> u32" where
  "i32_from v = word_of_int (sint v)"

fun from_sql_bool :: "(ColumnData \<Rightarrow> rstring) \<Rightarrow> ColumnData \<Rightarrow> bool option res" where
  "from_sql_bool dbg (CBit val) = Ok val"
| "from_sql_bool dbg d = Err (cannot_interpret dbg d (lit ''an bool''))"

fun from_sql_u8 :: "(ColumnData \<Rightarrow> rstring) \<Rightarrow> ColumnData \<Rightarrow> u8 option res" where
  "from_sql_u8 dbg (CU8 val) = Ok val"
| "from_sql_u8 dbg (CI32 None) = Ok None"
| "from_sql_u8 dbg d = Err (cannot_interpret dbg d (lit ''an u8''))"

fun from_sql_i16 :: "(ColumnData \<Rightarrow> rstring) \<Rightarrow> ColumnData \<Rightarrow> u16 option res" where
  "from_sql_i16 dbg (CI16 val) = Ok val"
| "from_sql_i16 dbg (CU8 None) = Ok None"
| "from_sql_i16 dbg (CI32 None) = Ok None"
| "from_sql_i16 dbg d = Err (cannot_interpret dbg d (lit ''an i16''))"

fun from_sql_i32 :: "(ColumnData \<Rightarrow> rstring) \<Rightarrow> ColumnData \<Rightarrow> u32 option res" where
  "from_sql_i32 dbg (CI32 val) = Ok val"
| "from_sql_i32 dbg (CI16 val) = Ok (map_option i32_from val)"
| "from_sql_i32 dbg (CU8 None) = Ok None"
| "from_sql_i32 dbg d = Err (cannot_interpret dbg d (lit ''an i32''))"

fun from_sql_i64 :: "(ColumnData \<Rightarrow> rstring) \<Rightarrow> ColumnData \<Rightarrow> u64 option res" where
  "from_sql_i64 dbg (CI64 val) = Ok val"
| "from_sql_i64 dbg (CU8 None) = Ok None"
| "from_sql_i64 dbg (CI32 None) = Ok None"
| "from_sql_i64 dbg d = Err (cannot_interpret dbg d (lit ''an i64''))"

fun from_sql_f32 :: "(ColumnData \<Rightarrow> rstring) \<Rightarrow> ColumnData \<Rightarrow> u32 option res" where
  "from_sql_f32 dbg (CF32 val) = Ok val"
| "from_sql_f32 dbg d = Err (cannot_interpret dbg d (lit ''an f32''))"

fun from_sql_f64 :: "(ColumnData \<Rightarrow> rstring) \<Rightarrow> ColumnData \<Rightarrow> u64 option res" where
  "from_sql_f64 dbg (CF64 val) = Ok val"
| "from_sql_f64 dbg d = Err (cannot_interpret dbg d (lit ''an f64''))"

fun from_sql_Uuid :: "(ColumnData \<Rightarrow> rstring) \<Rightarrow> ColumnData \<Rightarrow> bytes option res" where
  "from_sql_Uuid dbg (CGuid val) = Ok val"
| "from_sql_Uuid dbg d = Err (cannot_interpret dbg d (lit ''an Uuid''))"

fun from_sql_Numeric :: "(ColumnData \<Rightarrow> rstring) \<Rightarrow> ColumnData \<Rightarrow> Numeric option res" where
  "from_sql_Numeric dbg (CNumeric val) = Ok val"
| "from_sql_Numeric dbg d = Err (cannot_interpret dbg d (lit ''an Numeric''))"

fun from_sql_xml :: "(ColumnData \<Rightarrow> rstring) \<Rightarrow> ColumnData \<Rightarrow> XmlData option res" where
  "from_sql_xml dbg (CXml val) = Ok val"
| "from_sql_xml dbg d = Err (cannot_interpret dbg d (lit ''a String''))"

fun from_sql_str :: "(ColumnData \<Rightarrow> rstring) \<Rightarrow> ColumnData \<Rightarrow> rstring option res" where
  "from_sql_str dbg (CString val) = Ok val"
| "from_sql_str dbg d = Err (cannot_interpret dbg d (lit ''a String''))"

fun from_sql_slice :: "(ColumnData \<Rightarrow> rstring) \<Rightarrow> ColumnData \<Rightarrow> bytes option res" where
  "from_sql_slice dbg (CBinary val) = Ok val"
| "from_sql_slice dbg d = Err (cannot_interpret dbg d (lit ''a &[u8]''))"

fun from_sql_vec :: "(ColumnData \<Rightarrow> rstring) \<Rightarrow> ColumnData \<Rightarrow> bytes option res" where
  "from_sql_vec dbg (CBinary val) = Ok val"
| "from_sql_vec dbg d = Err (cannot_interpret dbg d (lit ''a String''))"

section \<open>From values to cells\<close>

text \<open>The macros \<^verbatim>\<open>to_sql!\<close> and \<^verbatim>\<open>into_sql!\<close>: a type has a variant and a conversion, for the plain type and for its option.\<close>

definition to_sql_value :: "('b option \<Rightarrow> ColumnData) \<Rightarrow> ('a \<Rightarrow> 'b) \<Rightarrow> 'a \<Rightarrow> ColumnData" where
  "to_sql_value variant val v = variant (Some (val v))"

definition to_sql_option :: "('b option \<Rightarrow> ColumnData) \<Rightarrow> ('a \<Rightarrow> 'b) \<Rightarrow> 'a option \<Rightarrow> ColumnData" where
  "to_sql_option variant val v = (case v of Some x \<Rightarrow> to_sql_value variant val x | None \<Rightarrow> variant None)"

lemma to_sql_option_id: "to_sql_option variant (\<lambda>x. x) v = variant v"
  by (simp add: to_sql_option_def to_sql_value_def split: option.split)

text \<open>What a type promises that is both: reading a value gives what was written, and a wrong cell is an error, not a panic.\<close>

locale sql_type =
  fixes variant :: "'a option \<Rightarrow> ColumnData" and from_sql :: "(ColumnData \<Rightarrow> rstring) \<Rightarrow> ColumnData \<Rightarrow> 'a option res"
  assumes from_variant: "from_sql dbg (variant v) = Ok v"
    and from_other: "(\<exists>v. from_sql dbg d = Ok v) \<or> (\<exists>ty. from_sql dbg d = Err (cannot_interpret dbg d ty))"
begin

lemma from_to: "from_sql dbg (to_sql_option variant (\<lambda>x. x) v) = Ok v"
  by (simp add: to_sql_option_id from_variant)

lemma try_get_returns: "returns (try_get (from_sql dbg) idx row)"
proof (cases "get_column_data idx row")
  case (Ok d)
  then show ?thesis using from_other [of dbg d] by (auto simp: try_get_def)
qed (auto simp: try_get_def get_column_data_def split: option.splits if_splits)

lemma try_get_written:
  assumes "get_column_data idx row = Ok (to_sql_option variant (\<lambda>x. x) v)"
  shows "try_get (from_sql dbg) idx row = Ok v" "row_get (from_sql dbg) idx row = Ok v"
  using assms from_to by (simp_all add: try_get_def row_get_def)

end

interpretation sql_bool: sql_type CBit from_sql_bool
proof
  show "(\<exists>v. from_sql_bool dbg d = Ok v) \<or> (\<exists>ty. from_sql_bool dbg d = Err (cannot_interpret dbg d ty))" for dbg d
    by (cases "(dbg, d)" rule: from_sql_bool.cases) auto
qed simp

interpretation sql_u8: sql_type CU8 from_sql_u8
proof
  show "(\<exists>v. from_sql_u8 dbg d = Ok v) \<or> (\<exists>ty. from_sql_u8 dbg d = Err (cannot_interpret dbg d ty))" for dbg d
    by (cases "(dbg, d)" rule: from_sql_u8.cases) auto
qed simp

interpretation sql_i16: sql_type CI16 from_sql_i16
proof
  show "(\<exists>v. from_sql_i16 dbg d = Ok v) \<or> (\<exists>ty. from_sql_i16 dbg d = Err (cannot_interpret dbg d ty))" for dbg d
    by (cases "(dbg, d)" rule: from_sql_i16.cases) auto
qed simp

interpretation sql_i32: sql_type CI32 from_sql_i32
proof
  show "(\<exists>v. from_sql_i32 dbg d = Ok v) \<or> (\<exists>ty. from_sql_i32 dbg d = Err (cannot_interpret dbg d ty))" for dbg d
    by (cases "(dbg, d)" rule: from_sql_i32.cases) auto
qed simp

interpretation sql_i64: sql_type CI64 from_sql_i64
proof
  show "(\<exists>v. from_sql_i64 dbg d = Ok v) \<or> (\<exists>ty. from_sql_i64 dbg d = Err (cannot_interpret dbg d ty))" for dbg d
    by (cases "(dbg, d)" rule: from_sql_i64.cases) auto
qed simp

interpretation sql_f32: sql_type CF32 from_sql_f32
proof
  show "(\<exists>v. from_sql_f32 dbg d = Ok v) \<or> (\<exists>ty. from_sql_f32 dbg d = Err (cannot_interpret dbg d ty))" for dbg d
    by (cases "(dbg, d)" rule: from_sql_f32.cases) auto
qed simp

interpretation sql_f64: sql_type CF64 from_sql_f64
proof
  show "(\<exists>v. from_sql_f64 dbg d = Ok v) \<or> (\<exists>ty. from_sql_f64 dbg d = Err (cannot_interpret dbg d ty))" for dbg d
    by (cases "(dbg, d)" rule: from_sql_f64.cases) auto
qed simp

interpretation sql_Uuid: sql_type CGuid from_sql_Uuid
proof
  show "(\<exists>v. from_sql_Uuid dbg d = Ok v) \<or> (\<exists>ty. from_sql_Uuid dbg d = Err (cannot_interpret dbg d ty))" for dbg d
    by (cases "(dbg, d)" rule: from_sql_Uuid.cases) auto
qed simp

interpretation sql_Numeric: sql_type CNumeric from_sql_Numeric
proof
  show "(\<exists>v. from_sql_Numeric dbg d = Ok v) \<or> (\<exists>ty. from_sql_Numeric dbg d = Err (cannot_interpret dbg d ty))" for dbg d
    by (cases "(dbg, d)" rule: from_sql_Numeric.cases) auto
qed simp

interpretation sql_xml: sql_type CXml from_sql_xml
proof
  show "(\<exists>v. from_sql_xml dbg d = Ok v) \<or> (\<exists>ty. from_sql_xml dbg d = Err (cannot_interpret dbg d ty))" for dbg d
    by (cases "(dbg, d)" rule: from_sql_xml.cases) auto
qed simp

interpretation sql_str: sql_type CString from_sql_str
proof
  show "(\<exists>v. from_sql_str dbg d = Ok v) \<or> (\<exists>ty. from_sql_str dbg d = Err (cannot_interpret dbg d ty))" for dbg d
    by (cases "(dbg, d)" rule: from_sql_str.cases) auto
qed simp

interpretation sql_slice: sql_type CBinary from_sql_slice
proof
  show "(\<exists>v. from_sql_slice dbg d = Ok v) \<or> (\<exists>ty. from_sql_slice dbg d = Err (cannot_interpret dbg d ty))" for dbg d
    by (cases "(dbg, d)" rule: from_sql_slice.cases) auto
qed simp

interpretation sql_vec: sql_type CBinary from_sql_vec
proof
  show "(\<exists>v. from_sql_vec dbg d = Ok v) \<or> (\<exists>ty. from_sql_vec dbg d = Err (cannot_interpret dbg d ty))" for dbg d
    by (cases "(dbg, d)" rule: from_sql_vec.cases) auto
qed simp

text \<open>An integer column of 16 bits can be read as 32 bits, with its sign.\<close>

lemma widened_i16: "from_sql_i32 dbg (CI16 (Some v)) = Ok (Some w) \<Longrightarrow> sint w = sint v"
  by (auto simp: i32_from_def sint_up_scast is_up)

text \<open>A cell that is no binary value is reported as no \<^verbatim>\<open>String\<close> when a \<^verbatim>\<open>Vec<u8>\<close> was asked for.\<close>

lemma vec_error_text: "from_sql_vec dbg (CBit v) = Err (cannot_interpret dbg (CBit v) (lit ''a String''))"
  by simp

section \<open>Looking up\<close>

lemma position_first: "position P xs = Some i \<Longrightarrow> i < length xs \<and> P (xs ! i) \<and> (\<forall>j<i. \<not> P (xs ! j))"
  by (induction xs arbitrary: i) (auto simp: nth_Cons' split: if_splits)

lemma position_found: "x \<in> set xs \<Longrightarrow> P x \<Longrightarrow> \<exists>i. position P xs = Some i"
  by (induction xs) auto

lemma position_last: "\<forall>y\<in>set xs. \<not> P y \<Longrightarrow> P x \<Longrightarrow> position P (xs @ [x]) = Some (length xs)"
  by (induction xs) auto

text \<open>A column added to a row under construction is found by its name, when the name is new.\<close>

lemma built_column:
  assumes "length (rb_columns b) = length (rb_data b)" "\<forall>c\<in>set (rb_columns b). col_name c \<noteq> name"
  shows "get_column_data (ByName name) (rb_build (rb_column name ty v b)) = Ok v"
  using position_last [of "rb_columns b" "\<lambda>c. col_name c = name" "Column_new name ty"] assms
  by (simp add: get_column_data_def rb_build_def rb_column_def Column_new_def nth_append)

section \<open>Typed rows\<close>

text \<open>The variants a cell of a column type can have.\<close>

datatype ValueKind =
    KU8 | KI16 | KI32 | KI64 | KF32 | KF64 | KBit | KString | KGuid
  | KBinary | KNumeric | KXml | KDateTime | KSmallDateTime | KTime | KDate | KDateTime2 | KDateTimeOffset

fun kind_of :: "ColumnData \<Rightarrow> ValueKind" where
  "kind_of (CU8 _) = KU8"
| "kind_of (CI16 _) = KI16"
| "kind_of (CI32 _) = KI32"
| "kind_of (CI64 _) = KI64"
| "kind_of (CF32 _) = KF32"
| "kind_of (CF64 _) = KF64"
| "kind_of (CBit _) = KBit"
| "kind_of (CString _) = KString"
| "kind_of (CGuid _) = KGuid"
| "kind_of (CBinary _) = KBinary"
| "kind_of (CNumeric _) = KNumeric"
| "kind_of (CXml _) = KXml"
| "kind_of (CDateTime _) = KDateTime"
| "kind_of (CSmallDateTime _) = KSmallDateTime"
| "kind_of (CTime _) = KTime"
| "kind_of (CDate _) = KDate"
| "kind_of (CDateTime2 _) = KDateTime2"
| "kind_of (CDateTimeOffset _) = KDateTimeOffset"

definition all_kinds :: "ValueKind list" where
  "all_kinds = [KU8, KI16, KI32, KI64, KF32, KF64, KBit, KString, KGuid, KBinary, KNumeric, KXml, KDateTime, KSmallDateTime, KTime, KDate, KDateTime2, KDateTimeOffset]"

text \<open>The variants a cell may have, by what a row says of its column. An integer or float column of a given width can be a nullable one, and each cell of
  that has a length of its own, which need not be the width of the column (\<open>int_cell_width\<close>): all widths are possible. A column of a
  type that is fixed in the metadata holds exactly one variant (\<open>fixed_cell_exact\<close>); only a \<^verbatim>\<open>smallmoney\<close> is an f64 when it is decoded and an f32 when it is the null of
  a row bitmap.\<close>

fun allowed_kinds :: "ColumnType \<Rightarrow> ValueKind list" where
  "allowed_kinds ColNull = [KI32]"
| "allowed_kinds ColBit = [KBit]"
| "allowed_kinds ColInt1 = [KU8, KI16, KI32, KI64]"
| "allowed_kinds ColInt2 = [KU8, KI16, KI32, KI64]"
| "allowed_kinds ColInt4 = [KU8, KI16, KI32, KI64]"
| "allowed_kinds ColInt8 = [KU8, KI16, KI32, KI64]"
| "allowed_kinds ColDatetime4 = [KSmallDateTime]"
| "allowed_kinds ColFloat4 = [KF32, KF64]"
| "allowed_kinds ColFloat8 = [KF32, KF64]"
| "allowed_kinds ColMoney = [KF64]"
| "allowed_kinds ColDatetime = [KDateTime]"
| "allowed_kinds ColMoney4 = [KF32, KF64]"
| "allowed_kinds ColGuid = [KGuid]"
| "allowed_kinds ColIntn = [KU8, KI16, KI32, KI64]"
| "allowed_kinds ColBitn = [KBit]"
| "allowed_kinds ColDecimaln = [KNumeric]"
| "allowed_kinds ColNumericn = [KNumeric]"
| "allowed_kinds ColFloatn = [KF32, KF64]"
| "allowed_kinds ColDatetimen = [KDateTime, KSmallDateTime]"
| "allowed_kinds ColDaten = [KDate]"
| "allowed_kinds ColTimen = [KTime]"
| "allowed_kinds ColDatetime2 = [KDateTime2]"
| "allowed_kinds ColDatetimeOffsetn = [KDateTimeOffset]"
| "allowed_kinds ColBigVarBin = [KBinary]"
| "allowed_kinds ColBigVarChar = [KString]"
| "allowed_kinds ColBigBinary = [KBinary]"
| "allowed_kinds ColBigChar = [KString]"
| "allowed_kinds ColNVarchar = [KString]"
| "allowed_kinds ColNChar = [KString]"
| "allowed_kinds ColXml = [KXml]"
| "allowed_kinds ColUdt = [KBinary]"
| "allowed_kinds ColText = [KString]"
| "allowed_kinds ColImage = [KBinary]"
| "allowed_kinds ColNText = [KString]"
| "allowed_kinds ColSSVariant = all_kinds"

lemma all_kind: "k \<in> set all_kinds"
  by (cases k) (simp_all add: all_kinds_def)

definition cell_typed :: "ColumnType \<Rightarrow> ColumnData \<Rightarrow> bool" where
  "cell_typed ty v \<longleftrightarrow> kind_of v \<in> set (allowed_kinds ty)"

definition row_typed :: "Row \<Rightarrow> bool" where
  "row_typed row \<longleftrightarrow> list_all2 (\<lambda>c v. cell_typed (col_type c) v) (row_columns row) (row_data row)"

lemma cell_typed_null: "cell_typed (ColumnType_from ti) (null_value ti)"
proof (cases ti)
  case (FixedLen ty)
  then show ?thesis by (cases ty) (simp_all add: cell_typed_def)
next
  case (VarLenSized cx)
  then show ?thesis by (cases "vlc_type cx") (simp_all add: cell_typed_def all_kinds_def)
next
  case (VarLenSizedPrecision ty)
  then show ?thesis by (cases ty) (simp_all add: cell_typed_def all_kinds_def)
qed (simp_all add: cell_typed_def)

lemma cell_typed_decode:
  assumes "ColumnData_decode env ti s = (Ok v, s')"
  shows "cell_typed (ColumnType_from ti) v"
proof (cases ti)
  case (FixedLen ty)
  with assms show ?thesis
    by (cases ty) (auto simp: cell_typed_def bindR_eq_Ok retR_eq_Ok datetimen_decode_def money_decode_def errR_neq_Ok split: if_splits)
next
  case (VarLenSized cx)
  with assms show ?thesis
    by (cases "vlc_type cx") (auto simp: cell_typed_def all_kind bindR_eq_Ok retR_eq_Ok errR_neq_Ok var_len_decode_def bit_decode_def
      int_decode_def float_decode_def guid_decode_def money_decode_def datetimen_decode_def date_decode_def time_decode_def datetime2_decode_def
      datetimeoffsetn_decode_def binary_decode_def text_decode_def image_decode_def Let_def split: if_splits)
next
  case (VarLenSizedPrecision ty n p sc)
  with assms show ?thesis by (cases ty) (auto simp: cell_typed_def bindR_eq_Ok retR_eq_Ok errR_neq_Ok split: if_splits)
next
  case (XmlType sch n)
  with assms show ?thesis by (auto simp: cell_typed_def bindR_eq_Ok retR_eq_Ok xml_decode_def)
next
  case (Udt info)
  with assms show ?thesis by (auto simp: cell_typed_def bindR_eq_Ok retR_eq_Ok udt_decode_def)
qed

lemma int_cell_width:
  "\<exists>bs. ColumnData_decode env (VarLenSized (VarLenContext_new VIntn 4 None)) bs = (Ok (CI64 (Some 1)), [])"
  by (intro exI [of _ "8 # le_bytes 8 (1 :: u64)"]) (simp add: var_len_decode_def VarLenContext_new_def int_decode_def wire_simps)

lemma fixed_cell_exact:
  "ColumnData_decode env (FixedLen ty) s = (Ok v, s') \<Longrightarrow> ty \<noteq> FMoney4 \<Longrightarrow> kind_of v = kind_of (fixed_null_value ty)"
  by (cases ty) (auto simp: bindR_eq_Ok retR_eq_Ok datetimen_decode_def money_decode_def errR_neq_Ok split: if_splits)

definition row_fits :: "TokenColMetaData \<Rightarrow> TokenRow \<Rightarrow> bool" where
  "row_fits m d \<longleftrightarrow> list_all2 (\<lambda>c v. cell_typed (ColumnType_from (bmc_ty (mdc_base c))) v) (tcm_columns m) d"

lemma row_fits_decode: "TokenRow_decode env (Some m) s = (Ok d, s') \<Longrightarrow> row_fits m d"
  unfolding row_fits_def
  by (auto simp: TokenRow_decode_def bindR_eq_Ok ok_or_Ok intro!: forR_all2 [where f = "\<lambda>c. ColumnData_decode env (bmc_ty (mdc_base c))"]
      cell_typed_decode)

lemma row_fits_decode_nbc:
  assumes "TokenRow_decode_nbc env (Some m) s = (Ok d, s')"
  shows "row_fits m d"
proof -
  from assms obtain bm s1 where f: "forR (nbc_value env bm) (enumerate 0 (tcm_columns m)) s1 = (Ok d, s')"
    by (auto simp: TokenRow_decode_nbc_def bindR_eq_Ok ok_or_Ok)
  have "list_all2 (\<lambda>ic v. cell_typed (ColumnType_from (bmc_ty (mdc_base (snd ic)))) v) (enumerate 0 (tcm_columns m)) d"
    by (rule forR_all2 [OF f])
      (auto simp: nbc_value_def bindR_eq_Ok retR_eq_Ok intro: cell_typed_decode cell_typed_null split: prod.splits if_splits)
  then have "list_all2 (\<lambda>c v. cell_typed (ColumnType_from (bmc_ty (mdc_base c))) v) (map snd (enumerate 0 (tcm_columns m))) d"
    unfolding list_all2_map1 .
  then show ?thesis by (simp add: row_fits_def)
qed

text \<open>A row of a result set has a typed cell for every column.\<close>

lemma row_typed_meta: "row_fits m d \<Longrightarrow> row_typed \<lparr>row_columns = meta_columns m, row_data = d, row_result_index = i\<rparr>"
  by (simp add: row_fits_def row_typed_def meta_columns_def list_all2_map1 Column_new_def)

lemma row_typed_cell:
  assumes "row_typed row" "i < length (row_columns row)"
  shows "get_column_data (ByPos i) row = Ok (row_data row ! i)" "cell_typed (col_type (row_columns row ! i)) (row_data row ! i)"
  using assms by (auto simp: row_typed_def get_column_data_def list_all2_conv_all_nth)

lemma row_typed_name:
  assumes "row_typed row" "c \<in> set (row_columns row)"
  shows "\<exists>i<length (row_columns row). get_column_data (ByName (col_name c)) row = Ok (row_data row ! i) \<and>
     col_name (row_columns row ! i) = col_name c \<and> (\<forall>j<i. col_name (row_columns row ! j) \<noteq> col_name c)"
proof -
  let ?P = "\<lambda>x. col_name x = col_name c"
  obtain i where i: "position ?P (row_columns row) = Some i"
    using position_found [OF assms(2), of ?P] by blast
  then have "i < length (row_columns row)" "col_name (row_columns row ! i) = col_name c" "\<forall>j<i. col_name (row_columns row ! j) \<noteq> col_name c"
    using position_first by fastforce+
  moreover from this assms(1) i have "get_column_data (ByName (col_name c)) row = Ok (row_data row ! i)"
    by (simp add: get_column_data_def row_typed_def list_all2_lengthD)
  ultimately show ?thesis by blast
qed

text \<open>Columns with one variant are read without an error by the Rust type for it.\<close>

lemma typed_reads:
  assumes "cell_typed ty v"
  shows "ty \<in> {ColBit, ColBitn} \<Longrightarrow> \<exists>x. from_sql_bool dbg v = Ok x"
    and "ty = ColGuid \<Longrightarrow> \<exists>x. from_sql_Uuid dbg v = Ok x"
    and "ty \<in> {ColDecimaln, ColNumericn} \<Longrightarrow> \<exists>x. from_sql_Numeric dbg v = Ok x"
    and "ty \<in> {ColBigVarChar, ColBigChar, ColNVarchar, ColNChar, ColText, ColNText} \<Longrightarrow> \<exists>x. from_sql_str dbg v = Ok x"
    and "ty \<in> {ColBigVarBin, ColBigBinary, ColUdt, ColImage} \<Longrightarrow> \<exists>x. from_sql_slice dbg v = Ok x"
    and "ty = ColXml \<Longrightarrow> \<exists>x. from_sql_xml dbg v = Ok x"
    and "ty = ColMoney \<Longrightarrow> \<exists>x. from_sql_f64 dbg v = Ok x"
  using assms by (cases v; auto simp: cell_typed_def)+

end
