(* ===== verification/Tds_Calendar.thy ===== *)
theory Tds_Calendar
  imports Tds_Row "HOL-Library.Signed_Division"
begin

text \<open>
  Dates and times of the crates \<^verbatim>\<open>chrono\<close> (\<^verbatim>\<open>tds/time/chrono.rs\<close>) and \<^verbatim>\<open>time\<close> (\<^verbatim>\<open>tds/time/time.rs\<close>), with the protocol from version 7.3. Both crates are
  represented by the functions that the conversions call, the argument \<open>cal\<close>; what is documented of them is the locale \<open>calendar_lib\<close>. A date with
  a time is a pair and an instant is a pair in UTC. An instant with an offset in seconds is stored in UTC by \<^verbatim>\<open>chrono\<close> and in local time by \<^verbatim>\<open>time\<close>.
\<close>

section \<open>What the crates provide\<close>

record ('d, 't) calendar =
  cal_jan1 :: "int \<Rightarrow> 'd" \<comment> \<open>the first day of a year\<close>
  cal_add_days :: "'d \<Rightarrow> int \<Rightarrow> 'd option" \<comment> \<open>checked addition of days\<close>
  cal_days_since :: "'d \<Rightarrow> 'd \<Rightarrow> int"
  cal_midnight :: 't
  cal_time_add :: "'t \<Rightarrow> nat \<Rightarrow> 't" \<comment> \<open>addition of nanoseconds, around midnight\<close>
  cal_secs :: "'t \<Rightarrow> nat" \<comment> \<open>seconds since midnight\<close>
  cal_nanos :: "'t \<Rightarrow> nat" \<comment> \<open>nanoseconds of the second, one second more in a leap second\<close>
  cal_sub_minutes :: "'d \<times> 't \<Rightarrow> int \<Rightarrow> ('d \<times> 't) option" \<comment> \<open>checked subtraction of minutes\<close>
  cal_offset_ok :: "int \<Rightarrow> bool" \<comment> \<open>representable offsets in seconds\<close>
  cal_to_offset :: "('d \<times> 't) \<times> int \<Rightarrow> int \<Rightarrow> (('d \<times> 't) \<times> int) option" \<comment> \<open>the same instant in another offset, or a panic\<close>

type_synonym cell_debug = "ColumnData \<Rightarrow> rstring"

definition DAY_SECONDS :: nat where "DAY_SECONDS = 86400"

section \<open>chrono\<close>

definition chrono_from_days :: "('d, 't) calendar \<Rightarrow> int \<Rightarrow> int \<Rightarrow> 'd res" where
  "chrono_from_days cal days start_year =
     (case cal_add_days cal (cal_jan1 cal start_year) days of
        Some d \<Rightarrow> Ok d
      | None \<Rightarrow> Err (Protocol (TimeMsg (DayOutOfRange days))))"

definition validate_offset_minutes :: "u16 \<Rightarrow> int res" where
  "validate_offset_minutes minutes =
     (if \<not> (- 840 \<le> sint minutes \<and> sint minutes \<le> 840) then Err (Protocol (TimeMsg (OffsetOutOfRange (sint minutes))))
      else Ok (sint minutes))"

text \<open>The product saturates, and is cut to the range of \<^verbatim>\<open>i64\<close>.\<close>

definition chrono_nanos_from_increments :: "u64 \<Rightarrow> u8 \<Rightarrow> nat" where
  "chrono_nanos_from_increments increments scale = min (min (unat increments * 10 ^ (9 - unat scale)) (2 ^ 64 - 1)) (2 ^ 63 - 1)"

definition chrono_from_sec_fragments :: "('d, 't) calendar \<Rightarrow> nat \<Rightarrow> 't" where
  "chrono_from_sec_fragments cal sec_fragments = cal_time_add cal (cal_midnight cal) (sec_fragments * 10 ^ 9 div 300)"

text \<open>\<^verbatim>\<open>from_num_seconds_from_midnight_opt\<close> is defined below one day.\<close>

definition chrono_from_mins :: "('d, 't) calendar \<Rightarrow> nat \<Rightarrow> 't res" where
  "chrono_from_mins cal mins =
     (if mins < DAY_SECONDS then Ok (cal_time_add cal (cal_midnight cal) (mins * 10 ^ 9))
      else Err (Protocol (TimeMsg (SecondsOfDayOutOfRange mins))))"

definition chrono_to_days :: "('d, 't) calendar \<Rightarrow> 'd \<Rightarrow> int \<Rightarrow> int" where
  "chrono_to_days cal date start_year = cal_days_since cal date (cal_jan1 cal start_year)"

definition with_time :: "'d res \<Rightarrow> 't res \<Rightarrow> ('d \<times> 't) option res" where
  "with_time date time =
     (case date of
        Ok d \<Rightarrow> (case time of Ok t \<Rightarrow> Ok (Some (d, t)) | Err e \<Rightarrow> Err e | Panic \<Rightarrow> Panic | Diverge \<Rightarrow> Diverge)
      | Err e \<Rightarrow> Err e | Panic \<Rightarrow> Panic | Diverge \<Rightarrow> Diverge)"

definition chrono_time :: "('d, 't) calendar \<Rightarrow> Time \<Rightarrow> 't" where
  "chrono_time cal time = cal_time_add cal (cal_midnight cal) (chrono_nanos_from_increments (t_increments time) (t_scale time))"

definition chrono_datetime2 :: "('d, 't) calendar \<Rightarrow> DateTime2 \<Rightarrow> ('d \<times> 't) option res" where
  "chrono_datetime2 cal dt = with_time (chrono_from_days cal (uint (date_days (dt2_date dt))) 1) (Ok (chrono_time cal (dt2_time dt)))"

fun chrono_from_sql_naive_datetime :: "cell_debug \<Rightarrow> ('d, 't) calendar \<Rightarrow> ColumnData \<Rightarrow> ('d \<times> 't) option res" where
  "chrono_from_sql_naive_datetime dbg cal (CSmallDateTime (Some dt)) =
     with_time (chrono_from_days cal (uint (sdt_days dt)) 1900) (chrono_from_mins cal (unat (sdt_seconds_fragments dt) * 60))"
| "chrono_from_sql_naive_datetime dbg cal (CDateTime2 (Some dt)) = chrono_datetime2 cal dt"
| "chrono_from_sql_naive_datetime dbg cal (CDateTime (Some dt)) =
     with_time (chrono_from_days cal (sint (dt_days dt)) 1900) (Ok (chrono_from_sec_fragments cal (unat (dt_seconds_fragments dt))))"
| "chrono_from_sql_naive_datetime dbg cal (CSmallDateTime None) = Ok None"
| "chrono_from_sql_naive_datetime dbg cal (CDateTime2 None) = Ok None"
| "chrono_from_sql_naive_datetime dbg cal (CDateTime None) = Ok None"
| "chrono_from_sql_naive_datetime dbg cal d = Err (cannot_interpret dbg d (lit ''an NaiveDateTime''))"

fun chrono_from_sql_naive_time :: "cell_debug \<Rightarrow> ('d, 't) calendar \<Rightarrow> ColumnData \<Rightarrow> 't option res" where
  "chrono_from_sql_naive_time dbg cal (CTime (Some time)) = Ok (Some (chrono_time cal time))"
| "chrono_from_sql_naive_time dbg cal (CTime None) = Ok None"
| "chrono_from_sql_naive_time dbg cal d = Err (cannot_interpret dbg d (lit ''an NaiveTime''))"

fun chrono_from_sql_naive_date :: "cell_debug \<Rightarrow> ('d, 't) calendar \<Rightarrow> ColumnData \<Rightarrow> 'd option res" where
  "chrono_from_sql_naive_date dbg cal (CDate (Some date)) = map_res Some (chrono_from_days cal (uint (date_days date)) 1)"
| "chrono_from_sql_naive_date dbg cal (CDate None) = Ok None"
| "chrono_from_sql_naive_date dbg cal d = Err (cannot_interpret dbg d (lit ''an NaiveDate''))"

text \<open>As an instant in UTC: the offset of the cell is subtracted.\<close>

fun chrono_from_sql_utc :: "cell_debug \<Rightarrow> ('d, 't) calendar \<Rightarrow> ColumnData \<Rightarrow> ('d \<times> 't) option res" where
  "chrono_from_sql_utc dbg cal (CDateTimeOffset (Some dto)) =
     (case chrono_datetime2 cal (dto_datetime2 dto) of
        Ok (Some base) \<Rightarrow>
          (case validate_offset_minutes (dto_offset dto) of
             Ok minutes \<Rightarrow>
               (case cal_sub_minutes cal base minutes of
                  Some naive \<Rightarrow> Ok (Some naive)
                | None \<Rightarrow> Err (Protocol (TimeMsg InstantOutOfRange)))
           | Err e \<Rightarrow> Err e | Panic \<Rightarrow> Panic | Diverge \<Rightarrow> Diverge)
      | r \<Rightarrow> r)"
| "chrono_from_sql_utc dbg cal (CDateTime2 (Some dt2)) = chrono_datetime2 cal dt2"
| "chrono_from_sql_utc dbg cal (CDateTimeOffset None) = Ok None"
| "chrono_from_sql_utc dbg cal (CDateTime2 None) = Ok None"
| "chrono_from_sql_utc dbg cal d = Err (cannot_interpret dbg d (lit ''an chrono::DateTime<Utc>''))"

text \<open>As an instant with its offset: the date and time of the cell are taken as UTC.\<close>

fun chrono_from_sql_fixed :: "cell_debug \<Rightarrow> ('d, 't) calendar \<Rightarrow> ColumnData \<Rightarrow> (('d \<times> 't) \<times> int) option res" where
  "chrono_from_sql_fixed dbg cal (CDateTimeOffset (Some dto)) =
     (case chrono_datetime2 cal (dto_datetime2 dto) of
        Ok (Some naive) \<Rightarrow>
          (case validate_offset_minutes (dto_offset dto) of
             Ok minutes \<Rightarrow>
               if cal_offset_ok cal (minutes * 60) then Ok (Some (naive, minutes * 60))
               else Err (Protocol (TimeMsg OffsetNotRepresentable))
           | Err e \<Rightarrow> Err e | Panic \<Rightarrow> Panic | Diverge \<Rightarrow> Diverge)
      | Ok None \<Rightarrow> Ok None | Err e \<Rightarrow> Err e | Panic \<Rightarrow> Panic | Diverge \<Rightarrow> Diverge)"
| "chrono_from_sql_fixed dbg cal (CDateTimeOffset None) = Ok None"
| "chrono_from_sql_fixed dbg cal d = Err (cannot_interpret dbg d (lit ''an chrono::DateTime<FixedOffset>''))"

text \<open>The other direction: the days as \<^verbatim>\<open>u32\<close> without a check, times in tenths of microseconds.\<close>

definition chrono_date :: "('d, 't) calendar \<Rightarrow> 'd \<Rightarrow> Date" where
  "chrono_date cal d = Date (word_of_int (chrono_to_days cal d 1))"

definition chrono_increments :: "('d, 't) calendar \<Rightarrow> 't \<Rightarrow> Time" where
  "chrono_increments cal t = \<lparr>t_increments = of_nat ((cal_secs cal t * 10 ^ 9 + cal_nanos cal t) div 100), t_scale = 7\<rparr>"

definition chrono_to_datetime2 :: "('d, 't) calendar \<Rightarrow> 'd \<times> 't \<Rightarrow> DateTime2" where
  "chrono_to_datetime2 cal dt = \<lparr>dt2_date = chrono_date cal (fst dt), dt2_time = chrono_increments cal (snd dt)\<rparr>"

definition chrono_to_sql_naive_date :: "('d, 't) calendar \<Rightarrow> 'd \<Rightarrow> ColumnData" where
  "chrono_to_sql_naive_date cal = to_sql_value CDate (chrono_date cal)"

definition chrono_to_sql_naive_time :: "('d, 't) calendar \<Rightarrow> 't \<Rightarrow> ColumnData" where
  "chrono_to_sql_naive_time cal = to_sql_value CTime (chrono_increments cal)"

definition chrono_to_sql_naive_datetime :: "('d, 't) calendar \<Rightarrow> 'd \<times> 't \<Rightarrow> ColumnData" where
  "chrono_to_sql_naive_datetime cal = to_sql_value CDateTime2 (chrono_to_datetime2 cal)"

definition chrono_to_sql_utc :: "('d, 't) calendar \<Rightarrow> 'd \<times> 't \<Rightarrow> ColumnData" where
  "chrono_to_sql_utc cal = to_sql_value CDateTime2 (chrono_to_datetime2 cal)"

definition chrono_to_sql_fixed :: "('d, 't) calendar \<Rightarrow> ('d \<times> 't) \<times> int \<Rightarrow> ColumnData" where
  "chrono_to_sql_fixed cal = to_sql_value CDateTimeOffset (\<lambda>(utc, offset).
     \<lparr>dto_datetime2 = chrono_to_datetime2 cal utc, dto_offset = word_of_int (offset sdiv 60)\<rparr>)"

section \<open>time\<close>

definition time_from_days :: "('d, 't) calendar \<Rightarrow> int \<Rightarrow> int \<Rightarrow> 'd res" where
  "time_from_days cal days start_year =
     (case cal_add_days cal (cal_jan1 cal start_year) days of
        Some d \<Rightarrow> Ok d
      | None \<Rightarrow> Err (Protocol (TimeMsg (DayOutOfRange days))))"

definition offset_from_minutes :: "('d, 't) calendar \<Rightarrow> u16 \<Rightarrow> int res" where
  "offset_from_minutes cal minutes =
     (if \<not> (- 840 \<le> sint minutes \<and> sint minutes \<le> 840) then Err (Protocol (TimeMsg (OffsetOutOfRange (sint minutes))))
      else if cal_offset_ok cal (sint minutes * 60) then Ok (sint minutes * 60)
      else Err (Protocol (TimeMsg OffsetNotRepresentable)))"

definition time_nanos_from_increments :: "u64 \<Rightarrow> u8 \<Rightarrow> nat" where
  "time_nanos_from_increments increments scale = min (unat increments * 10 ^ (9 - unat scale)) (2 ^ 64 - 1)"

definition time_from_secs :: "('d, 't) calendar \<Rightarrow> nat \<Rightarrow> 't res" where
  "time_from_secs cal secs =
     (if DAY_SECONDS \<le> secs then Err (Protocol (TimeMsg (SecondsOfDayOutOfRange secs)))
      else Ok (cal_time_add cal (cal_midnight cal) (secs * 10 ^ 9)))"

definition time_from_sec_fragments :: "('d, 't) calendar \<Rightarrow> nat \<Rightarrow> 't" where
  "time_from_sec_fragments cal sec_fragments = cal_time_add cal (cal_midnight cal) (sec_fragments * 10 ^ 9 div 300)"

definition time_time :: "('d, 't) calendar \<Rightarrow> Time \<Rightarrow> 't" where
  "time_time cal time = cal_time_add cal (cal_midnight cal) (time_nanos_from_increments (t_increments time) (t_scale time))"

definition time_datetime2 :: "('d, 't) calendar \<Rightarrow> DateTime2 \<Rightarrow> ('d \<times> 't) option res" where
  "time_datetime2 cal dt = with_time (time_from_days cal (uint (date_days (dt2_date dt))) 1) (Ok (time_time cal (dt2_time dt)))"

fun time_from_sql_primitive_datetime :: "cell_debug \<Rightarrow> ('d, 't) calendar \<Rightarrow> ColumnData \<Rightarrow> ('d \<times> 't) option res" where
  "time_from_sql_primitive_datetime dbg cal (CSmallDateTime (Some dt)) =
     with_time (time_from_days cal (uint (sdt_days dt)) 1900) (time_from_secs cal (unat (sdt_seconds_fragments dt) * 60))"
| "time_from_sql_primitive_datetime dbg cal (CDateTime2 (Some dt)) = time_datetime2 cal dt"
| "time_from_sql_primitive_datetime dbg cal (CDateTime (Some dt)) =
     with_time (time_from_days cal (sint (dt_days dt)) 1900) (Ok (time_from_sec_fragments cal (unat (dt_seconds_fragments dt))))"
| "time_from_sql_primitive_datetime dbg cal (CSmallDateTime None) = Ok None"
| "time_from_sql_primitive_datetime dbg cal (CDateTime2 None) = Ok None"
| "time_from_sql_primitive_datetime dbg cal (CDateTime None) = Ok None"
| "time_from_sql_primitive_datetime dbg cal d = Err (cannot_interpret dbg d (lit ''an PrimitiveDateTime''))"

fun time_from_sql_time :: "cell_debug \<Rightarrow> ('d, 't) calendar \<Rightarrow> ColumnData \<Rightarrow> 't option res" where
  "time_from_sql_time dbg cal (CTime (Some time)) = Ok (Some (time_time cal time))"
| "time_from_sql_time dbg cal (CTime None) = Ok None"
| "time_from_sql_time dbg cal d = Err (cannot_interpret dbg d (lit ''an Time''))"

fun time_from_sql_date :: "cell_debug \<Rightarrow> ('d, 't) calendar \<Rightarrow> ColumnData \<Rightarrow> 'd option res" where
  "time_from_sql_date dbg cal (CDate (Some date)) = map_res Some (time_from_days cal (uint (date_days date)) 1)"
| "time_from_sql_date dbg cal (CDate None) = Ok None"
| "time_from_sql_date dbg cal d = Err (cannot_interpret dbg d (lit ''an Date''))"

fun time_from_sql_offset :: "cell_debug \<Rightarrow> ('d, 't) calendar \<Rightarrow> ColumnData \<Rightarrow> (('d \<times> 't) \<times> int) option res" where
  "time_from_sql_offset dbg cal (CDateTimeOffset (Some dto)) =
     (case time_datetime2 cal (dto_datetime2 dto) of
        Ok (Some utc) \<Rightarrow>
          (case offset_from_minutes cal (dto_offset dto) of
             Ok offset \<Rightarrow> (case cal_to_offset cal (utc, 0) offset of Some v \<Rightarrow> Ok (Some v) | None \<Rightarrow> Panic)
           | Err e \<Rightarrow> Err e | Panic \<Rightarrow> Panic | Diverge \<Rightarrow> Diverge)
      | Ok None \<Rightarrow> Ok None | Err e \<Rightarrow> Err e | Panic \<Rightarrow> Panic | Diverge \<Rightarrow> Diverge)"
| "time_from_sql_offset dbg cal (CDateTimeOffset None) = Ok None"
| "time_from_sql_offset dbg cal d = Err (cannot_interpret dbg d (lit ''an OffsetDateTime''))"

text \<open>Here the days go through \<^verbatim>\<open>Date::new\<close>, which asserts that they fit in three bytes.\<close>

definition time_date :: "('d, 't) calendar \<Rightarrow> 'd \<Rightarrow> Date res" where
  "time_date cal d = Date_new (word_of_int (cal_days_since cal d (cal_jan1 cal 1)))"

definition time_increments :: "('d, 't) calendar \<Rightarrow> 't \<Rightarrow> Time" where
  "time_increments cal t = \<lparr>t_increments = of_nat ((cal_secs cal t * 10 ^ 9 + cal_nanos cal t) div 100), t_scale = 7\<rparr>"

definition time_to_datetime2 :: "('d, 't) calendar \<Rightarrow> 'd \<times> 't \<Rightarrow> DateTime2 res" where
  "time_to_datetime2 cal dt = map_res (\<lambda>d. \<lparr>dt2_date = d, dt2_time = time_increments cal (snd dt)\<rparr>) (time_date cal (fst dt))"

definition time_to_sql_date :: "('d, 't) calendar \<Rightarrow> 'd \<Rightarrow> ColumnData res" where
  "time_to_sql_date cal d = map_res (\<lambda>x. CDate (Some x)) (time_date cal d)"

definition time_to_sql_time :: "('d, 't) calendar \<Rightarrow> 't \<Rightarrow> ColumnData" where
  "time_to_sql_time cal = to_sql_value CTime (time_increments cal)"

definition time_to_sql_primitive_datetime :: "('d, 't) calendar \<Rightarrow> 'd \<times> 't \<Rightarrow> ColumnData res" where
  "time_to_sql_primitive_datetime cal dt = map_res (\<lambda>x. CDateTime2 (Some x)) (time_to_datetime2 cal dt)"

definition time_to_sql_offset :: "('d, 't) calendar \<Rightarrow> ('d \<times> 't) \<times> int \<Rightarrow> ColumnData res" where
  "time_to_sql_offset cal v =
     (case cal_to_offset cal v 0 of
        None \<Rightarrow> Panic
      | Some (utc, _) \<Rightarrow>
          map_res (\<lambda>x. CDateTimeOffset (Some \<lparr>dto_datetime2 = x, dto_offset = word_of_int (snd v sdiv 60)\<rparr>)) (time_to_datetime2 cal utc))"

section \<open>What the crates document\<close>

definition nanos_of_day :: "('d, 't) calendar \<Rightarrow> 't \<Rightarrow> nat" where
  "nanos_of_day cal t = cal_secs cal t * 10 ^ 9 + cal_nanos cal t"

text \<open>The time that is left of \<open>t\<close> when it is stored in steps of 100 nanoseconds.\<close>

definition to_100ns :: "('d, 't) calendar \<Rightarrow> 't \<Rightarrow> 't" where
  "to_100ns cal t = cal_time_add cal (cal_midnight cal) (nanos_of_day cal t div 100 * 100)"

text \<open>The documented behaviour: day counts and dates correspond, a time is its distance from midnight unless it is a leap second, offsets up to 14 hours are
  representable, and the change of the offset keeps the instant.\<close>

locale calendar_lib =
  fixes cal :: "('d, 't) calendar" and date_ok :: "'d \<Rightarrow> bool" and time_ok :: "'t \<Rightarrow> bool"
  assumes days_back: "date_ok e \<Longrightarrow> cal_add_days cal d (cal_days_since cal e d) = Some e"
    and time_back: "time_ok t \<Longrightarrow> cal_nanos cal t < 10 ^ 9 \<Longrightarrow> cal_time_add cal (cal_midnight cal) (cal_secs cal t * 10 ^ 9 + cal_nanos cal t) = t"
    and time_bounds: "time_ok t \<Longrightarrow> cal_secs cal t < 86400" "time_ok t \<Longrightarrow> cal_nanos cal t < 2 * 10 ^ 9"
    and offset_fits: "\<bar>off\<bar> \<le> 50400 \<Longrightarrow> cal_offset_ok cal off"
    and same_instant: "date_ok d \<Longrightarrow> time_ok t \<Longrightarrow> cal_to_offset cal ((d, t), off1) off = Some w \<Longrightarrow>
      snd w = off \<and> cal_to_offset cal w off1 = Some ((d, t), off1)"
begin

lemma to_100ns_exact:
  assumes "time_ok t" "cal_nanos cal t < 10 ^ 9" "100 dvd cal_nanos cal t"
  shows "to_100ns cal t = t"
proof -
  have "100 dvd nanos_of_day cal t" using assms(3) by (auto simp: nanos_of_day_def intro!: dvd_add dvd_mult)
  then have "nanos_of_day cal t div 100 * 100 = cal_secs cal t * 10 ^ 9 + cal_nanos cal t" by (simp add: nanos_of_day_def)
  then show ?thesis using time_back [OF assms(1,2)] by (simp add: to_100ns_def)
qed

lemma nanos_bound: "time_ok t \<Longrightarrow> nanos_of_day cal t < 86402 * 10 ^ 9"
  using time_bounds [of t] by (simp add: nanos_of_day_def)

lemma times_back:
  assumes "time_ok t"
  shows "chrono_time cal (chrono_increments cal t) = to_100ns cal t"
    and "time_time cal (time_increments cal t) = to_100ns cal t"
proof -
  have "unat (of_nat (nanos_of_day cal t div 100) :: u64) = nanos_of_day cal t div 100"
    using nanos_bound [OF assms] by (simp add: unsigned_of_nat take_bit_nat_eq_self)
  moreover have "nanos_of_day cal t div 100 * 100 < 2 ^ 63 - 1" using nanos_bound [OF assms] by simp
  ultimately show "chrono_time cal (chrono_increments cal t) = to_100ns cal t" "time_time cal (time_increments cal t) = to_100ns cal t"
    by (simp_all add: chrono_time_def chrono_increments_def chrono_nanos_from_increments_def time_time_def time_increments_def
        time_nanos_from_increments_def to_100ns_def nanos_of_day_def)
qed

lemma days_word:
  assumes "0 \<le> cal_days_since cal d (cal_jan1 cal 1)" "cal_days_since cal d (cal_jan1 cal 1) < 2 ^ 24"
  shows "uint (word_of_int (cal_days_since cal d (cal_jan1 cal 1)) :: u32) = cal_days_since cal d (cal_jan1 cal 1)"
    and "drop_bit 24 (word_of_int (cal_days_since cal d (cal_jan1 cal 1)) :: u32) = 0"
proof -
  let ?n = "cal_days_since cal d (cal_jan1 cal 1)"
  show u: "uint (word_of_int ?n :: u32) = ?n" using assms by (simp add: uint_word_of_int)
  have "uint (drop_bit 24 (word_of_int ?n :: u32)) = 0"
    unfolding unsigned_drop_bit_eq u using assms by (simp add: drop_bit_eq_div take_bit_int_eq_self)
  then show "drop_bit 24 (word_of_int ?n :: u32) = 0" by (simp only: uint_0_iff)
qed

lemma dates_back:
  assumes "date_ok d" "0 \<le> cal_days_since cal d (cal_jan1 cal 1)" "cal_days_since cal d (cal_jan1 cal 1) < 2 ^ 24"
  shows "chrono_from_days cal (uint (date_days (chrono_date cal d))) 1 = Ok d"
    and "\<exists>date. time_date cal d = Ok date \<and> time_from_days cal (uint (date_days date)) 1 = Ok d"
  using days_word [OF assms(2,3)] days_back [OF assms(1)]
  by (simp_all add: chrono_from_days_def chrono_date_def chrono_to_days_def time_date_def Date_new_def time_from_days_def)

end

lemmas chrono_to_sql_defs = chrono_to_sql_naive_date_def chrono_to_sql_naive_time_def chrono_to_sql_naive_datetime_def
  chrono_to_sql_utc_def chrono_to_sql_fixed_def to_sql_value_def

lemmas time_to_sql_defs = time_to_sql_date_def time_to_sql_time_def time_to_sql_primitive_datetime_def time_to_sql_offset_def to_sql_value_def

lemma minutes_back:
  assumes "\<bar>off\<bar> \<le> 50400" "60 dvd off"
  shows "sint (word_of_int (off sdiv 60) :: u16) = off div 60"
proof -
  have "off sdiv 60 = off div 60" using assms(2) by (auto simp: signed_divide_int_def sgn_mult abs_mult mult_sgn_abs elim!: dvdE)
  moreover have "- 840 \<le> off div 60" "off div 60 \<le> 840" using assms by auto
  ultimately show ?thesis by (simp add: sint_sbintrunc' signed_take_bit_int_eq_self)
qed

text \<open>C27: Dates and times of \<^verbatim>\<open>chrono\<close> and of \<^verbatim>\<open>time\<close> survive the way through a column value. For a date from year 1 on whose day count has three bytes, a time of whole 100 nanoseconds that is
  no leap second, and an offset of whole minutes up to 14 hours, every type reads back the value that was written, and writing does not panic.\<close>

theorem calendar_roundtrip:
  fixes cal :: "('d, 't) calendar"
  assumes "calendar_lib cal date_ok time_ok" "date_ok d" "time_ok t" "date_ok (fst local)" "time_ok (snd local)"
    and "0 \<le> cal_days_since cal d (cal_jan1 cal 1)" "cal_days_since cal d (cal_jan1 cal 1) < 2 ^ 24"
    and "cal_nanos cal t < 10 ^ 9" "100 dvd cal_nanos cal t"
    and "\<bar>off\<bar> \<le> 50400" "60 dvd off"
    and "cal_to_offset cal (local, off) 0 = Some ((d, t), 0)"
  shows "chrono_from_sql_naive_date dbg cal (chrono_to_sql_naive_date cal d) = Ok (Some d) \<and>
    chrono_from_sql_naive_time dbg cal (chrono_to_sql_naive_time cal t) = Ok (Some t) \<and>
    chrono_from_sql_naive_datetime dbg cal (chrono_to_sql_naive_datetime cal (d, t)) = Ok (Some (d, t)) \<and>
    chrono_from_sql_utc dbg cal (chrono_to_sql_utc cal (d, t)) = Ok (Some (d, t)) \<and>
    chrono_from_sql_fixed dbg cal (chrono_to_sql_fixed cal ((d, t), off)) = Ok (Some ((d, t), off)) \<and>
    (\<exists>c. time_to_sql_date cal d = Ok c \<and> time_from_sql_date dbg cal c = Ok (Some d)) \<and>
    time_from_sql_time dbg cal (time_to_sql_time cal t) = Ok (Some t) \<and>
    (\<exists>c. time_to_sql_primitive_datetime cal (d, t) = Ok c \<and> time_from_sql_primitive_datetime dbg cal c = Ok (Some (d, t))) \<and>
    (\<exists>c. time_to_sql_offset cal (local, off) = Ok c \<and> time_from_sql_offset dbg cal c = Ok (Some (local, off)))"
proof (intro conjI)
  note lib = assms(1)
  have exact: "to_100ns cal t = t" using calendar_lib.to_100ns_exact [OF lib assms(3,8,9)] .
  note times = calendar_lib.times_back [OF lib assms(3), unfolded exact]
  note dates = calendar_lib.dates_back [OF lib assms(2,6,7)]
  have min: "sint (word_of_int (off sdiv 60) :: u16) = off div 60" "off div 60 * 60 = off" "- 840 \<le> off div 60" "off div 60 \<le> 840"
    using minutes_back [OF assms(10,11)] assms(10,11) by auto
  have ok: "cal_offset_ok cal off" using calendar_lib.offset_fits [OF lib assms(10)] .
  have again: "cal_to_offset cal ((d, t), 0) off = Some (local, off)"
    using calendar_lib.same_instant [OF lib assms(4,5), of off 0 "((d, t), 0)"] assms(12) by simp
  show "chrono_from_sql_naive_date dbg cal (chrono_to_sql_naive_date cal d) = Ok (Some d)"
    "chrono_from_sql_naive_time dbg cal (chrono_to_sql_naive_time cal t) = Ok (Some t)"
    "chrono_from_sql_naive_datetime dbg cal (chrono_to_sql_naive_datetime cal (d, t)) = Ok (Some (d, t))"
    "chrono_from_sql_utc dbg cal (chrono_to_sql_utc cal (d, t)) = Ok (Some (d, t))"
    using dates(1) times(1) by (simp_all add: chrono_to_sql_defs chrono_datetime2_def chrono_to_datetime2_def with_time_def)
  show "chrono_from_sql_fixed dbg cal (chrono_to_sql_fixed cal ((d, t), off)) = Ok (Some ((d, t), off))"
    using dates(1) times(1) min ok
    by (simp add: chrono_to_sql_defs chrono_datetime2_def chrono_to_datetime2_def with_time_def validate_offset_minutes_def)
  obtain date where date: "time_date cal d = Ok date" "time_from_days cal (uint (date_days date)) 1 = Ok d" using dates(2) by blast
  then show "\<exists>c. time_to_sql_date cal d = Ok c \<and> time_from_sql_date dbg cal c = Ok (Some d)"
    "time_from_sql_time dbg cal (time_to_sql_time cal t) = Ok (Some t)"
    "\<exists>c. time_to_sql_primitive_datetime cal (d, t) = Ok c \<and> time_from_sql_primitive_datetime dbg cal c = Ok (Some (d, t))"
    using times(2) by (simp_all add: time_to_sql_defs time_datetime2_def time_to_datetime2_def with_time_def)
  show "\<exists>c. time_to_sql_offset cal (local, off) = Ok c \<and> time_from_sql_offset dbg cal c = Ok (Some (local, off))"
    using date times(2) min ok again assms(12)
    by (simp add: time_to_sql_defs time_datetime2_def time_to_datetime2_def with_time_def offset_from_minutes_def)
qed

section \<open>A calendar of day counts\<close>

text \<open>Dates of the Gregorian calendar as days since the first of January of year 1, from year -9999 to 9999; a time is its second and its nanoseconds.\<close>

definition day_jan1 :: "int \<Rightarrow> int" where
  "day_jan1 y = 365 * (y - 1) + (y - 1) div 4 - (y - 1) div 100 + (y - 1) div 400"

definition day_ok :: "int \<Rightarrow> bool" where
  "day_ok d \<longleftrightarrow> day_jan1 (- 9999) \<le> d \<and> d < day_jan1 10000"

definition clock_ok :: "nat \<times> nat \<Rightarrow> bool" where
  "clock_ok t \<longleftrightarrow> fst t < 86400 \<and> snd t < 2 * 10 ^ 9"

definition shift_seconds :: "int \<times> nat \<times> nat \<Rightarrow> int \<Rightarrow> (int \<times> nat \<times> nat) option" where
  "shift_seconds dt k =
     (let z = fst dt * 86400 + int (fst (snd dt)) + k in
      if day_ok (z div 86400) then Some (z div 86400, nat (z mod 86400), snd (snd dt)) else None)"

definition clock_add :: "nat \<times> nat \<Rightarrow> nat \<Rightarrow> nat \<times> nat" where
  "clock_add t k = (let z = (fst t * 10 ^ 9 + snd t + k) mod (86400 * 10 ^ 9) in (z div 10 ^ 9, z mod 10 ^ 9))"

definition day_calendar :: "(int, nat \<times> nat) calendar" where
  "day_calendar = \<lparr>cal_jan1 = day_jan1, cal_add_days = (\<lambda>d k. if day_ok (d + k) then Some (d + k) else None), cal_days_since = (\<lambda>d e. d - e),
     cal_midnight = (0, 0), cal_time_add = clock_add, cal_secs = fst, cal_nanos = snd, cal_sub_minutes = (\<lambda>dt m. shift_seconds dt (- 60 * m)),
     cal_offset_ok = (\<lambda>off. \<bar>off\<bar> < 86400), cal_to_offset = (\<lambda>v off. map_option (\<lambda>dt. (dt, off)) (shift_seconds (fst v) (off - snd v)))\<rparr>"

lemma shift_back:
  assumes "day_ok (fst dt)" "clock_ok (snd dt)" "shift_seconds dt k = Some w"
  shows "shift_seconds w (- k) = Some dt"
proof -
  obtain d s n where dt: "dt = (d, s, n)" by (metis prod.exhaust)
  let ?z = "d * 86400 + int s + k"
  have w: "w = (?z div 86400, nat (?z mod 86400), n)" using assms(3) by (simp add: dt shift_seconds_def Let_def split: if_splits)
  have z: "?z div 86400 * 86400 + int (nat (?z mod 86400)) + - k = d * 86400 + int s" by (simp add: algebra_simps)
  have s: "(d * 86400 + int s) div 86400 = d" "(d * 86400 + int s) mod 86400 = int s" using assms(2) by (simp_all add: dt clock_ok_def)
  show ?thesis using assms(1) by (simp only: w shift_seconds_def Let_def fst_conv snd_conv z s dt if_True nat_int)
qed

lemma clock_of_nanos:
  assumes "s < 86400" "n < 10 ^ 9"
  shows "clock_add (0, 0) (s * 10 ^ 9 + n) = (s, n)"
  using assms by (simp add: clock_add_def Let_def)

interpretation gregorian: calendar_lib day_calendar day_ok clock_ok
proof (unfold_locales, goal_cases)
  case (6 d t off1 off w)
  then show ?case using shift_back [of "(d, t)" "off - off1"] by (cases t) (auto simp: day_calendar_def)
qed (auto simp: day_calendar_def clock_ok_def clock_of_nanos [simplified])

theorem calendar_roundtrip_witness:
  "chrono_from_sql_fixed (\<lambda>_. []) day_calendar (chrono_to_sql_fixed day_calendar ((day_jan1 2024, (82800, 500)), 3600)) =
     Ok (Some ((day_jan1 2024, (82800, 500)), 3600)) \<and>
   (\<exists>c. time_to_sql_offset day_calendar ((day_jan1 2024 + 1, (0, 500)), 3600) = Ok c \<and>
     time_from_sql_offset (\<lambda>_. []) day_calendar c = Ok (Some ((day_jan1 2024 + 1, (0, 500)), 3600)))"
  by (intro conjI calendar_roundtrip [OF gregorian.calendar_lib_axioms, of "day_jan1 2024" "(82800, 500)" "(day_jan1 2024 + 1, (0, 500))" 3600 "\<lambda>_. []", THEN conjunct2,
        THEN conjunct2, THEN conjunct2, THEN conjunct2, THEN conjunct1]
      calendar_roundtrip [OF gregorian.calendar_lib_axioms, of "day_jan1 2024" "(82800, 500)" "(day_jan1 2024 + 1, (0, 500))" 3600 "\<lambda>_. []", THEN conjunct2,
        THEN conjunct2, THEN conjunct2, THEN conjunct2, THEN conjunct2, THEN conjunct2, THEN conjunct2, THEN conjunct2])
    (simp_all add: day_calendar_def day_ok_def day_jan1_def clock_ok_def shift_seconds_def)

section \<open>Where the conversions disagree\<close>

lemmas day_simps = day_calendar_def day_jan1_def day_ok_def shift_seconds_def clock_add_def with_time_def

lemmas chrono_defs = chrono_to_datetime2_def chrono_date_def chrono_to_days_def chrono_increments_def chrono_datetime2_def chrono_from_days_def
  chrono_time_def chrono_nanos_from_increments_def validate_offset_minutes_def

lemmas time_defs = time_date_def Date_new_def time_datetime2_def time_from_days_def time_time_def time_nanos_from_increments_def offset_from_minutes_def

text \<open>Midnight of the second of January 2024 at +01:00 is 23:00 of the first in UTC, and is written so. Read as \<^verbatim>\<open>DateTime<Utc>\<close> the offset is subtracted
  once more: 22:00.\<close>

lemma utc_reading_shifts:
  "chrono_from_sql_utc dbg day_calendar (chrono_to_sql_fixed day_calendar ((day_jan1 2024, (82800, 0)), 3600)) =
     Ok (Some (day_jan1 2024, (79200, 0)))"
  by (simp add: chrono_to_sql_defs chrono_defs day_simps)

text \<open>A server that sends the last hour of year 9999 with a positive offset makes the conversion to \<^verbatim>\<open>OffsetDateTime\<close> panic.\<close>

lemma last_hour_panics:
  "time_from_sql_offset dbg day_calendar (CDateTimeOffset (Some
     \<lparr>dto_datetime2 = \<lparr>dt2_date = Date 3652058, dt2_time = \<lparr>t_increments = 82800, t_scale = 0\<rparr>\<rparr>, dto_offset = 60\<rparr>)) = Panic"
  by (simp add: time_defs day_simps)

text \<open>A day before year 1 panics in one crate and is an error of the encoder with the other.\<close>

lemma before_year_one:
  "time_to_sql_date day_calendar (- 1) = Panic"
  "chrono_to_sql_naive_date day_calendar (- 1) = CDate (Some (Date (- 1)))"
  "fst (Date_encode (Date (- 1)) []) = Err (Protocol (ValueMsg (DateOutOfRange (- 1))))"
  by (simp_all add: time_to_sql_defs chrono_to_sql_defs chrono_defs time_defs day_simps drop_bit_eq_div Date_encode_def Let_def le_bytes_def errR_def
      unsigned_minus_1_eq_mask mask_eq_exp_minus_1)

text \<open>The leap second 23:59:60.5 is sent as a time beyond the day, and would be read as half a second past midnight.\<close>

lemma leap_second_wraps:
  "chrono_to_sql_naive_time day_calendar (86399, 1500000000) = CTime (Some \<lparr>t_increments = 864005000000, t_scale = 7\<rparr>)"
  "chrono_from_sql_naive_time dbg day_calendar (CTime (Some \<lparr>t_increments = 864005000000, t_scale = 7\<rparr>)) = Ok (Some (0, 500000000))"
  by (simp_all add: chrono_to_sql_defs chrono_defs day_simps)

end
