(* ===== verification/Tds_Decimal.thy ===== *)
theory Tds_Decimal
  imports Tds_Row
begin

text \<open>
  Decimal numbers of the crates \<^verbatim>\<open>rust_decimal\<close> and \<^verbatim>\<open>bigdecimal\<close> (the modules \<^verbatim>\<open>decimal\<close> and \<^verbatim>\<open>bigdecimal_\<close> of
  \<^verbatim>\<open>tds/numeric.rs\<close>). The crates are the arguments; what they document is stated as locales. A panic of a crate is \<open>None\<close>.
\<close>

section \<open>rust\_decimal\<close>

text \<open>The magnitude of a \<^verbatim>\<open>Decimal\<close> is three words, \<^verbatim>\<open>hi\<close>, \<^verbatim>\<open>mid\<close> and \<^verbatim>\<open>lo\<close> of \<^verbatim>\<open>unpack\<close>.\<close>

record 'd decimal_lib =
  dec_from_i128_with_scale :: "int \<Rightarrow> nat \<Rightarrow> 'd option"
  dec_hi :: "'d \<Rightarrow> u32"
  dec_mid :: "'d \<Rightarrow> u32"
  dec_lo :: "'d \<Rightarrow> u32"
  dec_is_sign_negative :: "'d \<Rightarrow> bool"
  dec_scale :: "'d \<Rightarrow> nat"

fun from_sql_Decimal :: "(ColumnData \<Rightarrow> rstring) \<Rightarrow> 'd decimal_lib \<Rightarrow> ColumnData \<Rightarrow> 'd option res" where
  "from_sql_Decimal dbg lib (CNumeric (Some num)) =
     (case dec_from_i128_with_scale lib (num_value num) (unat (num_scale num)) of Some d \<Rightarrow> Ok (Some d) | None \<Rightarrow> Panic)"
| "from_sql_Decimal dbg lib (CNumeric None) = Ok None"
| "from_sql_Decimal dbg lib d = Err (cannot_interpret dbg d (lit ''an Decimal''))"

definition decimal_value :: "'d decimal_lib \<Rightarrow> 'd \<Rightarrow> int" where
  "decimal_value lib d =
     (let value = uint (dec_hi lib d) * 2 ^ 64 + uint (dec_mid lib d) * 2 ^ 32 + uint (dec_lo lib d) in
      if dec_is_sign_negative lib d then - value else value)"

definition to_sql_Decimal :: "'d decimal_lib \<Rightarrow> 'd \<Rightarrow> ColumnData res" where
  "to_sql_Decimal lib d =
     map_res (\<lambda>n. CNumeric (Some n)) (Numeric_new_with_scale (decimal_value lib d) (of_nat (dec_scale lib d)))"

section \<open>bigdecimal\<close>

record 'b bigdecimal_lib =
  big_new :: "int \<Rightarrow> int \<Rightarrow> 'b"
  big_as_bigint_and_exponent :: "'b \<Rightarrow> int \<times> int"
  big_with_scale :: "'b \<Rightarrow> int \<Rightarrow> 'b"

fun from_sql_BigDecimal :: "(ColumnData \<Rightarrow> rstring) \<Rightarrow> 'b bigdecimal_lib \<Rightarrow> ColumnData \<Rightarrow> 'b option res" where
  "from_sql_BigDecimal dbg lib (CNumeric num) = Ok (map_option (\<lambda>num. big_new lib (num_value num) (uint (num_scale num))) num)"
| "from_sql_BigDecimal dbg lib d = Err (cannot_interpret dbg d (lit ''an BigDecimal''))"

text \<open>A negative exponent is brought to zero; a mantissa beyond \<^verbatim>\<open>i128\<close> or a scale beyond 38 is a panic.\<close>

definition to_sql_BigDecimal :: "'b bigdecimal_lib \<Rightarrow> 'b \<Rightarrow> ColumnData res" where
  "to_sql_BigDecimal lib b =
     (let (int, exp) = big_as_bigint_and_exponent lib b;
          (int, exp) = (if exp < 0 then big_as_bigint_and_exponent lib (big_with_scale lib b 0) else (int, exp)) in
      if \<not> i128_ok int then Panic
      else if \<not> max exp 0 \<le> uint MAX_NUMERIC_SCALE then Panic
      else map_res (\<lambda>n. CNumeric (Some n)) (Numeric_new_with_scale int (word_of_int (max exp 0))))"

section \<open>What the crates document\<close>

text \<open>A \<^verbatim>\<open>Decimal\<close> has a scale of at most 28 and a magnitude of 96 bits, and is rebuilt from its parts; other numbers panic.\<close>

lemma decimal_value_range: "\<bar>decimal_value lib d\<bar> < 2 ^ 96"
proof -
  have "uint (dec_hi lib d) < 2 ^ 32" "uint (dec_mid lib d) < 2 ^ 32" "uint (dec_lo lib d) < 2 ^ 32"
    using uint_lt2p [of "dec_hi lib d"] uint_lt2p [of "dec_mid lib d"] uint_lt2p [of "dec_lo lib d"] by simp_all
  moreover have "0 \<le> uint (dec_hi lib d)" "0 \<le> uint (dec_mid lib d)" "0 \<le> uint (dec_lo lib d)" by simp_all
  ultimately have "0 \<le> uint (dec_hi lib d) * 2 ^ 64 + uint (dec_mid lib d) * 2 ^ 32 + uint (dec_lo lib d) \<and>
      uint (dec_hi lib d) * 2 ^ 64 + uint (dec_mid lib d) * 2 ^ 32 + uint (dec_lo lib d) < 2 ^ 96"
    by simp
  then show ?thesis unfolding decimal_value_def Let_def by (simp only: abs_minus_cancel abs_of_nonneg split: if_split) simp
qed

locale decimal_crate =
  fixes lib :: "'d decimal_lib"
  assumes dec_bound: "dec_scale lib d \<le> 28"
    and dec_built: "dec_from_i128_with_scale lib v s = Some d \<Longrightarrow> dec_scale lib d = s \<and> decimal_value lib d = v"
    and dec_range: "dec_from_i128_with_scale lib v s = None \<longleftrightarrow> 28 < s \<or> 2 ^ 96 \<le> \<bar>v\<bar>"
begin

lemma written_decimal: "to_sql_Decimal lib d = Ok (CNumeric (Some \<lparr>num_value = decimal_value lib d, num_scale = of_nat (dec_scale lib d)\<rparr>))"
proof -
  have "unat (of_nat (dec_scale lib d) :: u8) = dec_scale lib d"
    using dec_bound [of d] by (simp add: unsigned_of_nat take_bit_nat_eq_self)
  then have "(of_nat (dec_scale lib d) :: u8) \<le> 38" using dec_bound [of d] by (simp add: word_le_nat_alt)
  then show ?thesis by (simp add: to_sql_Decimal_def Numeric_new_with_scale_def MAX_NUMERIC_SCALE_def)
qed

text \<open>The number and its scale come back; only the sign of a negative zero is lost.\<close>

lemma decimal_back:
  "\<exists>c d'. to_sql_Decimal lib d = Ok c \<and> from_sql_Decimal dbg lib c = Ok (Some d') \<and>
     decimal_value lib d' = decimal_value lib d \<and> dec_scale lib d' = dec_scale lib d"
proof -
  have s: "unat (of_nat (dec_scale lib d) :: u8) = dec_scale lib d"
    using dec_bound [of d] by (simp add: unsigned_of_nat take_bit_nat_eq_self)
  have "\<bar>decimal_value lib d\<bar> < 2 ^ 96" by (rule decimal_value_range)
  then obtain d' where d': "dec_from_i128_with_scale lib (decimal_value lib d) (dec_scale lib d) = Some d'"
    using dec_range [of "decimal_value lib d" "dec_scale lib d"] dec_bound [of d] by (metis linorder_not_le not_None_eq)
  then show ?thesis using dec_built [OF d'] by (simp add: written_decimal s)
qed

text \<open>Reading a number of the server panics exactly when it is beyond the type, which a column of type \<^verbatim>\<open>decimal(38, 30)\<close> is.\<close>

lemma decimal_reading_panics:
  "from_sql_Decimal dbg lib (CNumeric (Some num)) = Panic \<longleftrightarrow> 28 < unat (num_scale num) \<or> 2 ^ 96 \<le> \<bar>num_value num\<bar>"
  using dec_range [of "num_value num" "unat (num_scale num)"] by (auto split: option.split)

end

text \<open>A \<^verbatim>\<open>BigDecimal\<close> is a mantissa and an exponent, and \<^verbatim>\<open>with_scale(0)\<close> multiplies a negative exponent out.\<close>

locale bigdecimal_crate =
  fixes lib :: "'b bigdecimal_lib"
  assumes big_parts: "big_as_bigint_and_exponent lib (big_new lib v e) = (v, e)"
    and big_scaled: "big_as_bigint_and_exponent lib b = (v, e) \<Longrightarrow> e < 0 \<Longrightarrow>
      big_as_bigint_and_exponent lib (big_with_scale lib b 0) = (v * 10 ^ nat (- e), 0)"
begin

text \<open>A number of the server is written as it was read.\<close>

lemma numeric_through_big:
  assumes "num_scale num \<le> 38" "i128_ok (num_value num)"
  shows "\<exists>b. from_sql_BigDecimal dbg lib (CNumeric (Some num)) = Ok (Some b) \<and> to_sql_BigDecimal lib b = Ok (CNumeric (Some num))"
proof -
  have "uint (num_scale num) \<le> 38" using assms(1) by (simp add: word_le_def)
  then show ?thesis
    using assms by (simp add: to_sql_BigDecimal_def big_parts Numeric_new_with_scale_def MAX_NUMERIC_SCALE_def max_def)
qed

text \<open>What is written stands for the same number.\<close>

lemma big_value_kept:
  assumes "big_as_bigint_and_exponent lib b = (v, e)" "to_sql_BigDecimal lib b = Ok (CNumeric (Some num))"
  shows "num_value num = (if e < 0 then v * 10 ^ nat (- e) else v)" "int (unat (num_scale num)) = max e 0"
proof -
  have r: "max e 0 \<le> 38" if "0 \<le> e"
    using assms that by (auto simp: to_sql_BigDecimal_def MAX_NUMERIC_SCALE_def split: if_splits)
  show "num_value num = (if e < 0 then v * 10 ^ nat (- e) else v)"
    using assms big_scaled [OF assms(1)]
    by (auto simp: to_sql_BigDecimal_def Numeric_new_with_scale_def split: if_splits)
  have "num_scale num = word_of_int (max e 0)"
    using assms big_scaled [OF assms(1)] by (auto simp: to_sql_BigDecimal_def Numeric_new_with_scale_def max_def split: if_splits)
  then have "uint (num_scale num) = max e 0" using r by (cases "0 \<le> e") (simp_all add: uint_word_of_int max_def)
  then show "int (unat (num_scale num)) = max e 0" by simp
qed

end

section \<open>Concrete numbers\<close>

text \<open>A sign, a magnitude of 96 bits and a scale; zero has no sign here.\<close>

typedef small_decimal = "{(v :: int, s :: nat). \<bar>v\<bar> < 2 ^ 96 \<and> s \<le> 28}"
  by (rule exI [of _ "(0, 0)"]) simp

setup_lifting type_definition_small_decimal

lift_definition small_value :: "small_decimal \<Rightarrow> int" is fst .

lift_definition small_scale :: "small_decimal \<Rightarrow> nat" is snd .

definition small_from :: "int \<Rightarrow> nat \<Rightarrow> small_decimal option" where
  "small_from v s = (if \<bar>v\<bar> < 2 ^ 96 \<and> s \<le> 28 then Some (Abs_small_decimal (v, s)) else None)"

definition small_lib :: "small_decimal decimal_lib" where
  "small_lib = \<lparr>dec_from_i128_with_scale = small_from, dec_hi = (\<lambda>d. word_of_int (\<bar>small_value d\<bar> div 2 ^ 64)),
     dec_mid = (\<lambda>d. word_of_int (\<bar>small_value d\<bar> div 2 ^ 32)), dec_lo = (\<lambda>d. word_of_int \<bar>small_value d\<bar>),
     dec_is_sign_negative = (\<lambda>d. small_value d < 0), dec_scale = small_scale\<rparr>"

lemma small_bounds: "\<bar>small_value d\<bar> < 2 ^ 96" "small_scale d \<le> 28"
  by (transfer, auto)+

lemma three_words:
  assumes "0 \<le> v" "v < 2 ^ 96"
  shows "uint (word_of_int (v div 2 ^ 64) :: u32) * 2 ^ 64 + uint (word_of_int (v div 2 ^ 32) :: u32) * 2 ^ 32 + uint (word_of_int v :: u32) = v"
proof -
  define m where "m = v div 2 ^ 32"
  have "m div 2 ^ 32 mod 2 ^ 32 = m div 2 ^ 32" using assms by (simp add: m_def)
  moreover have "v div 2 ^ 64 = m div 2 ^ 32" by (simp add: m_def flip: zdiv_zmult2_eq)
  moreover have "m div 2 ^ 32 * 2 ^ 64 + m mod 2 ^ 32 * 2 ^ 32 = m * 2 ^ 32" by simp presburger
  moreover have "m * 2 ^ 32 + v mod 2 ^ 32 = v" by (simp add: m_def)
  ultimately show ?thesis unfolding m_def [symmetric] by (simp add: uint_word_of_int)
qed

lemma small_decimal_value: "decimal_value small_lib d = small_value d"
  using three_words [OF _ small_bounds(1) [of d]] by (simp add: decimal_value_def small_lib_def Let_def)

interpretation small: decimal_crate small_lib
proof
  show "dec_scale small_lib d = s \<and> decimal_value small_lib d = v" if "dec_from_i128_with_scale small_lib v s = Some d" for v s d
    unfolding small_decimal_value
    using that by (auto simp: small_lib_def small_from_def small_value.rep_eq small_scale.rep_eq Abs_small_decimal_inverse split: if_splits)
qed (auto simp: small_lib_def small_from_def small_bounds)

definition pair_lib :: "(int \<times> int) bigdecimal_lib" where
  "pair_lib = \<lparr>big_new = Pair, big_as_bigint_and_exponent = id, big_with_scale = (\<lambda>(v, e) s. if e < s then (v * 10 ^ nat (s - e), s) else (v div 10 ^ nat (e - s), s))\<rparr>"

interpretation pairs: bigdecimal_crate pair_lib
  by unfold_locales (auto simp: pair_lib_def)

end
