(* ===== verification/Tds_Params.thy ===== *)
theory Tds_Params
  imports Tds_ColumnData
begin

text \<open>
  Encoding against decoding of column values. \<^verbatim>\<open>ColumnData::encode\<close> without a column
  type is how RPC parameters and table values go out: a type description and then a value
  of it. The lemmas follow each arm of the encoder through \<^verbatim>\<open>TypeInfo::decode\<close> and
  \<^verbatim>\<open>ColumnData::decode\<close>; the properties at the end join them.
\<close>

section \<open>Reading back what was written\<close>

definition sized_bytes :: "nat \<Rightarrow> bytes \<Rightarrow> bytes" where
  "sized_bytes len payload =
     (if len < 0xffff then le_bytes 2 (of_nat (length payload) :: u16) @ payload
      else le_bytes 8 (0xfffffffffffffffe :: u64) @ plp_wire (if payload = [] then [] else [payload]))"

lemma put_sized_eq: "put_sized len payload dst = (Ok (), dst @ sized_bytes len payload)"
  by (simp add: put_sized_def sized_bytes_def plp_wire_def wire_simps)

lemma plp_decode_sized:
  assumes "len < 0xffff \<longrightarrow> length payload < 0xffff" "length payload \<le> MAX_PLP_SIZE"
  shows "plp_decode len (sized_bytes len payload @ rest) = (Ok (Some payload), rest)"
proof (cases "len < 0xffff")
  case True
  with assms(1) have l: "length payload < 0xffff" by blast
  then have u: "unat (of_nat (length payload) :: u16) = length payload" by simp
  have "(of_nat (length payload) :: u16) \<noteq> 0xffff"
  proof
    assume "of_nat (length payload) = (0xffff :: u16)"
    then have "unat (of_nat (length payload) :: u16) = unat (0xffff :: u16)" by (rule arg_cong)
    with u l show False by simp
  qed
  then show ?thesis using True u by (simp add: plp_decode_def sized_bytes_def wire_simps)
next
  case False
  have "loopR plp_chunk [] (plp_wire (if payload = [] then [] else [payload]) @ rest) = (Ok payload, rest)"
    using plp_loop_cs [of "if payload = [] then [] else [payload]" "[]" rest] assms(2) by (cases "payload = []") simp_all
  then show ?thesis
    using False by (simp add: plp_decode_def sized_bytes_def bindR_def retR_def read_fixed_append)
qed

lemma units_le_bytes: "length (encode_utf16 s) \<le> length (as_bytes s)"
proof (induction s)
  case (Cons c s)
  have "length (utf16_char c) \<le> length (utf8_char c)" by (simp add: utf16_char_def utf8_char_def)
  with Cons show ?case by (simp add: as_bytes_def)
qed simp

text \<open>What the types of the program guarantee of a value: a \<^verbatim>\<open>String\<close> is valid, a GUID has 16 bytes, a decimal is a 128-bit integer with a
  scale of at most 38. And the size of its data, which the types of the server bound by \<open>2 ^ 31 - 1\<close> bytes.\<close>

definition typed_value :: "ColumnData \<Rightarrow> bool" where
  "typed_value dat = (case dat of
     CGuid (Some g) \<Rightarrow> length g = 16
   | CString (Some s) \<Rightarrow> valid_str s
   | CNumeric (Some n) \<Rightarrow> num_scale n \<le> 38 \<and> i128_ok (num_value n)
   | CXml (Some x) \<Rightarrow> valid_str (xml_data x)
   | _ \<Rightarrow> True)"

definition value_bytes :: "ColumnData \<Rightarrow> nat" where
  "value_bytes dat = (case dat of
     CString (Some s) \<Rightarrow> length (utf16_bytes s)
   | CBinary (Some b) \<Rightarrow> length b
   | CXml (Some x) \<Rightarrow> length (utf16_bytes (xml_data x))
   | _ \<Rightarrow> 0)"

text \<open>The two kinds of values that the encoder accepts and a reader cannot follow: an empty XML document, and a decimal that needs
  a precision of more than 38 digits.\<close>

definition empty_xml :: "ColumnData \<Rightarrow> bool" where
  "empty_xml dat = (case dat of CXml (Some x) \<Rightarrow> xml_data x = [] | _ \<Rightarrow> False)"

definition wide_decimal :: "ColumnData \<Rightarrow> bool" where
  "wide_decimal dat = (case dat of CNumeric (Some n) \<Rightarrow> 10 ^ 38 \<le> \<bar>num_value n\<bar> \<or> num_scale n = 38 | _ \<Rightarrow> False)"

definition param_ok :: "ColumnData \<Rightarrow> bool" where
  "param_ok dat \<longleftrightarrow> typed_value dat \<and> value_bytes dat \<le> MAX_PLP_SIZE \<and> \<not> empty_xml dat \<and> \<not> wide_decimal dat"

lemmas param_ok_defs = param_ok_def typed_value_def value_bytes_def empty_xml_def wide_decimal_def

definition untyped_null :: "ColumnData \<Rightarrow> bool" where
  "untyped_null dat \<longleftrightarrow> dat \<in> {CString None, CBinary None, CNumeric None, CXml None, CDateTime None,
     CSmallDateTime None, CTime None, CDate None, CDateTime2 None, CDateTimeOffset None}"

text \<open>What a value is for the reader: a null without a type of its own is the untyped null, and XML has lost the schema it was bound to.\<close>

definition arrives_as :: "ColumnData \<Rightarrow> ColumnData" where
  "arrives_as dat =
     (if untyped_null dat then CI32 None
      else (case dat of CXml (Some x) \<Rightarrow> CXml (Some (XmlData_new (xml_data x))) | _ \<Rightarrow> dat))"

definition param_decode :: "value_env \<Rightarrow> (bytes, ColumnData) comp" where
  "param_decode env = bindR TypeInfo_decode (ColumnData_decode env)"

lemma param_type:
  assumes "TypeInfo_wf ti" "bs = TypeInfo_bytes ti @ v" "ColumnData_decode env ti (v @ rest) = (Ok dat, rest)"
  shows "param_decode env (bs @ rest) = (Ok dat, rest)"
  using type_info.dec_wire [OF assms(1), of "v @ rest"] assms(2,3) by (simp add: param_decode_def bindR_def)

definition nullable_wire :: "u8 \<Rightarrow> bytes option \<Rightarrow> bytes" where
  "nullable_wire len payload = (case payload of Some bs \<Rightarrow> len # bs | None \<Rightarrow> [0])"

lemma param_scalar:
  assumes "scalar_encode vty len fty None dat payload dst = (Ok (), out)"
    "vty \<in> {VBitn, VIntn, VFloatn, VGuid}"
    "\<And>rest. var_len_decode env (VarLenContext_new vty (unat len) None) (nullable_wire len payload @ rest) = (Ok dat, rest)"
  shows "\<exists>bs. out = dst @ bs \<and> param_decode env (bs @ rest) = (Ok dat, rest)"
proof -
  let ?ti = "VarLenSized (VarLenContext_new vty (unat len) None)"
  let ?v = "nullable_wire len payload"
  have "TypeInfo_wf ?ti" using assms(2) unat_u8_less [of len]
    by (auto simp: VarLenContext_new_def len_fits_def char_type_def)
  moreover have "out = dst @ TypeInfo_bytes ?ti @ ?v"
    using assms(1,2)
    by (auto simp: scalar_encode_def put_bytelen_def nullable_wire_def VarLenContext_new_def len_bytes_def collation_bytes_def
        wire_simps split: option.splits)
  ultimately show ?thesis using param_type [of ?ti _ ?v env rest dat] assms(3) by auto
qed

lemma zero_collation: "[0, 0, 0, 0, 0] = collation_bytes (Some (Collation_new 0 0))"
  by (simp add: collation_bytes_def Collation_new_def le_bytes_def)

lemma nvarchar_decode:
  assumes "valid_str s" "len < 0xffff \<longrightarrow> length (utf16_bytes s) < 0xffff" "length (utf16_bytes s) \<le> MAX_PLP_SIZE"
    "ty \<in> {VNVarchar, VNChar}"
  shows "var_len_decode env (VarLenContext_new ty len c) (sized_bytes len (utf16_bytes s) @ rest) = (Ok (CString (Some s)), rest)"
  using plp_decode_sized [OF assms(2,3), of rest] assms(1,4)
  by (auto simp: var_len_decode_def VarLenContext_new_def string_decode_def length_utf16_bytes bindR_def retR_def ok_or_def)

lemma param_string:
  assumes "string_encode_untyped s dst = (Ok (), out)" "valid_str s" "length (utf16_bytes s) \<le> MAX_PLP_SIZE"
  shows "\<exists>bs. out = dst @ bs \<and> param_decode env (bs @ rest) = (Ok (CString (Some s)), rest)"
proof -
  define len :: nat where "len = (if length (as_bytes s) \<le> 4000 then 8000 else 0xffff)"
  let ?ti = "VarLenSized (VarLenContext_new VNVarchar len (Some (Collation_new 0 0)))"
  have small: "len < 0xffff \<longrightarrow> length (utf16_bytes s) < 0xffff"
    using units_le_bytes [of s] by (auto simp: len_def length_utf16_bytes split: if_splits)
  have out: "out = dst @ TypeInfo_bytes ?ti @ sized_bytes len (utf16_bytes s)"
    using assms(1) zero_collation
    by (auto simp: string_encode_untyped_def len_def sized_bytes_def plp_wire_def VarLenContext_new_def len_bytes_def
        length_utf16_bytes utf16_bytes_def wire_simps panicR_def le_bytes_def [of 2 "65535 :: u16"] split: if_splits)
  have "TypeInfo_wf ?ti" by (simp add: VarLenContext_new_def len_fits_def char_type_def len_def)
  from param_type [OF this _ , of _ "sized_bytes len (utf16_bytes s)" env rest] out
    nvarchar_decode [OF assms(2) small assms(3), of VNVarchar env]
  show ?thesis by auto
qed

lemma param_binary:
  assumes "binary_encode None (Some b) dst = (Ok (), out)" "length b \<le> MAX_PLP_SIZE"
  shows "\<exists>bs. out = dst @ bs \<and> param_decode env (bs @ rest) = (Ok (CBinary (Some b)), rest)"
proof -
  define len :: nat where "len = (if length b \<le> 8000 then 8000 else 0xffff)"
  let ?ti = "VarLenSized (VarLenContext_new VBigVarBin len None)"
  have out: "out = dst @ TypeInfo_bytes ?ti @ sized_bytes len b"
    using assms(1)
    by (auto simp: binary_encode_def len_def put_sized_eq VarLenContext_new_def len_bytes_def collation_bytes_def
        wire_simps split: if_splits)
  have "TypeInfo_wf ?ti" by (simp add: VarLenContext_new_def len_fits_def char_type_def len_def)
  moreover have "ColumnData_decode env ?ti (sized_bytes len b @ rest) = (Ok (CBinary (Some b)), rest)"
    using plp_decode_sized [of len b rest] assms(2)
    by (auto simp: var_len_decode_def VarLenContext_new_def binary_decode_def bindR_def retR_def len_def split: if_splits)
  ultimately show ?thesis using param_type [OF _ _, of ?ti _ "sized_bytes len b" env rest] out by auto
qed

lemma utf16_bytes_eq_Nil: "utf16_bytes s = [] \<longleftrightarrow> s = []"
proof (cases s)
  case (Cons c t)
  then show ?thesis by (simp add: utf16_bytes_def utf16_char_def)
qed (simp add: utf16_bytes_def)

lemma xml_bytes:
  assumes "XmlData_encode x dst = (Ok (), out)" "xml_data x \<noteq> []"
  shows "out = dst @ sized_bytes 0xfffffffffffffffe (utf16_bytes (xml_data x))"
proof -
  have "utf16_bytes (xml_data x) \<noteq> []" using assms(2) by (simp add: utf16_bytes_eq_Nil)
  then show ?thesis using assms(1)
    by (simp add: XmlData_encode_def Let_def thenR_def bindR_def errR_def panicR_def put_bytes_def sized_bytes_def plp_wire_def
        length_utf16_bytes flip: utf16_bytes_def split: if_splits)
qed

lemma untyped_null_decode: "param_decode env (FixedLenType_value FNull # rest) = (Ok (CI32 None), rest)"
  by (simp add: param_decode_def TypeInfo_decode_def wire_simps)

lemma xml_type_decode:
  assumes "valid_str s" "length (utf16_bytes s) \<le> MAX_PLP_SIZE"
  shows "param_decode env ((TypeInfo_bytes (XmlType None 0xfffffffffffffffe) @ sized_bytes 0xfffffffffffffffe (utf16_bytes s)) @ rest) =
     (Ok (CXml (Some (XmlData_new s))), rest)"
proof -
  let ?ti = "XmlType None 0xfffffffffffffffe" and ?v = "sized_bytes 0xfffffffffffffffe (utf16_bytes s)"
  have "ColumnData_decode env ?ti (?v @ rest) = (Ok (CXml (Some (XmlData_new s))), rest)"
    using plp_decode_sized [of "0xfffffffffffffffe" "utf16_bytes s" rest] assms
    by (simp add: xml_decode_def string_decode_def length_utf16_bytes XmlData_new_def bindR_def retR_def ok_or_def)
  then show ?thesis using param_type [of ?ti _ ?v env rest] by auto
qed

lemma param_xml:
  assumes "xml_encode None (Some x) dst = (Ok (), out)" "param_ok (CXml (Some x))"
  shows "\<exists>bs. out = dst @ bs \<and> param_decode env (bs @ rest) = (Ok (CXml (Some (XmlData_new (xml_data x)))), rest)"
proof -
  have "XmlData_encode x (dst @ [VarLenType_value VXml, 0]) = (Ok (), out)"
    using assms(1) by (simp add: xml_encode_def thenR_def bindR_def put_bytes_def)
  from xml_bytes [OF this] have "out = dst @ TypeInfo_bytes (XmlType None 0xfffffffffffffffe) @ sized_bytes 0xfffffffffffffffe (utf16_bytes (xml_data x))"
    using assms(2) by (simp add: param_ok_defs)
  then show ?thesis using xml_type_decode [of "xml_data x" env rest] assms(2) by (auto simp: param_ok_defs)
qed

text \<open>An empty XML document is written as a stream with an empty first chunk and a
  terminator of its own. The empty chunk already ends the stream for a reader, so that four
  bytes stay behind that the next value starts with.\<close>

lemma xml_empty_desync:
  assumes "xml_encode None (Some x) dst = (Ok (), out)" "xml_data x = []"
  shows "\<exists>bs. out = dst @ bs \<and> param_decode env (bs @ rest) = (Ok (CXml (Some (XmlData_new []))), [0, 0, 0, 0] @ rest)"
proof -
  let ?bs = "TypeInfo_bytes (XmlType None 0xfffffffffffffffe) @ sized_bytes 0xfffffffffffffffe (utf16_bytes [])"
  have "out = dst @ ?bs @ [0, 0, 0, 0]"
    using assms by (simp add: xml_encode_def XmlData_encode_def thenR_def bindR_def put_bytes_def utf16_bytes_def sized_bytes_def plp_wire_def
        le_bytes_def [of 4 "0 :: u32"])
  then show ?thesis using xml_type_decode [of "[]" env "[0, 0, 0, 0] @ rest"] by (intro exI [of _ "?bs @ [0, 0, 0, 0]"]) (simp add: utf16_bytes_def MAX_PLP_SIZE_def)
qed

definition numeric_type :: "Numeric \<Rightarrow> TypeInfo" where
  "numeric_type n = VarLenSizedPrecision VNumericn (unat (Numeric_len n)) (of_nat (precision n)) (num_scale n)"

lemma numeric_param_bytes:
  assumes "numeric_encode None (Some n) dst = (Ok (), out)" "num_scale n \<le> 38" "i128_ok (num_value n)"
  shows "out = dst @ TypeInfo_bytes (numeric_type n) @ Numeric_bytes n" "unat (of_nat (precision n) :: u8) = precision n"
proof -
  have v: "\<bar>num_value n\<bar> \<le> 2 ^ 127" using assms(3) by (auto simp: i128_ok_def abs_le_iff)
  then show "out = dst @ TypeInfo_bytes (numeric_type n) @ Numeric_bytes n"
    using assms(1) by (simp add: numeric_type_def numeric_encode_def Numeric_encode_eq thenR_def bindR_def put_bytes_def)
  have "(2 :: int) ^ 127 < 10 ^ 77" by simp
  moreover have "unat (num_scale n) < 77" using assms(2) by (simp add: word_le_nat_alt)
  ultimately have "precision n \<le> 77" using precision_le [of n 77] v by linarith
  then show "unat (of_nat (precision n) :: u8) = precision n" by (simp add: unat_of_nat)
qed

lemma narrow_decimal: "num_scale n \<le> 38 \<Longrightarrow> \<not> wide_decimal (CNumeric (Some n)) \<longleftrightarrow> precision n \<le> 38"
  using precision_le [of n 38] by (auto simp: wide_decimal_def word_le_nat_alt word_unat_eq_iff)

lemma param_numeric:
  assumes "numeric_encode None (Some n) dst = (Ok (), out)" "param_ok (CNumeric (Some n))"
  shows "\<exists>bs. out = dst @ bs \<and> param_decode env (bs @ rest) = (Ok (CNumeric (Some n)), rest)"
proof -
  from assms(2) have n: "num_scale n \<le> 38" "i128_ok (num_value n)" "precision n \<le> 38" "\<bar>num_value n\<bar> < 10 ^ 38"
    using narrow_decimal [of n] by (auto simp: param_ok_defs)
  note b = numeric_param_bytes [OF assms(1) n(1,2)]
  have "unat (num_scale n) \<le> precision n" by (simp add: precision_def Let_def)
  then have "TypeInfo_wf (numeric_type n)" using n(3) b(2) unat_u8_less by (simp add: numeric_type_def word_le_nat_alt)
  moreover have "\<bar>num_value n\<bar> < 2 ^ 127" using n(4) by simp
  then have "ColumnData_decode env (numeric_type n) (Numeric_bytes n @ rest) = (Ok (CNumeric (Some n)), rest)"
    using Numeric_decode_bytes [OF n(1), of rest] by (simp add: numeric_type_def bindR_def retR_def)
  ultimately show ?thesis using param_type [of "numeric_type n" _ "Numeric_bytes n" env rest] b(1) by auto
qed

text \<open>The type of a decimal that needs more than 38 digits is written all the same, and refused by its reader.\<close>

lemma wide_decimal_refused:
  assumes "numeric_encode None (Some n) dst = (Ok (), out)" "num_scale n \<le> 38" "i128_ok (num_value n)" "wide_decimal (CNumeric (Some n))"
  shows "\<exists>bs p sc. out = dst @ bs \<and> fst (param_decode env (bs @ rest)) = Err (Protocol (ValueMsg (InvalidPrecision p sc)))"
proof -
  note b = numeric_param_bytes [OF assms(1-3)]
  have "(38 :: u8) < of_nat (precision n)" using b(2) narrow_decimal [OF assms(2)] assms(4) by (simp add: word_less_nat_alt)
  then show ?thesis using b(1)
    by (auto simp: numeric_type_def param_decode_def TypeInfo_decode_def read_var_len_def read_collation_def char_type_def wire_simps type_tag_eval wire_eval)
qed

lemma param_fixed_var:
  assumes "TypeInfo_wf (VarLenSized (VarLenContext_new ty len None))"
    "out = dst @ TypeInfo_bytes (VarLenSized (VarLenContext_new ty len None)) @ v"
    "var_len_decode env (VarLenContext_new ty len None) (v @ rest) = (Ok dat, rest)"
  shows "\<exists>bs. out = dst @ bs \<and> param_decode env (bs @ rest) = (Ok dat, rest)"
  using param_type [OF assms(1), of _ v env rest dat] assms(2,3) by auto

lemmas var_param = VarLenContext_new_def len_fits_def char_type_def len_bytes_def collation_bytes_def var_len_decode_def
  thenR_def bindR_def retR_def put_bytes_def put_u8_def liftR_def read_u8_Cons

lemma param_datetime:
  "datetime_encode None (Some d) dst = (Ok (), out) \<Longrightarrow>
     \<exists>bs. out = dst @ bs \<and> param_decode env (bs @ rest) = (Ok (CDateTime (Some d)), rest)"
  "smalldatetime_encode None (Some sd) dst = (Ok (), out) \<Longrightarrow>
     \<exists>bs. out = dst @ bs \<and> param_decode env (bs @ rest) = (Ok (CSmallDateTime (Some sd)), rest)"
  subgoal
    by (rule param_fixed_var [where ty = VDatetimen and len = 8
          and v = "8 # le_bytes 4 (dt_days d) @ le_bytes 4 (dt_seconds_fragments d)"])
      (simp_all add: datetime_encode_def fixed_codecs datetimen_decode_def var_param)
  subgoal
    by (rule param_fixed_var [where ty = VDatetimen and len = 4
          and v = "4 # le_bytes 2 (sdt_days sd) @ le_bytes 2 (sdt_seconds_fragments sd)"])
      (simp_all add: smalldatetime_encode_def fixed_codecs datetimen_decode_def var_param)
  done

lemma param_date:
  assumes "date_encode None (Some d) dst = (Ok (), out)"
  shows "\<exists>bs. out = dst @ bs \<and> param_decode env (bs @ rest) = (Ok (CDate (Some d)), rest)"
proof -
  from assms have enc: "Date_encode d (dst @ [VarLenType_value VDaten, 3]) = (Ok (), out)"
    by (simp add: date_encode_def var_param)
  then have wf: "Date_wf d" by (rule Date_encode_wf)
  show ?thesis
    by (rule param_fixed_var [where ty = VDaten and len = 3 and v = "3 # Date_bytes d"])
      (use enc date.enc_wire [OF wf] date.dec_wire [OF wf] in \<open>simp_all add: date_decode_def var_param\<close>)
qed

lemma Time_len_width: "Time_wf n t \<Longrightarrow> Time_len t = Ok (of_nat (time_width n))"
  by (auto simp: Time_wf_def Time_len_def time_width_def unat_of_nat_scale)

lemma of_nat_time_width: "unat (of_nat (time_width n) :: u8) = time_width n"
  "unat (of_nat (time_width n) + 3 :: u8) = time_width n + 3" "unat (of_nat (time_width n) + 5 :: u8) = time_width n + 5"
  by (simp_all add: time_width_def)

lemma param_time:
  assumes "time_encode None (Some t) dst = (Ok (), out)"
  shows "\<exists>bs. out = dst @ bs \<and> param_decode env (bs @ rest) = (Ok (CTime (Some t)), rest)"
proof -
  from assms obtain n where n: "Time_len t = Ok n"
    and enc: "Time_encode t (dst @ [VarLenType_value VTimen, t_scale t, n]) = (Ok (), out)"
    by (cases "Time_len t") (auto simp: time_encode_def var_param)
  then have wf: "Time_wf (unat (t_scale t)) t" by (intro Time_encode_wf)
  have n': "n = of_nat (time_width (unat (t_scale t)))" using n Time_len_width [OF wf] by simp
  have r: "3 \<le> n" "n \<le> 5" "n \<noteq> 0" by (simp_all add: n' time_width_def)
  show ?thesis
    by (rule param_fixed_var [where ty = VTimen and len = "unat (t_scale t)" and v = "n # Time_bytes t"])
      (use enc time.enc_wire [OF wf] time.dec_wire [OF wf] r unat_u8_less [of "t_scale t"] n' in
        \<open>simp_all add: time_decode_def var_param of_nat_time_width\<close>)
qed

lemma param_datetime2:
  assumes "datetime2_encode env None (Some d) dst = (Ok (), out)"
  shows "\<exists>bs. out = dst @ bs \<and> param_decode env (bs @ rest) = (Ok (CDateTime2 (Some d)), rest)"
proof -
  let ?t = "dt2_time d" and ?s = "unat (t_scale (dt2_time d))"
  from assms obtain n where n: "Time_len ?t = Ok n"
    and enc: "DateTime2_encode d (dst @ [VarLenType_value VDatetime2, t_scale ?t, n + 3]) = (Ok (), out)"
    by (cases "Time_len ?t") (auto simp: datetime2_encode_def var_param)
  then have wf: "DateTime2_wf ?s d"
    by (auto simp: DateTime2_encode_def DateTime2_wf_def thenR_def bindR_eq_Ok dest: Time_encode_wf Date_encode_wf)
  then have n': "n = of_nat (time_width ?s)" using n Time_len_width by (auto simp: DateTime2_wf_def)
  have r: "n + 3 \<noteq> 0" "unat (n + 3) = time_width ?s + 3" by (simp_all add: n' time_width_def)
  show ?thesis
    by (rule param_fixed_var [where ty = VDatetime2 and len = ?s and v = "(n + 3) # Time_bytes ?t @ Date_bytes (dt2_date d)"])
      (use enc datetime2.enc_wire [OF wf] datetime2.dec_wire [OF wf, unfolded append_assoc] r unat_u8_less [of "t_scale ?t"] in
        \<open>simp_all add: datetime2_decode_def var_param\<close>)
qed

lemma param_datetimeoffset:
  assumes "datetimeoffset_encode None (Some d) dst = (Ok (), out)"
  shows "\<exists>bs. out = dst @ bs \<and> param_decode env (bs @ rest) = (Ok (CDateTimeOffset (Some d)), rest)"
proof -
  let ?t = "dt2_time (dto_datetime2 d)" and ?s = "unat (t_scale (dt2_time (dto_datetime2 d)))"
  from assms obtain n where n: "Time_len ?t = Ok n"
    and enc: "DateTimeOffset_encode d (dst @ [VarLenType_value VDatetimeOffsetn, t_scale ?t, n + 5]) = (Ok (), out)"
    by (cases "Time_len ?t") (auto simp: datetimeoffset_encode_def var_param)
  then have wf: "DateTime2_wf ?s (dto_datetime2 d)"
    by (auto simp: DateTimeOffset_encode_def DateTime2_encode_def DateTime2_wf_def thenR_def bindR_eq_Ok
        dest: Time_encode_wf Date_encode_wf)
  then have n': "n = of_nat (time_width ?s)" using n Time_len_width by (auto simp: DateTime2_wf_def)
  have r: "n + 5 \<noteq> 0" "\<not> n + 5 < 5" "n + 5 - 5 = of_nat (time_width ?s)" by (simp_all add: n' time_width_def)
  show ?thesis
    by (rule param_fixed_var [where ty = VDatetimeOffsetn and len = ?s
          and v = "(n + 5) # Time_bytes ?t @ Date_bytes (dt2_date (dto_datetime2 d)) @ le_bytes 2 (dto_offset d)"])
      (use enc datetimeoffset.enc_wire [OF wf] datetimeoffset.dec_wire [OF wf, unfolded append_assoc] r
          unat_u8_less [of "t_scale ?t"] in \<open>simp_all add: datetimeoffsetn_decode_def var_param\<close>)
qed

lemma scalar_decodes:
  "var_len_decode env (VarLenContext_new VBitn 1 None) (nullable_wire 1 (map_option (\<lambda>v. [of_bool v]) b) @ rest)
     = (Ok (CBit b), rest)"
  "var_len_decode env (VarLenContext_new VIntn 1 None) (nullable_wire 1 (map_option (\<lambda>v. [v]) n1) @ rest)
     = (Ok (CU8 n1), rest)"
  "var_len_decode env (VarLenContext_new VIntn 2 None) (nullable_wire 2 (map_option (le_bytes 2) n2) @ rest)
     = (Ok (CI16 n2), rest)"
  "var_len_decode env (VarLenContext_new VIntn 4 None) (nullable_wire 4 (map_option (le_bytes 4) n4) @ rest)
     = (Ok (CI32 n4), rest)"
  "var_len_decode env (VarLenContext_new VIntn 8 None) (nullable_wire 8 (map_option (le_bytes 8) n8) @ rest)
     = (Ok (CI64 n8), rest)"
  "var_len_decode env (VarLenContext_new VFloatn 4 None) (nullable_wire 4 (map_option (le_bytes 4) n4) @ rest)
     = (Ok (CF32 n4), rest)"
  "var_len_decode env (VarLenContext_new VFloatn 8 None) (nullable_wire 8 (map_option (le_bytes 8) n8) @ rest)
     = (Ok (CF64 n8), rest)"
  by (auto simp: nullable_wire_def VarLenContext_new_def var_len_decode_def bit_decode_def int_decode_def float_decode_def wire_simps
      split: option.splits)

lemma guid_decodes:
  assumes "param_ok (CGuid g)"
  shows "var_len_decode env (VarLenContext_new VGuid 16 None) (nullable_wire 16 (map_option reorder_bytes g) @ rest)
     = (Ok (CGuid g), rest)"
proof (cases g)
  case (Some bs)
  then have l: "length bs = 16" using assms by (simp add: param_ok_defs)
  then have "read_bytes_into [] 16 16 (reorder_bytes bs @ rest) = (Ok (reorder_bytes bs), rest)" by (simp add: wire_simps)
  then show ?thesis using Some l
    by (simp add: nullable_wire_def VarLenContext_new_def var_len_decode_def guid_decode_def reorder_bytes_involution wire_simps)
qed (simp add: nullable_wire_def VarLenContext_new_def var_len_decode_def guid_decode_def wire_simps)

lemma param_scalars:
  assumes "ColumnData_encode env None dat dst = (Ok (), out)" "param_ok dat"
    "dat \<in> {CBit b, CU8 n1, CI16 n2, CI32 n4, CI64 n8, CF32 f4, CF64 n8, CGuid g}"
  shows "\<exists>bs. out = dst @ bs \<and> param_decode env (bs @ rest) = (Ok dat, rest)"
  using assms
  by (auto simp: f64_encode_def scalar_decodes [simplified] guid_decodes dest!: param_scalar [where env = env and rest = rest])

lemma param_untyped_null:
  assumes "ColumnData_encode env None dat dst = (Ok (), out)" "untyped_null dat"
  shows "out = dst @ [FixedLenType_value FNull]"
  using assms
  by (auto simp: untyped_null_def string_encode_def binary_encode_def datetime_encode_def smalldatetime_encode_def date_encode_def
      time_encode_def datetime2_encode_def datetimeoffset_encode_def xml_encode_def numeric_encode_def encode_other_def put_u8_def put_bytes_def)
lemma param_typed_value:
  assumes "ColumnData_encode env None dat dst = (Ok (), out)" "param_ok dat" "\<not> untyped_null dat"
  shows "\<exists>bs. out = dst @ bs \<and> param_decode env (bs @ rest) = (Ok (arrives_as dat), rest)"
proof (cases dat)
  case (CString s)
  with assms show ?thesis using param_string [of _ dst out env rest] by (cases s) (simp_all add: arrives_as_def untyped_null_def string_encode_def param_ok_defs)
next
  case (CBinary b)
  with assms show ?thesis using param_binary [of _ dst out env rest] by (cases b) (simp_all add: arrives_as_def untyped_null_def string_encode_def param_ok_defs)
next
  case (CNumeric n)
  with assms show ?thesis using param_numeric [of _ dst out env rest] by (cases n) (simp_all add: arrives_as_def untyped_null_def string_encode_def param_ok_defs)
next
  case (CXml x)
  with assms show ?thesis using param_xml [of _ dst out env rest] by (cases x) (simp_all add: arrives_as_def untyped_null_def string_encode_def param_ok_defs)
next
  case (CDateTime d)
  with assms show ?thesis using param_datetime(1) [of _ dst out env rest] by (cases d) (simp_all add: arrives_as_def untyped_null_def string_encode_def param_ok_defs)
next
  case (CSmallDateTime d)
  with assms show ?thesis using param_datetime(2) [of _ dst out env rest] by (cases d) (simp_all add: arrives_as_def untyped_null_def string_encode_def param_ok_defs)
next
  case (CTime d)
  with assms show ?thesis using param_time [of _ dst out env rest] by (cases d) (simp_all add: arrives_as_def untyped_null_def string_encode_def param_ok_defs)
next
  case (CDate d)
  with assms show ?thesis using param_date [of _ dst out env rest] by (cases d) (simp_all add: arrives_as_def untyped_null_def string_encode_def param_ok_defs)
next
  case (CDateTime2 d)
  with assms show ?thesis using param_datetime2 [of env _ dst out rest] by (cases d) (simp_all add: arrives_as_def untyped_null_def string_encode_def param_ok_defs)
next
  case (CDateTimeOffset d)
  with assms show ?thesis using param_datetimeoffset [of _ dst out env rest] by (cases d) (simp_all add: arrives_as_def untyped_null_def string_encode_def param_ok_defs)
qed (use param_scalars [OF assms(1,2)] assms(3) in \<open>auto simp: arrives_as_def\<close>)

lemma value_readable:
  assumes "ColumnData_encode env None dat dst = (Ok (), out)" "param_ok dat"
  obtains bs where "out = dst @ bs" "param_decode env (bs @ rest) = (Ok (arrives_as dat), rest)"
proof (cases "untyped_null dat")
  case True
  then show ?thesis using that param_untyped_null [OF assms(1)] untyped_null_decode [of env rest] by (simp add: arrives_as_def)
qed (use that param_typed_value [OF assms] in blast)

text \<open>C18: A value sent as an RPC parameter describes itself. For every value the encoder accepts whose text or binary data is at most \<open>2 ^ 31 - 1\<close> bytes long,
  the bytes written for it are a type description followed by the value, and decoding the description and then a value
  of that type returns the value that was sent and stops exactly at its end, whatever follows. A null of a type that is not
  nullable on its own arrives as the untyped null, and XML without the schema it was bound to. There are two exceptions: an empty XML document is
  read back, but four zero bytes of it are left in front of what follows; and a decimal of more than 38 digits (a magnitude of
  \<open>10 ^ 38\<close> or more, or 38 decimal places) is announced with a precision that the reader refuses with an error.\<close>

theorem param_self_describing:
  assumes "ColumnData_encode env None dat dst = (Ok (), out)" "typed_value dat" "value_bytes dat \<le> MAX_PLP_SIZE"
  shows "\<exists>bs. out = dst @ bs \<and>
     (if wide_decimal dat then \<exists>p sc. fst (param_decode env (bs @ rest)) = Err (Protocol (ValueMsg (InvalidPrecision p sc)))
      else param_decode env (bs @ rest) = (Ok (arrives_as dat), if empty_xml dat then [0, 0, 0, 0] @ rest else rest))"
proof -
  have "wide_decimal dat \<Longrightarrow> \<exists>n. dat = CNumeric (Some n)" "empty_xml dat \<Longrightarrow> \<exists>x. dat = CXml (Some x) \<and> xml_data x = []"
    by (simp_all add: wide_decimal_def empty_xml_def split: ColumnData.splits option.splits)
  then consider n where "dat = CNumeric (Some n)" "wide_decimal dat" | x where "dat = CXml (Some x)" "xml_data x = []"
    | "\<not> wide_decimal dat" "\<not> empty_xml dat" by blast
  then show ?thesis
  proof cases
    case 1
    then show ?thesis using wide_decimal_refused [of n dst out env rest] assms by (auto simp: typed_value_def)
  next
    case 2
    then show ?thesis using xml_empty_desync [of x dst out env rest] assms(1)
      by (auto simp: arrives_as_def untyped_null_def empty_xml_def wide_decimal_def)
  next
    case 3
    then have "param_ok dat" using assms(2,3) by (simp add: param_ok_def)
    obtain bs where "out = dst @ bs" "param_decode env (bs @ rest) = (Ok (arrives_as dat), rest)"
      by (rule value_readable [OF assms(1) \<open>param_ok dat\<close>])
    then show ?thesis using 3 by simp
  qed
qed

theorem param_self_describing_witness:
  "(\<exists>bs. ColumnData_encode strict_env None (CString (Some [0x1F600, 65])) [7] = (Ok (), [7] @ bs) \<and>
     param_decode strict_env (bs @ [1, 2]) = (Ok (CString (Some [0x1F600, 65])), [1, 2])) \<and>
   (\<exists>bs. ColumnData_encode strict_env None (CXml (Some (XmlData_new []))) [7] = (Ok (), [7] @ bs) \<and>
     param_decode strict_env (bs @ [1, 2]) = (Ok (CXml (Some (XmlData_new []))), [0, 0, 0, 0, 1, 2]))"
proof -
  let ?s = "CString (Some [0x1F600, 65])" and ?x = "CXml (Some (XmlData_new []))"
  have ok: "typed_value ?s" "value_bytes ?s \<le> MAX_PLP_SIZE" "typed_value ?x" "value_bytes ?x \<le> MAX_PLP_SIZE"
    by (simp_all add: param_ok_defs valid_char_def length_utf16_bytes MAX_PLP_SIZE_def utf16_char_def XmlData_new_def utf16_bytes_def)
  have "length (as_bytes [0x1F600, 65]) = 5" by (simp add: as_bytes_def utf8_char_def)
  then obtain out where enc: "ColumnData_encode strict_env None ?s [7] = (Ok (), out)"
    by (simp add: string_encode_def string_encode_untyped_def wire_simps)
  obtain out' where enc': "ColumnData_encode strict_env None ?x [7] = (Ok (), out')"
    by (simp add: xml_encode_def XmlData_encode_def XmlData_new_def wire_simps)
  from param_self_describing [OF enc ok(1,2), of "[1, 2]"] enc param_self_describing [OF enc' ok(3,4), of "[1, 2]"] enc'
  show ?thesis by (auto simp: arrives_as_def untyped_null_def empty_xml_def wide_decimal_def XmlData_new_def)
qed

text \<open>C20: Whatever column type the server describes and whatever bytes follow, decoding a
  value of that type ends with a value or with an error. It never panics and never fails
  to return, it only takes bytes from the front of the stream, and a value it has read is
  the value it reads when more data arrives behind it.\<close>

theorem column_decode_safe:
  assumes "TypeInfo_decode meta = (Ok ti, meta')" "ColumnData_decode env ti buf = (r, buf')"
  shows "r \<noteq> Panic \<and> r \<noteq> Diverge \<and> suffix buf' buf \<and>
    (\<forall>v. r = Ok v \<longrightarrow> ColumnData_decode env ti (buf @ rest) = (Ok v, buf' @ rest))"
proof -
  have safe: "safe (ColumnData_decode env ti)" using safe_ColumnData TypeInfo_decode_wf assms(1) by blast
  have read: "reader (ColumnData_decode env ti)" by (rule reader_intros)
  have "returns r" using safe assms(2) by (metis fst_conv safe_def)
  moreover have "suffix buf' buf" using reader_suffix [OF read assms(2)] .
  moreover have "ColumnData_decode env ti (buf @ rest) = (Ok v, buf' @ rest)" if "r = Ok v" for v
    using read assms(2) that unfolding reader_def by (metis append_assoc)
  ultimately show ?thesis by (simp add: returns_def)
qed

theorem column_decode_safe_witness:
  "(let r = ColumnData_decode strict_env (VarLenSized (VarLenContext_new VIntn 4 None)) [3, 1, 2, 9] in
    fst r = Err (Protocol (ValueMsg (InvalidLength ''intn'' 3))) \<and> fst r \<noteq> Panic \<and> fst r \<noteq> Diverge \<and>
    suffix (snd r) [3, 1, 2, 9])"
proof -
  have ti: "TypeInfo_decode [0x26, 4] = (Ok (VarLenSized (VarLenContext_new VIntn 4 None)), [])"
    by (simp add: TypeInfo_decode_def read_var_len_def read_collation_def VarLenContext_new_def char_type_def
        wire_simps wire_eval type_tag_eval)
  have d: "ColumnData_decode strict_env (VarLenSized (VarLenContext_new VIntn 4 None)) [3, 1, 2, 9] =
      (Err (Protocol (ValueMsg (InvalidLength ''intn'' 3))), [1, 2, 9])"
    by (simp add: var_len_decode_def VarLenContext_new_def int_decode_def wire_simps wire_eval)
  from column_decode_safe [OF ti d] d show ?thesis by (simp add: Let_def)
qed

text \<open>A column of a \<^verbatim>\<open>(max)\<close> type is declared with the length 65535, and the length check of the
  encoder takes that for a limit: a text of 32768 units is refused although the type holds it.\<close>

lemma max_column_limit:
  assumes "vlc_type vlc \<in> {VNVarchar, VNChar}" "vlc_len vlc = 0xffff" "length (encode_utf16 s) > 0x7fff"
  shows "ColumnData_encode env (Some (VarLenSized vlc)) (CString (Some s)) dst =
     (Err (BulkInput (StringLimit (2 * length (encode_utf16 s)) 0xffff)), dst)"
  using assms by (auto simp: string_encode_def string_encode_sized_def length_utf16_bytes wire_simps)

end
