(* ===== verification/Tds_Requests.thy ===== *)
theory Tds_Requests
  imports Tds_Params Tds_Metadata
begin

text \<open>
  The messages a client sends: SQL batches (\<^verbatim>\<open>tds/codec/batch_request.rs\<close>), transaction manager requests
  (\<^verbatim>\<open>tds/codec/transaction_manager.rs\<close>), remote procedure calls (\<^verbatim>\<open>tds/codec/rpc_request.rs\<close>) and table-valued parameters
  (\<^verbatim>\<open>tds/codec/type_info_tvp.rs\<close>). The second part reads the messages back the way a server does.
\<close>

section \<open>Batches\<close>

record BatchRequest =
  br_queries :: rstring
  br_transaction_descriptor :: bytes

definition BatchRequest_new :: "rstring \<Rightarrow> bytes \<Rightarrow> BatchRequest" where
  "BatchRequest_new queries desc = \<lparr>br_queries = queries, br_transaction_descriptor = desc\<rparr>"

definition BatchRequest_encode :: "BatchRequest \<Rightarrow> (bytes, unit) comp" where
  "BatchRequest_encode req =
     thenR (encode_all_headers_tx (br_transaction_descriptor req))
           (eachR (put_le 2) (encode_utf16 (br_queries req)))"

section \<open>Transaction manager requests\<close>

datatype TransactionManagerRequestType = TmGetDtcAddress | TmPropagate | TmBegin | TmPromote | TmCommit | TmRollback | TmSave

fun TransactionManagerRequestType_value :: "TransactionManagerRequestType \<Rightarrow> u16" where
  "TransactionManagerRequestType_value TmGetDtcAddress = 0"
| "TransactionManagerRequestType_value TmPropagate = 1"
| "TransactionManagerRequestType_value TmBegin = 5"
| "TransactionManagerRequestType_value TmPromote = 6"
| "TransactionManagerRequestType_value TmCommit = 7"
| "TransactionManagerRequestType_value TmRollback = 8"
| "TransactionManagerRequestType_value TmSave = 9"

definition TransactionManagerRequestType_variants :: "TransactionManagerRequestType list" where
  "TransactionManagerRequestType_variants = [TmGetDtcAddress, TmPropagate, TmBegin, TmPromote, TmCommit, TmRollback, TmSave]"

interpretation tm_request_type: uint_enum TransactionManagerRequestType_value TransactionManagerRequestType_variants
proof
  show "v \<in> set TransactionManagerRequestType_variants" for v by (cases v) (simp_all add: TransactionManagerRequestType_variants_def)
qed (simp add: TransactionManagerRequestType_variants_def)

datatype IsolationLevel = IsoUnspecified | ReadUncommitted | ReadCommitted | RepeatableRead | Serializable | Snapshot

fun IsolationLevel_value :: "IsolationLevel \<Rightarrow> u8" where
  "IsolationLevel_value IsoUnspecified = 0"
| "IsolationLevel_value ReadUncommitted = 1"
| "IsolationLevel_value ReadCommitted = 2"
| "IsolationLevel_value RepeatableRead = 3"
| "IsolationLevel_value Serializable = 4"
| "IsolationLevel_value Snapshot = 5"

definition IsolationLevel_variants :: "IsolationLevel list" where
  "IsolationLevel_variants = [IsoUnspecified, ReadUncommitted, ReadCommitted, RepeatableRead, Serializable, Snapshot]"

interpretation isolation_level: uint_enum IsolationLevel_value IsolationLevel_variants
proof
  show "v \<in> set IsolationLevel_variants" for v by (cases v) (simp_all add: IsolationLevel_variants_def)
qed (simp add: IsolationLevel_variants_def)

datatype TransactionRequestBody = BodyBegin IsolationLevel rstring | BodyCommit rstring | BodyRollback rstring | BodySave rstring

record TransactionManagerRequest =
  tmr_transaction_desc :: bytes
  tmr_body :: TransactionRequestBody

definition tm_begin :: "bytes \<Rightarrow> IsolationLevel \<Rightarrow> rstring \<Rightarrow> TransactionManagerRequest" where
  "tm_begin desc level name = \<lparr>tmr_transaction_desc = desc, tmr_body = BodyBegin level name\<rparr>"

definition tm_commit :: "bytes \<Rightarrow> rstring \<Rightarrow> TransactionManagerRequest" where
  "tm_commit desc name = \<lparr>tmr_transaction_desc = desc, tmr_body = BodyCommit name\<rparr>"

definition tm_rollback :: "bytes \<Rightarrow> rstring \<Rightarrow> TransactionManagerRequest" where
  "tm_rollback desc name = \<lparr>tmr_transaction_desc = desc, tmr_body = BodyRollback name\<rparr>"

definition tm_save :: "bytes \<Rightarrow> rstring \<Rightarrow> TransactionManagerRequest" where
  "tm_save desc name = \<lparr>tmr_transaction_desc = desc, tmr_body = BodySave name\<rparr>"

definition request_type :: "TransactionManagerRequest \<Rightarrow> TransactionManagerRequestType" where
  "request_type req = (case tmr_body req of BodyBegin _ _ \<Rightarrow> TmBegin | BodyCommit _ \<Rightarrow> TmCommit | BodyRollback _ \<Rightarrow> TmRollback | BodySave _ \<Rightarrow> TmSave)"

fun TransactionRequestBody_encode :: "TransactionRequestBody \<Rightarrow> (bytes, unit) comp" where
  "TransactionRequestBody_encode (BodyBegin level name) = thenR (put_u8 (IsolationLevel_value level)) (encode_b_varchar name)"
| "TransactionRequestBody_encode (BodyCommit name) = thenR (encode_b_varchar name) (put_u8 0)"
| "TransactionRequestBody_encode (BodyRollback name) = thenR (encode_b_varchar name) (put_u8 0)"
| "TransactionRequestBody_encode (BodySave name) = encode_b_varchar name"

definition TransactionManagerRequest_encode :: "TransactionManagerRequest \<Rightarrow> (bytes, unit) comp" where
  "TransactionManagerRequest_encode req =
     thenR (encode_all_headers_tx (tmr_transaction_desc req))
    (thenR (put_le 2 (TransactionManagerRequestType_value (request_type req)))
           (TransactionRequestBody_encode (tmr_body req)))"

section \<open>Table-valued parameters\<close>

definition TVPTYPE :: u8 where "TVPTYPE = 0xF3"

record TypeInfoTvp =
  tvp_schema_name :: rstring
  tvp_db_type_name :: rstring
  tvp_columns :: "MetaDataColumn list option"
  tvp_data :: "ColumnData list list"

text \<open>\<^verbatim>\<open>split_once('.')\<close>\<close>

definition split_once :: "rchar \<Rightarrow> rstring \<Rightarrow> (rstring \<times> rstring) option" where
  "split_once sep s = (if sep \<in> set s then Some (takeWhile (\<lambda>c. c \<noteq> sep) s, drop 1 (dropWhile (\<lambda>c. c \<noteq> sep) s)) else None)"

definition TypeInfoTvp_new :: "rstring \<Rightarrow> ColumnData list list \<Rightarrow> TypeInfoTvp" where
  "TypeInfoTvp_new type_name rows =
     (case split_once 46 type_name of
        Some (s, t) \<Rightarrow> \<lparr>tvp_schema_name = s, tvp_db_type_name = t, tvp_columns = None, tvp_data = rows\<rparr>
      | None \<Rightarrow> \<lparr>tvp_schema_name = [], tvp_db_type_name = type_name, tvp_columns = None, tvp_data = rows\<rparr>)"

fun fixed_to_var_len :: "FixedLenType \<Rightarrow> TypeInfo option" where
  "fixed_to_var_len FInt1 = Some (VarLenSized (VarLenContext_new VIntn 1 None))"
| "fixed_to_var_len FBit = Some (VarLenSized (VarLenContext_new VBitn 1 None))"
| "fixed_to_var_len FInt2 = Some (VarLenSized (VarLenContext_new VIntn 2 None))"
| "fixed_to_var_len FInt4 = Some (VarLenSized (VarLenContext_new VIntn 4 None))"
| "fixed_to_var_len FDatetime4 = Some (VarLenSized (VarLenContext_new VDatetimen 4 None))"
| "fixed_to_var_len FFloat4 = Some (VarLenSized (VarLenContext_new VFloatn 4 None))"
| "fixed_to_var_len FMoney = Some (VarLenSized (VarLenContext_new VMoney 8 None))"
| "fixed_to_var_len FDatetime = Some (VarLenSized (VarLenContext_new VDatetimen 8 None))"
| "fixed_to_var_len FFloat8 = Some (VarLenSized (VarLenContext_new VFloatn 8 None))"
| "fixed_to_var_len FMoney4 = Some (VarLenSized (VarLenContext_new VMoney 4 None))"
| "fixed_to_var_len FInt8 = Some (VarLenSized (VarLenContext_new VIntn 8 None))"
| "fixed_to_var_len _ = None"

definition widened :: "TypeInfo \<Rightarrow> TypeInfo" where
  "widened ty = (case ty of FixedLen f \<Rightarrow> (case fixed_to_var_len f of Some t \<Rightarrow> t | None \<Rightarrow> ty) | _ \<Rightarrow> ty)"

definition with_metadata :: "MetaDataColumn list \<Rightarrow> TypeInfoTvp \<Rightarrow> TypeInfoTvp" where
  "with_metadata metadata tvp =
     tvp\<lparr>tvp_columns := Some (map (\<lambda>mdc. mdc\<lparr>mdc_base := (mdc_base mdc)\<lparr>bmc_ty := widened (bmc_ty (mdc_base mdc))\<rparr>\<rparr>) metadata)\<rparr>"

text \<open>The cells of a row with their index; \<^verbatim>\<open>metadata[i]\<close> panics out of range.\<close>

definition tvp_cell_encode :: "value_env \<Rightarrow> MetaDataColumn list option \<Rightarrow> nat \<times> ColumnData \<Rightarrow> (bytes, unit) comp" where
  "tvp_cell_encode env columns ic =
     (case columns of
        Some metadata \<Rightarrow> if fst ic < length metadata then ColumnData_encode env (Some (bmc_ty (mdc_base (metadata ! fst ic)))) (snd ic) else panicR
      | None \<Rightarrow> ColumnData_encode env None (snd ic))"

definition tvp_column_encode :: "MetaDataColumn \<Rightarrow> (bytes, unit) comp" where
  "tvp_column_encode col =
     thenR (put_le 4 (0 :: u32)) (thenR (BaseMetaDataColumn_encode (mdc_base col)) (encode_b_varchar []))"

definition TypeInfoTvp_encode :: "value_env \<Rightarrow> TypeInfoTvp \<Rightarrow> (bytes, unit) comp" where
  "TypeInfoTvp_encode env tvp =
     thenR (put_u8 TVPTYPE)
    (thenR (encode_b_varchar [])
    (thenR (encode_b_varchar (tvp_schema_name tvp))
    (thenR (encode_b_varchar (tvp_db_type_name tvp))
    (thenR (case tvp_columns tvp of
              Some columns \<Rightarrow> thenR (put_le 2 (of_nat (length columns) :: u16)) (eachR tvp_column_encode columns)
            | None \<Rightarrow> put_le 2 (0xFFFF :: u16))
    (thenR (put_u8 0)
    (thenR (eachR (\<lambda>row. thenR (put_u8 1) (eachR (tvp_cell_encode env (tvp_columns tvp)) (enumerate 0 row))) (tvp_data tvp))
           (put_u8 0)))))))"

section \<open>Remote procedure calls\<close>

definition RpcStatus_ByRefValue :: u8 where "RpcStatus_ByRefValue = 1"

datatype RpcValue = Scalar ColumnData | Table TypeInfoTvp

record RpcParam =
  rp_name :: rstring
  rp_flags :: u8
  rp_value :: RpcValue

datatype RpcProcId = CursorOpen | CursorFetch | CursorClose | ExecuteSQL | Prepare | ExecuteProc | PrepExec | Unprepare

fun RpcProcId_value :: "RpcProcId \<Rightarrow> u16" where
  "RpcProcId_value CursorOpen = 2"
| "RpcProcId_value CursorFetch = 7"
| "RpcProcId_value CursorClose = 9"
| "RpcProcId_value ExecuteSQL = 10"
| "RpcProcId_value Prepare = 11"
| "RpcProcId_value ExecuteProc = 12"
| "RpcProcId_value PrepExec = 13"
| "RpcProcId_value Unprepare = 15"

datatype RpcProcIdValue = ProcName rstring | ProcId RpcProcId

record TokenRpcRequest =
  rpc_proc_id :: RpcProcIdValue
  rpc_flags :: u16
  rpc_req_params :: "RpcParam list"
  rpc_transaction_desc :: bytes

definition TokenRpcRequest_new :: "RpcProcIdValue \<Rightarrow> RpcParam list \<Rightarrow> bytes \<Rightarrow> TokenRpcRequest" where
  "TokenRpcRequest_new proc_id params desc =
     \<lparr>rpc_proc_id = proc_id, rpc_flags = 0, rpc_req_params = params, rpc_transaction_desc = desc\<rparr>"

definition buf_len :: "(bytes, nat) comp" where
  "buf_len dst = (Ok (length dst), dst)"

definition patch_at :: "nat \<Rightarrow> bytes \<Rightarrow> (bytes, unit) comp" where
  "patch_at pos bs dst = (Ok (), take pos dst @ bs @ drop (pos + length bs) dst)"

fun RpcProcIdValue_encode :: "RpcProcIdValue \<Rightarrow> (bytes, unit) comp" where
  "RpcProcIdValue_encode (ProcId i) = put_le 4 (or 0xffff (push_bit 16 (ucast (RpcProcId_value i))) :: u32)"
| "RpcProcIdValue_encode (ProcName name) =
     (let units = encode_utf16 name in
      if length units > 65535 then errR (Protocol (ClientMsg (RpcNameTooLong (length units))))
      else
        bindR buf_len (\<lambda>len_pos.
        thenR (put_le 2 (0 :: u16))
       (thenR (eachR (put_le 2) units)
              (patch_at len_pos (le_bytes 2 (of_nat (length units) :: u16))))))"

definition RpcParam_encode :: "value_env \<Rightarrow> RpcParam \<Rightarrow> (bytes, unit) comp" where
  "RpcParam_encode env p =
     thenR (encode_b_varchar (rp_name p))
    (thenR (put_u8 (rp_flags p))
           (case rp_value p of Scalar v \<Rightarrow> ColumnData_encode env None v | Table t \<Rightarrow> TypeInfoTvp_encode env t))"

definition TokenRpcRequest_encode :: "value_env \<Rightarrow> TokenRpcRequest \<Rightarrow> (bytes, unit) comp" where
  "TokenRpcRequest_encode env req =
     thenR (encode_all_headers_tx (rpc_transaction_desc req))
    (thenR (RpcProcIdValue_encode (rpc_proc_id req))
    (thenR (put_le 2 (rpc_flags req))
           (eachR (RpcParam_encode env) (rpc_req_params req))))"

section \<open>The server's side\<close>

text \<open>Reading the messages back. The block of headers must be the one of a transaction.\<close>

definition read_transaction :: "(bytes, bytes) comp" where
  "read_transaction =
     bindR read_u32_le (\<lambda>total_len. bindR read_u32_le (\<lambda>len. bindR read_u16_le (\<lambda>ty.
     bindR (read_n 8) (\<lambda>desc. bindR read_u32_le (\<lambda>outstanding.
     if total_len = 22 \<and> len = 18 \<and> ty = 2 \<and> outstanding = 1 then retR desc else panicR)))))"

definition read_proc :: "(bytes, rstring + u16) comp" where
  "read_proc =
     bindR read_u16_le (\<lambda>n.
     if n = 0xffff then bindR read_u16_le (\<lambda>i. retR (Inr i))
     else bindR (read_utf16_units (unat n)) (\<lambda>units. bindR (ok_or (from_utf16 units) (Io InvalidData)) (\<lambda>s. retR (Inl s))))"

record read_param =
  rd_name :: rstring
  rd_flags :: u8
  rd_value :: ColumnData

definition read_rpc_param :: "value_env \<Rightarrow> (bytes, read_param) comp" where
  "read_rpc_param env =
     bindR read_b_varchar (\<lambda>name. bindR read_u8 (\<lambda>flags. bindR (param_decode env) (\<lambda>v.
     retR \<lparr>rd_name = name, rd_flags = flags, rd_value = v\<rparr>)))"

definition read_rpc :: "value_env \<Rightarrow> nat \<Rightarrow> (bytes, bytes \<times> (rstring + u16) \<times> u16 \<times> read_param list) comp" where
  "read_rpc env n =
     bindR read_transaction (\<lambda>desc. bindR read_proc (\<lambda>proc. bindR read_u16_le (\<lambda>flags. bindR (repeatR n (read_rpc_param env)) (\<lambda>ps.
     retR (desc, proc, flags, ps)))))"

lemma read_transaction_bytes: "length desc = 8 \<Longrightarrow> read_transaction (all_headers_bytes desc @ rest) = (Ok desc, rest)"
  by (simp add: read_transaction_def all_headers_bytes_def wire_simps)

text \<open>The count 65535 is the mark of a procedure number, so that a name of that length is not read as a name.\<close>

fun proc_ok :: "RpcProcIdValue \<Rightarrow> bool" where
  "proc_ok (ProcName s) \<longleftrightarrow> valid_str s \<and> length (encode_utf16 s) < 65535"
| "proc_ok (ProcId i) \<longleftrightarrow> True"

fun proc_bytes :: "RpcProcIdValue \<Rightarrow> bytes" where
  "proc_bytes (ProcName s) = le_bytes 2 (of_nat (length (encode_utf16 s)) :: u16) @ utf16_bytes s"
| "proc_bytes (ProcId i) = le_bytes 2 (0xffff :: u16) @ le_bytes 2 (RpcProcId_value i)"

fun proc_read :: "RpcProcIdValue \<Rightarrow> rstring + u16" where
  "proc_read (ProcName s) = Inl s"
| "proc_read (ProcId i) = Inr (RpcProcId_value i)"

lemma name_encode:
  "length (encode_utf16 s) \<le> 65535 \<Longrightarrow>
     RpcProcIdValue_encode (ProcName s) dst = (Ok (), dst @ le_bytes 2 (of_nat (length (encode_utf16 s)) :: u16) @ utf16_bytes s)"
  by (simp add: Let_def buf_len_def patch_at_def wire_simps utf16_bytes_def)

lemma id_encode: "RpcProcIdValue_encode (ProcId i) dst = (Ok (), dst @ proc_bytes (ProcId i))"
  by (cases i) (simp_all add: wire_simps wire_eval le_bytes_def)

lemma proc_encode: "proc_ok p \<Longrightarrow> RpcProcIdValue_encode p dst = (Ok (), dst @ proc_bytes p)"
  using name_encode id_encode by (cases p) simp_all

lemma proc_read_back: "proc_ok p \<Longrightarrow> read_proc (proc_bytes p @ rest) = (Ok (proc_read p), rest)"
proof (cases p)
  case (ProcName s)
  assume "proc_ok p"
  then have l: "length (encode_utf16 s) < 65535" "valid_str s" using ProcName by simp_all
  then have "unat (of_nat (length (encode_utf16 s)) :: u16) = length (encode_utf16 s)" by (simp add: unat_of_nat)
  moreover from this have "(of_nat (length (encode_utf16 s)) :: u16) \<noteq> 0xffff" using l by (auto dest: arg_cong [where f = unat])
  ultimately show ?thesis using ProcName l by (simp add: read_proc_def wire_simps ok_or_def)
qed (simp add: read_proc_def wire_simps)

text \<open>A parameter as the server sees it.\<close>

definition sent_as :: "RpcParam \<Rightarrow> read_param \<Rightarrow> bool" where
  "sent_as p q \<longleftrightarrow> rd_name q = rp_name p \<and> rd_flags q = rp_flags p \<and>
     (\<exists>v. rp_value p = Scalar v \<and> rd_value q = arrives_as v)"

definition rpc_param_ok :: "RpcParam \<Rightarrow> bool" where
  "rpc_param_ok p \<longleftrightarrow> valid_str (rp_name p) \<and> (case rp_value p of Scalar v \<Rightarrow> param_ok v | Table _ \<Rightarrow> False)"

lemma b_varchar_Ok: "encode_b_varchar s dst = (Ok (), out) \<Longrightarrow> valid_str s \<Longrightarrow> b_varchar_ok s \<and> out = dst @ b_varchar_bytes s"
  using b_varchar.enc_wire [of s dst] b_varchar_too_long [of s dst] by (cases "length (encode_utf16 s) \<le> 255") (simp_all add: b_varchar_ok_def)

lemma param_readable:
  assumes "RpcParam_encode env p dst = (Ok (), out)" "rpc_param_ok p"
  obtains bs q where "out = dst @ bs" "read_rpc_param env (bs @ rest) = (Ok q, rest)" "sent_as p q"
proof -
  obtain v where v: "rp_value p = Scalar v" "param_ok v" "valid_str (rp_name p)" using assms(2) by (auto simp: rpc_param_ok_def split: RpcValue.splits)
  obtain d1 where d1: "encode_b_varchar (rp_name p) dst = (Ok (), d1)" and e: "ColumnData_encode env None v (d1 @ [rp_flags p]) = (Ok (), out)"
    using assms(1) v(1) by (auto simp: RpcParam_encode_def thenR_def bindR_eq_Ok put_u8_def put_bytes_def)
  from b_varchar_Ok [OF d1 v(3)] have n: "b_varchar_ok (rp_name p)" "d1 = dst @ b_varchar_bytes (rp_name p)" by auto
  from value_readable [OF e v(2), of rest] obtain bs where w: "out = (d1 @ [rp_flags p]) @ bs" "param_decode env (bs @ rest) = (Ok (arrives_as v), rest)" by blast
  show thesis
  proof
    show "out = dst @ (b_varchar_bytes (rp_name p) @ rp_flags p # bs)" using w(1) n(2) by simp
    show "read_rpc_param env ((b_varchar_bytes (rp_name p) @ rp_flags p # bs) @ rest) =
        (Ok \<lparr>rd_name = rp_name p, rd_flags = rp_flags p, rd_value = arrives_as v\<rparr>, rest)"
      using b_varchar.dec_wire [OF n(1), of "rp_flags p # bs @ rest"] w(2) by (simp add: read_rpc_param_def wire_simps)
    show "sent_as p \<lparr>rd_name = rp_name p, rd_flags = rp_flags p, rd_value = arrives_as v\<rparr>" using v(1) by (simp add: sent_as_def)
  qed
qed

lemma params_readable:
  "eachR (RpcParam_encode env) ps dst = (Ok (), out) \<Longrightarrow> \<forall>p\<in>set ps. rpc_param_ok p \<Longrightarrow>
     \<exists>bs qs. out = dst @ bs \<and> repeatR (length ps) (read_rpc_param env) (bs @ rest) = (Ok qs, rest) \<and> list_all2 sent_as ps qs"
proof (induction ps arbitrary: dst)
  case Nil
  then show ?case by (auto simp: retR_def)
next
  case (Cons p ps)
  obtain d1 where d1: "RpcParam_encode env p dst = (Ok (), d1)" "eachR (RpcParam_encode env) ps d1 = (Ok (), out)"
    using Cons.prems(1) by (auto simp: thenR_def bindR_eq_Ok)
  from Cons.IH [OF d1(2)] Cons.prems(2) obtain bs qs where
    r: "out = d1 @ bs" "repeatR (length ps) (read_rpc_param env) (bs @ rest) = (Ok qs, rest)" "list_all2 sent_as ps qs" by auto
  obtain b1 q where q: "d1 = dst @ b1" "read_rpc_param env (b1 @ bs @ rest) = (Ok q, bs @ rest)" "sent_as p q"
    using param_readable [OF d1(1), of "bs @ rest"] Cons.prems(2) by auto
  then have "repeatR (length (p # ps)) (read_rpc_param env) ((b1 @ bs) @ rest) = (Ok (q # qs), rest)" using r(2) by (simp add: bindR_def retR_def)
  then show ?case using q(1,3) r(1,3) by (intro exI [of _ "b1 @ bs"] exI [of _ "q # qs"]) simp
qed

lemma rpc_readable:
  assumes "TokenRpcRequest_encode env req [] = (Ok (), out)"
    and "length (rpc_transaction_desc req) = 8" "proc_ok (rpc_proc_id req)" "\<forall>p\<in>set (rpc_req_params req). rpc_param_ok p"
  shows "\<exists>qs. read_rpc env (length (rpc_req_params req)) out =
       (Ok (rpc_transaction_desc req, proc_read (rpc_proc_id req), rpc_flags req, qs), []) \<and> list_all2 sent_as (rpc_req_params req) qs"
proof -
  let ?pre = "all_headers_bytes (rpc_transaction_desc req) @ proc_bytes (rpc_proc_id req) @ le_bytes 2 (rpc_flags req)"
  have "eachR (RpcParam_encode env) (rpc_req_params req) ?pre = (Ok (), out)"
    using assms(1) proc_encode [OF assms(3)]
    by (simp add: TokenRpcRequest_encode_def thenR_def bindR_def encode_all_headers_tx_eq put_le_def put_bytes_def)
  from params_readable [OF this assms(4), of "[]"] obtain bs qs where
    b: "out = ?pre @ bs" "repeatR (length (rpc_req_params req)) (read_rpc_param env) bs = (Ok qs, [])" "list_all2 sent_as (rpc_req_params req) qs" by auto
  have "read_u16_le (le_bytes 2 (rpc_flags req) @ bs) = (Ok (rpc_flags req), bs)" by (simp add: wire_simps)
  then show ?thesis
    using b read_transaction_bytes [OF assms(2), of "proc_bytes (rpc_proc_id req) @ le_bytes 2 (rpc_flags req) @ bs"]
      proc_read_back [OF assms(3), of "le_bytes 2 (rpc_flags req) @ bs"]
    by (simp add: read_rpc_def bindR_def retR_def)
qed

lemma batch_bytes:
  "BatchRequest_encode req dst = (Ok (), dst @ all_headers_bytes (br_transaction_descriptor req) @ utf16_bytes (br_queries req))"
  by (simp add: BatchRequest_encode_def wire_simps utf16_bytes_def)

text \<open>Transaction manager requests: the names of the transactions, the level, and the flag that asks for a new transaction.\<close>

definition read_tm :: "(bytes, bytes \<times> TransactionRequestBody) comp" where
  "read_tm =
     bindR read_transaction (\<lambda>desc. bindR read_u16_le (\<lambda>ty.
     if ty = 5 then
       bindR read_u8 (\<lambda>lvl. bindR read_b_varchar (\<lambda>name.
         (case uint_enum_try_from IsolationLevel_value IsolationLevel_variants lvl of Some l \<Rightarrow> retR (desc, BodyBegin l name) | None \<Rightarrow> panicR)))
     else if ty = 7 then bindR read_b_varchar (\<lambda>name. bindR read_u8 (\<lambda>flags. if flags = 0 then retR (desc, BodyCommit name) else panicR))
     else if ty = 8 then bindR read_b_varchar (\<lambda>name. bindR read_u8 (\<lambda>flags. if flags = 0 then retR (desc, BodyRollback name) else panicR))
     else if ty = 9 then bindR read_b_varchar (\<lambda>name. retR (desc, BodySave name))
     else panicR))"

fun body_name :: "TransactionRequestBody \<Rightarrow> rstring" where
  "body_name (BodyBegin _ s) = s" | "body_name (BodyCommit s) = s" | "body_name (BodyRollback s) = s" | "body_name (BodySave s) = s"

lemma tm_readable:
  assumes "length (tmr_transaction_desc req) = 8" "b_varchar_ok (body_name (tmr_body req))"
  shows "\<exists>out. TransactionManagerRequest_encode req [] = (Ok (), out) \<and> read_tm out = (Ok (tmr_transaction_desc req, tmr_body req), [])"
proof -
  have lvl: "uint_enum_try_from IsolationLevel_value IsolationLevel_variants (IsolationLevel_value l) = Some l" for l
    by (rule isolation_level.try_from_val)
  note d = read_transaction_bytes [OF assms(1)]
  have bv: "read_b_varchar (b_varchar_bytes s) = (Ok s, [])" if "b_varchar_ok s" for s
    using b_varchar.dec_wire [OF that, of "[]"] by simp
  show ?thesis
    using assms(2) d lvl
    by (cases "tmr_body req")
      (simp_all add: TransactionManagerRequest_encode_def read_tm_def request_type_def bv wire_simps)
qed

section \<open>Limits of the encoders\<close>

text \<open>A procedure name of 65535 units is accepted, and read as a procedure number.\<close>

lemma rpc_name_collides:
  assumes "length (encode_utf16 s) = 65535"
  shows "\<exists>out. RpcProcIdValue_encode (ProcName s) [] = (Ok (), out) \<and> (\<forall>s'. fst (read_proc out) \<noteq> Ok (Inl s'))"
proof -
  let ?out = "le_bytes 2 (0xffff :: u16) @ utf16_bytes s"
  have "RpcProcIdValue_encode (ProcName s) [] = (Ok (), ?out)" using name_encode [of s "[]"] assms by simp
  moreover have "fst (read_proc ?out) \<noteq> Ok (Inl s')" for s'
    by (simp add: read_proc_def wire_simps bindR_def retR_def split: prod.split res.split)
  ultimately show ?thesis by blast
qed

text \<open>A row with more cells than the table type has columns panics the encoder.\<close>

lemma tvp_long_row_panics:
  assumes "ColumnData_encode env (Some (bmc_ty (mdc_base col))) v [TVPTYPE, 0, 0, 0, 1, 0] = (Ok (), out)"
  shows "fst (eachR (tvp_cell_encode env (Some [col])) (enumerate 0 [v, w]) [TVPTYPE, 0, 0, 0, 1, 0]) = Panic"
  using assms by (simp add: tvp_cell_encode_def thenR_def bindR_def panicR_def)

end
