(* ===== verification/Tds_Query.thy ===== *)
theory Tds_Query
  imports Tds_Responses Tds_Row
begin

text \<open>
  The streams a caller reads a response from (\<^verbatim>\<open>tds/stream/query.rs\<close>, \<^verbatim>\<open>tds/stream/command.rs\<close>,
  \<^verbatim>\<open>result.rs\<close>): tokens are turned into rows and result set headers, collected by result set. The tokens come through
  \<^verbatim>\<open>peekable\<close>, which holds back one item, over \<^verbatim>\<open>try_unfold\<close>, which has nothing more to give after
  an error or the end. An item is a token or an error.
\<close>

section \<open>Tokens with a look ahead\<close>

record Tokens =
  tk_stream :: TokenStream
  tk_ended :: bool
  tk_peeked :: "(error + ReceivedToken) option"

definition Tokens_new :: "TokenStream \<Rightarrow> Tokens" where
  "Tokens_new ts = \<lparr>tk_stream = ts, tk_ended = False, tk_peeked = None\<rparr>"

text \<open>\<^verbatim>\<open>poll_next\<close> of the unfolded stream.\<close>

definition unfold_next :: "value_env \<Rightarrow> (Tokens, (error + ReceivedToken) option) comp" where
  "unfold_next env tk =
     (if tk_ended tk then (Ok None, tk)
      else case receive env (tk_stream tk) of
        (Ok (Some tok), ts) \<Rightarrow> (Ok (Some (Inr tok)), tk\<lparr>tk_stream := ts\<rparr>)
      | (Ok None, ts) \<Rightarrow> (Ok None, tk\<lparr>tk_stream := ts, tk_ended := True\<rparr>)
      | (Err e, ts) \<Rightarrow> (Ok (Some (Inl e)), tk\<lparr>tk_stream := ts, tk_ended := True\<rparr>)
      | (Panic, ts) \<Rightarrow> (Panic, tk\<lparr>tk_stream := ts\<rparr>)
      | (Diverge, ts) \<Rightarrow> (Diverge, tk\<lparr>tk_stream := ts\<rparr>))"

definition next_token :: "value_env \<Rightarrow> (Tokens, (error + ReceivedToken) option) comp" where
  "next_token env tk =
     (case tk_peeked tk of Some item \<Rightarrow> (Ok (Some item), tk\<lparr>tk_peeked := None\<rparr>) | None \<Rightarrow> unfold_next env tk)"

definition peek_token :: "value_env \<Rightarrow> (Tokens, (error + ReceivedToken) option) comp" where
  "peek_token env tk =
     (case tk_peeked tk of
        Some item \<Rightarrow> (Ok (Some item), tk)
      | None \<Rightarrow>
          (case unfold_next env tk of
             (Ok (Some item), tk') \<Rightarrow> (Ok (Some item), tk'\<lparr>tk_peeked := Some item\<rparr>)
           | (Ok None, tk') \<Rightarrow> (Ok None, tk')
           | (Err e, tk') \<Rightarrow> (Err e, tk')
           | (Panic, tk') \<Rightarrow> (Panic, tk')
           | (Diverge, tk') \<Rightarrow> (Diverge, tk')))"

text \<open>An item that is an error ends the function with it, \<^verbatim>\<open>transpose()?\<close> and \<^verbatim>\<open>try_next().await?\<close>.\<close>

definition transpose_item :: "('s, (error + 'a) option) comp \<Rightarrow> ('s, 'a option) comp" where
  "transpose_item m =
     bindR m (\<lambda>item. case item of None \<Rightarrow> retR None | Some (Inl e) \<Rightarrow> errR e | Some (Inr x) \<Rightarrow> retR (Some x))"

text \<open>What is left to read: bytes, the end, and the item held back. Every round of a loop makes it smaller.\<close>

definition tokens_left :: "Tokens \<Rightarrow> nat" where
  "tokens_left tk =
     (if tk_ended tk then 0 else Suc (length (ts_stream (tk_stream tk)))) + (if tk_peeked tk = None then 0 else 1)"

section \<open>Query streams\<close>

record QueryStream =
  qs_tokens :: Tokens
  qs_columns :: "Column list option"
  qs_result_set_index :: "nat option"

definition QueryStream_new :: "TokenStream \<Rightarrow> QueryStream" where
  "QueryStream_new ts = \<lparr>qs_tokens = Tokens_new ts, qs_columns = None, qs_result_set_index = None\<rparr>"

definition on_qs_tokens :: "(Tokens, 'a) comp \<Rightarrow> (QueryStream, 'a) comp" where
  "on_qs_tokens m qs = (case m (qs_tokens qs) of (r, tk) \<Rightarrow> (r, qs\<lparr>qs_tokens := tk\<rparr>))"

record ResultMetadata =
  rm_columns :: "Column list"
  rm_result_index :: nat

datatype QueryItem = QRow Row | QMetadata ResultMetadata

fun as_row :: "QueryItem \<Rightarrow> Row option" where
  "as_row (QRow row) = Some row" | "as_row (QMetadata _) = None"

fun as_metadata :: "QueryItem \<Rightarrow> ResultMetadata option" where
  "as_metadata (QRow _) = None" | "as_metadata (QMetadata m) = Some m"

text \<open>A loop that looks at the next token and takes it as long as the body says so.\<close>

function peek_loop :: "value_env \<Rightarrow> (ReceivedToken \<Rightarrow> QueryStream \<Rightarrow> QueryStream option) \<Rightarrow> (QueryStream, unit) comp" where
  "peek_loop env stop qs =
     (case on_qs_tokens (transpose_item (peek_token env)) qs of
        (Ok None, qs1) \<Rightarrow> (Ok (), qs1)
      | (Ok (Some tok), qs1) \<Rightarrow>
          (case stop tok qs1 of
             Some qs2 \<Rightarrow> (Ok (), qs2)
           | None \<Rightarrow>
               (case on_qs_tokens (transpose_item (next_token env)) qs1 of
                  (Ok _, qs2) \<Rightarrow> if tokens_left (qs_tokens qs2) < tokens_left (qs_tokens qs) then peek_loop env stop qs2 else (Diverge, qs2)
                | (Err e, qs2) \<Rightarrow> (Err e, qs2) | (Panic, qs2) \<Rightarrow> (Panic, qs2) | (Diverge, qs2) \<Rightarrow> (Diverge, qs2)))
      | (Err e, qs1) \<Rightarrow> (Err e, qs1) | (Panic, qs1) \<Rightarrow> (Panic, qs1) | (Diverge, qs1) \<Rightarrow> (Diverge, qs1))"
  by pat_completeness auto
termination
  by (relation "measure (\<lambda>(_, _, qs). tokens_left (qs_tokens qs))") auto

declare peek_loop.simps [simp del]

fun at_metadata :: "ReceivedToken \<Rightarrow> QueryStream \<Rightarrow> QueryStream option" where
  "at_metadata (NewResultset _) qs = Some qs"
| "at_metadata _ qs = None"

definition forward_to_metadata :: "value_env \<Rightarrow> (QueryStream, unit) comp" where
  "forward_to_metadata env = peek_loop env at_metadata"

fun at_columns :: "ReceivedToken \<Rightarrow> QueryStream \<Rightarrow> QueryStream option" where
  "at_columns (NewResultset metadata) qs = Some (qs\<lparr>qs_columns := Some (meta_columns metadata)\<rparr>)"
| "at_columns (RowToken _) qs = Some qs"
| "at_columns _ qs = None"

definition query_columns :: "value_env \<Rightarrow> (QueryStream, Column list option) comp" where
  "query_columns env = thenR (peek_loop env at_columns) (\<lambda>qs. (Ok (qs_columns qs), qs))"

text \<open>\<^verbatim>\<open>poll_next\<close>: what a token becomes, or \<open>None\<close> for a token that is passed over. The arms for rows and headers are the same in
  both streams. An index of type \<^verbatim>\<open>usize\<close> counts tokens that were received and cannot overflow.\<close>

definition header_item :: "TokenColMetaData \<Rightarrow> QueryStream \<Rightarrow> ResultMetadata \<times> QueryStream" where
  "header_item meta qs =
     (let cols = meta_columns meta; idx = (case qs_result_set_index qs of None \<Rightarrow> 0 | Some i \<Rightarrow> i + 1) in
      (\<lparr>rm_columns = cols, rm_result_index = idx\<rparr>, qs\<lparr>qs_columns := Some cols, qs_result_set_index := Some idx\<rparr>))"

definition row_item :: "TokenRow \<Rightarrow> QueryStream \<Rightarrow> error + Row" where
  "row_item d qs =
     (case qs_columns qs of
        None \<Rightarrow> Inl (Protocol (ClientMsg RowWithoutColumns))
      | Some columns \<Rightarrow>
          Inr \<lparr>row_columns = columns, row_data = d,
               row_result_index = (case qs_result_set_index qs of None \<Rightarrow> 0 | Some i \<Rightarrow> i)\<rparr>)"

fun query_item :: "ReceivedToken \<Rightarrow> QueryStream \<Rightarrow> (error + QueryItem) option \<times> QueryStream" where
  "query_item (NewResultset meta) qs = (case header_item meta qs of (m, qs') \<Rightarrow> (Some (Inr (QMetadata m)), qs'))"
| "query_item (RowToken d) qs = (Some (map_sum id QRow (row_item d qs)), qs)"
| "query_item _ qs = (None, qs)"

function poll_item :: "value_env \<Rightarrow> (ReceivedToken \<Rightarrow> QueryStream \<Rightarrow> (error + 'i) option \<times> QueryStream) \<Rightarrow> (QueryStream, (error + 'i) option) comp" where
  "poll_item env f qs =
     (case on_qs_tokens (next_token env) qs of
        (Ok None, qs1) \<Rightarrow> (Ok None, qs1)
      | (Ok (Some (Inl e)), qs1) \<Rightarrow> (Ok (Some (Inl e)), qs1)
      | (Ok (Some (Inr tok)), qs1) \<Rightarrow>
          (case f tok qs1 of
             (Some item, qs2) \<Rightarrow> (Ok (Some item), qs2)
           | (None, qs2) \<Rightarrow> if tokens_left (qs_tokens qs2) < tokens_left (qs_tokens qs) then poll_item env f qs2 else (Diverge, qs2))
      | (Err e, qs1) \<Rightarrow> (Err e, qs1) | (Panic, qs1) \<Rightarrow> (Panic, qs1) | (Diverge, qs1) \<Rightarrow> (Diverge, qs1))"
  by pat_completeness auto
termination
  by (relation "measure (\<lambda>(_, _, qs). tokens_left (qs_tokens qs))") auto

declare poll_item.simps [simp del]

definition QueryStream_poll_next :: "value_env \<Rightarrow> (QueryStream, (error + QueryItem) option) comp" where
  "QueryStream_poll_next env = poll_item env query_item"

text \<open>\<^verbatim>\<open>while let Some(item) = stream.try_next().await?\<close>.\<close>

function item_loop :: "value_env \<Rightarrow> (ReceivedToken \<Rightarrow> QueryStream \<Rightarrow> (error + 'i) option \<times> QueryStream) \<Rightarrow> ('i \<Rightarrow> 'x \<Rightarrow> 'x) \<Rightarrow> 'x \<Rightarrow> (QueryStream, 'x) comp" where
  "item_loop env f body x qs =
     (case transpose_item (poll_item env f) qs of
        (Ok None, qs1) \<Rightarrow> (Ok x, qs1)
      | (Ok (Some item), qs1) \<Rightarrow>
          if tokens_left (qs_tokens qs1) < tokens_left (qs_tokens qs) then item_loop env f body (body item x) qs1 else (Diverge, qs1)
      | (Err e, qs1) \<Rightarrow> (Err e, qs1) | (Panic, qs1) \<Rightarrow> (Panic, qs1) | (Diverge, qs1) \<Rightarrow> (Diverge, qs1))"
  by pat_completeness auto
termination
  by (relation "measure (\<lambda>(_, _, _, _, qs). tokens_left (qs_tokens qs))") auto

declare item_loop.simps [simp del]

type_synonym collected = "Row list list \<times> Row list option"

definition open_result :: "collected \<Rightarrow> collected" where
  "open_result st = (case st of (results, current) \<Rightarrow>
     (case current of Some previous \<Rightarrow> (results @ [previous], Some []) | None \<Rightarrow> (results, Some [])))"

definition push_row :: "Row \<Rightarrow> collected \<Rightarrow> collected" where
  "push_row row st = (case st of (results, current) \<Rightarrow> (results, Some ((case current of Some rows \<Rightarrow> rows | None \<Rightarrow> []) @ [row])))"

definition close_result :: "collected \<Rightarrow> Row list list" where
  "close_result st = (case st of (results, current) \<Rightarrow> (case current of Some rows \<Rightarrow> results @ [rows] | None \<Rightarrow> results))"

fun collect_item :: "QueryItem \<Rightarrow> collected \<Rightarrow> collected" where
  "collect_item (QMetadata _) st = open_result st"
| "collect_item (QRow row) st = push_row row st"

definition collect_results :: "value_env \<Rightarrow> (QueryStream, Row list list) comp" where
  "collect_results env = bindR (item_loop env query_item collect_item ([], None)) (\<lambda>st. retR (close_result st))"

definition into_results :: "value_env \<Rightarrow> (QueryStream, Row list list) comp" where
  "into_results env = collect_results env"

definition into_first_result :: "value_env \<Rightarrow> (QueryStream, Row list) comp" where
  "into_first_result env = bindR (into_results env) (\<lambda>results. retR (case results of [] \<Rightarrow> [] | rows # _ \<Rightarrow> rows))"

definition into_row :: "value_env \<Rightarrow> (QueryStream, Row option) comp" where
  "into_row env = bindR (into_first_result env) (\<lambda>rows. retR (case rows of [] \<Rightarrow> None | row # _ \<Rightarrow> Some row))"

text \<open>\<^verbatim>\<open>into_row_stream\<close> of both streams: one item of \<^verbatim>\<open>try_filter_map\<close> over the items.\<close>

function row_stream_next ::
  "value_env \<Rightarrow> (ReceivedToken \<Rightarrow> QueryStream \<Rightarrow> (error + 'i) option \<times> QueryStream) \<Rightarrow> ('i \<Rightarrow> Row option) \<Rightarrow> (QueryStream, (error + Row) option) comp" where
  "row_stream_next env f row_of qs =
     (case poll_item env f qs of
        (Ok None, qs1) \<Rightarrow> (Ok None, qs1)
      | (Ok (Some (Inl e)), qs1) \<Rightarrow> (Ok (Some (Inl e)), qs1)
      | (Ok (Some (Inr item)), qs1) \<Rightarrow>
          (case row_of item of
             Some row \<Rightarrow> (Ok (Some (Inr row)), qs1)
           | None \<Rightarrow> if tokens_left (qs_tokens qs1) < tokens_left (qs_tokens qs) then row_stream_next env f row_of qs1 else (Diverge, qs1))
      | (Err e, qs1) \<Rightarrow> (Err e, qs1) | (Panic, qs1) \<Rightarrow> (Panic, qs1) | (Diverge, qs1) \<Rightarrow> (Diverge, qs1))"
  by pat_completeness auto
termination
  by (relation "measure (\<lambda>(_, _, _, qs). tokens_left (qs_tokens qs))") auto

declare row_stream_next.simps [simp del]

definition QueryStream_row_stream :: "value_env \<Rightarrow> (QueryStream, (error + Row) option) comp" where
  "QueryStream_row_stream env = row_stream_next env query_item as_row"

section \<open>Command streams\<close>

text \<open>A command stream has the fields of a query stream; it gives status, output values and counts too.\<close>

record CommandReturnValue =
  crv_name :: rstring
  crv_ord :: u16
  crv_data :: ColumnData

datatype CommandItem = CRow Row | CMetadata ResultMetadata | CReturnStatus u32 | CReturnValue CommandReturnValue | CRowsAffected u64

fun command_item :: "ReceivedToken \<Rightarrow> QueryStream \<Rightarrow> (error + CommandItem) option \<times> QueryStream" where
  "command_item (NewResultset meta) qs = (case header_item meta qs of (m, qs') \<Rightarrow> (Some (Inr (CMetadata m)), qs'))"
| "command_item (RowToken d) qs = (Some (map_sum id CRow (row_item d qs)), qs)"
| "command_item (ReturnStatusToken rs) qs = (Some (Inr (CReturnStatus rs)), qs)"
| "command_item (ReturnValueToken rv) qs =
     (Some (Inr (CReturnValue \<lparr>crv_name = trv_param_name rv, crv_ord = trv_param_ordinal rv, crv_data = trv_value rv\<rparr>)), qs)"
| "command_item (DoneProcToken d) qs = (if TokenDone_is_final d then (None, qs) else (Some (Inr (CRowsAffected (TokenDone_rows d))), qs))"
| "command_item (DoneInProcToken d) qs = (Some (Inr (CRowsAffected (TokenDone_rows d))), qs)"
| "command_item (DoneToken d) qs = (Some (Inr (CRowsAffected (TokenDone_rows d))), qs)"
| "command_item _ qs = (None, qs)"

definition CommandStream_poll_next :: "value_env \<Rightarrow> (QueryStream, (error + CommandItem) option) comp" where
  "CommandStream_poll_next env = poll_item env command_item"

fun command_as_row :: "CommandItem \<Rightarrow> Row option" where
  "command_as_row (CRow row) = Some row"
| "command_as_row _ = None"

fun command_as_metadata :: "CommandItem \<Rightarrow> ResultMetadata option" where
  "command_as_metadata (CMetadata metadata) = Some metadata"
| "command_as_metadata _ = None"

fun as_return_status :: "CommandItem \<Rightarrow> u32 option" where
  "as_return_status (CReturnStatus rs) = Some rs"
| "as_return_status _ = None"

fun as_return_value :: "CommandItem \<Rightarrow> CommandReturnValue option" where
  "as_return_value (CReturnValue rv) = Some rv"
| "as_return_value _ = None"

definition CommandStream_row_stream :: "value_env \<Rightarrow> (QueryStream, (error + Row) option) comp" where
  "CommandStream_row_stream env = row_stream_next env command_item command_as_row"

record CommandResult =
  cr_rows_affected :: "u64 list"
  cr_return_code :: u32
  cr_return_values :: "CommandReturnValue list"
  cr_query_results :: "Row list list"

text \<open>The locals of \<^verbatim>\<open>into_command_result\<close> are the collected rows and a result under construction.\<close>

fun collect_command :: "CommandItem \<Rightarrow> collected \<times> CommandResult \<Rightarrow> collected \<times> CommandResult" where
  "collect_command (CRow row) (st, res) = (push_row row st, res)"
| "collect_command (CMetadata _) (st, res) = (open_result st, res)"
| "collect_command (CReturnStatus rs) (st, res) = (st, res\<lparr>cr_return_code := rs\<rparr>)"
| "collect_command (CReturnValue rv) (st, res) = (st, res\<lparr>cr_return_values := cr_return_values res @ [rv]\<rparr>)"
| "collect_command (CRowsAffected n) (st, res) = (st, res\<lparr>cr_rows_affected := cr_rows_affected res @ [n]\<rparr>)"

definition into_command_result :: "value_env \<Rightarrow> (QueryStream, CommandResult) comp" where
  "into_command_result env =
     bindR (item_loop env command_item collect_command
        (([], None), \<lparr>cr_rows_affected = [], cr_return_code = 0, cr_return_values = [], cr_query_results = []\<rparr>))
       (\<lambda>(st, res). retR (res\<lparr>cr_query_results := close_result st\<rparr>))"

definition try_return_value :: "(ColumnData \<Rightarrow> 'a option res) \<Rightarrow> rstring \<Rightarrow> CommandResult \<Rightarrow> 'a option res" where
  "try_return_value from_sql name res =
     (case find (\<lambda>p. crv_name p = name) (cr_return_values res) of
        None \<Rightarrow> Err (Conversion (lit ''Could not find return value '' @ name))
      | Some p \<Rightarrow> from_sql (crv_data p))"

definition to_query_result :: "nat \<Rightarrow> CommandResult \<Rightarrow> Row list option" where
  "to_query_result i res = (if i < length (cr_query_results res) then Some (cr_query_results res ! i) else None)"

section \<open>Row counts\<close>

fun execute_body :: "u64 list \<Rightarrow> ReceivedToken option \<Rightarrow> u64 list + u64 list res" where
  "execute_body rows None = Inr (Ok rows)"
| "execute_body rows (Some (DoneProcToken d)) = Inl (if TokenDone_is_final d then rows else rows @ [TokenDone_rows d])"
| "execute_body rows (Some (DoneInProcToken d)) = Inl (rows @ [TokenDone_rows d])"
| "execute_body rows (Some (DoneToken d)) = Inl (rows @ [TokenDone_rows d])"
| "execute_body rows (Some _) = Inl rows"

definition ExecuteResult_new :: "value_env \<Rightarrow> (TokenStream, u64 list) comp" where
  "ExecuteResult_new env = token_loop env execute_body []"

text \<open>\<^verbatim>\<open>iter().sum()\<close>, with the overflow check of a debug build.\<close>

fun sum_u64 :: "nat \<Rightarrow> u64 list \<Rightarrow> u64 res" where
  "sum_u64 acc [] = Ok (of_nat acc)"
| "sum_u64 acc (n # ns) = (if acc + unat n < 2 ^ 64 then sum_u64 (acc + unat n) ns else Panic)"

definition ExecuteResult_total :: "u64 list \<Rightarrow> u64 res" where
  "ExecuteResult_total rows = sum_u64 0 rows"

section \<open>What the tokens give\<close>

definition tokens_ok :: "Tokens \<Rightarrow> bool" where
  "tokens_ok tk \<longleftrightarrow> ts_ok (tk_stream tk)"

lemma unfold_next_ok:
  assumes "tokens_ok tk" "unfold_next env tk = (r, tk')"
  shows "tokens_ok tk'" "\<exists>item. r = Ok item" "tk_peeked tk' = tk_peeked tk"
    "tokens_left tk' \<le> tokens_left tk" "r = Ok (Some item) \<Longrightarrow> tokens_left tk' < tokens_left tk"
    "r = Ok None \<Longrightarrow> unfold_next env tk' = (Ok None, tk')"
proof -
  show "tokens_ok tk'" "\<exists>item. r = Ok item" "tk_peeked tk' = tk_peeked tk"
    "tokens_left tk' \<le> tokens_left tk" "r = Ok (Some item) \<Longrightarrow> tokens_left tk' < tokens_left tk"
    "r = Ok None \<Longrightarrow> unfold_next env tk' = (Ok None, tk')"
    using assms token_op_unary [OF op_receive, of "tk_stream tk" env] receive_shorter [of "tk_stream tk" env]
    by (auto simp: unfold_next_def tokens_ok_def tokens_left_def split: if_splits prod.splits res.splits option.splits)
qed

lemma next_token_ok:
  assumes "tokens_ok tk" "next_token env tk = (r, tk')"
  shows "tokens_ok tk'" "\<exists>item. r = Ok item" "r = Ok (Some item) \<Longrightarrow> tokens_left tk' < tokens_left tk"
    "tk_peeked tk' = None" "r = Ok None \<Longrightarrow> next_token env tk' = (Ok None, tk')"
  using assms unfold_next_ok [OF assms(1), of env r tk']
  by (auto simp: next_token_def tokens_ok_def tokens_left_def split: option.splits)

inductive feeds :: "value_env \<Rightarrow> Tokens \<Rightarrow> ReceivedToken list \<Rightarrow> error option \<Rightarrow> bool" for env where
  feeds_end: "next_token env tk = (Ok None, tk') \<Longrightarrow> feeds env tk [] None"
| feeds_error: "next_token env tk = (Ok (Some (Inl e)), tk') \<Longrightarrow> feeds env tk [] (Some e)"
| feeds_token: "next_token env tk = (Ok (Some (Inr tok)), tk') \<Longrightarrow> feeds env tk' toks fin \<Longrightarrow> feeds env tk (tok # toks) fin"

text \<open>Every stream gives some tokens and then ends or fails.\<close>

lemma feeds_total: "tokens_ok tk \<Longrightarrow> \<exists>toks fin. feeds env tk toks fin"
proof (induction "tokens_left tk" arbitrary: tk rule: less_induct)
  case less
  obtain r tk' where n: "next_token env tk = (r, tk')" by (cases "next_token env tk") auto
  note ok = next_token_ok [OF less(2) n]
  obtain item where r: "r = Ok item" using ok(2) by blast
  show ?case
  proof (cases item)
    case None
    then show ?thesis using n r by (auto intro: feeds_end)
  next
    case (Some i)
    then have lt: "tokens_left tk' < tokens_left tk" using ok(3) r by simp
    show ?thesis
    proof (cases i)
      case (Inl e)
      then show ?thesis using n r Some by (auto intro: feeds_error)
    next
      case (Inr tok)
      obtain toks fin where "feeds env tk' toks fin" using less(1) [OF lt ok(1)] by blast
      then show ?thesis using n r Some Inr by (auto intro: feeds_token)
    qed
  qed
qed

text \<open>Those of the token stream, when nothing was read ahead.\<close>

lemma feeds_emits:
  assumes "emits env ts toks ts'" "receive env ts' = (r, ts'')" "r = Ok None \<and> fin = None \<or> r = Err e \<and> fin = Some e"
  shows "feeds env (Tokens_new ts) toks fin"
  using assms
proof (induction rule: emits.induct)
  case (emits_nil ts)
  then show ?case by (auto simp: next_token_def unfold_next_def Tokens_new_def intro!: feeds.intros)
next
  case (emits_cons ts tok ts1 toks ts')
  then have "next_token env (Tokens_new ts) = (Ok (Some (Inr tok)), Tokens_new ts1)"
    by (simp add: next_token_def unfold_next_def Tokens_new_def)
  with emits_cons show ?case by (auto intro: feeds_token)
qed

text \<open>Looking ahead changes nothing.\<close>

lemma peek_token_ok:
  assumes "tokens_ok tk" "peek_token env tk = (r, tk')"
  shows "tokens_ok tk'" "\<exists>item. r = Ok item" "r = Ok (Some item) \<Longrightarrow> tk_peeked tk' = Some item"
    "r = Ok (Some item) \<Longrightarrow> next_token env tk = (Ok (Some item), tk'\<lparr>tk_peeked := None\<rparr>)"
    "r = Ok None \<Longrightarrow> next_token env tk = (Ok None, tk') \<and> next_token env tk' = (Ok None, tk')"
proof -
  obtain q tk1 where u: "unfold_next env tk = (q, tk1)" by (cases "unfold_next env tk") auto
  note ok = unfold_next_ok [OF assms(1) u]
  show "tokens_ok tk'" "\<exists>item. r = Ok item" "r = Ok (Some item) \<Longrightarrow> tk_peeked tk' = Some item"
    "r = Ok (Some item) \<Longrightarrow> next_token env tk = (Ok (Some item), tk'\<lparr>tk_peeked := None\<rparr>)"
    "r = Ok None \<Longrightarrow> next_token env tk = (Ok None, tk') \<and> next_token env tk' = (Ok None, tk')"
    using assms u ok by (auto simp: peek_token_def next_token_def tokens_ok_def split: option.splits)
qed

lemma feeds_peek:
  assumes "tokens_ok tk" "peek_token env tk = (r, tk')" "feeds env tk toks fin"
  shows "feeds env tk' toks fin"
proof -
  note ok = peek_token_ok [OF assms(1,2)]
  obtain item where r: "r = Ok item" using ok(2) by blast
  show ?thesis
  proof (cases item)
    case None
    then have "next_token env tk = (Ok None, tk')" "next_token env tk' = (Ok None, tk')" using ok(5) r by simp_all
    with assms(3) show ?thesis by cases (simp_all add: feeds_end)
  next
    case (Some i)
    then have "next_token env tk' = next_token env tk" using ok(3,4) r by (simp add: next_token_def)
    with assms(3) show ?thesis by cases (auto intro: feeds.intros)
  qed
qed

section \<open>Streams of items\<close>

text \<open>What the two streams share: the item of a token does not depend on what is still to be read, and
  making it reads nothing.\<close>

locale item_source =
  fixes f :: "ReceivedToken \<Rightarrow> QueryStream \<Rightarrow> (error + 'i) option \<times> QueryStream"
  assumes frame: "f tok (qs\<lparr>qs_tokens := tk\<rparr>) = (fst (f tok qs), (snd (f tok qs))\<lparr>qs_tokens := tk\<rparr>)"
begin

lemma keeps_tokens: "f tok qs = (i, qs') \<Longrightarrow> qs_tokens qs' = qs_tokens qs"
proof -
  assume i: "f tok qs = (i, qs')"
  have "qs_tokens (snd (f tok (qs\<lparr>qs_tokens := qs_tokens qs\<rparr>))) = qs_tokens qs" by (subst frame) simp
  then show ?thesis by (simp add: i)
qed

text \<open>One round of \<^verbatim>\<open>poll_next\<close>, by what the tokens give.\<close>

lemma poll_round:
  assumes "tokens_ok (qs_tokens qs)" "next_token env (qs_tokens qs) = (Ok (Some (Inr tok)), tk)"
  shows "poll_item env f qs =
    (case f tok (qs\<lparr>qs_tokens := tk\<rparr>) of (Some item, qs2) \<Rightarrow> (Ok (Some item), qs2) | (None, qs2) \<Rightarrow> poll_item env f qs2)"
proof (cases "f tok (qs\<lparr>qs_tokens := tk\<rparr>)")
  case (Pair i qs2)
  then have "tokens_left (qs_tokens qs2) < tokens_left (qs_tokens qs)" using keeps_tokens next_token_ok(3) [OF assms] by fastforce
  then show ?thesis using Pair assms(2) by (subst poll_item.simps) (auto simp: on_qs_tokens_def split: option.split)
qed

lemma poll_stop:
  assumes "next_token env (qs_tokens qs) = (Ok item, tk)" "item = None \<or> item = Some (Inl e)"
  shows "poll_item env f qs = (Ok (map_option (map_sum id undefined) item), qs\<lparr>qs_tokens := tk\<rparr>)"
  using assms by (subst poll_item.simps) (auto simp: on_qs_tokens_def)

lemma poll_item_ok:
  assumes "tokens_ok (qs_tokens qs)" "poll_item env f qs = (r, qs')"
  shows "tokens_ok (qs_tokens qs') \<and> (\<exists>item. r = Ok item) \<and> (\<forall>item. r = Ok (Some item) \<longrightarrow> tokens_left (qs_tokens qs') < tokens_left (qs_tokens qs))"
  using assms
proof (induction "tokens_left (qs_tokens qs)" arbitrary: qs rule: less_induct)
  case less
  obtain q tk where n: "next_token env (qs_tokens qs) = (q, tk)" by (cases "next_token env (qs_tokens qs)") auto
  note ok = next_token_ok [OF less(2) n]
  obtain item where q: "q = Ok item" using ok(2) by blast
  show ?case
  proof (cases "\<exists>tok. item = Some (Inr tok)")
    case True
    then obtain tok where tok: "item = Some (Inr tok)" by blast
    obtain i qs2 where i: "f tok (qs\<lparr>qs_tokens := tk\<rparr>) = (i, qs2)" by (cases "f tok (qs\<lparr>qs_tokens := tk\<rparr>)") auto
    have 2: "tokens_ok (qs_tokens qs2)" "tokens_left (qs_tokens qs2) < tokens_left (qs_tokens qs)"
      using keeps_tokens [OF i] ok(1,3) q tok by simp_all
    have r: "poll_item env f qs = (case i of Some item \<Rightarrow> (Ok (Some item), qs2) | None \<Rightarrow> poll_item env f qs2)"
      using poll_round [OF less(2)] n q tok i by (auto split: option.split)
    show ?thesis
    proof (cases i)
      case None
      then show ?thesis using less(1) [OF 2(2,1)] less(3) r 2(2) by force
    qed (use less(3) r 2 in auto)
  next
    case False
    then obtain e where "item = None \<or> item = Some (Inl e)" by (cases item) (auto, metis sum.exhaust)
    then show ?thesis using less(3) ok n q poll_stop [of env qs item tk e] by auto
  qed
qed

text \<open>A row stream gives the next row, an error, or the end: it never hangs on items that are not rows.\<close>

lemma row_stream_ok:
  assumes "tokens_ok (qs_tokens qs)"
  shows "\<exists>item qs'. row_stream_next env f row_of qs = (Ok item, qs') \<and> tokens_ok (qs_tokens qs')"
  using assms
proof (induction "tokens_left (qs_tokens qs)" arbitrary: qs rule: less_induct)
  case less
  obtain r qs1 where p: "poll_item env f qs = (r, qs1)" by (cases "poll_item env f qs") auto
  from poll_item_ok [OF less(2) p] obtain item where ok: "tokens_ok (qs_tokens qs1)" "r = Ok item"
      "item \<noteq> None \<Longrightarrow> tokens_left (qs_tokens qs1) < tokens_left (qs_tokens qs)" by auto
  show ?case
    using less(1) [OF ok(3,1)] p ok by (subst row_stream_next.simps) (auto split: option.split sum.split)
qed

text \<open>The items of a sequence of tokens, folded.\<close>

fun run_items :: "('i \<Rightarrow> 'x \<Rightarrow> 'x) \<Rightarrow> 'x \<Rightarrow> QueryStream \<Rightarrow> ReceivedToken list \<Rightarrow> error + 'x" where
  "run_items body x qs [] = Inr x"
| "run_items body x qs (tok # toks) =
     (case f tok qs of
        (None, qs') \<Rightarrow> run_items body x qs' toks
      | (Some (Inl e), qs') \<Rightarrow> Inl e
      | (Some (Inr item), qs') \<Rightarrow> run_items body (body item x) qs' toks)"

lemma run_items_frame: "run_items body x (qs\<lparr>qs_tokens := tk\<rparr>) toks = run_items body x qs toks"
proof (induction toks arbitrary: x qs)
  case (Cons tok toks)
  then show ?case
    by (cases "f tok qs") (auto simp: frame split: option.split sum.split)
qed simp

lemma item_loop_skip:
  assumes "poll_item env f qs = poll_item env f qs2" "tokens_ok (qs_tokens qs2)" "tokens_left (qs_tokens qs2) < tokens_left (qs_tokens qs)"
  shows "item_loop env f body x qs = item_loop env f body x qs2"
proof -
  obtain r qs1 where p: "poll_item env f qs2 = (r, qs1)" by (cases "poll_item env f qs2") auto
  note ok = poll_item_ok [OF assms(2) p]
  show ?thesis
    using p ok assms by (auto simp: item_loop.simps [of env f body x qs] item_loop.simps [of env f body x qs2]
      transpose_item_def bindR_def retR_def errR_def split: option.split sum.split)
qed

lemma item_loop_run:
  assumes "feeds env (qs_tokens qs) toks fin" "tokens_ok (qs_tokens qs)"
  shows "fst (item_loop env f body x qs) =
    (case run_items body x qs toks of Inl e \<Rightarrow> Err e | Inr y \<Rightarrow> (case fin of None \<Rightarrow> Ok y | Some e \<Rightarrow> Err e))"
  using assms
proof (induction "qs_tokens qs" toks fin arbitrary: x qs rule: feeds.induct)
  case (feeds_end tk')
  then show ?case using poll_stop [of env qs None tk'] by (subst item_loop.simps) (simp add: transpose_item_def bindR_def retR_def)
next
  case (feeds_error e tk')
  then show ?case using poll_stop [of env qs "Some (Inl e)" tk'] by (subst item_loop.simps) (simp add: transpose_item_def bindR_def errR_def)
next
  case (feeds_token tok tk' toks fin)
  obtain i qs2 where i: "f tok (qs\<lparr>qs_tokens := tk'\<rparr>) = (i, qs2)" by (cases "f tok (qs\<lparr>qs_tokens := tk'\<rparr>)") auto
  have tk: "qs_tokens qs2 = tk'" using keeps_tokens [OF i] by simp
  note ok = next_token_ok [OF feeds_token(4,1)]
  have 2: "tokens_ok (qs_tokens qs2)" "tokens_left (qs_tokens qs2) < tokens_left (qs_tokens qs)" using ok tk by auto
  have r: "poll_item env f qs = (case i of Some item \<Rightarrow> (Ok (Some item), qs2) | None \<Rightarrow> poll_item env f qs2)"
    using poll_round [OF feeds_token(4,1)] i by (auto split: option.split)
  obtain qs0 where f0: "f tok qs = (i, qs0)" "qs2 = qs0\<lparr>qs_tokens := tk'\<rparr>" using i frame [of tok tk' qs] by (cases "f tok qs") auto
  have run: "run_items body y qs0 toks = run_items body y qs2 toks" for y by (simp add: f0(2) run_items_frame)
  note ih = feeds_token(3) [OF tk [symmetric] 2(1)]
  show ?case
  proof (cases i)
    case None
    then have "item_loop env f body x qs = item_loop env f body x qs2" using r by (intro item_loop_skip [OF _ 2]) simp
    then show ?thesis using None ih f0(1) run by simp
  next
    case (Some item)
    then show ?thesis using r 2 ih f0(1) run
      by (subst item_loop.simps) (auto simp: transpose_item_def bindR_def retR_def errR_def split: sum.split)
  qed
qed

end

interpretation query_items: item_source query_item
proof
  show "query_item tok (qs\<lparr>qs_tokens := tk\<rparr>) = (fst (query_item tok qs), (snd (query_item tok qs))\<lparr>qs_tokens := tk\<rparr>)" for tok tk qs
    by (cases tok) (simp_all add: header_item_def row_item_def Let_def split: option.split)
qed

interpretation command_items: item_source command_item
proof
  show "command_item tok (qs\<lparr>qs_tokens := tk\<rparr>) = (fst (command_item tok qs), (snd (command_item tok qs))\<lparr>qs_tokens := tk\<rparr>)" for tok tk qs
    by (cases tok) (simp_all add: header_item_def row_item_def Let_def split: option.split)
qed

section \<open>Looking for a header\<close>

lemma peek_round:
  assumes "tokens_ok (qs_tokens qs)"
  shows "peek_loop env stop qs =
    (case next_token env (qs_tokens qs) of
       (Ok None, tk) \<Rightarrow> (Ok (), qs\<lparr>qs_tokens := tk\<rparr>)
     | (Ok (Some (Inl e)), tk) \<Rightarrow> (Err e, qs\<lparr>qs_tokens := tk\<lparr>tk_peeked := Some (Inl e)\<rparr>\<rparr>)
     | (Ok (Some (Inr tok)), tk) \<Rightarrow>
         (case stop tok (qs\<lparr>qs_tokens := tk\<lparr>tk_peeked := Some (Inr tok)\<rparr>\<rparr>) of
            Some qs2 \<Rightarrow> (Ok (), qs2)
          | None \<Rightarrow> peek_loop env stop (qs\<lparr>qs_tokens := tk\<rparr>))
     | (r, tk) \<Rightarrow> undefined)"
proof -
  obtain r tk1 where p: "peek_token env (qs_tokens qs) = (r, tk1)" by (cases "peek_token env (qs_tokens qs)") auto
  note ok = peek_token_ok [OF assms p]
  obtain item where r: "r = Ok item" using ok(2) by blast
  show ?thesis
  proof (cases item)
    case None
    then show ?thesis using p r ok(5) by (subst peek_loop.simps) (simp add: on_qs_tokens_def transpose_item_def bindR_def retR_def)
  next
    case (Some i)
    define tk where "tk = tk1\<lparr>tk_peeked := None\<rparr>"
    have n: "next_token env (qs_tokens qs) = (Ok (Some i), tk)" using ok(4) r Some by (simp add: tk_def)
    have tk1: "tk1 = tk\<lparr>tk_peeked := Some i\<rparr>" using ok(3) r Some by (simp add: tk_def)
    have n1: "next_token env tk1 = (Ok (Some i), tk)" unfolding tk1 by (simp add: next_token_def) (simp add: tk_def)
    have lt: "tokens_left tk < tokens_left (qs_tokens qs)" using next_token_ok(3) [OF assms n] by simp
    show ?thesis
    proof (cases i)
      case (Inl e)
      then show ?thesis using p r Some n tk1
        by (subst peek_loop.simps) (simp add: on_qs_tokens_def transpose_item_def bindR_def errR_def)
    next
      case (Inr tok)
      then have "tk\<lparr>tk_peeked := Some (Inr tok)\<rparr> = tk1" using tk1 by simp
      then show ?thesis using p r Some n n1 lt Inr
        by (subst peek_loop.simps) (simp add: on_qs_tokens_def transpose_item_def bindR_def retR_def split: option.split)
    qed
  qed
qed

section \<open>Whole responses\<close>

text \<open>The result sets of a sequence of tokens: every header opens one, and the rows up to the next header are its rows.\<close>

fun rows_until :: "Column list \<Rightarrow> nat \<Rightarrow> ReceivedToken list \<Rightarrow> Row list" where
  "rows_until cols i [] = []"
| "rows_until cols i (NewResultset _ # _) = []"
| "rows_until cols i (RowToken d # toks) = \<lparr>row_columns = cols, row_data = d, row_result_index = i\<rparr> # rows_until cols i toks"
| "rows_until cols i (_ # toks) = rows_until cols i toks"

fun result_sets :: "nat \<Rightarrow> ReceivedToken list \<Rightarrow> Row list list" where
  "result_sets i [] = []"
| "result_sets i (NewResultset m # toks) = rows_until (meta_columns m) i toks # result_sets (Suc i) toks"
| "result_sets i (_ # toks) = result_sets i toks"

fun is_header :: "ReceivedToken \<Rightarrow> bool" where
  "is_header (NewResultset _) = True"
| "is_header _ = False"

lemma at_metadata_header: "at_metadata tok qs = (if is_header tok then Some qs else None)"
  by (cases tok) simp_all

lemma result_sets_skip: "result_sets i (dropWhile (\<lambda>t. \<not> is_header t) toks) = result_sets i toks"
proof (induction toks)
  case (Cons t toks)
  then show ?case by (cases t) simp_all
qed simp

lemma forward_feeds:
  assumes "feeds env (qs_tokens qs) toks fin" "tokens_ok (qs_tokens qs)"
  shows "\<exists>qs'. forward_to_metadata env qs =
      ((if (\<exists>t\<in>set toks. is_header t) \<or> fin = None then Ok () else Err (the fin)), qs') \<and>
    tokens_ok (qs_tokens qs') \<and> qs' = qs\<lparr>qs_tokens := qs_tokens qs'\<rparr> \<and>
    ((\<exists>t\<in>set toks. is_header t) \<or> fin = None \<longrightarrow> feeds env (qs_tokens qs') (dropWhile (\<lambda>t. \<not> is_header t) toks) fin)"
  using assms
proof (induction "qs_tokens qs" toks fin arbitrary: qs rule: feeds.induct)
  case (feeds_end tk')
  note ok = next_token_ok [OF feeds_end(2,1)]
  with feeds_end show ?case by (auto simp: forward_to_metadata_def peek_round intro: feeds.feeds_end)
next
  case (feeds_error e tk')
  then show ?case using next_token_ok(1) [OF feeds_error(2,1)]
    by (auto simp: forward_to_metadata_def peek_round tokens_ok_def)
next
  case (feeds_token tok tk' toks fin)
  note ok = next_token_ok [OF feeds_token(4,1)]
  show ?case
  proof (cases "is_header tok")
    case True
    let ?tk = "tk'\<lparr>tk_peeked := Some (Inr tok)\<rparr>"
    have "next_token env ?tk = (Ok (Some (Inr tok)), tk')" using ok(4) by (simp add: next_token_def)
    then have "feeds env ?tk (tok # toks) fin" using feeds_token(2) by (rule feeds.feeds_token)
    then show ?thesis using feeds_token(1,4) ok(1) True
      by (auto simp: forward_to_metadata_def peek_round at_metadata_header tokens_ok_def)
  next
    case False
    have "forward_to_metadata env qs = forward_to_metadata env (qs\<lparr>qs_tokens := tk'\<rparr>)"
      using feeds_token(1,4) False by (simp add: forward_to_metadata_def peek_round [of qs] at_metadata_header)
    then show ?thesis using feeds_token(3) [of "qs\<lparr>qs_tokens := tk'\<rparr>"] ok(1) False by fastforce
  qed
qed

lemma collect_open:
  assumes "qs_columns qs = Some cols" "qs_result_set_index qs = Some i"
  shows "\<exists>st. query_items.run_items collect_item (results, Some rows) qs toks = Inr st \<and>
    close_result st = results @ (rows @ rows_until cols i toks) # result_sets (Suc i) toks"
  using assms
proof (induction toks arbitrary: results rows qs cols i)
  case Nil
  then show ?case by (simp add: close_result_def)
next
  case (Cons tok toks)
  show ?case
  proof (cases "is_header tok")
    case True
    then obtain m where m: "tok = NewResultset m" by (cases tok) auto
    let ?q = "qs\<lparr>qs_columns := Some (meta_columns m), qs_result_set_index := Some (i + 1)\<rparr>"
    show ?thesis using Cons.IH [of ?q "meta_columns m" "i + 1" "results @ [rows]" "[]"] Cons.prems
      by (simp add: m header_item_def Let_def open_result_def)
  next
    case False
    note ih = Cons.IH [OF Cons.prems]
    show ?thesis
    proof (cases "\<exists>d. tok = RowToken d")
      case True
      then obtain d where d: "tok = RowToken d" by blast
      show ?thesis using ih [of results "rows @ [\<lparr>row_columns = cols, row_data = d, row_result_index = i\<rparr>]"] Cons.prems
        by (simp add: d row_item_def push_row_def)
    next
      case no_row: False
      then show ?thesis using ih [of results rows] False by (cases tok) simp_all
    qed
  qed
qed

lemma collect_results_run:
  assumes "toks = [] \<or> is_header (hd toks)" "qs_columns qs = None" "qs_result_set_index qs = None"
  shows "\<exists>st. query_items.run_items collect_item ([], None) qs toks = Inr st \<and> close_result st = result_sets 0 toks"
proof (cases toks)
  case (Cons tok rest)
  with assms obtain m where m: "tok = NewResultset m" by (cases tok) auto
  let ?q = "qs\<lparr>qs_columns := Some (meta_columns m), qs_result_set_index := Some 0\<rparr>"
  show ?thesis using collect_open [of ?q "meta_columns m" 0 "[]" "[]" rest] assms
    by (simp add: Cons m header_item_def Let_def open_result_def)
qed (simp add: close_result_def)

text \<open>The end of a response, as an item loop sees it.\<close>

definition ending :: "value_env \<Rightarrow> TokenStream \<Rightarrow> error option \<Rightarrow> bool" where
  "ending env ts fin \<longleftrightarrow> fst (receive env ts) = (case fin of None \<Rightarrow> Ok None | Some e \<Rightarrow> Err e)"

lemma emits_feeds:
  assumes "feeds env tk toks fin" "tk_peeked tk = None" "\<not> tk_ended tk" "tokens_ok tk"
  shows "\<exists>ts'. emits env (tk_stream tk) toks ts' \<and> ending env ts' fin"
  using assms
proof (induction rule: feeds.induct)
  case (feeds_end tk tk')
  then have "fst (receive env (tk_stream tk)) = Ok None"
    by (auto simp: next_token_def unfold_next_def split: prod.splits res.splits option.splits)
  then show ?case using emits_nil [of env] by (auto simp: ending_def)
next
  case (feeds_error tk e tk')
  then have "fst (receive env (tk_stream tk)) = Err e"
    by (auto simp: next_token_def unfold_next_def split: prod.splits res.splits option.splits)
  then show ?case using emits_nil [of env] by (auto simp: ending_def)
next
  case (feeds_token tk tok tk' toks fin)
  then have r: "receive env (tk_stream tk) = (Ok (Some tok), tk_stream tk')" "\<not> tk_ended tk'"
    by (auto simp: next_token_def unfold_next_def split: prod.splits res.splits option.splits)
  from feeds_token.IH r(2) next_token_ok [OF feeds_token(6,1)] obtain ts' where "emits env (tk_stream tk') toks ts'" "ending env ts' fin" by blast
  then show ?case using emits_cons [OF r(1)] by blast
qed

lemma tokens_ok_new: "ts_ok ts \<Longrightarrow> tokens_ok (qs_tokens (QueryStream_new ts))"
  by (simp add: tokens_ok_def QueryStream_new_def Tokens_new_def)

lemma feeds_of_new:
  assumes "ts_ok ts"
  obtains toks fin ts' where "feeds env (qs_tokens (QueryStream_new ts)) toks fin" "emits env ts toks ts'" "ending env ts' fin"
proof -
  obtain toks fin where f: "feeds env (qs_tokens (QueryStream_new ts)) toks fin" using feeds_total [OF tokens_ok_new [OF assms]] by blast
  then obtain ts' where "emits env ts toks ts'" "ending env ts' fin"
    using emits_feeds [OF f] tokens_ok_new [OF assms] by (auto simp: QueryStream_new_def Tokens_new_def)
  with f show ?thesis by (rule that)
qed

lemma query_results_run:
  assumes "ts_ok ts" "feeds env (qs_tokens (QueryStream_new ts)) toks fin"
  shows "fst (thenR (forward_to_metadata env) (into_results env) (QueryStream_new ts)) =
    (case fin of None \<Rightarrow> Ok (result_sets 0 toks) | Some e \<Rightarrow> Err e)"
proof -
  let ?qs = "QueryStream_new ts" and ?rest = "dropWhile (\<lambda>t. \<not> is_header t) toks"
  obtain qs' where fw: "forward_to_metadata env ?qs = ((if (\<exists>t\<in>set toks. is_header t) \<or> fin = None then Ok () else Err (the fin)), qs')"
      and ok: "tokens_ok (qs_tokens qs')" "qs' = ?qs\<lparr>qs_tokens := qs_tokens qs'\<rparr>"
      and fd: "(\<exists>t\<in>set toks. is_header t) \<or> fin = None \<longrightarrow> feeds env (qs_tokens qs') ?rest fin"
    using forward_feeds [OF assms(2) tokens_ok_new [OF assms(1)]] by blast
  have hd: "?rest = [] \<or> is_header (hd ?rest)" using hd_dropWhile [of "\<lambda>t. \<not> is_header t" toks] by auto
  have "qs_columns qs' = None" "qs_result_set_index qs' = None" by (subst ok(2), simp add: QueryStream_new_def)+
  then obtain st where st: "query_items.run_items collect_item ([], None) qs' ?rest = Inr st" "close_result st = result_sets 0 toks"
    using collect_results_run [OF hd] result_sets_skip by metis
  show ?thesis
  proof (cases "(\<exists>t\<in>set toks. is_header t) \<or> fin = None")
    case True
    then have "fst (item_loop env query_item collect_item ([], None) qs') = (case fin of None \<Rightarrow> Ok st | Some e \<Rightarrow> Err e)"
      using query_items.item_loop_run [OF fd [rule_format, OF True] ok(1), of collect_item "([], None)"] st(1) by simp
    then show ?thesis using fw True st(2)
      by (cases "item_loop env query_item collect_item ([], None) qs'")
        (auto simp: thenR_def bindR_def retR_def into_results_def collect_results_def split: option.splits)
  qed (use fw in \<open>auto simp: thenR_def bindR_def\<close>)
qed

section \<open>Commands and row counts\<close>

fun headed :: "ReceivedToken list \<Rightarrow> bool" where
  "headed [] = True"
| "headed (NewResultset _ # _) = True"
| "headed (RowToken _ # _) = False"
| "headed (_ # toks) = headed toks"

fun count_of :: "ReceivedToken \<Rightarrow> u64 list" where
  "count_of (DoneProcToken d) = (if TokenDone_is_final d then [] else [TokenDone_rows d])"
| "count_of (DoneInProcToken d) = [TokenDone_rows d]"
| "count_of (DoneToken d) = [TokenDone_rows d]"
| "count_of _ = []"

fun value_of :: "ReceivedToken \<Rightarrow> CommandReturnValue list" where
  "value_of (ReturnValueToken rv) = [\<lparr>crv_name = trv_param_name rv, crv_ord = trv_param_ordinal rv, crv_data = trv_value rv\<rparr>]"
| "value_of _ = []"

fun status_of :: "ReceivedToken \<Rightarrow> u32 \<Rightarrow> u32" where
  "status_of (ReturnStatusToken rs) _ = rs"
| "status_of _ old = old"

text \<open>The parts of a command result are independent of each other.\<close>

definition extend_result :: "ReceivedToken list \<Rightarrow> CommandResult \<Rightarrow> CommandResult" where
  "extend_result toks res = res\<lparr>cr_rows_affected := cr_rows_affected res @ concat (map count_of toks),
     cr_return_code := fold status_of toks (cr_return_code res),
     cr_return_values := cr_return_values res @ concat (map value_of toks)\<rparr>"

fun opened :: "nat option \<Rightarrow> Column list option \<Rightarrow> ReceivedToken list \<Rightarrow> collected \<Rightarrow> Row list list" where
  "opened i cols toks (results, Some rows) = results @ (rows @ rows_until (the cols) (the i) toks) # result_sets (Suc (the i)) toks"
| "opened i cols toks (results, None) = results @ result_sets (case i of None \<Rightarrow> 0 | Some k \<Rightarrow> Suc k) toks"

lemma command_run:
  assumes "snd st = None \<longrightarrow> qs_columns qs = None \<and> qs_result_set_index qs = None \<and> headed toks"
    "snd st \<noteq> None \<longrightarrow> qs_columns qs \<noteq> None \<and> qs_result_set_index qs \<noteq> None"
  shows "\<exists>st'. command_items.run_items collect_command (st, res) qs toks = Inr (st', extend_result toks res) \<and>
    close_result st' = opened (qs_result_set_index qs) (qs_columns qs) toks st"
  using assms
proof (induction toks arbitrary: st res qs)
  case Nil
  then show ?case by (cases st; cases "snd st") (auto simp: extend_result_def close_result_def)
next
  case (Cons tok toks)
  obtain results current where st: "st = (results, current)" by (cases st)
  show ?case
  proof (cases tok)
    case (NewResultset m)
    let ?q = "snd (header_item m qs)"
    have "qs_columns ?q = Some (meta_columns m)" "qs_result_set_index ?q = Some (case qs_result_set_index qs of None \<Rightarrow> 0 | Some i \<Rightarrow> i + 1)"
      by (simp_all add: header_item_def Let_def)
    then show ?thesis using Cons.IH [of "open_result st" ?q res] Cons.prems
      by (cases current) (auto simp: NewResultset st header_item_def Let_def open_result_def extend_result_def split: option.splits)
  next
    case (RowToken d)
    then obtain rows cols i where s: "current = Some rows" "qs_columns qs = Some cols" "qs_result_set_index qs = Some i"
      using Cons.prems by (cases current) (auto simp: st)
    then show ?thesis using Cons.IH [of "(results, Some (rows @ [\<lparr>row_columns = cols, row_data = d, row_result_index = i\<rparr>]))" qs res]
      by (auto simp: RowToken st row_item_def push_row_def extend_result_def)
  next
    case (ReturnStatusToken rs)
    then show ?thesis using Cons.IH [of st qs "res\<lparr>cr_return_code := rs\<rparr>"] Cons.prems
      by (cases current) (auto simp: st extend_result_def)
  next
    case (ReturnValueToken rv)
    then show ?thesis using Cons.IH [of st qs "res\<lparr>cr_return_values := cr_return_values res @ value_of tok\<rparr>"] Cons.prems
      by (cases current) (auto simp: st extend_result_def)
  next
    case (DoneToken d)
    then show ?thesis using Cons.IH [of st qs "res\<lparr>cr_rows_affected := cr_rows_affected res @ count_of tok\<rparr>"] Cons.prems
      by (cases current) (auto simp: st extend_result_def)
  next
    case (DoneInProcToken d)
    then show ?thesis using Cons.IH [of st qs "res\<lparr>cr_rows_affected := cr_rows_affected res @ count_of tok\<rparr>"] Cons.prems
      by (cases current) (auto simp: st extend_result_def)
  next
    case (DoneProcToken d)
    then show ?thesis using Cons.IH [of st qs "res\<lparr>cr_rows_affected := cr_rows_affected res @ count_of tok\<rparr>"] Cons.prems
      by (cases current) (auto simp: st extend_result_def)
  qed (use Cons.IH [of st qs res] Cons.prems in \<open>cases current; auto simp: st extend_result_def\<close>)+
qed

lemma execute_run: "loop_run execute_body rows toks = Some (rows @ concat (map count_of toks))"
proof (induction toks arbitrary: rows)
  case (Cons tok toks)
  then show ?case by (cases tok) simp_all
qed simp

lemma command_result_run:
  assumes "ts_ok ts" "feeds env (qs_tokens (QueryStream_new ts)) toks fin" "headed toks"
  shows "fst (into_command_result env (QueryStream_new ts)) =
    (case fin of
       None \<Rightarrow> Ok \<lparr>cr_rows_affected = concat (map count_of toks), cr_return_code = fold status_of toks 0,
          cr_return_values = concat (map value_of toks), cr_query_results = result_sets 0 toks\<rparr>
     | Some e \<Rightarrow> Err e)"
proof -
  let ?qs = "QueryStream_new ts" and ?res = "\<lparr>cr_rows_affected = [], cr_return_code = 0, cr_return_values = [], cr_query_results = []\<rparr>"
  obtain st' where run: "command_items.run_items collect_command (([], None), ?res) ?qs toks = Inr (st', extend_result toks ?res)"
      "close_result st' = result_sets 0 toks"
    using command_run [of "([], None)" ?qs toks ?res] assms(3) by (auto simp: QueryStream_new_def)
  have "fst (item_loop env command_item collect_command (([], None), ?res) ?qs) = (case fin of None \<Rightarrow> Ok (st', extend_result toks ?res) | Some e \<Rightarrow> Err e)"
    using command_items.item_loop_run [OF assms(2) tokens_ok_new [OF assms(1)], of collect_command "(([], None), ?res)"] run(1) by simp
  then show ?thesis using run(2)
    by (cases "item_loop env command_item collect_command (([], None), ?res) ?qs")
      (auto simp: into_command_result_def bindR_def retR_def extend_result_def split: option.splits)
qed

lemma execute_result_run:
  assumes "ts_ok ts" "emits env ts toks ts'" "ending env ts' fin"
  shows "fst (ExecuteResult_new env ts) = (case fin of None \<Rightarrow> Ok (concat (map count_of toks)) | Some e \<Rightarrow> Err e)"
proof -
  have "ExecuteResult_new env ts = token_loop env execute_body (concat (map count_of toks)) ts'"
    using token_loop_emits [OF assms(2,1) execute_run, of "[]"] by (simp add: ExecuteResult_new_def)
  then show ?thesis using assms(3)
    by (cases "receive env ts'") (auto simp: token_loop.simps [of env _ _ ts'] ending_def split: option.splits)
qed

text \<open>Counts come from the server; their sum need not fit.\<close>

lemma total_ok: "sum_list (map unat rows) < 2 ^ 64 \<Longrightarrow> ExecuteResult_total rows = Ok (sum_list rows)"
proof -
  have "sum_u64 acc rows = Ok (of_nat acc + sum_list rows)" if "acc + sum_list (map unat rows) < 2 ^ 64" for acc
    using that by (induction rows arbitrary: acc) (auto simp: algebra_simps)
  from this [of 0] show "sum_list (map unat rows) < 2 ^ 64 \<Longrightarrow> ExecuteResult_total rows = Ok (sum_list rows)" by (simp add: ExecuteResult_total_def)
qed

lemma total_overflow: "ExecuteResult_total [2 ^ 64 - 1, 1] = Panic"
  by (simp add: ExecuteResult_total_def)

section \<open>Properties of responses\<close>

text \<open>A response with one result set of one row, and no DONE.\<close>

definition one_row :: TokenStream where
  "one_row = TokenStream_new (Connection_new False Context_new (reply [0x81, 1, 0, 0, 0, 0, 0, 0, 0, 0x38, 0, 0xD1, 7, 0, 0, 0]))"

definition one_meta :: TokenColMetaData where
  "one_meta = \<lparr>tcm_columns = [\<lparr>mdc_base = \<lparr>bmc_flags = 0, bmc_ty = FixedLen FInt4, bmc_table_name = None\<rparr>, mdc_col_name = []\<rparr>]\<rparr>"

lemmas one_row_eval = one_row_def one_meta_def stream_eval thenR_def ts_update_def context_setters TokenColMetaData_decode_def MetaDataColumn_decode_def
  BaseMetaDataColumn_decode_def TypeInfo_decode_def read_b_varchar_def read_utf16_units_def carries_table_name_def fixed_reader_defs read_le_def
  read_n_def wire_simps wire_eval type_tag_eval from_utf16_def TokenRow_decode_def errR_def

lemma one_row_tokens:
  "fst (receive env one_row) = Ok (Some (NewResultset one_meta))"
  "fst (receive env (snd (receive env one_row))) = Ok (Some (RowToken [CI32 (Some 7)]))"
  "fst (receive env (snd (receive env (snd (receive env one_row))))) = Ok None"
  by (simp_all add: one_row_eval)

lemma one_row_ok: "ts_ok one_row"
  using framed_reply [of "[0x81, 1, 0, 0, 0, 0, 0, 0, 0, 0x38, 0, 0xD1, 7, 0, 0, 0]" False Context_new] context_ok_new
  by (simp add: ts_ok_def one_row_def TokenStream_new_def)

lemma emits_first:
  assumes "emits env ts toks ts'" "ending env ts' fin"
  shows "fst (receive env ts) = Ok (Some tok) \<Longrightarrow> \<exists>rest. toks = tok # rest \<and> emits env (snd (receive env ts)) rest ts'"
    and "fst (receive env ts) = Ok None \<Longrightarrow> toks = [] \<and> fin = None"
  using assms by (cases rule: emits.cases; auto simp: ending_def prod_eq_iff split: option.splits)+

lemma one_row_emits:
  assumes "emits env one_row toks ts'" "ending env ts' fin"
  shows "toks = [NewResultset one_meta, RowToken [CI32 (Some 7)]] \<and> fin = None"
proof -
  obtain r1 where 1: "toks = NewResultset one_meta # r1" "emits env (snd (receive env one_row)) r1 ts'"
    using emits_first(1) [OF assms one_row_tokens(1)] by blast
  obtain r2 where 2: "r1 = RowToken [CI32 (Some 7)] # r2" "emits env (snd (receive env (snd (receive env one_row)))) r2 ts'"
    using emits_first(1) [OF 1(2) assms(2) one_row_tokens(2)] by blast
  show ?thesis using emits_first(2) [OF 2(2) assms(2) one_row_tokens(3)] 1 2 by simp
qed

text \<open>C9: A response is read completely and faithfully, whichever way it is collected. Every response that arrived in full packets, the marked last one not empty, is a sequence of
  tokens that ends, or breaks off with an error, and reading it always returns. A query gives one list of rows for every header, the rows up to the next header in their
  order, also when there are none, each with the columns of its header; a command gives the same result sets, all
  output values, the last status and one count per statement, when no row comes before the first header; a plain execution gives the same counts. When the response breaks off, each reports
  its error.\<close>

theorem response_results:
  assumes "ts_ok ts"
  shows "\<exists>toks fin ts'. emits env ts toks ts' \<and> ending env ts' fin \<and>
    fst (thenR (forward_to_metadata env) (into_results env) (QueryStream_new ts)) =
      (case fin of None \<Rightarrow> Ok (result_sets 0 toks) | Some e \<Rightarrow> Err e) \<and>
    (headed toks \<longrightarrow> fst (into_command_result env (QueryStream_new ts)) =
      (case fin of
         None \<Rightarrow> Ok \<lparr>cr_rows_affected = concat (map count_of toks), cr_return_code = fold status_of toks 0,
            cr_return_values = concat (map value_of toks), cr_query_results = result_sets 0 toks\<rparr>
       | Some e \<Rightarrow> Err e)) \<and>
    fst (ExecuteResult_new env ts) = (case fin of None \<Rightarrow> Ok (concat (map count_of toks)) | Some e \<Rightarrow> Err e)"
proof -
  obtain toks fin ts' where f: "feeds env (qs_tokens (QueryStream_new ts)) toks fin" "emits env ts toks ts'" "ending env ts' fin"
    by (rule feeds_of_new [OF assms])
  then show ?thesis
    using query_results_run [OF assms f(1)] command_result_run [OF assms f(1)] execute_result_run [OF assms f(2,3)] by blast
qed

theorem response_results_witness:
  "\<forall>env. fst (thenR (forward_to_metadata env) (into_results env) (QueryStream_new one_row)) =
     Ok [[\<lparr>row_columns = [\<lparr>col_name = [], col_type = ColInt4\<rparr>], row_data = [CI32 (Some 7)], row_result_index = 0\<rparr>]]"
proof
  fix env
  obtain toks fin ts' where e: "emits env one_row toks ts'" "ending env ts' fin"
      "fst (thenR (forward_to_metadata env) (into_results env) (QueryStream_new one_row)) =
        (case fin of None \<Rightarrow> Ok (result_sets 0 toks) | Some e \<Rightarrow> Err e)"
    using response_results [OF one_row_ok, of env] by blast
  with one_row_emits [OF e(1,2)]
  show "fst (thenR (forward_to_metadata env) (into_results env) (QueryStream_new one_row)) =
     Ok [[\<lparr>row_columns = [\<lparr>col_name = [], col_type = ColInt4\<rparr>], row_data = [CI32 (Some 7)], row_result_index = 0\<rparr>]]"
    by (simp add: meta_columns_def one_meta_def Column_new_def)
qed

section \<open>Typed rows\<close>

text \<open>A row is decoded with the columns of the context, those of the last header.\<close>

lemma receive_row_fits:
  assumes "receive env ts = (Ok (Some (RowToken d)), ts')"
  shows "\<exists>m. ctx_last_meta (ts_context ts) = Some m \<and> row_fits m d"
proof -
  from assms have "\<not> is_eof (ts_conn ts)" by (auto simp: receive_def split: if_splits option.splits)
  with assms obtain b ts1 ty where r: "ts_read read_u8 ts = (Ok b, ts1)" "get_token env ty ts1 = (Ok (RowToken d), ts')"
    by (auto simp: receive_def bindR_eq_Ok retR_eq_Ok ok_or_Ok)
  have c: "ts_context ts1 = ts_context ts" using ts_read_view [OF r(1)] by simp
  have "\<exists>env' s s'. TokenRow_decode env' (ctx_last_meta (ts_context ts)) s = (Ok d, s') \<or>
      TokenRow_decode_nbc env' (ctx_last_meta (ts_context ts)) s = (Ok d, s')"
    using r(2) c by (cases ty) (auto simp: handler_defs thenR_def bindR_eq_Ok retR_eq_Ok ts_with_context_def ok_or_Ok elim!: ts_read_OkE)
  then obtain env' s s' where dec: "TokenRow_decode env' (ctx_last_meta (ts_context ts)) s = (Ok d, s') \<or>
      TokenRow_decode_nbc env' (ctx_last_meta (ts_context ts)) s = (Ok d, s')" by blast
  then obtain m where m: "ctx_last_meta (ts_context ts) = Some m"
    by (cases "ctx_last_meta (ts_context ts)") (auto simp: TokenRow_decode_def TokenRow_decode_nbc_def ok_or_def bindR_def errR_def)
  with dec show ?thesis using row_fits_decode row_fits_decode_nbc by auto
qed

lemma last_meta_effect: "ctx_last_meta (context_effect tok ctx) = (case tok of NewResultset m \<Rightarrow> Some m | _ \<Rightarrow> ctx_last_meta ctx)"
  by (cases tok rule: context_effect.cases) (simp_all add: context_setters split: ReceivedToken.split)

text \<open>The columns of a stream are those of the context, unless a header that was read ahead is still to be delivered.\<close>

definition agree :: "QueryStream \<Rightarrow> bool" where
  "agree qs \<longleftrightarrow> (\<forall>cols. qs_columns qs = Some cols \<longrightarrow>
     (\<exists>m. ctx_last_meta (ts_context (tk_stream (qs_tokens qs))) = Some m \<and> cols = meta_columns m))"

fun delivers :: "ReceivedToken \<Rightarrow> QueryStream \<Rightarrow> bool" where
  "delivers (NewResultset m) qs \<longleftrightarrow> ctx_last_meta (ts_context (tk_stream (qs_tokens qs))) = Some m"
| "delivers (RowToken d) qs \<longleftrightarrow> agree qs \<and> (\<exists>m. ctx_last_meta (ts_context (tk_stream (qs_tokens qs))) = Some m \<and> row_fits m d)"
| "delivers _ qs \<longleftrightarrow> agree qs"

definition qs_inv :: "QueryStream \<Rightarrow> bool" where
  "qs_inv qs \<longleftrightarrow> tokens_ok (qs_tokens qs) \<and>
     (if tk_ended (qs_tokens qs) then \<forall>tok. tk_peeked (qs_tokens qs) \<noteq> Some (Inr tok)
      else (case tk_peeked (qs_tokens qs) of None \<Rightarrow> agree qs | Some (Inl _) \<Rightarrow> False | Some (Inr tok) \<Rightarrow> delivers tok qs))"

lemma delivers_received:
  assumes "agree qs" "receive env (tk_stream (qs_tokens qs)) = (Ok (Some tok), ts')"
  shows "delivers tok (qs\<lparr>qs_tokens := (qs_tokens qs)\<lparr>tk_stream := ts'\<rparr>\<rparr>)"
proof -
  have ctx: "ctx_last_meta (ts_context ts') = (case tok of NewResultset m \<Rightarrow> Some m | _ \<Rightarrow> ctx_last_meta (ts_context (tk_stream (qs_tokens qs))))"
    using receive_effect(1) [OF assms(2)] last_meta_effect by simp
  show ?thesis
  proof (cases tok)
    case (RowToken d)
    then show ?thesis using ctx assms(1) receive_row_fits [OF assms(2) [unfolded RowToken]] by (simp add: agree_def)
  qed (use ctx assms(1) in \<open>simp_all add: agree_def\<close>)
qed

lemma next_token_inv:
  assumes "qs_inv qs" "next_token env (qs_tokens qs) = (Ok item, tk)"
  shows "item = Some (Inr tok) \<Longrightarrow> \<not> tk_ended tk \<and> delivers tok (qs\<lparr>qs_tokens := tk\<rparr>)"
    and "item = None \<or> item = Some (Inl e) \<Longrightarrow> tk_ended tk"
proof -
  have ok: "tokens_ok (qs_tokens qs)" using assms(1) by (simp add: qs_inv_def)
  show "item = Some (Inr tok) \<Longrightarrow> \<not> tk_ended tk \<and> delivers tok (qs\<lparr>qs_tokens := tk\<rparr>)"
  proof (cases "tk_peeked (qs_tokens qs)")
    case None
    assume i: "item = Some (Inr tok)"
    from None i assms(2) obtain ts' where r: "receive env (tk_stream (qs_tokens qs)) = (Ok (Some tok), ts')"
        "tk = (qs_tokens qs)\<lparr>tk_stream := ts'\<rparr>" "\<not> tk_ended (qs_tokens qs)"
      by (auto simp: next_token_def unfold_next_def split: if_splits prod.splits res.splits option.splits)
    have "agree qs" using assms(1) r(3) None by (simp add: qs_inv_def)
    then show ?thesis using delivers_received [OF _ r(1)] r by simp
  next
    case (Some x)
    assume i: "item = Some (Inr tok)"
    have "delivers tok qs" "\<not> tk_ended (qs_tokens qs)" "tk = (qs_tokens qs)\<lparr>tk_peeked := None\<rparr>"
      using assms i Some by (auto simp: qs_inv_def next_token_def split: if_splits)
    then show ?thesis by (cases tok) (simp_all add: agree_def)
  qed
  show "item = None \<or> item = Some (Inl e) \<Longrightarrow> tk_ended tk"
    using assms by (auto simp: qs_inv_def next_token_def unfold_next_def split: if_splits prod.splits res.splits option.splits)
qed

lemma query_item_inv:
  assumes "delivers tok qs" "tokens_ok (qs_tokens qs)" "\<not> tk_ended (qs_tokens qs)" "tk_peeked (qs_tokens qs) = None" "query_item tok qs = (i, qs')"
  shows "qs_inv qs' \<and> (\<forall>row. i = Some (Inr (QRow row)) \<longrightarrow> row_typed row)"
proof (cases tok)
  case (RowToken d)
  then have "agree qs" "\<exists>m. ctx_last_meta (ts_context (tk_stream (qs_tokens qs))) = Some m \<and> row_fits m d" using assms(1) by simp_all
  then show ?thesis using assms RowToken
    by (auto simp: qs_inv_def row_item_def agree_def intro: row_typed_meta split: option.splits)
qed (use assms in \<open>auto simp: qs_inv_def agree_def header_item_def Let_def\<close>)

lemma poll_typed:
  assumes "qs_inv qs" "poll_item env query_item qs = (r, qs')"
  shows "qs_inv qs' \<and> (\<forall>row. r = Ok (Some (Inr (QRow row))) \<longrightarrow> row_typed row)"
  using assms
proof (induction "tokens_left (qs_tokens qs)" arbitrary: qs rule: less_induct)
  case less
  have tok_ok: "tokens_ok (qs_tokens qs)" using less(2) by (simp add: qs_inv_def)
  obtain q tk where n: "next_token env (qs_tokens qs) = (q, tk)" by (cases "next_token env (qs_tokens qs)") auto
  note ok = next_token_ok [OF tok_ok n]
  obtain item where q: "q = Ok item" using ok(2) by blast
  note inv = next_token_inv [OF less(2) n [unfolded q]]
  show ?case
  proof (cases "\<exists>tok. item = Some (Inr tok)")
    case True
    then obtain tok where tok: "item = Some (Inr tok)" by blast
    obtain i qs2 where i: "query_item tok (qs\<lparr>qs_tokens := tk\<rparr>) = (i, qs2)" by (cases "query_item tok (qs\<lparr>qs_tokens := tk\<rparr>)") auto
    have 2: "qs_inv qs2" "\<And>row. i = Some (Inr (QRow row)) \<Longrightarrow> row_typed row"
      using query_item_inv [OF _ _ _ _ i] inv(1) [OF tok] ok(1,4) by simp_all
    have lt: "tokens_left (qs_tokens qs2) < tokens_left (qs_tokens qs)"
      using query_items.keeps_tokens [OF i] ok(3) q tok by simp
    have r: "poll_item env query_item qs = (case i of Some item \<Rightarrow> (Ok (Some item), qs2) | None \<Rightarrow> poll_item env query_item qs2)"
      using query_items.poll_round [OF tok_ok] n q tok i by (auto split: option.split)
    show ?thesis
    proof (cases i)
      case None
      then show ?thesis using less(1) [OF lt 2(1)] less(3) r by simp
    qed (use less(3) r 2 in auto)
  next
    case False
    then obtain e where stop: "item = None \<or> item = Some (Inl e)" by (cases item) (auto, metis sum.exhaust)
    have "poll_item env query_item qs = (Ok (map_option (map_sum id undefined) item), qs\<lparr>qs_tokens := tk\<rparr>)"
      using query_items.poll_stop [of env qs item tk e] n q stop by simp
    then show ?thesis using less(3) stop inv(2) [OF stop] ok by (auto simp: qs_inv_def)
  qed
qed

lemma peek_typed:
  assumes "qs_inv qs" "peek_loop env stop qs = (r, qs')"
    "\<And>tok q q'. stop tok q = Some q' \<Longrightarrow> qs_inv q \<Longrightarrow> tk_peeked (qs_tokens q) = Some (Inr tok) \<Longrightarrow> qs_inv q'"
    "\<And>tok q. stop tok q = None \<Longrightarrow> \<not> is_header tok"
  shows "qs_inv qs'"
  using assms(1,2)
proof (induction "tokens_left (qs_tokens qs)" arbitrary: qs rule: less_induct)
  case less
  have tok_ok: "tokens_ok (qs_tokens qs)" using less(2) by (simp add: qs_inv_def)
  obtain q tk where n: "next_token env (qs_tokens qs) = (q, tk)" by (cases "next_token env (qs_tokens qs)") auto
  note ok = next_token_ok [OF tok_ok n]
  obtain item where q: "q = Ok item" using ok(2) by blast
  note inv = next_token_inv [OF less(2) n [unfolded q]]
  note round = peek_round [OF tok_ok, of env stop, unfolded n q]
  show ?case
  proof (cases "\<exists>tok. item = Some (Inr tok)")
    case True
    then obtain tok where tok: "item = Some (Inr tok)" by blast
    let ?q = "qs\<lparr>qs_tokens := tk\<lparr>tk_peeked := Some (Inr tok)\<rparr>\<rparr>" and ?rest = "qs\<lparr>qs_tokens := tk\<rparr>"
    have held: "qs_inv ?q" using inv(1) [OF tok] ok(1) by (cases tok) (auto simp: qs_inv_def tokens_ok_def agree_def)
    have lt: "tokens_left (qs_tokens ?rest) < tokens_left (qs_tokens qs)" using ok(3) q tok by simp
    show ?thesis
    proof (cases "stop tok ?q")
      case None
      then have "\<not> is_header tok" by (rule assms(4))
      then have "agree ?rest" using inv(1) [OF tok] by (cases tok) auto
      then have "qs_inv ?rest" using inv(1) [OF tok] ok(1,4) by (simp add: qs_inv_def)
      then show ?thesis using less(1) [OF lt] less(3) round tok None by simp
    next
      case (Some q2)
      then show ?thesis using assms(3) [OF Some held] less(3) round tok by simp
    qed
  next
    case False
    then obtain e where stop: "item = None \<or> item = Some (Inl e)" by (cases item) (auto, metis sum.exhaust)
    then show ?thesis using less(3) round inv(2) [OF stop] ok by (auto simp: qs_inv_def tokens_ok_def)
  qed
qed

inductive query_reach :: "value_env \<Rightarrow> TokenStream \<Rightarrow> QueryStream \<Rightarrow> bool" for env ts where
  reach_new: "query_reach env ts (QueryStream_new ts)"
| reach_forward: "query_reach env ts qs \<Longrightarrow> forward_to_metadata env qs = (r, qs') \<Longrightarrow> query_reach env ts qs'"
| reach_columns: "query_reach env ts qs \<Longrightarrow> query_columns env qs = (r, qs') \<Longrightarrow> query_reach env ts qs'"
| reach_poll: "query_reach env ts qs \<Longrightarrow> QueryStream_poll_next env qs = (item, qs') \<Longrightarrow> query_reach env ts qs'"

lemma at_columns_stop: "at_columns tok q = None \<Longrightarrow> \<not> is_header tok"
  by (cases tok) simp_all

lemma at_columns_inv:
  assumes "at_columns tok q = Some q'" "qs_inv q" "tk_peeked (qs_tokens q) = Some (Inr tok)"
  shows "qs_inv q'"
proof (cases tok)
  case (NewResultset m)
  then show ?thesis using assms by (auto simp: qs_inv_def split: if_splits)
qed (use assms in auto)

lemma query_reach_inv: "query_reach env ts qs \<Longrightarrow> ts_ok ts \<Longrightarrow> qs_inv qs"
proof (induction rule: query_reach.induct)
  case reach_new
  then show ?case by (simp add: qs_inv_def QueryStream_new_def Tokens_new_def tokens_ok_def agree_def)
next
  case (reach_forward qs r qs')
  show ?case
    by (rule peek_typed [of qs env at_metadata r])
      (use reach_forward in \<open>auto simp: forward_to_metadata_def at_metadata_header split: if_splits\<close>)
next
  case (reach_columns qs r qs')
  obtain q qs1 where p: "peek_loop env at_columns qs = (q, qs1)" by (cases "peek_loop env at_columns qs") auto
  with reach_columns(2) have "qs1 = qs'" by (cases q) (auto simp: query_columns_def thenR_def bindR_def)
  moreover have "qs_inv qs1"
    by (rule peek_typed [OF _ p]) (use reach_columns at_columns_inv at_columns_stop in blast)+
  ultimately show ?case by simp
next
  case (reach_poll qs item qs')
  then show ?case using poll_typed by (auto simp: QueryStream_poll_next_def)
qed

text \<open>C17: Rows are well typed. However the caller mixes looking at the columns and reading items, every row that a query stream delivers from a response (of packets, the marked last one not empty) has exactly one cell for
  each of its columns, the cell is of a variant that the type of the column allows, access by a valid position succeeds, and access by the name of a column gives the cell
  of the first column of that name.\<close>

theorem row_well_typed:
  assumes "ts_ok ts" "query_reach env ts qs" "QueryStream_poll_next env qs = (Ok (Some (Inr (QRow row))), qs')"
  shows "length (row_data row) = length (row_columns row) \<and>
    (\<forall>i<length (row_columns row). \<exists>v. get_column_data (ByPos i) row = Ok v \<and> cell_typed (col_type (row_columns row ! i)) v) \<and>
    (\<forall>c\<in>set (row_columns row). \<exists>i<length (row_columns row). col_name (row_columns row ! i) = col_name c \<and>
       (\<forall>j<i. col_name (row_columns row ! j) \<noteq> col_name c) \<and> get_column_data (ByName (col_name c)) row = get_column_data (ByPos i) row)"
proof -
  have t: "row_typed row" using poll_typed [OF query_reach_inv [OF assms(2,1)]] assms(3) by (auto simp: QueryStream_poll_next_def)
  have "\<exists>i<length (row_columns row). col_name (row_columns row ! i) = col_name c \<and> (\<forall>j<i. col_name (row_columns row ! j) \<noteq> col_name c) \<and>
      get_column_data (ByName (col_name c)) row = get_column_data (ByPos i) row" if "c \<in> set (row_columns row)" for c
    using row_typed_name [OF t that] row_typed_cell(1) [OF t] by auto
  moreover have "length (row_data row) = length (row_columns row)" using t by (auto simp: row_typed_def dest: list_all2_lengthD)
  ultimately show ?thesis using row_typed_cell [OF t] by blast
qed

theorem row_well_typed_witness:
  "\<forall>env. \<exists>qs row qs'. query_reach env one_row qs \<and> QueryStream_poll_next env qs = (Ok (Some (Inr (QRow row))), qs') \<and>
     length (row_columns row) = 1 \<and> get_column_data (ByPos 0) row = Ok (CI32 (Some 7)) \<and> cell_typed ColInt4 (CI32 (Some 7))"
proof
  fix env
  let ?row = "\<lparr>row_columns = meta_columns one_meta, row_data = [CI32 (Some 7)], row_result_index = 0\<rparr>"
  obtain t1 t2 where t: "receive env one_row = (Ok (Some (NewResultset one_meta)), t1)" "receive env t1 = (Ok (Some (RowToken [CI32 (Some 7)])), t2)"
    using one_row_tokens(1,2) [of env] by (cases "receive env one_row"; cases "receive env (snd (receive env one_row))") auto
  have ok: "tokens_ok (Tokens_new one_row)" "tokens_ok (Tokens_new t1)"
    using one_row_ok token_op_unary(1) [OF op_receive one_row_ok t(1)] by (simp_all add: tokens_ok_def Tokens_new_def)
  have n: "next_token env (Tokens_new one_row) = (Ok (Some (Inr (NewResultset one_meta))), Tokens_new t1)"
    "next_token env (Tokens_new t1) = (Ok (Some (Inr (RowToken [CI32 (Some 7)]))), Tokens_new t2)"
    using t by (simp_all add: next_token_def unfold_next_def Tokens_new_def)
  define qs where "qs = \<lparr>qs_tokens = Tokens_new t1, qs_columns = Some (meta_columns one_meta), qs_result_set_index = Some 0\<rparr>"
  have "\<exists>i. QueryStream_poll_next env (QueryStream_new one_row) = (i, qs)"
    using query_items.poll_round [of "QueryStream_new one_row" env "NewResultset one_meta" "Tokens_new t1"] ok n
    by (simp add: QueryStream_poll_next_def QueryStream_new_def header_item_def Let_def qs_def)
  then have reach: "query_reach env one_row qs" using reach_poll [OF reach_new] by blast
  have "\<exists>qs'. QueryStream_poll_next env qs = (Ok (Some (Inr (QRow ?row))), qs')"
    using query_items.poll_round [of qs env "RowToken [CI32 (Some 7)]" "Tokens_new t2"] ok n
    by (simp add: QueryStream_poll_next_def row_item_def qs_def)
  then obtain qs' where poll: "QueryStream_poll_next env qs = (Ok (Some (Inr (QRow ?row))), qs')" by blast
  have cols: "meta_columns one_meta = [\<lparr>col_name = [], col_type = ColInt4\<rparr>]" by (simp add: meta_columns_def one_meta_def Column_new_def)
  have "\<exists>v. get_column_data (ByPos 0) ?row = Ok v \<and> cell_typed ColInt4 v"
    using row_well_typed [OF one_row_ok reach poll] by (simp add: cols)
  then have "get_column_data (ByPos 0) ?row = Ok (CI32 (Some 7))" "cell_typed ColInt4 (CI32 (Some 7))"
    by (auto simp: get_column_data_def cols)
  moreover have "length (row_columns ?row) = 1" by (simp add: cols)
  ultimately show "\<exists>qs row qs'. query_reach env one_row qs \<and> QueryStream_poll_next env qs = (Ok (Some (Inr (QRow row))), qs') \<and>
     length (row_columns row) = 1 \<and> get_column_data (ByPos 0) row = Ok (CI32 (Some 7)) \<and> cell_typed ColInt4 (CI32 (Some 7))"
    using reach poll by blast
qed

end
