(* ===== verification/Tds_Handshake.thy ===== *)
theory Tds_Handshake
  imports Tds_Config
begin

text \<open>
  The handshake of \<^verbatim>\<open>client/connection.rs\<close>: prelogin, TLS, login. The TLS library, the security libraries of the platform and the
  network are parameters: \<open>he_tls\<close> is the outcome of the TLS handshake with the packets that the encrypted stream will
  yield, \<open>he_raw_again\<close> what the bare stream yields once TLS is dropped after the login. A write records
  whether it went through TLS, so what an eavesdropper sees is the entries of \<open>conn_out\<close> marked as plain.
\<close>

record handshake_env =
  he_value :: value_env
  he_host_name :: rstring
  he_tls :: "Config \<Rightarrow> Packet res list res"
  he_raw_again :: "Packet res list"
  he_gss_init :: "rstring \<Rightarrow> bytes option res" \<comment> \<open>service principal\<close>
  he_gss_step :: "rstring \<Rightarrow> bytes \<Rightarrow> bytes option res"
  he_ntlm_negotiate :: "AuthMethod \<Rightarrow> rstring \<Rightarrow> bytes res" \<comment> \<open>identity, service principal\<close>
  he_ntlm_authenticate :: "AuthMethod \<Rightarrow> rstring \<Rightarrow> bytes \<Rightarrow> bytes res"
  he_windows :: bool \<comment> \<open>a Windows build, where the crate \<^verbatim>\<open>winauth\<close> computes the tokens\<close>
  he_win_first :: "AuthMethod \<Rightarrow> rstring \<Rightarrow> bytes option res"
  he_win_next :: "AuthMethod \<Rightarrow> rstring \<Rightarrow> bytes \<Rightarrow> bytes option res"

section \<open>Prelogin\<close>

text \<open>\<^verbatim>\<open>context.next_packet_id()\<close> before a request\<close>

definition with_packet_id :: "(u8 \<Rightarrow> (Connection, 'a) comp) \<Rightarrow> (Connection, 'a) comp" where
  "with_packet_id f c = (case next_packet_id (conn_context c) of (i, ctx) \<Rightarrow> f i (c\<lparr>conn_context := ctx\<rparr>))"

definition with_conn_context :: "(Context \<Rightarrow> (Connection, 'a) comp) \<Rightarrow> (Connection, 'a) comp" where
  "with_conn_context f c = f (conn_context c) c"

text \<open>The thread id of the answer is checked by a \<^verbatim>\<open>debug_assert\<close>.\<close>

definition prelogin_exchange :: "EncryptionLevel \<Rightarrow> bool \<Rightarrow> rstring option \<Rightarrow> (Connection, PreloginMessage) comp" where
  "prelogin_exchange encryption fed_auth_required inst =
     (let msg = PreloginMessage_new\<lparr>pl_encryption := encryption, pl_fed_auth_required := fed_auth_required, pl_instance_name := inst\<rparr> in
      thenR (with_packet_id (\<lambda>i. send (PacketHeader_pre_login i) (PreloginMessage_encode msg)))
     (bindR (conn_collect []) (\<lambda>buf.
      bindR (liftR (fst (PreloginMessage_decode buf))) (\<lambda>response.
      if pl_thread_id response \<noteq> 0 then panicR
      else thenR (liftR (validate_instance response inst)) (retR response)))))"

section \<open>TLS\<close>

fun tls_handshake :: "handshake_env \<Rightarrow> Config \<Rightarrow> EncryptionLevel \<Rightarrow> (Connection, unit) comp" where
  "tls_handshake env cfg EncNotSupported c = (Ok (), c)"
| "tls_handshake env cfg EncStrict c = (Ok (), c)"
| "tls_handshake env cfg _ c =
     (if conn_tls c then (Panic, c)
      else
        (case he_tls env cfg of
           Ok incoming \<Rightarrow>
             (Ok (), c\<lparr>conn_in := incoming, conn_tls := True, conn_flushed := False, conn_buf := [], conn_poisoned := False\<rparr>)
         | Err e \<Rightarrow> (Err e, c) | Panic \<Rightarrow> (Panic, c) | Diverge \<Rightarrow> (Diverge, c)))"

definition post_login_encryption :: "handshake_env \<Rightarrow> EncryptionLevel \<Rightarrow> (Connection, unit) comp" where
  "post_login_encryption env encryption c =
     (Ok (), if encryption = EncOff then c\<lparr>conn_in := he_raw_again env, conn_tls := False\<rparr> else c)"

text \<open>The variants of a build without a TLS backend.\<close>

definition check_tls_backend_available :: "EncryptionLevel \<Rightarrow> unit res" where
  "check_tls_backend_available encryption = (if encryption \<in> {EncOn, EncRequired, EncStrict} then Err Tls else Ok ())"

definition tls_handshake_no_tls :: "Config \<Rightarrow> (Connection, unit) comp" where
  "tls_handshake_no_tls cfg = liftR (check_tls_backend_available (cfg_encryption cfg))"

section \<open>Login\<close>

definition login_message_for :: "handshake_env \<Rightarrow> Config \<Rightarrow> LoginMessage" where
  "login_message_for env cfg =
     (let m = LoginMessage_new (he_host_name env);
          m = (case cfg_database cfg of Some db \<Rightarrow> login_db_name db m | None \<Rightarrow> m);
          m = (case cfg_host cfg of Some h \<Rightarrow> login_server_name h m | None \<Rightarrow> m);
          m = (case cfg_application_name cfg of Some a \<Rightarrow> login_app_name a m | None \<Rightarrow> m);
          m = (case cfg_client_name cfg of Some n \<Rightarrow> login_hostname n m | None \<Rightarrow> m);
          m = login_readonly (cfg_readonly cfg) m in
      (case cfg_packet_size cfg of Some sz \<Rightarrow> login_packet_size sz m | None \<Rightarrow> m))"

definition flush_sspi_conn :: "handshake_env \<Rightarrow> (Connection, bytes) comp" where
  "flush_sspi_conn env = on_tokens (flush_sspi (he_value env))"

definition send_login :: "LoginMessage \<Rightarrow> (Connection, unit) comp" where
  "send_login m = with_packet_id (\<lambda>i. send (PacketHeader_login i) (LoginMessage_encode m))"

definition send_secret_login :: "LoginMessage \<Rightarrow> (Connection, unit) comp" where
  "send_secret_login m =
     bindR (liftR (encode_to_boxed_slice m)) (\<lambda>payload. with_packet_id (\<lambda>i. send_sensitive_login (PacketHeader_login i) payload))"

text \<open>The two legs of a Windows build.\<close>

definition login_winauth :: "handshake_env \<Rightarrow> LoginMessage \<Rightarrow> AuthMethod \<Rightarrow> (u8 \<Rightarrow> PacketHeader) \<Rightarrow> EncryptionLevel \<Rightarrow> (Connection, unit) comp" where
  "login_winauth env m auth header encryption =
     with_conn_context (\<lambda>ctx.
     bindR (liftR (he_win_first env auth (Context_spn ctx))) (\<lambda>first.
     thenR (send_login (login_integrated_security first m))
    (thenR (post_login_encryption env encryption)
    (bindR (flush_sspi_conn env) (\<lambda>challenge.
     bindR (liftR (he_win_next env auth (Context_spn ctx) challenge)) (\<lambda>response.
     bindR (ok_or response (Protocol (ClientMsg NoNtlmResponse))) (\<lambda>sspi_response.
     with_packet_id (\<lambda>i. send (header i) (TokenSspi_encode sspi_response)))))))))"

text \<open>The last argument of \<^verbatim>\<open>login\<close> is the answer to the prelogin.\<close>

fun login :: "handshake_env \<Rightarrow> LoginMessage \<Rightarrow> AuthMethod \<Rightarrow> EncryptionLevel \<Rightarrow> PreloginMessage \<Rightarrow> (Connection, unit) comp" where
  "login env m IntegratedAuth encryption prelogin =
     (if he_windows env then login_winauth env m IntegratedAuth PacketHeader_sspi encryption else
     with_conn_context (\<lambda>ctx.
     bindR (liftR (he_gss_init env (Context_spn ctx))) (\<lambda>tok.
     bindR (ok_or tok (Protocol (ClientMsg NoGssToken))) (\<lambda>init_token.
     thenR (send_login (login_integrated_security (Some init_token) m))
    (thenR (post_login_encryption env encryption)
    (bindR (flush_sspi_conn env) (\<lambda>auth_bytes.
     bindR (liftR (he_gss_step env (Context_spn ctx) auth_bytes)) (\<lambda>response.
     with_packet_id (\<lambda>i. send (PacketHeader_login i) (TokenSspi_encode (case response of Some r \<Rightarrow> r | None \<Rightarrow> [])))))))))))"
| "login env m (WindowsAuth user password domain) encryption prelogin =
     (let identity = WindowsAuth user password domain in
      if he_windows env then login_winauth env m identity PacketHeader_login encryption else
      with_conn_context (\<lambda>ctx.
      bindR (liftR (he_ntlm_negotiate env identity (Context_spn ctx))) (\<lambda>negotiate.
      thenR (send_login (login_integrated_security (Some negotiate) m))
     (thenR (post_login_encryption env encryption)
     (bindR (flush_sspi_conn env) (\<lambda>challenge.
      bindR (liftR (he_ntlm_authenticate env identity (Context_spn ctx) challenge)) (\<lambda>authenticate.
      with_packet_id (\<lambda>i. send (PacketHeader_login i) (TokenSspi_encode authenticate)))))))))"
| "login env m NoAuth encryption prelogin =
     thenR (send_login m) (post_login_encryption env encryption)"
| "login env m (SqlServerAuth user password) encryption prelogin =
     thenR (send_secret_login (login_password password (login_user_name user m))) (post_login_encryption env encryption)"
| "login env m (AADToken token) encryption prelogin =
     thenR (send_secret_login (login_aad_token token (pl_fed_auth_required prelogin) (pl_nonce prelogin) m))
           (post_login_encryption env encryption)"

section \<open>The whole handshake\<close>

definition connect_context :: "Config \<Rightarrow> Context" where
  "connect_context cfg =
     set_lossy_codepage (cfg_lossy_codepage_decoding cfg) (set_lossy_utf16 (cfg_lossy_utf16_decoding cfg)
       (set_spn (get_host cfg) (get_port cfg) Context_new))"

definition is_aad :: "AuthMethod \<Rightarrow> bool" where
  "is_aad auth \<longleftrightarrow> (case auth of AADToken _ \<Rightarrow> True | _ \<Rightarrow> False)"

text \<open>\<^verbatim>\<open>establish\<close> after the transport was set up.\<close>

definition handshake :: "handshake_env \<Rightarrow> Config \<Rightarrow> (Connection, unit) comp" where
  "handshake env cfg =
     bindR (prelogin_exchange (cfg_encryption cfg) (is_aad (cfg_auth cfg)) (cfg_instance_name cfg)) (\<lambda>prelogin.
     bindR (liftR (PreloginMessage_negotiated_encryption prelogin (cfg_encryption cfg))) (\<lambda>encryption.
     thenR (tls_handshake env cfg encryption)
    (thenR (login env (login_message_for env cfg) (cfg_auth cfg) encryption prelogin)
    (bindR (on_tokens (flush_done (he_value env))) (\<lambda>_ c.
       (Ok (), c\<lparr>conn_context := set_command_timeout (cfg_command_timeout cfg) (conn_context c)\<rparr>))))))"

definition establish :: "handshake_env \<Rightarrow> Config \<Rightarrow> io_fate list \<Rightarrow> Packet res list \<Rightarrow> unit res \<times> Connection" where
  "establish env cfg fates incoming =
     (if cfg_encryption cfg = EncStrict then
        (case he_tls env cfg of
           Ok ins \<Rightarrow> handshake env cfg ((Connection_new True (connect_context cfg) ins)\<lparr>conn_fates := fates\<rparr>)
         | Err e \<Rightarrow> (Err e, Connection_new False (connect_context cfg) incoming)
         | Panic \<Rightarrow> (Panic, Connection_new False (connect_context cfg) incoming)
         | Diverge \<Rightarrow> (Diverge, Connection_new False (connect_context cfg) incoming))
      else handshake env cfg ((Connection_new False (connect_context cfg) incoming)\<lparr>conn_fates := fates\<rparr>))"

text \<open>\<^verbatim>\<open>with_optional_timeout\<close>: whichever is ready first, the work or the timer.\<close>

definition with_optional_timeout :: "nat option \<Rightarrow> bool \<Rightarrow> 'a res \<Rightarrow> 'a res" where
  "with_optional_timeout bound timer_first fut = (if bound \<noteq> None \<and> timer_first then Err (Io TimedOut) else fut)"

definition connect :: "handshake_env \<Rightarrow> Config \<Rightarrow> io_fate list \<Rightarrow> Packet res list \<Rightarrow> bool \<Rightarrow> unit res" where
  "connect env cfg fates incoming timer_first =
     with_optional_timeout (cfg_handshake_timeout cfg) timer_first (fst (establish env cfg fates incoming))"

section \<open>What goes out, and through what\<close>

text \<open>An operation that does not touch the transport only appends writes of the current kind.\<close>

definition grows :: "Connection \<Rightarrow> Connection \<Rightarrow> bool" where
  "grows c c' \<longleftrightarrow> conn_tls c' = conn_tls c \<and> (\<exists>out. conn_out c' = conn_out c @ map (Pair (conn_tls c)) out)"

definition speaks :: "(Connection, 'a) comp \<Rightarrow> bool" where
  "speaks m \<longleftrightarrow> (\<forall>c. grows c (snd (m c)))"

named_theorems speaks_intros "closure rules of the speaks predicate"

lemma grows_refl [simp]: "grows c c"
  by (auto simp: grows_def)

lemma grows_same: "conn_tls c' = conn_tls c \<Longrightarrow> conn_out c' = conn_out c \<Longrightarrow> grows c c'"
  by (auto simp: grows_def)

lemma grows_trans: "grows c c1 \<Longrightarrow> grows c1 c2 \<Longrightarrow> grows c c2"
proof -
  assume "grows c c1" "grows c1 c2"
  then obtain o1 o2 where "conn_tls c1 = conn_tls c" "conn_tls c2 = conn_tls c" "conn_out c1 = conn_out c @ map (Pair (conn_tls c)) o1"
      "conn_out c2 = conn_out c1 @ map (Pair (conn_tls c)) o2"
    by (auto simp: grows_def)
  then show ?thesis unfolding grows_def by (auto intro: exI [of _ "o1 @ o2"])
qed

lemma speaks_basic [speaks_intros]: "speaks (retR a)" "speaks (errR e)" "speaks panicR" "speaks (liftR r)" "speaks (ok_or x e)"
  by (auto simp: speaks_def retR_def errR_def panicR_def liftR_def ok_or_def split: option.split)

lemma speaks_bindR [speaks_intros]: "speaks m \<Longrightarrow> (\<And>a. speaks (f a)) \<Longrightarrow> speaks (bindR m f)"
  unfolding speaks_def bindR_def by (auto split: prod.split res.split intro: grows_trans)

lemma speaks_thenR [speaks_intros]: "speaks m \<Longrightarrow> speaks k \<Longrightarrow> speaks (thenR m k)"
  unfolding thenR_def by (rule speaks_bindR)

lemma speaks_if [speaks_intros]: "speaks m \<Longrightarrow> speaks k \<Longrightarrow> speaks (if b then m else k)"
  by simp

lemma speaks_eachR [speaks_intros]: "(\<And>x. speaks (f x)) \<Longrightarrow> speaks (eachR f xs)"
  by (induction xs) (auto intro: speaks_intros)

lemma speaks_steps [speaks_intros]:
  "speaks ensure_not_poisoned" "speaks poison" "speaks unpoison" "speaks (set_flushed b)" "speaks payload_size" "speaks (encode_item item)"
  by (auto simp: speaks_def ensure_not_poisoned_def poison_def unpoison_def set_flushed_def payload_size_def encode_item_def grows_def split: prod.split)

lemma speaks_await [speaks_intros]: "speaks (await_write bs)"
  unfolding speaks_def grows_def await_write_def
  by (auto split: list.split io_fate.split intro: exI [of _ "[bs]"] exI [of _ "[take _ bs]"])

lemma speaks_write [speaks_intros]: "speaks (write_to_wire h bs)"
  unfolding write_to_wire_def by (intro speaks_intros) (auto split: prod.split res.split intro: speaks_intros)

lemma speaks_flush_sink [speaks_intros]: "speaks flush_sink"
  unfolding flush_sink_def by (rule speaks_await)

lemma speaks_send_packets [speaks_intros]: "speaks (send_packets h n payload)"
proof (induction h n payload rule: send_packets.induct)
  case (1 h n payload)
  show ?case by (subst send_packets.simps) (auto simp: Let_def intro!: speaks_intros 1)
qed

lemma speaks_send [speaks_intros]: "speaks (send h item)"
  unfolding send_def by (intro speaks_intros)

lemma speaks_send_login [speaks_intros]: "speaks (send_sensitive_login h payload)"
  unfolding send_sensitive_login_def by (intro speaks_intros)

lemma speaks_packet_id [speaks_intros]: "(\<And>i. speaks (f i)) \<Longrightarrow> speaks (with_packet_id f)"
proof -
  assume f: "\<And>i. speaks (f i)"
  have "grows c (snd (f i (c\<lparr>conn_context := ctx\<rparr>)))" for c i ctx
  proof (rule grows_trans)
    show "grows c (c\<lparr>conn_context := ctx\<rparr>)" by (rule grows_same) simp_all
    show "grows (c\<lparr>conn_context := ctx\<rparr>) (snd (f i (c\<lparr>conn_context := ctx\<rparr>)))" using f by (simp add: speaks_def)
  qed
  then show ?thesis by (simp add: speaks_def with_packet_id_def split_def)
qed

lemma speaks_with_context [speaks_intros]: "(\<And>ctx. speaks (f ctx)) \<Longrightarrow> speaks (with_conn_context f)"
  by (simp add: speaks_def with_conn_context_def)

lemma grows_next: "grows c (snd (conn_next c))"
  by (auto simp: conn_next_def grows_def split: list.split res.split)

lemma speaks_collect [speaks_intros]: "speaks (conn_collect buf)"
proof -
  have "grows c (snd (conn_collect buf c))" for c
  proof (induction buf c rule: conn_collect.induct)
    case (1 buf c)
    show ?case using 1 grows_next [of c]
      by (subst conn_collect.simps) (auto split: prod.split res.split option.split if_splits intro: grows_trans)
  qed
  then show ?thesis by (simp add: speaks_def)
qed

text \<open>The token stream writes nothing.\<close>

definition quiet :: "(TokenStream, 'a) comp \<Rightarrow> bool" where
  "quiet m \<longleftrightarrow> (\<forall>ts. conn_out (ts_conn (snd (m ts))) = conn_out (ts_conn ts) \<and> conn_tls (ts_conn (snd (m ts))) = conn_tls (ts_conn ts))"

named_theorems quiet_intros "closure rules of the quiet predicate"

lemma quiet_basic [quiet_intros]: "quiet (retR a)" "quiet (errR e)" "quiet (ok_or x e)" "quiet (ts_update f)" "quiet (ts_note_error e)"
  by (auto simp: quiet_def retR_def errR_def ok_or_def ts_update_def ts_note_error_def split: option.split)

lemma quiet_read [quiet_intros]: "quiet (ts_read m)"
  by (auto simp: quiet_def ts_read_def over_conn_def skip_bytes_def pulled_def Let_def split: prod.split)

lemma quiet_bindR [quiet_intros]: "quiet m \<Longrightarrow> (\<And>a. quiet (f a)) \<Longrightarrow> quiet (bindR m f)"
  unfolding quiet_def bindR_def by (auto split: prod.split res.split) (metis snd_conv)+

lemma quiet_thenR [quiet_intros]: "quiet m \<Longrightarrow> quiet k \<Longrightarrow> quiet (thenR m k)"
  unfolding thenR_def by (rule quiet_bindR)

lemma quiet_with_context [quiet_intros]: "(\<And>ctx. quiet (f ctx)) \<Longrightarrow> quiet (ts_with_context f)"
  by (simp add: quiet_def ts_with_context_def)

lemma quiet_env_change [quiet_intros]: "quiet (env_change_effect change)"
  by (cases change) (auto intro: quiet_intros)

lemma quiet_get_token [quiet_intros]: "quiet (get_token env ty)"
  by (cases ty) (simp_all add: handler_defs, (intro quiet_intros)+)

lemma quiet_receive [quiet_intros]: "quiet (receive env)"
proof -
  have "quiet (bindR (ts_read read_u8) (\<lambda>ty_byte.
        bindR (ok_or (TokenType_try_from ty_byte) (Protocol (StreamMsg (InvalidTokenType ty_byte)))) (\<lambda>ty.
        bindR (get_token env ty) (\<lambda>token. retR (Some token)))))" by (intro quiet_intros)
  then show ?thesis by (auto simp: quiet_def receive_def split: option.split)
qed

lemma quietD: "quiet m \<Longrightarrow> m ts = (r, ts') \<Longrightarrow> conn_out (ts_conn ts') = conn_out (ts_conn ts) \<and> conn_tls (ts_conn ts') = conn_tls (ts_conn ts)"
  unfolding quiet_def by (metis snd_conv)

lemma quiet_token_loop [quiet_intros]: "quiet (token_loop env body x)"
proof -
  have "conn_out (ts_conn (snd (token_loop env body x ts))) = conn_out (ts_conn ts) \<and>
        conn_tls (ts_conn (snd (token_loop env body x ts))) = conn_tls (ts_conn ts)" for ts
  proof (induction env body x ts rule: token_loop.induct)
    case (1 env body x ts)
    obtain r ts' where r: "receive env ts = (r, ts')" by (cases "receive env ts")
    note q = quietD [OF quiet_receive r]
    show ?case
    proof (cases r)
      case (Ok tok)
      show ?thesis
      proof (cases "body x tok")
        case (Inl x')
        show ?thesis
        proof (cases "length (ts_stream ts') < length (ts_stream ts)")
          case True
          then have e: "token_loop env body x ts = token_loop env body x' ts'" using r Ok Inl by (simp add: token_loop.simps)
          show ?thesis using "1.IH" [OF r [symmetric] Ok Inl True] q unfolding e by simp
        qed (use r Ok Inl q in \<open>simp add: token_loop.simps\<close>)
      qed (use r Ok q in \<open>simp add: token_loop.simps\<close>)
    qed (use r q in \<open>simp_all add: token_loop.simps\<close>)
  qed
  then show ?thesis by (simp add: quiet_def)
qed

lemma speaks_on_tokens [speaks_intros]: "quiet m \<Longrightarrow> speaks (on_tokens m)"
  unfolding speaks_def
proof
  fix c
  assume q: "quiet m"
  obtain r ts where r: "m (TokenStream_new c) = (r, ts)" by (cases "m (TokenStream_new c)")
  show "grows c (snd (on_tokens m c))"
    using quietD [OF q r] r by (auto simp: on_tokens_def TokenStream_new_def intro!: grows_same)
qed

lemma quiet_flush [quiet_intros]: "quiet (flush_done env)" "quiet (flush_sspi env)" "quiet (flush_done_attention env)"
  unfolding flush_done_def flush_sspi_def flush_done_attention_def by (intro quiet_intros)+

section \<open>Credentials\<close>

text \<open>What an eavesdropper sees.\<close>

definition plain_out :: "Connection \<Rightarrow> bytes list" where
  "plain_out c = map snd (filter (\<lambda>w. \<not> fst w) (conn_out c))"

definition shielded :: "(Connection, 'a) comp \<Rightarrow> bool" where
  "shielded m \<longleftrightarrow> (\<forall>c. conn_tls c \<longrightarrow> plain_out (snd (m c)) = plain_out c)"

definition mute :: "(Connection, 'a) comp \<Rightarrow> bool" where
  "mute m \<longleftrightarrow> (\<forall>c. conn_out (snd (m c)) = conn_out c)"

lemma grows_tls: "grows c c' \<Longrightarrow> conn_tls c \<Longrightarrow> plain_out c' = plain_out c"
  by (auto simp: grows_def plain_out_def filter_map o_def)

lemma speaks_grows: "speaks m \<Longrightarrow> m c = (r, c') \<Longrightarrow> grows c c'"
  unfolding speaks_def by (metis snd_conv)

lemma shielded_speaks: "speaks m \<Longrightarrow> shielded m"
  by (simp add: speaks_def shielded_def grows_tls)

lemma shielded_mute: "mute m \<Longrightarrow> shielded m"
  by (simp add: mute_def shielded_def plain_out_def)

lemma shielded_bindR: "speaks m \<Longrightarrow> (\<And>a. shielded (f a)) \<Longrightarrow> shielded (bindR m f)"
  unfolding shielded_def
proof (intro allI impI)
  fix c :: Connection
  assume m: "speaks m" and f: "\<And>a. \<forall>c. conn_tls c \<longrightarrow> plain_out (snd (f a c)) = plain_out c" and t: "conn_tls c"
  obtain r c' where r: "m c = (r, c')" by (cases "m c")
  note g = speaks_grows [OF m r]
  then have "conn_tls c'" "plain_out c' = plain_out c" using t by (simp_all add: grows_def grows_tls)
  then show "plain_out (snd (bindR m f c)) = plain_out c" using r f by (cases r) (simp_all add: bindR_def)
qed

lemma mute_bindR: "mute m \<Longrightarrow> (\<And>a. mute (f a)) \<Longrightarrow> mute (bindR m f)"
  unfolding mute_def
proof
  fix c
  assume m: "\<forall>c. conn_out (snd (m c)) = conn_out c" and f: "\<And>a. \<forall>c. conn_out (snd (f a c)) = conn_out c"
  obtain r c' where r: "m c = (r, c')" by (cases "m c")
  then have "conn_out c' = conn_out c" using m by (metis snd_conv)
  then show "conn_out (snd (bindR m f c)) = conn_out c" using r f by (cases r) (simp_all add: bindR_def)
qed

lemma mute_on_tokens: "quiet m \<Longrightarrow> mute (on_tokens m)"
  by (auto simp: mute_def on_tokens_def TokenStream_new_def dest!: quietD split: prod.split)

lemma mute_post_login: "mute (post_login_encryption env e)"
  by (simp add: mute_def post_login_encryption_def)

lemma speaks_post_login [speaks_intros]: "e \<noteq> EncOff \<Longrightarrow> speaks (post_login_encryption env e)"
  by (simp add: speaks_def post_login_encryption_def)

lemma speaks_logins [speaks_intros]: "speaks (send_login m)" "speaks (send_secret_login m)" "speaks (flush_sspi_conn env)"
  unfolding send_login_def send_secret_login_def flush_sspi_conn_def by (intro speaks_intros quiet_intros)+

lemma speaks_winauth [speaks_intros]: "e \<noteq> EncOff \<Longrightarrow> speaks (login_winauth env m auth h e)"
  unfolding login_winauth_def by (intro speaks_intros)

lemma speaks_login: "e \<noteq> EncOff \<Longrightarrow> speaks (login env m auth e prelogin)"
  by (cases auth) (auto simp: Let_def intro!: speaks_intros)

lemma speaks_prelogin [speaks_intros]: "speaks (prelogin_exchange e fed inst)"
  unfolding prelogin_exchange_def Let_def by (intro speaks_intros)

text \<open>What follows the TLS handshake.\<close>

definition login_phase :: "handshake_env \<Rightarrow> Config \<Rightarrow> EncryptionLevel \<Rightarrow> PreloginMessage \<Rightarrow> (Connection, unit) comp" where
  "login_phase env cfg e prelogin =
     thenR (login env (login_message_for env cfg) (cfg_auth cfg) e prelogin)
    (bindR (on_tokens (flush_done (he_value env))) (\<lambda>_ c.
       (Ok (), c\<lparr>conn_context := set_command_timeout (cfg_command_timeout cfg) (conn_context c)\<rparr>)))"

lemma speaks_set_timeout [speaks_intros]: "speaks (\<lambda>c. (Ok (), c\<lparr>conn_context := f (conn_context c)\<rparr>))"
  by (simp add: speaks_def grows_same)

lemma speaks_login_phase: "e \<noteq> EncOff \<Longrightarrow> speaks (login_phase env cfg e p)"
  unfolding login_phase_def by (intro speaks_intros quiet_intros speaks_login)

text \<open>The authentication methods whose login is a single message.\<close>

definition one_message :: "AuthMethod \<Rightarrow> bool" where
  "one_message auth \<longleftrightarrow> (case auth of SqlServerAuth _ _ \<Rightarrow> True | AADToken _ \<Rightarrow> True | NoAuth \<Rightarrow> True | _ \<Rightarrow> False)"

lemma one_message_login:
  assumes "one_message (cfg_auth cfg)"
  obtains s where "speaks s" "login env m (cfg_auth cfg) e p = thenR s (post_login_encryption env e)"
  using assms by (cases "cfg_auth cfg") (auto simp: one_message_def intro: speaks_logins)

lemma shielded_login_phase:
  assumes "e \<noteq> EncOff \<or> one_message (cfg_auth cfg)"
  shows "shielded (login_phase env cfg e p)"
proof (cases "e = EncOff")
  case True
  with assms obtain s where s: "speaks s"
      "login env (login_message_for env cfg) (cfg_auth cfg) e p = thenR s (post_login_encryption env e)"
    using one_message_login by blast
  have "mute (bindR (post_login_encryption env e) (\<lambda>_. bindR (on_tokens (flush_done (he_value env))) (\<lambda>_ c.
       (Ok (), c\<lparr>conn_context := set_command_timeout (cfg_command_timeout cfg) (conn_context c)\<rparr>))))"
    by (intro mute_bindR mute_post_login mute_on_tokens quiet_flush) (simp add: mute_def)
  then show ?thesis
    unfolding login_phase_def s(2) thenR_def bindR_assoc by (intro shielded_bindR s shielded_mute)
next
  case False
  then show ?thesis by (intro shielded_speaks speaks_login_phase)
qed

definition start_connection :: "Config \<Rightarrow> bool \<Rightarrow> io_fate list \<Rightarrow> Packet res list \<Rightarrow> Connection" where
  "start_connection cfg tls fates incoming = (Connection_new tls (connect_context cfg) incoming)\<lparr>conn_fates := fates\<rparr>"

lemma handshake_phases:
  "handshake env cfg =
     bindR (prelogin_exchange (cfg_encryption cfg) (is_aad (cfg_auth cfg)) (cfg_instance_name cfg)) (\<lambda>p.
     bindR (liftR (PreloginMessage_negotiated_encryption p (cfg_encryption cfg))) (\<lambda>e.
     thenR (tls_handshake env cfg e) (login_phase env cfg e p)))"
  by (simp add: handshake_def login_phase_def)

lemma negotiated_cases:
  assumes "PreloginMessage_negotiated_encryption p lvl = Ok e" "lvl \<noteq> EncNotSupported"
  shows "e = EncStrict \<and> lvl = EncStrict \<or> e = EncOn \<and> lvl \<noteq> EncStrict \<or> e = EncOff \<and> lvl = EncOff"
  using assms by (cases lvl; cases "pl_encryption p") (simp_all add: PreloginMessage_negotiated_encryption_def)

lemma tls_then_shielded:
  assumes c: "\<not> conn_tls c" and e: "e \<in> {EncOn, EncOff}" and k: "shielded k"
  shows "plain_out (snd (thenR (tls_handshake env cfg e) k c)) = plain_out c"
proof (cases "he_tls env cfg")
  case (Ok incoming)
  let ?c = "c\<lparr>conn_in := incoming, conn_tls := True, conn_flushed := False, conn_buf := [], conn_poisoned := False\<rparr>"
  have "thenR (tls_handshake env cfg e) k c = k ?c" using c e Ok by (auto simp: thenR_def bindR_def)
  moreover have "plain_out (snd (k ?c)) = plain_out ?c" using k by (simp add: shielded_def)
  ultimately show ?thesis by (simp add: plain_out_def)
qed (use c e in \<open>auto simp: thenR_def bindR_def\<close>)

lemma tls_then_keeps:
  assumes "\<not> conn_tls c" "speaks k" "thenR (tls_handshake env cfg EncOn) k c = (Ok (), c')"
  shows "conn_tls c'"
proof -
  obtain incoming where "k (c\<lparr>conn_in := incoming, conn_tls := True, conn_flushed := False, conn_buf := [], conn_poisoned := False\<rparr>) = (Ok (), c')"
    using assms(1,3) by (cases "he_tls env cfg") (auto simp: thenR_def bindR_def)
  from speaks_grows [OF assms(2) this] show ?thesis by (simp add: grows_def)
qed

text \<open>The handshake over a bare stream, and over a stream that already is encrypted.\<close>

lemma handshake_plain:
  assumes c: "\<not> conn_tls c" and lvl: "cfg_encryption cfg \<in> {EncOn, EncRequired} \<or> cfg_encryption cfg = EncOff \<and> one_message (cfg_auth cfg)"
  shows "plain_out (snd (handshake env cfg c)) =
           plain_out (snd (prelogin_exchange (cfg_encryption cfg) (is_aad (cfg_auth cfg)) (cfg_instance_name cfg) c)) \<and>
         (cfg_encryption cfg \<noteq> EncOff \<longrightarrow> fst (handshake env cfg c) = Ok () \<longrightarrow> conn_tls (snd (handshake env cfg c)))"
proof -
  let ?pre = "prelogin_exchange (cfg_encryption cfg) (is_aad (cfg_auth cfg)) (cfg_instance_name cfg)"
  obtain r c1 where r: "?pre c = (r, c1)" by (cases "?pre c")
  have c1: "\<not> conn_tls c1" using speaks_grows [OF speaks_prelogin r] c by (simp add: grows_def)
  show ?thesis
  proof (cases "\<exists>p e. r = Ok p \<and> PreloginMessage_negotiated_encryption p (cfg_encryption cfg) = Ok e")
    case True
    then obtain p e where p: "r = Ok p" and e: "PreloginMessage_negotiated_encryption p (cfg_encryption cfg) = Ok e" by blast
    have h: "handshake env cfg c = thenR (tls_handshake env cfg e) (login_phase env cfg e p) c1"
      using r p e by (simp add: handshake_phases bindR_def liftR_def)
    have e': "e = EncOn \<or> e = EncOff \<and> cfg_encryption cfg = EncOff" using negotiated_cases [OF e] lvl by auto
    then have "shielded (login_phase env cfg e p)" using lvl by (intro shielded_login_phase) auto
    then have "plain_out (snd (handshake env cfg c)) = plain_out c1" unfolding h using c1 e' by (intro tls_then_shielded) auto
    moreover have "conn_tls (snd (handshake env cfg c))" if "cfg_encryption cfg \<noteq> EncOff" "fst (handshake env cfg c) = Ok ()"
      using tls_then_keeps [OF c1 speaks_login_phase [of EncOn]] e' that h by (metis EncryptionLevel.distinct(1) prod.collapse)
    ultimately show ?thesis using r by simp
  next
    case False
    then show ?thesis using r by (cases r) (auto simp: handshake_phases bindR_def liftR_def split: res.split)
  qed
qed

lemma handshake_strict:
  assumes "conn_tls c" "cfg_encryption cfg = EncStrict"
  shows "plain_out (snd (handshake env cfg c)) = plain_out c \<and> conn_tls (snd (handshake env cfg c))"
proof -
  have "speaks (thenR (tls_handshake env cfg EncStrict) (login_phase env cfg EncStrict p))" for p
  proof -
    have "speaks (tls_handshake env cfg EncStrict)" by (simp add: speaks_def)
    then show ?thesis by (intro speaks_thenR speaks_login_phase) simp_all
  qed
  moreover have "bindR (liftR (PreloginMessage_negotiated_encryption p EncStrict)) f = f EncStrict" for p and f :: "_ \<Rightarrow> (Connection, unit) comp"
    by (simp add: PreloginMessage_negotiated_encryption_def fun_eq_iff bindR_def liftR_def)
  ultimately have "speaks (handshake env cfg)"
    unfolding handshake_phases assms(2) by (auto intro!: speaks_bindR speaks_prelogin)
  then show ?thesis using assms(1) by (auto simp: speaks_def grows_tls) (simp add: grows_def)
qed

text \<open>C3: Credentials never travel in the clear. When encryption is on, required or strict, and also when it is off and the
  login is a single message (a password, a token), the only bytes that establishing a connection ever writes outside TLS are those of
  the prelogin exchange, whatever the server answers and however the writes end; they depend on the authentication method only by whether
  it is a token, and in strict mode there are none. With encryption on, required or strict the connection that is returned is encrypted.\<close>

theorem credentials_over_tls:
  assumes "cfg_encryption cfg \<in> {EncOn, EncRequired, EncStrict} \<or> cfg_encryption cfg = EncOff \<and> one_message (cfg_auth cfg)"
  shows "plain_out (snd (establish env cfg fates incoming)) =
           (if cfg_encryption cfg = EncStrict then []
            else plain_out (snd (prelogin_exchange (cfg_encryption cfg) (is_aad (cfg_auth cfg)) (cfg_instance_name cfg)
                   (start_connection cfg False fates incoming)))) \<and>
         (cfg_encryption cfg \<noteq> EncOff \<longrightarrow> fst (establish env cfg fates incoming) = Ok () \<longrightarrow>
            conn_tls (snd (establish env cfg fates incoming)))"
proof (cases "cfg_encryption cfg = EncStrict")
  case True
  have "plain_out (start_connection cfg tls fates ins) = []" "conn_tls (start_connection cfg tls fates ins) = tls" for tls ins
    by (simp_all add: start_connection_def Connection_new_def plain_out_def)
  note s = this this(1) [of _ "[]", folded start_connection_def]
  show ?thesis
    using True s handshake_strict [of "start_connection cfg True fates _" cfg env]
    by (cases "he_tls env cfg") (simp_all add: establish_def start_connection_def [symmetric], simp_all add: Connection_new_def plain_out_def)
next
  case False
  have "\<not> conn_tls (start_connection cfg False fates incoming)" by (simp add: start_connection_def Connection_new_def)
  from handshake_plain [OF this, of cfg env] show ?thesis
    using False assms by (auto simp: establish_def start_connection_def)
qed

theorem credentials_over_tls_witness:
  "\<forall>env fates incoming.
     plain_out (snd (establish env (config_encryption EncStrict Config_default) fates incoming)) = [] \<and>
     plain_out (snd (establish env (config_authentication (SqlServerAuth (lit ''sa'') (lit ''pw'')) Config_default) fates incoming)) =
     plain_out (snd (prelogin_exchange EncRequired False None (start_connection Config_default False fates incoming)))"
  using credentials_over_tls [of "config_encryption EncStrict Config_default"]
    credentials_over_tls [of "config_authentication (SqlServerAuth (lit ''sa'') (lit ''pw'')) Config_default"]
  by (simp add: setter_defs Config_default_def is_aad_def start_connection_def connect_context_def get_host_def get_port_def)

end
