(* ===== verification/Tds_Bulk.thy ===== *)
theory Tds_Bulk
  imports Tds_Query Tds_Handshake
begin

text \<open>
  The bulk load request (\<^verbatim>\<open>tds/codec/bulk_load.rs\<close>): rows are encoded into a buffer, full
  packets leave it while rows arrive, the rest goes out with the final DONE. The request borrows the connection; here
  it holds it. The last section joins it with the operations of \<^verbatim>\<open>Tds_Sending\<close> to the invariant that a connection in use never
  has a partial message on the wire.
\<close>

record BulkLoadRequest =
  bl_conn :: Connection
  bl_packet_id :: u8
  bl_buf :: bytes
  bl_columns :: "MetaDataColumn list"

definition BulkLoadRequest_new :: "MetaDataColumn list \<Rightarrow> (Connection, BulkLoadRequest) comp" where
  "BulkLoadRequest_new columns =
     with_packet_id (\<lambda>packet_id c.
       (case TokenColMetaData_encode \<lparr>tcm_columns = columns\<rparr> [] of
          (Ok _, buf) \<Rightarrow> (Ok \<lparr>bl_conn = c, bl_packet_id = packet_id, bl_buf = buf, bl_columns = columns\<rparr>, c)
        | (Err e, _) \<Rightarrow> (Err e, c) | (Panic, _) \<Rightarrow> (Panic, c) | (Diverge, _) \<Rightarrow> (Diverge, c)))"

definition on_bl_conn :: "(Connection, 'a) comp \<Rightarrow> (BulkLoadRequest, 'a) comp" where
  "on_bl_conn m b = (case m (bl_conn b) of (r, c) \<Rightarrow> (r, b\<lparr>bl_conn := c\<rparr>))"

text \<open>The loop of \<^verbatim>\<open>write_packets\<close>. With no room for a payload it would go round for ever.\<close>

function bl_write_loop :: "nat \<Rightarrow> (BulkLoadRequest, unit) comp" where
  "bl_write_loop packet_size b =
     (if length (bl_buf b) > packet_size then
        (if packet_size = 0 then (Diverge, b)
         else
           (case on_bl_conn (write_to_wire (PacketHeader_bulk_load (bl_packet_id b)) (take packet_size (bl_buf b)))
                  (b\<lparr>bl_buf := drop packet_size (bl_buf b)\<rparr>) of
              (Ok _, b') \<Rightarrow> bl_write_loop packet_size b'
            | (Err e, b') \<Rightarrow> (Err e, b') | (Panic, b') \<Rightarrow> (Panic, b') | (Diverge, b') \<Rightarrow> (Diverge, b')))
      else (Ok (), b))"
  by pat_completeness auto
termination
  by (relation "measure (\<lambda>(_, b). length (bl_buf b))") (auto simp: on_bl_conn_def split: prod.splits)

declare bl_write_loop.simps [simp del]

definition write_packets :: "(BulkLoadRequest, unit) comp" where
  "write_packets =
     bindR (on_bl_conn payload_size) (\<lambda>packet_size b.
       if length (bl_buf b) \<le> packet_size then (Ok (), b)
       else thenR (on_bl_conn poison) (thenR (bl_write_loop packet_size) (on_bl_conn unpoison)) b)"

definition bulk_send :: "value_env \<Rightarrow> TokenRow \<Rightarrow> (BulkLoadRequest, unit) comp" where
  "bulk_send env row =
     thenR (on_bl_conn ensure_not_poisoned) (\<lambda>b.
       let start = length (bl_buf b) in
       case TokenRow_encode env (bl_columns b) row (bl_buf b) of
         (Ok _, buf) \<Rightarrow> write_packets (b\<lparr>bl_buf := buf\<rparr>)
       | (Err e, buf) \<Rightarrow> (Err e, b\<lparr>bl_buf := take start buf\<rparr>)
       | (Panic, buf) \<Rightarrow> (Panic, b\<lparr>bl_buf := buf\<rparr>)
       | (Diverge, buf) \<Rightarrow> (Diverge, b\<lparr>bl_buf := buf\<rparr>))"

definition TokenDone_default :: TokenDone where
  "TokenDone_default = \<lparr>done_status = 0, done_cur_cmd = 0, done_done_rows = 0\<rparr>"

definition on_bl_buf :: "(bytes, unit) comp \<Rightarrow> (BulkLoadRequest, unit) comp" where
  "on_bl_buf m b = (case m (bl_buf b) of (r, buf) \<Rightarrow> (r, b\<lparr>bl_buf := buf\<rparr>))"

definition bulk_finalize :: "value_env \<Rightarrow> (BulkLoadRequest, u64 list) comp" where
  "bulk_finalize env =
     thenR (on_bl_conn ensure_not_poisoned)
    (thenR (on_bl_buf (TokenDone_encode TokenDone_default))
    (thenR write_packets (\<lambda>b.
       let header = PacketHeader_set_status EndOfMessage (PacketHeader_bulk_load (bl_packet_id b)); dat = bl_buf b in
       thenR (on_bl_conn poison)
      (thenR (on_bl_conn (write_to_wire header dat))
      (thenR (on_bl_conn flush_sink)
      (thenR (on_bl_conn unpoison)
             (on_bl_conn (on_tokens (ExecuteResult_new env)))))) (b\<lparr>bl_buf := []\<rparr>))))"

section \<open>Encoders only append\<close>

text \<open>What an encoder writes, and whether it succeeds, does not depend on what is in the buffer; and it ends.\<close>

definition appends :: "(bytes, 'a) comp \<Rightarrow> bool" where
  "appends m \<longleftrightarrow> (\<exists>r x. r \<noteq> Diverge \<and> (\<forall>dst. m dst = (r, dst @ x)))"

named_theorems append_intros "closure rules of the appends predicate"

lemma appends_basic [append_intros]:
  "appends (retR a)" "appends (errR e)" "appends panicR" "r \<noteq> Diverge \<Longrightarrow> appends (liftR r)" "appends (ok_or y e)"
  "appends (put_bytes bs)" "appends (put_u8 b)" "appends (put_le n w)" "appends (put_be n w')"
  by (auto simp: appends_def retR_def errR_def panicR_def liftR_def ok_or_def put_u8_def put_le_def put_be_def put_bytes_def split: option.split)

lemma appends_bindR [append_intros]:
  assumes "appends m" "\<And>a. appends (f a)"
  shows "appends (bindR m f)"
proof -
  obtain r x where m: "r \<noteq> Diverge" "\<And>dst. m dst = (r, dst @ x)" using assms(1) by (auto simp: appends_def)
  show ?thesis
  proof (cases r)
    case (Ok a)
    obtain r' y where "r' \<noteq> Diverge" "\<And>dst. f a dst = (r', dst @ y)" using assms(2) [of a] by (auto simp: appends_def)
    with m Ok show ?thesis by (auto simp: appends_def bindR_def)
  qed (use m in \<open>auto simp: appends_def bindR_def\<close>)
qed

lemma appends_thenR [append_intros]: "appends m \<Longrightarrow> appends k \<Longrightarrow> appends (thenR m k)"
  unfolding thenR_def by (rule appends_bindR)

lemma appends_if [append_intros]: "appends m \<Longrightarrow> appends k \<Longrightarrow> appends (if b then m else k)"
  by simp

lemma appends_option [append_intros]: "appends m \<Longrightarrow> (\<And>a. appends (f a)) \<Longrightarrow> appends (case y of None \<Rightarrow> m | Some a \<Rightarrow> f a)"
  by (cases y) simp_all

lemma appends_eachR [append_intros]: "(\<And>x. appends (f x)) \<Longrightarrow> appends (eachR f xs)"
  by (induction xs) (auto intro: append_intros)

lemma appends_prod [append_intros]: "(\<And>a b. appends (f a b)) \<Longrightarrow> appends (case y of (a, b) \<Rightarrow> f a b)"
  by (cases y) simp

lemma appends_let [append_intros]: "appends (f y) \<Longrightarrow> appends (Let y f)"
  by simp

lemma appends_TypeInfo [append_intros]:
  "\<lbrakk>\<And>ty. appends (f1 ty); \<And>cx. appends (f2 cx); \<And>ty n p sc. appends (f3 ty n p sc); \<And>sch n. appends (f4 sch n); \<And>i. appends (f5 i)\<rbrakk>
     \<Longrightarrow> appends (case_TypeInfo f1 f2 f3 f4 f5 ti)"
  by (cases ti) simp_all

lemma appends_FixedLenType [append_intros]:
  "\<lbrakk>appends m1; appends m2; appends m3; appends m4; appends m5; appends m6; appends m7; appends m8; appends m9; appends m10; appends m11; appends m12\<rbrakk>
     \<Longrightarrow> appends (case_FixedLenType m1 m2 m3 m4 m5 m6 m7 m8 m9 m10 m11 m12 ty)"
  by (cases ty) simp_all

lemma ends:
  "Time_len t \<noteq> Diverge" "money_rescale n \<noteq> Diverge" "rescale_numeric sc n \<noteq> Diverge" "datetime2_to_datetime d \<noteq> Diverge"
  "Collation_codec c \<noteq> Diverge" "map_res f r = Diverge \<longleftrightarrow> r = Diverge"
  by (auto simp: Time_len_def money_rescale_def rescale_numeric_def Numeric_new_with_scale_def datetime2_to_datetime_def Let_def
      returns_def [THEN iffD1, OF returns_codepage_string(2)] split: option.splits) (cases r; simp)+

lemma appends_values [append_intros]:
  "appends (DateTime_encode dt)" "appends (SmallDateTime_encode sd)" "appends (Date_encode d)" "appends (Time_encode t)"
  "appends (Numeric_encode n)" "appends (XmlData_encode xd)" "appends (put_scaled len i b)"
  unfolding DateTime_encode_def SmallDateTime_encode_def Date_encode_def Time_encode_def
    Numeric_encode_def XmlData_encode_def put_scaled_def Let_def
  by (intro append_intros; simp add: ends)+

lemma appends_money [append_intros]:
  "appends (money_encode len w)" "appends (money_encode_fixed len w)" "appends (encode_numeric len n)" "appends (encode_numeric_fixed len n)"
  unfolding money_encode_def money_encode_fixed_def money_encode_inner_def encode_numeric_def encode_numeric_fixed_def encode_numeric_inner_def
  by (intro append_intros; simp add: ends)+

lemma appends_datetime2 [append_intros]: "appends (DateTime2_encode d2)"
  unfolding DateTime2_encode_def Let_def by (intro append_intros; simp add: ends)

lemma appends_datetimeoffset [append_intros]: "appends (DateTimeOffset_encode dto)"
  unfolding DateTimeOffset_encode_def Let_def by (intro append_intros; simp add: ends)

lemma appends_ends: "appends m \<Longrightarrow> m dst = (r, out) \<Longrightarrow> r \<noteq> Diverge"
  by (auto simp: appends_def)

lemma appends_variant [append_intros]: "appends (variant_encode v)"
proof -
  have "variant_body v \<noteq> Diverge"
    by (cases v rule: variant_body.cases)
      (auto simp: ends split: prod.split dest!: appends_ends [rotated] intro: append_intros)
  then show ?thesis unfolding variant_encode_def by (intro append_intros; simp)
qed

lemma appends_parts [append_intros]:
  "appends (encode_other ti v)" "appends (put_bytelen len pay)" "appends (put_sized n bs)" "appends (put_sized_null n)" "appends (blob_guard n s)"
  "appends (codepage_bytes env vlc s)" "appends (string_encode_untyped s)"
  unfolding encode_other_def put_bytelen_def put_sized_def put_sized_null_def blob_guard_def codepage_bytes_def string_encode_untyped_def
  by (intro append_intros; simp add: ends)+

lemma appends_put_value [append_intros]: "len \<noteq> Diverge \<Longrightarrow> (\<And>v. appends (enc v)) \<Longrightarrow> appends (put_value len enc v)"
  unfolding put_value_def by (intro append_intros)

lemma appends_strings [append_intros]: "appends (string_encode_sized env vlc opt)" "appends (text_encode env vlc opt)" "appends (scalar_encode vty n fty ti dat pay)"
  unfolding string_encode_sized_def text_encode_def scalar_encode_def by (intro append_intros; simp add: ends)+

lemma appends_encoders [append_intros]:
  "appends (string_encode env ti so)" "appends (binary_encode ti bo)" "appends (datetime_encode ti dto)" "appends (smalldatetime_encode ti sdo)"
  "appends (date_encode ti da)" "appends (time_encode ti tm)" "appends (datetime2_encode env ti d2)" "appends (datetimeoffset_encode ti off)"
  "appends (xml_encode ti xo)" "appends (numeric_encode ti no)" "appends (f64_encode ti fo)"
  unfolding string_encode_def binary_encode_def datetime_encode_def smalldatetime_encode_def date_encode_def time_encode_def
    datetime2_encode_def datetimeoffset_encode_def xml_encode_def numeric_encode_def f64_encode_def Let_def
  by (intro append_intros; simp add: ends)+

lemma appends_ColumnData [append_intros]: "appends (ColumnData_encode env ti v)"
  by (cases v) (simp_all add: append_intros)

lemma appends_row: "appends (TokenRow_encode env cols row)"
  unfolding TokenRow_encode_def by (intro append_intros; simp add: ends)

lemma appends_done: "appends (TokenDone_encode d)"
  unfolding TokenDone_encode_def by (intro append_intros; simp add: ends)

lemma appendsD: "appends m \<Longrightarrow> m dst = (fst (m []), dst @ snd (m [])) \<and> fst (m []) \<noteq> Diverge"
  by (auto simp: appends_def)

section \<open>Packets of a bulk load\<close>

lemma split_chunks:
  assumes "0 < psz" "\<forall>d\<in>set ds. length d = psz" "rest \<noteq> []" "length rest \<le> psz" "PacketHeader_set_status NormalMessage h = h"
  shows "split_packets h psz (concat ds @ rest) = map (Packet_new h) ds @ [Packet_new (PacketHeader_set_status EndOfMessage h) rest]"
  using assms(2)
proof (induction ds)
  case Nil
  then show ?case using assms(1,3,4) by (subst split_packets.simps) (simp add: Let_def)
next
  case (Cons d ds)
  then have "length (d @ concat ds @ rest) > psz" "take psz (d @ concat ds @ rest) = d" "drop psz (d @ concat ds @ rest) = concat ds @ rest"
    using assms(3) by (auto simp: neq_Nil_conv)
  then show ?case using Cons assms(1,5) by (subst split_packets.simps) (auto simp: Let_def)
qed

definition bulk_out :: "BulkLoadRequest \<Rightarrow> bytes list \<Rightarrow> (bool \<times> bytes) list" where
  "bulk_out b ds = map (\<lambda>d. (conn_tls (bl_conn b), packet_bytes (Packet_new (PacketHeader_bulk_load (bl_packet_id b)) d))) ds"

lemma bulk_fits: "length d \<le> psz \<Longrightarrow> psz + 8 \<le> 65535 \<Longrightarrow> packet_fits (Packet_new h d)"
  by (simp add: packet_fits_def Packet_new_def HEADER_BYTES_def)

text \<open>The loop writes full packets; when it completes, what is left fits in one.\<close>

definition same_request :: "BulkLoadRequest \<Rightarrow> BulkLoadRequest \<Rightarrow> bool" where
  "same_request b b' \<longleftrightarrow> wire_ext (bl_conn b) (bl_conn b') \<and> bl_packet_id b' = bl_packet_id b \<and> bl_columns b' = bl_columns b"

lemma write_loop_effect:
  assumes "bl_write_loop psz b = (r, b')" "0 < psz" "psz + 8 \<le> 65535"
  shows "same_request b b' \<and> conn_poisoned (bl_conn b') = conn_poisoned (bl_conn b) \<and> r \<noteq> Panic \<and>
    (r = Ok () \<longrightarrow> (\<exists>ds. (\<forall>d\<in>set ds. length d = psz) \<and> conn_out (bl_conn b') = conn_out (bl_conn b) @ bulk_out b ds \<and>
       concat ds @ bl_buf b' = bl_buf b \<and> length (bl_buf b') \<le> psz \<and> (bl_buf b \<noteq> [] \<longrightarrow> bl_buf b' \<noteq> []) \<and> (length (bl_buf b) > psz \<longrightarrow> ds \<noteq> [])))"
  using assms(1)
proof (induction "length (bl_buf b)" arbitrary: b rule: less_induct)
  case less
  show ?case
  proof (cases "length (bl_buf b) > psz")
    case False
    then have "r = Ok ()" "b' = b" using less(2) by (simp_all add: bl_write_loop.simps [of psz b])
    with False show ?thesis by (auto simp: same_request_def bulk_out_def intro!: exI [of _ "[]"])
  next
    case True
    let ?d = "take psz (bl_buf b)" and ?h = "PacketHeader_bulk_load (bl_packet_id b)"
    obtain q c1 where w: "write_to_wire ?h ?d (bl_conn b) = (q, c1)" by (cases "write_to_wire ?h ?d (bl_conn b)") auto
    define b1 where "b1 = b\<lparr>bl_buf := drop psz (bl_buf b), bl_conn := c1\<rparr>"
    have e: "only_wire (bl_conn b) c1" "q \<noteq> Panic" "q = Ok () \<Longrightarrow> conn_out c1 = conn_out (bl_conn b) @ bulk_out b [?d]"
      using write_to_wire_effect [OF bulk_fits [of ?d psz] w] assms(3) by (auto simp: bulk_out_def)
    have b1: "same_request b b1" "conn_poisoned (bl_conn b1) = conn_poisoned (bl_conn b)" "length (bl_buf b1) < length (bl_buf b)"
        "?d @ bl_buf b1 = bl_buf b" "bl_buf b1 \<noteq> []" "length ?d = psz"
      using e(1) True assms(2) by (auto simp: b1_def same_request_def only_wire_def)
    have out: "bulk_out b1 ds = bulk_out b ds" for ds using b1(1) by (simp add: bulk_out_def same_request_def wire_ext_def)
    have step: "bl_write_loop psz b = (case q of Ok _ \<Rightarrow> bl_write_loop psz b1 | _ \<Rightarrow> (map_res id q, b1))"
      using True assms(2) w by (subst bl_write_loop.simps) (auto simp: on_bl_conn_def b1_def split: res.split)
    show ?thesis
    proof (cases q)
      case (Ok u)
      with step less(2) have "bl_write_loop psz b1 = (r, b')" by simp
      note ih = less(1) [OF b1(3) this]
      have same: "same_request b b'" using ih b1(1) by (auto simp: same_request_def intro: wire_ext_trans)
      have "\<exists>ds. (\<forall>d\<in>set ds. length d = psz) \<and> conn_out (bl_conn b') = conn_out (bl_conn b) @ bulk_out b ds \<and>
          concat ds @ bl_buf b' = bl_buf b \<and> length (bl_buf b') \<le> psz \<and> (bl_buf b \<noteq> [] \<longrightarrow> bl_buf b' \<noteq> []) \<and> (length (bl_buf b) > psz \<longrightarrow> ds \<noteq> [])"
        if completed: "r = Ok ()"
      proof -
        obtain ds where ds: "\<forall>d\<in>set ds. length d = psz" "conn_out (bl_conn b') = conn_out (bl_conn b1) @ bulk_out b1 ds"
            "concat ds @ bl_buf b' = bl_buf b1" "length (bl_buf b') \<le> psz" "bl_buf b1 \<noteq> [] \<longrightarrow> bl_buf b' \<noteq> []"
          using ih completed by blast
        have "conn_out (bl_conn b') = conn_out (bl_conn b) @ bulk_out b (?d # ds)"
          using ds(2) out e(3) Ok by (simp add: b1_def bulk_out_def)
        moreover have "concat (?d # ds) @ bl_buf b' = bl_buf b" using ds(3) b1(4) by simp
        ultimately show ?thesis using ds b1(5,6) by (intro exI [of _ "?d # ds"]) auto
      qed
      then show ?thesis using same ih b1(2) by blast
    qed (use step less(2) e b1 in auto)
  qed
qed

definition bl_room :: "BulkLoadRequest \<Rightarrow> nat" where
  "bl_room b = unat (ctx_packet_size (conn_context (bl_conn b))) - 8"

lemma bl_room_bounds:
  assumes "context_ok (conn_context (bl_conn b))"
  shows "0 < bl_room b" "bl_room b + 8 \<le> 65535" "payload_size (bl_conn b) = (Ok (bl_room b), bl_conn b)"
  using context_payload_room [OF assms] by (auto simp: bl_room_def payload_size_def HEADER_BYTES_def)

lemma write_packets_effect:
  assumes "write_packets b = (r, b')" "context_ok (conn_context (bl_conn b))" "\<not> conn_poisoned (bl_conn b)"
  shows "same_request b b' \<and> r \<noteq> Panic \<and>
    (if r = Ok () then \<not> conn_poisoned (bl_conn b') \<and>
       (\<exists>ds. (\<forall>d\<in>set ds. length d = bl_room b) \<and> conn_out (bl_conn b') = conn_out (bl_conn b) @ bulk_out b ds \<and>
          concat ds @ bl_buf b' = bl_buf b \<and> length (bl_buf b') \<le> bl_room b \<and> (bl_buf b \<noteq> [] \<longrightarrow> bl_buf b' \<noteq> []) \<and> (length (bl_buf b) > bl_room b \<longrightarrow> ds \<noteq> []))
     else conn_poisoned (bl_conn b'))"
proof (cases "length (bl_buf b) \<le> bl_room b")
  case True
  then have "r = Ok ()" "b' = b"
    using assms(1) bl_room_bounds(3) [OF assms(2)] by (simp_all add: write_packets_def bindR_def on_bl_conn_def)
  then show ?thesis using assms(3) True by (auto simp: same_request_def bulk_out_def intro!: exI [of _ "[]"])
next
  case False
  let ?b = "b\<lparr>bl_conn := (bl_conn b)\<lparr>conn_poisoned := True\<rparr>\<rparr>"
  obtain q b1 where l: "bl_write_loop (bl_room b) ?b = (q, b1)" by (cases "bl_write_loop (bl_room b) ?b") auto
  note e = write_loop_effect [OF l bl_room_bounds(1,2) [OF assms(2)]]
  have out: "bulk_out ?b ds = bulk_out b ds" for ds by (simp add: bulk_out_def)
  have r: "(r, b') = (case q of Ok _ \<Rightarrow> (Ok (), b1\<lparr>bl_conn := (bl_conn b1)\<lparr>conn_poisoned := False\<rparr>\<rparr>) | _ \<Rightarrow> (map_res id q, b1))"
    using assms(1) bl_room_bounds(3) [OF assms(2)] False l
    by (auto simp: write_packets_def thenR_def bindR_def on_bl_conn_def poison_def unpoison_def split: res.splits)
  show ?thesis
  proof (cases q)
    case (Ok u)
    then obtain ds where ds: "\<forall>d\<in>set ds. length d = bl_room b" "conn_out (bl_conn b1) = conn_out (bl_conn ?b) @ bulk_out ?b ds"
        "concat ds @ bl_buf b1 = bl_buf ?b" "length (bl_buf b1) \<le> bl_room b" "bl_buf ?b \<noteq> [] \<longrightarrow> bl_buf b1 \<noteq> []" "length (bl_buf ?b) > bl_room b \<longrightarrow> ds \<noteq> []"
      using e by auto
    then show ?thesis using r Ok e by (auto simp: same_request_def out)
  qed (use r e in \<open>auto simp: same_request_def\<close>)
qed

text \<open>The bytes of a row, and of a whole load.\<close>

definition row_wire :: "value_env \<Rightarrow> MetaDataColumn list \<Rightarrow> TokenRow \<Rightarrow> bytes" where
  "row_wire env cols row = snd (TokenRow_encode env cols row [])"

definition bulk_payload :: "value_env \<Rightarrow> MetaDataColumn list \<Rightarrow> TokenRow list \<Rightarrow> bytes" where
  "bulk_payload env cols rows =
     snd (TokenColMetaData_encode \<lparr>tcm_columns = cols\<rparr> []) @ concat (map (row_wire env cols) rows)"

lemma bulk_send_effect:
  assumes "bulk_send env row b = (r, b')" "context_ok (conn_context (bl_conn b))"
  shows "r = Panic \<or> same_request b b' \<and>
    (conn_poisoned (bl_conn b') \<or>
     (\<exists>ds. (\<forall>d\<in>set ds. length d = bl_room b) \<and> conn_out (bl_conn b') = conn_out (bl_conn b) @ bulk_out b ds \<and>
        concat ds @ bl_buf b' = bl_buf b @ (if r = Ok () then row_wire env (bl_columns b) row else []) \<and>
        (r = Ok () \<and> length (bl_buf b @ row_wire env (bl_columns b) row) > bl_room b \<longrightarrow> ds \<noteq> [])))"
proof (cases "conn_poisoned (bl_conn b) \<or> conn_command_desync (bl_conn b)")
  case True
  then have "b' = b" "r \<noteq> Ok ()" using assms(1) by (auto simp: bulk_send_def thenR_def bindR_def on_bl_conn_def ensure_not_poisoned_def split: if_splits)
  then show ?thesis by (auto simp: same_request_def bulk_out_def intro!: exI [of _ "[]"])
next
  case False
  obtain q x where enc: "TokenRow_encode env (bl_columns b) row [] = (q, x)" by (cases "TokenRow_encode env (bl_columns b) row []") auto
  have app: "TokenRow_encode env (bl_columns b) row (bl_buf b) = (q, bl_buf b @ x)"
    using appendsD [OF appends_row, of env "bl_columns b" row "bl_buf b"] enc by simp
  have x: "row_wire env (bl_columns b) row = x" using enc by (simp add: row_wire_def)
  have r: "(r, b') = (case q of Ok _ \<Rightarrow> write_packets (b\<lparr>bl_buf := bl_buf b @ x\<rparr>) | Err e \<Rightarrow> (Err e, b) | _ \<Rightarrow> (map_res id q, b\<lparr>bl_buf := bl_buf b @ x\<rparr>))"
    using assms(1) False app
    by (auto simp: bulk_send_def thenR_def bindR_def on_bl_conn_def ensure_not_poisoned_def Let_def split: res.splits)
  have "q \<noteq> Diverge" using appendsD [OF appends_row, of env "bl_columns b" row] enc by simp
  show ?thesis
  proof (cases q)
    case (Ok u)
    let ?b = "b\<lparr>bl_buf := bl_buf b @ x\<rparr>"
    have w: "write_packets ?b = (r, b')" using r Ok by simp
    have out: "bulk_out ?b ds = bulk_out b ds" "bl_room ?b = bl_room b" for ds by (simp_all add: bulk_out_def bl_room_def)
    show ?thesis using write_packets_effect [OF w] assms(2) False x out by (auto simp: same_request_def split: if_splits)
  next
    case (Err e)
    then show ?thesis using r by (auto simp: same_request_def bulk_out_def intro!: exI [of _ "[]"])
  qed (use r \<open>q \<noteq> Diverge\<close> in auto)
qed

section \<open>Whole loads\<close>

text \<open>A request and the rows it has accepted: \<^verbatim>\<open>send\<close> may be refused, fail, or be dropped while it writes.\<close>

inductive bulk_reach :: "value_env \<Rightarrow> MetaDataColumn list \<Rightarrow> Connection \<Rightarrow> TokenRow list \<Rightarrow> BulkLoadRequest \<Rightarrow> bool" for env cols c where
  bulk_start: "BulkLoadRequest_new cols c = (Ok b, c') \<Longrightarrow> bulk_reach env cols c [] b"
| bulk_accepted: "bulk_reach env cols c rows b \<Longrightarrow> bulk_send env row b = (Ok (), b') \<Longrightarrow> bulk_reach env cols c (rows @ [row]) b'"
| bulk_refused: "bulk_reach env cols c rows b \<Longrightarrow> bulk_send env row b = (Err e, b') \<Longrightarrow> bulk_reach env cols c rows b'"
| bulk_dropped: "bulk_reach env cols c rows b \<Longrightarrow> bulk_send env row b = (Diverge, b') \<Longrightarrow> bulk_reach env cols c rows b'"

definition bulk_inv :: "value_env \<Rightarrow> MetaDataColumn list \<Rightarrow> Connection \<Rightarrow> TokenRow list \<Rightarrow> BulkLoadRequest \<Rightarrow> bool" where
  "bulk_inv env cols c rows b \<longleftrightarrow>
     wire_ext (c\<lparr>conn_context := snd (next_packet_id (conn_context c))\<rparr>) (bl_conn b) \<and> bl_columns b = cols \<and>
     (conn_poisoned (bl_conn b) \<or>
      (\<exists>ds. (\<forall>d\<in>set ds. length d = bl_room b) \<and> conn_out (bl_conn b) = conn_out c @ bulk_out b ds \<and> concat ds @ bl_buf b = bulk_payload env cols rows))"

lemma bulk_inv_start: "BulkLoadRequest_new cols c = (Ok b, c') \<Longrightarrow> bulk_inv env cols c [] b"
  by (auto simp: BulkLoadRequest_new_def with_packet_id_def bulk_inv_def bulk_payload_def bulk_out_def split: prod.splits res.splits intro!: exI [of _ "[]"])

lemma bulk_inv_step:
  assumes "bulk_inv env cols c rows b" "bulk_send env row b = (r, b')" "r \<noteq> Panic" "context_ok (conn_context c)"
  shows "bulk_inv env cols c (if r = Ok () then rows @ [row] else rows) b'"
proof -
  let ?c = "c\<lparr>conn_context := snd (next_packet_id (conn_context c))\<rparr>"
  have w: "wire_ext ?c (bl_conn b)" "bl_columns b = cols" using assms(1) by (simp_all add: bulk_inv_def)
  have ok: "context_ok (conn_context (bl_conn b))" using w(1) context_ok_setters(1) [OF assms(4)] by (simp add: wire_ext_def)
  have s: "same_request b b'" and d: "conn_poisoned (bl_conn b') \<or>
     (\<exists>ds. (\<forall>d\<in>set ds. length d = bl_room b) \<and> conn_out (bl_conn b') = conn_out (bl_conn b) @ bulk_out b ds \<and>
        concat ds @ bl_buf b' = bl_buf b @ (if r = Ok () then row_wire env cols row else []))"
    using bulk_send_effect [OF assms(2) ok] assms(3) w(2) by auto
  have same: "bl_room b' = bl_room b" "bulk_out b' ds = bulk_out b ds" for ds
    using s by (auto simp: same_request_def wire_ext_def bl_room_def bulk_out_def)
  have keep: "wire_ext ?c (bl_conn b')" "bl_columns b' = cols" using s w by (auto simp: same_request_def intro: wire_ext_trans)
  show ?thesis
  proof (cases "conn_poisoned (bl_conn b')")
    case False
    have "\<not> conn_poisoned (bl_conn b)"
      using assms(2) False by (auto simp: bulk_send_def thenR_def bindR_def on_bl_conn_def ensure_not_poisoned_def split: if_splits)
    then obtain ds where ds: "\<forall>d\<in>set ds. length d = bl_room b" "conn_out (bl_conn b) = conn_out c @ bulk_out b ds" "concat ds @ bl_buf b = bulk_payload env cols rows"
      using assms(1) by (auto simp: bulk_inv_def)
    obtain es where es: "\<forall>d\<in>set es. length d = bl_room b" "conn_out (bl_conn b') = conn_out (bl_conn b) @ bulk_out b es"
        "concat es @ bl_buf b' = bl_buf b @ (if r = Ok () then row_wire env cols row else [])" using d False by blast
    have "concat (ds @ es) @ bl_buf b' = bulk_payload env cols (if r = Ok () then rows @ [row] else rows)"
    proof -
      have "concat (ds @ es) @ bl_buf b' = (concat ds @ bl_buf b) @ (if r = Ok () then row_wire env cols row else [])"
        using es(3) by simp
      then show ?thesis unfolding ds(3) by (simp add: bulk_payload_def)
    qed
    moreover have "conn_out (bl_conn b') = conn_out c @ bulk_out b' (ds @ es)" using ds(2) es(2) same by (simp add: bulk_out_def)
    ultimately show ?thesis using keep ds(1) es(1) same by (auto simp: bulk_inv_def intro!: exI [of _ "ds @ es"])
  qed (use keep in \<open>simp add: bulk_inv_def\<close>)
qed

lemma bulk_reach_inv: "bulk_reach env cols c rows b \<Longrightarrow> context_ok (conn_context c) \<Longrightarrow> bulk_inv env cols c rows b"
proof (induction rule: bulk_reach.induct)
  case (bulk_start b c')
  then show ?case by (simp add: bulk_inv_start)
next
  case (bulk_accepted rows b row b')
  then show ?case using bulk_inv_step [of env cols c rows b row "Ok ()" b'] by simp
next
  case (bulk_refused rows b row e b')
  then show ?case using bulk_inv_step [of env cols c rows b row "Err e" b'] by simp
next
  case (bulk_dropped rows b row b')
  then show ?case using bulk_inv_step [of env cols c rows b row Diverge b'] by simp
qed

definition done_wire :: bytes where
  "done_wire = snd (TokenDone_encode TokenDone_default [])"

lemma done_wire: "TokenDone_encode TokenDone_default dst = (Ok (), dst @ done_wire)" "done_wire \<noteq> []"
  by (simp_all add: done_wire_def TokenDone_encode_def wire_simps)

text \<open>The end of \<^verbatim>\<open>finalize\<close>: one last packet, the flush, and the answer.\<close>

lemma final_packet:
  assumes "thenR (on_bl_conn poison) (thenR (on_bl_conn (write_to_wire h dat)) (thenR (on_bl_conn flush_sink)
      (thenR (on_bl_conn unpoison) (on_bl_conn (on_tokens (ExecuteResult_new env)))))) b = (Ok n, b')" "packet_fits (Packet_new h dat)"
  shows "conn_out (bl_conn b') = conn_out (bl_conn b) @ [(conn_tls (bl_conn b), packet_bytes (Packet_new h dat)), (conn_tls (bl_conn b), [])]"
proof -
  let ?c = "(bl_conn b)\<lparr>conn_poisoned := True\<rparr>"
  obtain u1 c1 u2 c2 c3 where w: "write_to_wire h dat ?c = (Ok u1, c1)" "flush_sink c1 = (Ok u2, c2)"
      and t: "on_tokens (ExecuteResult_new env) (c2\<lparr>conn_poisoned := False\<rparr>) = (Ok n, c3)" "bl_conn b' = c3"
    using assms(1) by (auto simp: thenR_def on_bl_conn_def poison_def unpoison_def bindR_eq_Ok split: prod.splits)
  have 1: "only_wire ?c c1" "conn_out c1 = conn_out ?c @ [(conn_tls ?c, packet_bytes (Packet_new h dat))]"
    using write_to_wire_effect [OF assms(2) w(1)] by simp_all
  have 2: "conn_out c2 = conn_out c1 @ [(conn_tls c1, [])]" using await_write_effect(3) [OF w(2) [unfolded flush_sink_def]] by simp
  have "quiet (ExecuteResult_new env)" unfolding ExecuteResult_new_def by (rule quiet_token_loop)
  then have "conn_out c3 = conn_out c2"
    using t(1) quietD [of "ExecuteResult_new env" "TokenStream_new (c2\<lparr>conn_poisoned := False\<rparr>)"]
    by (cases "ExecuteResult_new env (TokenStream_new (c2\<lparr>conn_poisoned := False\<rparr>))") (auto simp: on_tokens_def TokenStream_new_def)
  then show ?thesis using 1 2 t(2) only_wireD(6) [OF 1(1)] by simp
qed

lemma finalize_effect:
  assumes "bulk_inv env cols c rows b" "bulk_finalize env b = (Ok counts, b')" "context_ok (conn_context c)"
  shows "conn_out (bl_conn b') = conn_out c @ map (\<lambda>p. (conn_tls c, packet_bytes p))
      (split_packets (PacketHeader_bulk_load (bl_packet_id b)) (unat (ctx_packet_size (conn_context c)) - 8)
         (bulk_payload env cols rows @ done_wire)) @ [(conn_tls c, [])]"
proof -
  let ?h = "PacketHeader_bulk_load (bl_packet_id b)" and ?last = "PacketHeader_set_status EndOfMessage (PacketHeader_bulk_load (bl_packet_id b))"
  let ?b = "b\<lparr>bl_buf := bl_buf b @ done_wire\<rparr>"
  have w: "wire_ext (c\<lparr>conn_context := snd (next_packet_id (conn_context c))\<rparr>) (bl_conn b)" using assms(1) by (simp add: bulk_inv_def)
  have ctx: "context_ok (conn_context (bl_conn ?b))" "conn_tls (bl_conn b) = conn_tls c" "bl_room b = unat (ctx_packet_size (conn_context c)) - 8"
    using w context_ok_setters(1) [OF assms(3)] by (auto simp: wire_ext_def bl_room_def next_packet_id_def)
  have np: "\<not> conn_poisoned (bl_conn b)" "\<not> conn_command_desync (bl_conn b)"
    using assms(2) by (auto simp: bulk_finalize_def thenR_def bindR_def on_bl_conn_def ensure_not_poisoned_def split: if_splits)
  obtain ds where ds: "\<forall>d\<in>set ds. length d = bl_room b" "conn_out (bl_conn b) = conn_out c @ bulk_out b ds" "concat ds @ bl_buf b = bulk_payload env cols rows"
    using assms(1) np by (auto simp: bulk_inv_def)
  obtain b1 u where wp: "write_packets ?b = (Ok u, b1)"
      and fin: "thenR (on_bl_conn poison) (thenR (on_bl_conn (write_to_wire (PacketHeader_set_status EndOfMessage (PacketHeader_bulk_load (bl_packet_id b1))) (bl_buf b1)))
        (thenR (on_bl_conn flush_sink) (thenR (on_bl_conn unpoison) (on_bl_conn (on_tokens (ExecuteResult_new env)))))) (b1\<lparr>bl_buf := []\<rparr>) = (Ok counts, b')"
    using assms(2) np by (auto simp: bulk_finalize_def thenR_def [of "on_bl_conn ensure_not_poisoned"] thenR_def [of "on_bl_buf _"] thenR_def [of write_packets]
        bindR_eq_Ok on_bl_conn_def ensure_not_poisoned_def on_bl_buf_def done_wire Let_def split: prod.splits)
  have room: "bl_room ?b = bl_room b" "\<And>ds. bulk_out ?b ds = bulk_out b ds" by (simp_all add: bl_room_def bulk_out_def)
  obtain es where es: "same_request ?b b1" "\<forall>d\<in>set es. length d = bl_room b" "conn_out (bl_conn b1) = conn_out (bl_conn b) @ bulk_out b es"
      "concat es @ bl_buf b1 = bl_buf b @ done_wire" "length (bl_buf b1) \<le> bl_room b" "bl_buf b1 \<noteq> []"
    using write_packets_effect [OF wp ctx(1)] np done_wire(2) room by auto
  have b1: "conn_tls (bl_conn b1) = conn_tls c" "bl_packet_id b1 = bl_packet_id b" using es(1) ctx(2) by (auto simp: same_request_def wire_ext_def)
  have out: "conn_out (bl_conn b') = conn_out c @ bulk_out b (ds @ es) @ [(conn_tls c, packet_bytes (Packet_new ?last (bl_buf b1))), (conn_tls c, [])]"
    using final_packet [OF fin bulk_fits [of "bl_buf b1" "bl_room b"]] es bl_room_bounds(2) [OF ctx(1)] room(1) ds(2) b1
    by (simp add: bulk_out_def)
  have full: "concat (ds @ es) @ bl_buf b1 = bulk_payload env cols rows @ done_wire"
  proof -
    have "concat (ds @ es) @ bl_buf b1 = (concat ds @ bl_buf b) @ done_wire" using es(4) by simp
    then show ?thesis unfolding ds(3) .
  qed
  have "split_packets ?h (bl_room b) (concat (ds @ es) @ bl_buf b1) = map (Packet_new ?h) (ds @ es) @ [Packet_new ?last (bl_buf b1)]"
    using split_chunks [of "bl_room b" "ds @ es" "bl_buf b1" ?h] bl_room_bounds(1) [OF ctx(1)] room(1) ds(1) es
    by (auto simp: PacketHeader_set_status_def PacketHeader_bulk_load_def)
  then show ?thesis using out full ctx by (simp add: bulk_out_def comp_def)
qed

text \<open>C15: A bulk load arrives as one message. Whatever happens while rows are sent, rows refused by the encoder, writes that fail or are dropped half way:
  when \<^verbatim>\<open>finalize\<close> succeeds, what was written is exactly the packets of one message, the last one marked, that carries the column metadata, the accepted rows in their order
  without a trace of a refused one, and the final DONE; it is what sending all of it as a single request would have written.\<close>

theorem bulk_load_complete:
  assumes "context_ok (conn_context c)" "bulk_reach env cols c rows b" "bulk_finalize env b = (Ok counts, b')"
  shows "\<exists>ps. conn_out (bl_conn b') = conn_out c @ map (\<lambda>p. (conn_tls c, packet_bytes p)) ps @ [(conn_tls c, [])] \<and>
    is_message ps \<and> concat (map pk_payload ps) = bulk_payload env cols rows @ done_wire \<and>
    (\<forall>p\<in>set ps. ph_ty (pk_header p) = BulkLoad \<and> length (pk_payload p) + 8 \<le> unat (ctx_packet_size (conn_context c)))"
proof -
  let ?psz = "unat (ctx_packet_size (conn_context c)) - 8" and ?pay = "bulk_payload env cols rows @ done_wire"
  let ?ps = "split_packets (PacketHeader_bulk_load (bl_packet_id b)) ?psz ?pay"
  have psz: "0 < ?psz" "?psz + 8 \<le> 65535" "8 \<le> unat (ctx_packet_size (conn_context c))"
    using context_payload_room [OF assms(1)] by (auto simp: HEADER_BYTES_def)
  have "is_message ?ps" using split_message [OF psz(1,2)] done_wire(2) by simp
  moreover have "concat (map pk_payload ?ps) = ?pay" by (rule split_payload [OF psz(1)])
  moreover have "\<forall>p\<in>set ?ps. ph_ty (pk_header p) = BulkLoad \<and> length (pk_payload p) + 8 \<le> unat (ctx_packet_size (conn_context c))"
    using split_types split_sizes psz(3) by (fastforce simp: PacketHeader_bulk_load_def)
  ultimately show ?thesis using finalize_effect [OF bulk_reach_inv [OF assms(2,1)] assms(3,1)] by blast
qed

text \<open>One row of one column, and a server that counts it.\<close>

definition load_conn :: Connection where
  "load_conn = Connection_new False Context_new (reply [0xFD, 0x10, 0, 0, 0, 1, 0, 0, 0, 0, 0, 0, 0])"

definition load_start :: BulkLoadRequest where
  "load_start = \<lparr>bl_conn = load_conn\<lparr>conn_context := snd (next_packet_id Context_new)\<rparr>, bl_packet_id = 0,
     bl_buf = snd (TokenColMetaData_encode one_meta []), bl_columns = tcm_columns one_meta\<rparr>"

definition load_sent :: BulkLoadRequest where
  "load_sent = load_start\<lparr>bl_buf := bl_buf load_start @ [0xD1, 7, 0, 0, 0]\<rparr>"

lemmas load_eval = load_conn_def load_start_def load_sent_def one_meta_def with_packet_id_def next_packet_id_def Context_new_def Connection_new_def
  TokenColMetaData_encode_def MetaDataColumn_encode_def BaseMetaDataColumn_encode_def carries_table_name_def encode_b_varchar_def
  TokenRow_encode_def scalar_encode_def on_bl_conn_def payload_size_def write_packets_def HEADER_BYTES_def
  ensure_not_poisoned_def wire_simps wire_eval

lemmas finalize_eval = bulk_finalize_def on_bl_buf_def TokenDone_encode_def TokenDone_default_def poison_def unpoison_def flush_sink_def
  write_to_wire_def set_flushed_def PacketCodec_encode_def Packet_encode_def PacketHeader_encode_def PacketHeader_bulk_load_def
  PacketHeader_base_def await_write_def on_tokens_def ExecuteResult_new_def token_loop.simps stream_eval fixed_reader_defs read_le_def
  read_n_def TokenDone_decode_def done_row_count_bytes_def TokenDone_rows_def DoneStatus_Count_def DoneStatus_all_def

lemma load_steps:
  "BulkLoadRequest_new (tcm_columns one_meta) load_conn = (Ok load_start, bl_conn load_start)"
  "bulk_send env [CI32 (Some 7)] load_start = (Ok (), load_sent)"
  "fst (bulk_finalize env load_sent) = Ok [1]"
  by (simp_all add: BulkLoadRequest_new_def bulk_send_def load_eval finalize_eval)

theorem bulk_load_complete_witness:
  "\<forall>env. \<exists>b' ps. bulk_reach env (tcm_columns one_meta) load_conn [[CI32 (Some 7)]] load_sent \<and> bulk_finalize env load_sent = (Ok [1], b') \<and>
     conn_out (bl_conn b') = map (\<lambda>p. (False, packet_bytes p)) ps @ [(False, [])] \<and> is_message ps \<and>
     concat (map pk_payload ps) = [0x81, 1, 0, 0, 0, 0, 0, 0, 0, 0x38, 0] @ [0xD1, 7, 0, 0, 0] @ [0xFD, 0, 0, 0, 0, 0, 0, 0, 0, 0, 0, 0, 0]"
proof
  fix env
  have reach: "bulk_reach env (tcm_columns one_meta) load_conn [[CI32 (Some 7)]] load_sent"
    using bulk_accepted [OF bulk_start [OF load_steps(1)] load_steps(2)] by simp
  obtain b' where fin: "bulk_finalize env load_sent = (Ok [1], b')"
    using load_steps(3) [of env] by (cases "bulk_finalize env load_sent") auto
  have ok: "context_ok (conn_context load_conn)" using context_ok_new by (simp add: load_conn_def)
  have pay: "bulk_payload env (tcm_columns one_meta) [[CI32 (Some 7)]] @ done_wire =
      [0x81, 1, 0, 0, 0, 0, 0, 0, 0, 0x38, 0] @ [0xD1, 7, 0, 0, 0] @ [0xFD, 0, 0, 0, 0, 0, 0, 0, 0, 0, 0, 0, 0]"
    by (simp add: bulk_payload_def row_wire_def done_wire_def TokenDone_encode_def TokenDone_default_def load_eval)
  have start: "conn_out load_conn = []" "conn_tls load_conn = False" by (simp_all add: load_conn_def Connection_new_def)
  obtain ps where "conn_out (bl_conn b') = map (\<lambda>p. (False, packet_bytes p)) ps @ [(False, [])]" "is_message ps"
      "concat (map pk_payload ps) = bulk_payload env (tcm_columns one_meta) [[CI32 (Some 7)]] @ done_wire"
    using bulk_load_complete [OF ok reach fin] by (auto simp: start)
  with reach fin pay show "\<exists>b' ps. bulk_reach env (tcm_columns one_meta) load_conn [[CI32 (Some 7)]] load_sent \<and> bulk_finalize env load_sent = (Ok [1], b') \<and>
     conn_out (bl_conn b') = map (\<lambda>p. (False, packet_bytes p)) ps @ [(False, [])] \<and> is_message ps \<and>
     concat (map pk_payload ps) = [0x81, 1, 0, 0, 0, 0, 0, 0, 0, 0x38, 0] @ [0xD1, 7, 0, 0, 0] @ [0xFD, 0, 0, 0, 0, 0, 0, 0, 0, 0, 0, 0, 0]"
    by metis
qed

text \<open>A request that is given up after some of its packets were written leaves the connection unmarked, in the middle of a message.\<close>

lemma abandoned_load:
  assumes "context_ok (conn_context (bl_conn b))" "bulk_send env row b = (Ok (), b')"
    "bl_room b < length (bl_buf b @ row_wire env (bl_columns b) row)"
  shows "ensure_not_poisoned (bl_conn b') = (Ok (), bl_conn b') \<and>
    (\<exists>outs d. conn_out (bl_conn b') = outs @ [(conn_tls (bl_conn b), packet_bytes (Packet_new (PacketHeader_bulk_load (bl_packet_id b)) d))] \<and>
       \<not> Packet_is_last (Packet_new (PacketHeader_bulk_load (bl_packet_id b)) d))"
proof -
  have np: "\<not> conn_poisoned (bl_conn b)" "\<not> conn_command_desync (bl_conn b)"
    using assms(2) by (auto simp: bulk_send_def thenR_def bindR_def on_bl_conn_def ensure_not_poisoned_def split: if_splits)
  obtain q x where enc: "TokenRow_encode env (bl_columns b) row [] = (q, x)" by (cases "TokenRow_encode env (bl_columns b) row []") auto
  have app: "TokenRow_encode env (bl_columns b) row (bl_buf b) = (q, bl_buf b @ x)"
    using appendsD [OF appends_row, of env "bl_columns b" row "bl_buf b"] enc by simp
  let ?b = "b\<lparr>bl_buf := bl_buf b @ x\<rparr>"
  have w: "write_packets ?b = (Ok (), b')"
    using assms(2) np app by (cases q) (auto simp: bulk_send_def thenR_def bindR_def on_bl_conn_def ensure_not_poisoned_def Let_def)
  have long: "bl_room ?b < length (bl_buf ?b)" using assms(3) enc by (simp add: row_wire_def bl_room_def)
  obtain ds where e: "same_request ?b b'" "\<not> conn_poisoned (bl_conn b')" "conn_out (bl_conn b') = conn_out (bl_conn ?b) @ bulk_out ?b ds" "ds \<noteq> []"
    using write_packets_effect [OF w] assms(1) np long by auto
  then obtain es d where d: "ds = es @ [d]" by (metis rev_exhaust)
  have "conn_command_desync (bl_conn b') = conn_command_desync (bl_conn b)" using e(1) by (simp add: same_request_def wire_ext_def)
  then show ?thesis using e(2,3) np d
    by (auto simp: ensure_not_poisoned_def bulk_out_def Packet_is_last_def Packet_new_def PacketHeader_bulk_load_def)
qed

section \<open>No partial message\<close>

text \<open>What is on the wire at any moment, bulk loads included. A connection is idle, or it is lent to a bulk load that began when it
  was \<open>c\<close>. The flag records that a load was given up, neither failed nor finalised, when some of its packets
  had been written: nothing marks the connection then (\<open>abandoned_load\<close>).\<close>

datatype session = Idle Connection | Loading Connection BulkLoadRequest

inductive session_step :: "value_env \<Rightarrow> session \<times> bool \<Rightarrow> session \<times> bool \<Rightarrow> bool" for env where
  step_conn: "conn_op c c' \<Longrightarrow> session_step env (Idle c, g) (Idle c', g)"
| step_load: "BulkLoadRequest_new cols c = (Ok b, c') \<Longrightarrow> session_step env (Idle c, g) (Loading c b, g)"
| step_row: "bulk_send env row b = (r, b') \<Longrightarrow> session_step env (Loading c b, g) (Loading c b', g)"
| step_environment: "session_step env (Loading c b, g) (Loading c (b\<lparr>bl_conn := (bl_conn b)\<lparr>conn_in := ins, conn_fates := fates\<rparr>\<rparr>), g)"
| step_finalize: "bulk_finalize env b = (r, b') \<Longrightarrow> session_step env (Loading c b, g) (Idle (bl_conn b'), g)"
| step_give_up: "session_step env (Loading c b, g) (Idle (bl_conn b), g \<or> \<not> conn_poisoned (bl_conn b) \<and> conn_out (bl_conn b) \<noteq> conn_out c)"

text \<open>Every outcome of \<^verbatim>\<open>send\<close> and \<^verbatim>\<open>finalize\<close>.\<close>

lemma bulk_refuses:
  assumes "conn_poisoned (bl_conn b) \<or> conn_command_desync (bl_conn b)"
  shows "\<exists>e. bulk_send env row b = (Err e, b)" "\<exists>e. bulk_finalize env b = (Err e, b)"
  using assms by (auto simp: bulk_send_def bulk_finalize_def thenR_def bindR_def on_bl_conn_def ensure_not_poisoned_def)

lemma bulk_send_outcome:
  assumes "bulk_send env row b = (r, b')" "context_ok (conn_context (bl_conn b))"
  shows "same_request b b' \<and> (conn_poisoned (bl_conn b') \<or>
     (\<exists>ds. (\<forall>d\<in>set ds. length d = bl_room b) \<and> conn_out (bl_conn b') = conn_out (bl_conn b) @ bulk_out b ds))"
proof (cases "r = Panic")
  case True
  obtain q x where enc: "TokenRow_encode env (bl_columns b) row (bl_buf b) = (q, x)" by (cases "TokenRow_encode env (bl_columns b) row (bl_buf b)") auto
  have np: "\<not> conn_poisoned (bl_conn b)" "\<not> conn_command_desync (bl_conn b)"
    using assms(1) True by (auto simp: bulk_send_def thenR_def bindR_def on_bl_conn_def ensure_not_poisoned_def split: if_splits)
  have "fst (write_packets (b\<lparr>bl_buf := x\<rparr>)) \<noteq> Panic"
    using write_packets_effect [of "b\<lparr>bl_buf := x\<rparr>"] assms(2) np by (cases "write_packets (b\<lparr>bl_buf := x\<rparr>)") auto
  then have "b' = b\<lparr>bl_buf := x\<rparr>"
    using assms(1) True np enc by (cases q) (auto simp: bulk_send_def thenR_def bindR_def on_bl_conn_def ensure_not_poisoned_def Let_def)
  then show ?thesis by (auto simp: same_request_def bulk_out_def intro!: exI [of _ "[]"])
qed (use bulk_send_effect [OF assms] in auto)

lemma on_bl_conn_then: "thenR (on_bl_conn m) (on_bl_conn k) = on_bl_conn (thenR m k)"
  by (auto simp: thenR_def bindR_def on_bl_conn_def fun_eq_iff split: prod.splits res.splits)

lemma final_packet_outcome:
  assumes "on_bl_conn (thenR poison (thenR (write_to_wire h dat) (thenR flush_sink (thenR unpoison (on_tokens (ExecuteResult_new env)))))) b = (r, b')"
    "packet_fits (Packet_new h dat)" "context_ok (conn_context (bl_conn b))"
  shows "context_ok (conn_context (bl_conn b')) \<and> (conn_poisoned (bl_conn b') \<or>
    conn_out (bl_conn b') = conn_out (bl_conn b) @ [(conn_tls (bl_conn b), packet_bytes (Packet_new h dat)), (conn_tls (bl_conn b), [])])"
proof -
  let ?guarded = "thenR poison (thenR (write_to_wire h dat) (thenR flush_sink unpoison))" and ?read = "on_tokens (ExecuteResult_new env)"
  obtain q c1 where q: "?guarded (bl_conn b) = (q, c1)" by (cases "?guarded (bl_conn b)") auto
  have split: "bl_conn b' = (case q of Ok _ \<Rightarrow> snd (?read c1) | _ \<Rightarrow> c1)"
    using assms(1) q by (auto simp: on_bl_conn_def thenR_def bindR_def split: prod.splits res.splits)
  have g: "wire_ext (bl_conn b) c1"
      "if q = Ok () then conn_out c1 = conn_out (bl_conn b) @ map (Pair (conn_tls (bl_conn b))) ([packet_bytes (Packet_new h dat)] @ [[]]) else conn_poisoned c1"
    using guarded_write [OF q, of "[packet_bytes (Packet_new h dat)]"] write_to_wire_effect [OF assms(2)] by (auto split: if_splits)
  have ctx: "context_ok (conn_context c1)" using g(1) assms(3) by (simp add: wire_ext_def)
  have read: "conn_out (snd (?read c1)) = conn_out c1" "context_ok (conn_context (snd (?read c1)))"
    using quiet_token_loop [of env execute_body "[]"] token_loop_context [of "TokenStream_new c1" env execute_body "[]"] ctx
    by (auto simp: on_tokens_def ExecuteResult_new_def TokenStream_new_def quiet_def split: prod.splits) (metis TokenStream.select_convs(1) snd_conv)
  show ?thesis
  proof (cases q)
    case (Ok u)
    then show ?thesis using split read g(2) by simp
  qed (use split g ctx in auto)
qed

lemma finalize_outcome:
  assumes "bulk_finalize env b = (r, b')" "context_ok (conn_context (bl_conn b))" "\<not> conn_poisoned (bl_conn b)" "\<not> conn_command_desync (bl_conn b)"
  shows "context_ok (conn_context (bl_conn b')) \<and> (conn_poisoned (bl_conn b') \<or>
    (\<exists>ds dat. (\<forall>d\<in>set ds. length d = bl_room b) \<and> length dat \<le> bl_room b \<and>
       conn_out (bl_conn b') = conn_out (bl_conn b) @ bulk_out b ds @
         [(conn_tls (bl_conn b), packet_bytes (Packet_new (PacketHeader_set_status EndOfMessage (PacketHeader_bulk_load (bl_packet_id b))) dat)),
          (conn_tls (bl_conn b), [])]))"
proof -
  let ?b = "b\<lparr>bl_buf := bl_buf b @ done_wire\<rparr>"
  obtain q b1 where q: "write_packets ?b = (q, b1)" by (cases "write_packets ?b") auto
  have same: "bl_room ?b = bl_room b" "bulk_out ?b ds = bulk_out b ds" for ds by (simp_all add: bl_room_def bulk_out_def)
  note w = write_packets_effect [OF q, simplified same, simplified, OF assms(2,3)]
  have ctx: "context_ok (conn_context (bl_conn b1))" "conn_tls (bl_conn b1) = conn_tls (bl_conn b)" "bl_packet_id b1 = bl_packet_id b"
    using w assms(2) by (auto simp: same_request_def wire_ext_def)
  let ?h = "PacketHeader_set_status EndOfMessage (PacketHeader_bulk_load (bl_packet_id b))"
  let ?final = "on_bl_conn (thenR poison (thenR (write_to_wire ?h (bl_buf b1)) (thenR flush_sink (thenR unpoison (on_tokens (ExecuteResult_new env))))))"
  have f: "bl_conn b' = (case q of Ok _ \<Rightarrow> bl_conn (snd (?final (b1\<lparr>bl_buf := []\<rparr>))) | _ \<Rightarrow> bl_conn b1)"
    using assms(1,3,4) q ctx(3)
    by (auto simp: bulk_finalize_def on_bl_conn_then thenR_def [of "on_bl_conn ensure_not_poisoned"] thenR_def [of "on_bl_buf _"] thenR_def [of write_packets]
        bindR_def on_bl_conn_def [of ensure_not_poisoned] ensure_not_poisoned_def on_bl_buf_def done_wire Let_def split: prod.splits res.splits)
  show ?thesis
  proof (cases q)
    case (Ok u)
    then obtain ds where ds: "\<forall>d\<in>set ds. length d = bl_room b" "conn_out (bl_conn b1) = conn_out (bl_conn b) @ bulk_out b ds" "length (bl_buf b1) \<le> bl_room b"
      using w by auto
    obtain r2 b2 where b2: "?final (b1\<lparr>bl_buf := []\<rparr>) = (r2, b2)" by (cases "?final (b1\<lparr>bl_buf := []\<rparr>)") auto
    have fits: "packet_fits (Packet_new ?h (bl_buf b1))" using bulk_fits [OF ds(3)] bl_room_bounds(2) [OF assms(2)] .
    show ?thesis using final_packet_outcome [OF b2 fits] ctx ds f Ok b2 by auto
  qed (use f w ctx(1) in auto)
qed

definition load_inv :: "bool \<Rightarrow> Connection \<Rightarrow> BulkLoadRequest \<Rightarrow> bool" where
  "load_inv g c b \<longleftrightarrow> context_ok (conn_context (bl_conn b)) \<and>
     (\<not> conn_poisoned (bl_conn b) \<longrightarrow>
        (\<not> g \<longrightarrow> whole_messages (wire c)) \<and> (conn_command_desync (bl_conn b) \<longrightarrow> conn_out (bl_conn b) = conn_out c) \<and>
        (\<exists>ds. (\<forall>d\<in>set ds. length d = bl_room b) \<and> conn_out (bl_conn b) = conn_out c @ bulk_out b ds))"

fun session_inv :: "session \<times> bool \<Rightarrow> bool" where
  "session_inv (Idle c, g) \<longleftrightarrow> context_ok (conn_context c) \<and> (\<not> conn_poisoned c \<and> \<not> g \<longrightarrow> whole_messages (wire c))"
| "session_inv (Loading c b, g) \<longleftrightarrow> load_inv g c b"

lemma load_inv_send:
  assumes "load_inv g c b" "bulk_send env row b = (r, b')"
  shows "load_inv g c b'"
proof (cases "conn_poisoned (bl_conn b) \<or> conn_command_desync (bl_conn b)")
  case True
  then show ?thesis using bulk_refuses(1) [OF True, of env row] assms by auto
next
  case False
  have ctx: "context_ok (conn_context (bl_conn b))" using assms(1) by (simp add: load_inv_def)
  note o = bulk_send_outcome [OF assms(2) ctx]
  have same: "bl_room b' = bl_room b" "bulk_out b' ds = bulk_out b ds" "conn_context (bl_conn b') = conn_context (bl_conn b)"
      "conn_command_desync (bl_conn b') = conn_command_desync (bl_conn b)" for ds
    using o by (auto simp: same_request_def wire_ext_def bl_room_def bulk_out_def)
  show ?thesis
  proof (cases "conn_poisoned (bl_conn b')")
    case np: False
    obtain ds where ds: "\<forall>d\<in>set ds. length d = bl_room b" "conn_out (bl_conn b) = conn_out c @ bulk_out b ds"
      using False assms(1) by (auto simp: load_inv_def)
    obtain es where es: "\<forall>d\<in>set es. length d = bl_room b" "conn_out (bl_conn b') = conn_out (bl_conn b) @ bulk_out b es"
      using o np by auto
    have "conn_out (bl_conn b') = conn_out c @ bulk_out b' (ds @ es)" unfolding same(2) using ds(2) es(2) by (simp add: bulk_out_def)
    moreover have "\<forall>d\<in>set (ds @ es). length d = bl_room b'" using ds(1) es(1) same(1) by auto
    moreover have "\<not> g \<longrightarrow> whole_messages (wire c)" using assms(1) False by (simp add: load_inv_def)
    moreover have "\<not> conn_command_desync (bl_conn b')" using False same(4) by simp
    ultimately show ?thesis unfolding load_inv_def same(3) using ctx by blast
  qed (use ctx same in \<open>simp add: load_inv_def\<close>)
qed

lemma load_inv_finalize:
  assumes "load_inv g c b" "bulk_finalize env b = (r, b')"
  shows "session_inv (Idle (bl_conn b'), g)"
proof (cases "conn_poisoned (bl_conn b) \<or> conn_command_desync (bl_conn b)")
  case True
  then show ?thesis using bulk_refuses(2) [OF True, of env] assms by (auto simp: load_inv_def wire_def)
next
  case False
  have ctx: "context_ok (conn_context (bl_conn b))" using assms(1) by (simp add: load_inv_def)
  note o = finalize_outcome [OF assms(2) ctx]
  have "whole_messages (wire (bl_conn b'))" if np: "\<not> conn_poisoned (bl_conn b')" "\<not> g"
  proof -
    let ?h = "PacketHeader_bulk_load (bl_packet_id b)"
    obtain ds where ds: "\<forall>d\<in>set ds. length d = bl_room b" "conn_out (bl_conn b) = conn_out c @ bulk_out b ds" and w: "whole_messages (wire c)"
      using assms(1) False np by (auto simp: load_inv_def)
    obtain es dat where es: "\<forall>d\<in>set es. length d = bl_room b" "length dat \<le> bl_room b" "conn_out (bl_conn b') = conn_out (bl_conn b) @ bulk_out b es @
         [(conn_tls (bl_conn b), packet_bytes (Packet_new (PacketHeader_set_status EndOfMessage ?h) dat)), (conn_tls (bl_conn b), [])]"
      using o False np by auto
    let ?ps = "map (Packet_new ?h) (ds @ es) @ [Packet_new (PacketHeader_set_status EndOfMessage ?h) dat]"
    have "is_message ?ps" using ds(1) es(1,2) bulk_fits [OF _ bl_room_bounds(2) [OF ctx]]
      by (auto simp: is_message_def Packet_is_last_def Packet_new_def PacketHeader_set_status_def PacketHeader_bulk_load_def butlast_append)
    from next_message [OF w this] show ?thesis using ds(2) es(3) by (simp add: wire_def bulk_out_def comp_def)
  qed
  then show ?thesis using o False by auto
qed

lemma session_step_inv: "session_step env s s' \<Longrightarrow> session_inv s \<Longrightarrow> session_inv s'"
proof (induction rule: session_step.induct)
  case (step_conn c c' g)
  then show ?case using conn_op_inv [of c c'] conn_op_context [of c c'] by (cases g) (auto simp: conn_inv_def)
next
  case (step_load cols c b c' g)
  then have "bl_conn b = c\<lparr>conn_context := snd (next_packet_id (conn_context c))\<rparr>"
    by (auto simp: BulkLoadRequest_new_def with_packet_id_def split: prod.splits res.splits)
  then show ?case using step_load context_ok_setters(1) [of "conn_context c"] by (auto simp: load_inv_def bulk_out_def intro!: exI [of _ "[]"])
next
  case (step_environment c b g ins fates)
  then show ?case by (auto simp: load_inv_def bulk_out_def bl_room_def)
next
  case (step_give_up c b g)
  then show ?case by (auto simp: load_inv_def wire_def)
qed (auto simp: load_inv_send simp del: session_inv.simps(1) dest: load_inv_finalize)

text \<open>C1: A connection never carries on after a half-written message. Start from a connection on which nothing was written and let anything
  happen, in any order: requests, the login, cancellations, reads, timeouts, a change of transport, and bulk loads with any rows, finalised or given up,
  with every write completing, failing or being dropped half-way. Unless a bulk load was given up after some of its packets had been written, which nothing marks,
  the following holds. A connection that is idle and not marked as poisoned has a sequence of complete messages on the wire; under
  a bulk load that is not poisoned the wire has complete messages followed by packets of the load. And a connection that is poisoned, or out of step
  after a timeout, is not written to, whatever happened before: every request, login, cancellation, row and finalisation is refused with an error and leaves it as it is.\<close>

theorem no_partial_message:
  assumes "(session_step env)\<^sup>*\<^sup>* (Idle c\<^sub>0, False) (s, g)" "context_ok (conn_context c\<^sub>0)" "conn_out c\<^sub>0 = []"
  shows "(\<forall>c. s = Idle c \<longrightarrow>
      (\<not> conn_poisoned c \<and> \<not> g \<longrightarrow> whole_messages (wire c)) \<and>
      (conn_poisoned c \<or> conn_command_desync c \<longrightarrow>
         (\<forall>h item payload. (\<exists>e. send h item c = (Err e, c)) \<and> (\<exists>e. send_sensitive_login h payload c = (Err e, c)) \<and> (\<exists>e. send_attention c = (Err e, c))))) \<and>
    (\<forall>c b. s = Loading c b \<longrightarrow>
      (\<not> conn_poisoned (bl_conn b) \<and> \<not> g \<longrightarrow> whole_messages (wire c) \<and> (\<exists>ds. conn_out (bl_conn b) = conn_out c @ bulk_out b ds)) \<and>
      (conn_poisoned (bl_conn b) \<or> conn_command_desync (bl_conn b) \<longrightarrow>
         (\<forall>row. \<exists>e. bulk_send env row b = (Err e, b)) \<and> (\<exists>e. bulk_finalize env b = (Err e, b))))"
proof -
  have "session_inv (Idle c\<^sub>0, False)" using assms(2,3) by (simp add: wire_def no_message)
  with assms(1) have "session_inv (s, g)" by (induction rule: rtranclp_induct) (auto intro: session_step_inv)
  then show ?thesis by (cases s) (auto simp: unusable_refuses bulk_refuses load_inv_def)
qed

theorem no_partial_message_witness:
  "\<forall>env. (\<exists>b'. bulk_finalize env load_sent = (Ok [1], b') \<and> \<not> conn_poisoned (bl_conn b') \<and> whole_messages (wire (bl_conn b'))) \<and>
   (let c = snd (send (PacketHeader_batch 0) (put_bytes [1, 2, 3]) ((Connection_new False Context_new [])\<lparr>conn_fates := [Dropped 9]\<rparr>)) in
      conn_poisoned c \<and> wire c = [1, 1, 0, 11, 0, 0, 0, 0, 1] \<and> (\<exists>e. send (PacketHeader_batch 1) (put_bytes [4]) c = (Err e, c)))"
proof
  fix env
  obtain b' where fin: "bulk_finalize env load_sent = (Ok [1], b')" using load_steps(3) [of env] by (cases "bulk_finalize env load_sent") auto
  have "session_step env (Idle load_conn, False) (Loading load_conn load_start, False)" "session_step env (Loading load_conn load_start, False) (Loading load_conn load_sent, False)"
      "session_step env (Loading load_conn load_sent, False) (Idle (bl_conn b'), False)"
    using load_steps(1) load_steps(2) [of env] fin by (auto intro: session_step.intros)
  then have run: "(session_step env)\<^sup>*\<^sup>* (Idle load_conn, False) (Idle (bl_conn b'), False)" by (meson r_into_rtranclp rtranclp_trans)
  have np: "\<not> conn_poisoned (bl_conn b')" using fin by (auto simp: load_eval finalize_eval)
  have load: "whole_messages (wire (bl_conn b'))"
    using no_partial_message [OF run] np context_ok_new by (simp add: load_conn_def Connection_new_def)
  let ?start = "(Connection_new False Context_new [])\<lparr>conn_fates := [Dropped 9]\<rparr>"
  let ?c = "snd (send (PacketHeader_batch 0) (put_bytes [1, 2, 3]) ?start)"
  have ev: "conn_poisoned ?c \<and> wire ?c = [1, 1, 0, 11, 0, 0, 0, 0, 1]"
    by (simp add: send_eval send_packets.simps [of _ _ "_ # _"] send_packets.simps [of _ _ "[]"] Connection_new_def Context_new_def write_to_wire_def
        PacketCodec_encode_def Packet_encode_def PacketHeader_encode_def PacketHeader_batch_def PacketHeader_base_def Packet_new_def
        PacketHeader_set_status_def wire_def wire_simps wire_eval)
  have "(session_step env)\<^sup>*\<^sup>* (Idle ?start, False) (Idle ?c, False)" by (intro r_into_rtranclp step_conn op_send)
  then have "\<exists>e. send (PacketHeader_batch 1) (put_bytes [4]) ?c = (Err e, ?c)"
    using no_partial_message [of env ?start "Idle ?c" False] context_ok_new ev by (simp add: Connection_new_def)
  then show "(\<exists>b'. bulk_finalize env load_sent = (Ok [1], b') \<and> \<not> conn_poisoned (bl_conn b') \<and> whole_messages (wire (bl_conn b'))) \<and>
   (let c = ?c in conn_poisoned c \<and> wire c = [1, 1, 0, 11, 0, 0, 0, 0, 1] \<and> (\<exists>e. send (PacketHeader_batch 1) (put_bytes [4]) c = (Err e, c)))"
    using fin np load ev by (simp add: Let_def)
qed

end
