(* ===== verification/Tds_Identifier.thy ===== *)
theory Tds_Identifier
  imports Tds_Metadata
begin

text \<open>
  The SQL text that a bulk insert builds (\<^verbatim>\<open>client.rs\<close>, \<^verbatim>\<open>bulk_options.rs\<close>, \<^verbatim>\<open>tds/codec/iterator_ext.rs\<close>): T-SQL has no
  parameters for identifiers, so table and column names are put into the statement after a check. The Unicode tables behind
  \<^verbatim>\<open>char::is_alphanumeric\<close> and \<^verbatim>\<open>str::to_lowercase\<close> are parameters; all that the theorems use of the first is what it says on ASCII.
  The last part scans statements the way a T-SQL lexer does and shows that no checked name gets out of its place.
\<close>

section \<open>Options\<close>

datatype SqlBulkCopyOption = KeepIdentity | CheckConstraints | TableLock | KeepNulls | FireTriggers

type_synonym SqlBulkCopyOptions = "SqlBulkCopyOption set"

datatype SortOrder = Ascending | Descending

type_synonym ColumnOrderHint = "rstring \<times> SortOrder"

fun iterator_join :: "rstring \<Rightarrow> rstring list \<Rightarrow> rstring" where
  "iterator_join sep [] = []"
| "iterator_join sep [x] = x"
| "iterator_join sep (x # y # ys) = x @ sep @ iterator_join sep (y # ys)"

section \<open>Checking identifiers\<close>

definition bad_identifier :: "rstring \<Rightarrow> ident_problem \<Rightarrow> 'a res" where
  "bad_identifier what p = Err (BulkInput (BadIdentifier what p))"

definition ascii_control :: "rchar \<Rightarrow> bool" where
  "ascii_control c \<longleftrightarrow> c < 32 \<or> c = 127"

text \<open>The loop: whether a bracket is open, and how many parentheses are. 91 and 93 are brackets, 40 and 41 parentheses, 46 is a full stop,
  32 a space, 44 a comma; 95, 64, 35 and 42 are the other characters a name may have. The depth is a \<^verbatim>\<open>u32\<close>.\<close>

fun identifier_scan :: "(rchar \<Rightarrow> bool) \<Rightarrow> rstring \<Rightarrow> bool \<Rightarrow> nat \<Rightarrow> rstring \<Rightarrow> (bool \<times> nat) res" where
  "identifier_scan alnum what in_bracket depth [] = Ok (in_bracket, depth)"
| "identifier_scan alnum what True depth (c # cs) =
     (if c = 93 then
        (case cs of
           [] \<Rightarrow> identifier_scan alnum what False depth []
         | x # cs' \<Rightarrow>
             if x = 93 then identifier_scan alnum what True depth cs'
             else if x = 46 then identifier_scan alnum what False depth (x # cs')
             else bad_identifier what AfterBracket)
      else identifier_scan alnum what True depth cs)"
| "identifier_scan alnum what False depth (c # cs) =
     (if c = 91 then identifier_scan alnum what True depth cs
      else if c = 93 then bad_identifier what UnbalancedBracket
      else if c = 40 then (if depth + 1 < 2 ^ 32 then identifier_scan alnum what False (depth + 1) cs else Panic)
      else if c = 41 then
        (if depth = 0 then bad_identifier what UnbalancedParen
         else if depth - 1 = 0 \<and> cs \<noteq> [] then bad_identifier what AfterParen
         else identifier_scan alnum what False (depth - 1) cs)
      else if c = 32 \<and> depth = 0 then bad_identifier what DisallowedChar
      else if c = 44 \<and> depth = 0 then bad_identifier what DisallowedChar
      else if alnum c then identifier_scan alnum what False depth cs
      else if c \<in> {95, 46, 64, 35, 44, 32, 42} then identifier_scan alnum what False depth cs
      else bad_identifier what DisallowedChar)"

definition validate_sql_identifier :: "(rchar \<Rightarrow> bool) \<Rightarrow> rstring \<Rightarrow> rstring \<Rightarrow> unit res" where
  "validate_sql_identifier alnum what ident =
     (if list_ex ascii_control ident then bad_identifier what ControlChar
      else
        (case identifier_scan alnum what False 0 ident of
           Ok (in_bracket, depth) \<Rightarrow>
             if in_bracket then bad_identifier what UnterminatedBracket
             else if depth \<noteq> 0 then bad_identifier what UnclosedParen
             else Ok ()
         | Err e \<Rightarrow> Err e | Panic \<Rightarrow> Panic | Diverge \<Rightarrow> Diverge))"

definition validate_bulk_table_identifier :: "(rchar \<Rightarrow> bool) \<Rightarrow> rstring \<Rightarrow> unit res" where
  "validate_bulk_table_identifier alnum = validate_sql_identifier alnum (lit ''bulk insert table'')"

definition validate_bulk_column_identifier :: "(rchar \<Rightarrow> bool) \<Rightarrow> rstring \<Rightarrow> unit res" where
  "validate_bulk_column_identifier alnum = validate_sql_identifier alnum (lit ''bulk insert column'')"

definition ascii_alphanumeric :: "rchar \<Rightarrow> bool" where
  "ascii_alphanumeric c \<longleftrightarrow> 48 \<le> c \<and> c \<le> 57 \<or> 65 \<le> c \<and> c \<le> 90 \<or> 97 \<le> c \<and> c \<le> 122"

definition validate_collation_name :: "rstring \<Rightarrow> unit res" where
  "validate_collation_name name =
     (if name \<noteq> [] \<and> list_all (\<lambda>c. ascii_alphanumeric c \<or> c = 95) name then Ok ()
      else Err (Protocol (ClientMsg (InvalidCollationName name))))"

section \<open>Building statements\<close>

definition bulk_clauses :: "SqlBulkCopyOptions \<Rightarrow> ColumnOrderHint list \<Rightarrow> rstring list" where
  "bulk_clauses options order_hints =
     (if CheckConstraints \<in> options then [lit ''CHECK_CONSTRAINTS''] else []) @
     (if TableLock \<in> options then [lit ''TABLOCK''] else []) @
     (if KeepNulls \<in> options then [lit ''KEEP_NULLS''] else []) @
     (if FireTriggers \<in> options then [lit ''FIRE_TRIGGERS''] else []) @
     (if order_hints \<noteq> [] then
        [lit ''ORDER('' @
         iterator_join (lit '', '') (map (\<lambda>(col, order). col @ lit '' '' @ (case order of Ascending \<Rightarrow> lit ''ASC'' | Descending \<Rightarrow> lit ''DESC'')) order_hints) @
         lit '')'']
      else [])"

definition build_insert_bulk_sql :: "rstring \<Rightarrow> rstring \<Rightarrow> SqlBulkCopyOptions \<Rightarrow> ColumnOrderHint list \<Rightarrow> rstring" where
  "build_insert_bulk_sql table col_data options order_hints =
     (let clauses = bulk_clauses options order_hints;
          query = lit ''INSERT BULK '' @ table @ lit '' ('' @ col_data @ lit '')'' in
      if clauses \<noteq> [] then query @ lit '' WITH ('' @ iterator_join (lit '', '') clauses @ lit '')'' else query)"

definition declares_collation :: "TypeInfo \<Rightarrow> bool" where
  "declares_collation ty \<longleftrightarrow>
     (case ty of VarLenSized cx \<Rightarrow> vlc_type cx \<in> {VBigChar, VBigVarChar, VText, VNChar, VNVarchar, VNText} | _ \<Rightarrow> False)"

type_synonym collation_rows = "(rstring \<times> rstring option) list"

definition column_collation :: "(rstring \<Rightarrow> rstring) \<Rightarrow> rstring \<Rightarrow> collation_rows \<Rightarrow> rstring option" where
  "column_collation lower name collations =
     (case find (\<lambda>(n, _). n = name) collations of
        Some row \<Rightarrow> snd row
      | None \<Rightarrow> (case filter (\<lambda>(n, _). lower n = lower name) collations of [row] \<Rightarrow> snd row | _ \<Rightarrow> None))"

text \<open>\<^verbatim>\<open>format!\<close> panics when the column has no SQL text.\<close>

definition bulk_column_item :: "(rstring \<Rightarrow> rstring) \<Rightarrow> collation_rows \<Rightarrow> MetaDataColumn \<Rightarrow> rstring res" where
  "bulk_column_item lower collations column =
     (case MetaDataColumn_display column of
        None \<Rightarrow> Panic
      | Some item \<Rightarrow>
          if declares_collation (bmc_ty (mdc_base column)) then
            (case column_collation lower (mdc_col_name column) collations of
               Some collation \<Rightarrow>
                 (case validate_collation_name collation of
                    Ok _ \<Rightarrow> Ok (item @ lit '' COLLATE '' @ collation)
                  | Err e \<Rightarrow> Err e | Panic \<Rightarrow> Panic | Diverge \<Rightarrow> Diverge)
             | None \<Rightarrow> Ok item)
          else Ok item)"

fun bulk_items :: "(rstring \<Rightarrow> rstring) \<Rightarrow> collation_rows \<Rightarrow> MetaDataColumn list \<Rightarrow> rstring list res" where
  "bulk_items lower collations [] = Ok []"
| "bulk_items lower collations (column # columns) =
     (case bulk_column_item lower collations column of
        Ok item \<Rightarrow>
          (case bulk_items lower collations columns of
             Ok items \<Rightarrow> Ok (item # items) | Err e \<Rightarrow> Err e | Panic \<Rightarrow> Panic | Diverge \<Rightarrow> Diverge)
      | Err e \<Rightarrow> Err e | Panic \<Rightarrow> Panic | Diverge \<Rightarrow> Diverge)"

definition bulk_column_list :: "(rstring \<Rightarrow> rstring) \<Rightarrow> MetaDataColumn list \<Rightarrow> collation_rows \<Rightarrow> rstring res" where
  "bulk_column_list lower columns collations = map_res (iterator_join (lit '', '')) (bulk_items lower collations columns)"

definition bulk_column_is_target :: "BaseMetaDataColumn \<Rightarrow> bool \<Rightarrow> bool" where
  "bulk_column_is_target base keep_identity \<longleftrightarrow> is_updateable base \<or> keep_identity \<and> is_identity base"

section \<open>Multi-part names\<close>

definition quote_identifier :: "rstring \<Rightarrow> rstring" where
  "quote_identifier name = lit ''['' @ quote_name name @ lit '']''"

fun split_parts :: "bool \<Rightarrow> rstring \<Rightarrow> rstring \<Rightarrow> rstring list" where
  "split_parts in_bracket part [] = [part]"
| "split_parts True part (c # cs) =
     (if c = 93 then (case cs of x # cs' \<Rightarrow> if x = 93 then split_parts True (part @ [93]) cs' else split_parts False part cs | [] \<Rightarrow> split_parts False part cs)
      else split_parts True (part @ [c]) cs)"
| "split_parts False part (c # cs) =
     (if c = 91 then split_parts True part cs
      else if c = 46 then part # split_parts False [] cs
      else split_parts False (part @ [c]) cs)"

definition split_multipart_identifier :: "rstring \<Rightarrow> rstring list" where
  "split_multipart_identifier ident = split_parts False [] ident"

definition part_from_end :: "rstring list \<Rightarrow> nat \<Rightarrow> rstring" where
  "part_from_end parts n = (if n + 1 \<le> length parts then parts ! (length parts - (n + 1)) else [])"

definition double_quotes :: "rstring \<Rightarrow> rstring" where
  "double_quotes s = concat (map (\<lambda>c. if c = 39 then [39, 39] else [c]) s)"

definition literal_part :: "rstring \<Rightarrow> rstring" where
  "literal_part part = (if part = [] then [] else quote_identifier (double_quotes part))"

definition table_collations_sql :: "rstring \<Rightarrow> FeatureLevel \<Rightarrow> rstring" where
  "table_collations_sql table version =
     (let parts = split_multipart_identifier table; table_name = part_from_end parts 0; schema = part_from_end parts 1;
          catalog = part_from_end parts 2;
          catalog = (if catalog = [] then (if take 1 table_name = lit ''#'' then lit ''tempdb'' else []) else quote_identifier catalog);
          procedure = (if FeatureLevel_value version \<ge> FeatureLevel_value SqlServer2008 then lit ''sp_tablecollations_100'' else lit ''sp_tablecollations_90'') in
      lit ''EXEC '' @ catalog @ lit ''..'' @ procedure @ lit '' N'' @ [39] @ literal_part schema @ lit ''.'' @ literal_part table_name @ [39])"

section \<open>Scanning a statement\<close>

text \<open>A T-SQL lexer reduced to what matters here: whether it is in a bracketed name (\<open>Closing\<close> after a bracket that may still turn out to
  be the first half of a doubled one), and how many parentheses are open. It gives up on a character that, outside a bracketed name, would
  separate statements, open a literal, start a comment, or close more parentheses than were opened; and on a comma at the depth
  \<open>sep\<close>, where it would separate two items of a list.\<close>

datatype sql_mode = Code | Bracketed | Closing

definition breaks_out :: "rchar \<Rightarrow> bool" where
  "breaks_out c \<longleftrightarrow> c \<in> {59, 39, 34, 45, 47, 93} \<or> ascii_control c"

definition sql_code :: "nat option \<Rightarrow> nat \<Rightarrow> rchar \<Rightarrow> (sql_mode \<times> nat) option" where
  "sql_code sep depth c =
     (if breaks_out c \<or> c = 44 \<and> sep = Some depth then None
      else if c = 91 then Some (Bracketed, depth)
      else if c = 40 then Some (Code, depth + 1)
      else if c = 41 then (if depth = 0 then None else Some (Code, depth - 1))
      else Some (Code, depth))"

fun sql_step :: "nat option \<Rightarrow> sql_mode \<Rightarrow> nat \<Rightarrow> rchar \<Rightarrow> (sql_mode \<times> nat) option" where
  "sql_step sep Code depth c = sql_code sep depth c"
| "sql_step sep Bracketed depth c = Some (if c = 93 then Closing else Bracketed, depth)"
| "sql_step sep Closing depth c = (if c = 93 then Some (Bracketed, depth) else sql_code sep depth c)"

fun sql_scan :: "nat option \<Rightarrow> sql_mode \<Rightarrow> nat \<Rightarrow> rstring \<Rightarrow> (sql_mode \<times> nat) option" where
  "sql_scan sep mode depth [] = Some (mode, depth)"
| "sql_scan sep mode depth (c # cs) =
     (case sql_step sep mode depth c of None \<Rightarrow> None | Some (mode', depth') \<Rightarrow> sql_scan sep mode' depth' cs)"

text \<open>A text that, wherever it is put, leaves the lexer outside of names and at the same depth, and never gets below it; when it is
  meant to be one item of a list, it also has no comma at its own depth.\<close>

definition item_sep :: "bool \<Rightarrow> nat \<Rightarrow> nat option" where
  "item_sep one d = (if one then Some d else None)"

definition sql_contained :: "bool \<Rightarrow> rstring \<Rightarrow> bool" where
  "sql_contained one s \<longleftrightarrow> (\<forall>d. sql_scan (item_sep one d) Code d s \<in> {Some (Code, d), Some (Closing, d)})"

definition plain_char :: "bool \<Rightarrow> rchar \<Rightarrow> bool" where
  "plain_char one c \<longleftrightarrow> \<not> breaks_out c \<and> c \<notin> {91, 40, 41} \<and> (one \<longrightarrow> c \<noteq> 44)"

lemmas char_defs = plain_char_def breaks_out_def ascii_control_def

lemma sql_scan_append: "sql_scan p m d (s @ t) = (case sql_scan p m d s of None \<Rightarrow> None | Some (m', d') \<Rightarrow> sql_scan p m' d' t)"
  by (induction s arbitrary: m d) (auto split: option.split)

lemma sql_code_sep: "sql_code p d c = Some r \<Longrightarrow> sql_code None d c = Some r"
  by (auto simp: sql_code_def split: if_splits)

lemma sql_scan_sep: "sql_scan p m d s = Some r \<Longrightarrow> sql_scan None m d s = Some r"
proof (induction s arbitrary: m d)
  case (Cons c s)
  then obtain m' d' where st: "sql_step p m d c = Some (m', d')" "sql_scan p m' d' s = Some r" by (auto split: option.splits)
  then have "sql_step None m d c = Some (m', d')" using sql_code_sep [of p d c] by (cases m) (auto split: if_splits)
  then show ?case using Cons.IH [OF st(2)] by simp
qed simp

lemma contained_one: "sql_contained True s \<Longrightarrow> sql_contained one s"
proof -
  assume s: "sql_contained True s"
  have "sql_scan None Code d s \<in> {Some (Code, d), Some (Closing, d)}" for d
  proof -
    have "sql_scan (Some d) Code d s \<in> {Some (Code, d), Some (Closing, d)}" using s by (simp add: sql_contained_def item_sep_def)
    then show ?thesis using sql_scan_sep [of "Some d" Code d s] by auto
  qed
  then show ?thesis using s by (cases one) (simp_all add: sql_contained_def item_sep_def)
qed

lemma contained_then: "sql_contained one s \<Longrightarrow> c \<noteq> 93 \<Longrightarrow> sql_scan (item_sep one d) Code d (s @ c # t) = sql_scan (item_sep one d) Code d (c # t)"
  by (auto simp: sql_contained_def sql_scan_append dest!: spec [of _ d])

lemma plain_scan: "list_all (plain_char False) s \<Longrightarrow> p \<noteq> Some d \<or> list_all (plain_char True) s \<Longrightarrow> sql_scan p Code d s = Some (Code, d)"
  by (induction s) (auto simp: plain_char_def sql_code_def)

lemma plain_one: "list_all (plain_char one) s \<Longrightarrow> sql_scan (item_sep one d) Code d s = Some (Code, d)"
  by (rule plain_scan) (auto simp: item_sep_def plain_char_def list_all_iff)

lemma plain_then: "list_all (plain_char one) s \<Longrightarrow> sql_scan (item_sep one d) Code d (s @ t) = sql_scan (item_sep one d) Code d t"
  by (simp add: sql_scan_append plain_one)

lemma plain_contained: "list_all (plain_char one) s \<Longrightarrow> sql_contained one s"
  by (simp add: sql_contained_def plain_one)

lemma contained_plain:
  assumes "sql_contained one s" "list_all (plain_char one) t" "t \<noteq> []"
  shows "sql_scan (item_sep one d) Code d (s @ t @ u) = sql_scan (item_sep one d) Code d u"
proof -
  obtain c t' where t: "t = c # t'" using assms(3) by (cases t) auto
  then have "c \<noteq> 93" using assms(2) by (auto simp: char_defs)
  then show ?thesis using contained_then [OF assms(1), of c d "t' @ u"] plain_then [OF assms(2), of d u] t by simp
qed

lemma contained_append_plain:
  "sql_contained one s \<Longrightarrow> list_all (plain_char one) t \<Longrightarrow> t \<noteq> [] \<Longrightarrow> sql_contained one u \<Longrightarrow> sql_contained one (s @ t @ u)"
  using contained_plain [of one s t _ u] by (auto simp: sql_contained_def [of one "s @ t @ u"] sql_contained_def [of one u])

lemma contained_plain_append: "list_all (plain_char one) t \<Longrightarrow> sql_contained one u \<Longrightarrow> sql_contained one (t @ u)"
  using plain_then [of one t _ u] by (auto simp: sql_contained_def)

lemma contained_parens: "sql_contained False s \<Longrightarrow> sql_scan None Code d (40 # s @ 41 # t) = sql_scan None Code d t"
  using contained_then [of False s 41 "Suc d" t] by (simp add: sql_code_def breaks_out_def ascii_control_def item_sep_def)

lemma contained_in_parens: "sql_contained False s \<Longrightarrow> sql_contained False t \<Longrightarrow> sql_contained False (40 # s @ 41 # t)"
  unfolding sql_contained_def [of _ "40 # s @ 41 # t"] item_sep_def by (simp only: contained_parens if_False) (simp add: sql_contained_def item_sep_def)

lemma plain_lits: "list_all (plain_char False) (lit '', '')" "list_all (plain_char True) (lit '' '')" "lit '', '' \<noteq> []" "lit '' '' \<noteq> []"
  by (simp_all add: lit_def char_defs)

lemma contained_join: "list_all (sql_contained False) xs \<Longrightarrow> sql_contained False (iterator_join (lit '', '') xs)"
proof (induction "lit '', ''" xs rule: iterator_join.induct)
  case (3 x y ys)
  then have "sql_contained False x" "sql_contained False (iterator_join (lit '', '') (y # ys))" by simp_all
  then show ?case unfolding iterator_join.simps by (intro contained_append_plain plain_lits)
qed (simp_all add: sql_contained_def)

section \<open>Checked names\<close>

text \<open>What the check needs to know of \<^verbatim>\<open>char::is_alphanumeric\<close>.\<close>

definition ascii_faithful :: "(rchar \<Rightarrow> bool) \<Rightarrow> bool" where
  "ascii_faithful alnum \<longleftrightarrow> (\<forall>c<128. alnum c \<longleftrightarrow> ascii_alphanumeric c)"

lemma alnum_plain: "ascii_faithful alnum \<Longrightarrow> alnum c \<Longrightarrow> plain_char one c"
proof -
  assume a: "ascii_faithful alnum" "alnum c"
  show ?thesis
  proof (cases "c < 128")
    case True
    then have "ascii_alphanumeric c" using a by (simp add: ascii_faithful_def)
    then show ?thesis by (auto simp: char_defs ascii_alphanumeric_def)
  qed (auto simp: char_defs)
qed

lemma plain_step: "plain_char False c \<Longrightarrow> p \<noteq> Some d \<or> c \<noteq> 44 \<Longrightarrow> sql_scan p Code d (c # cs) = sql_scan p Code d cs"
  by (auto simp: plain_char_def sql_code_def)

lemma identifier_scan_contained:
  "ascii_faithful alnum \<Longrightarrow> identifier_scan alnum what ib d s = Ok (ib', d') \<Longrightarrow> list_all (\<lambda>c. \<not> ascii_control c) s \<Longrightarrow>
    \<exists>m. sql_scan (Some e) (if ib then Bracketed else Code) (d + e) s = Some (m, d' + e) \<and> (m = Bracketed \<longleftrightarrow> ib')"
proof (induction alnum what ib d s rule: identifier_scan.induct)
  case (1 alnum what ib d)
  then show ?case by auto
next
  case (2 alnum what d c cs)
  show ?case
  proof (cases "c = 93")
    case True
    show ?thesis
    proof (cases cs)
      case (Cons x cs')
      then consider "x = 93" | "x = 46" "x \<noteq> 93" using "2.prems" True by (auto simp: bad_identifier_def split: if_splits)
      then show ?thesis
      proof cases
        case 1
        then show ?thesis using 2 True Cons by simp
      next
        case 2
        then show ?thesis using "2.IH"(3) [OF True Cons] "2.prems" True Cons by simp
      qed
    qed (use 2 True in auto)
  qed (use 2 in auto)
next
  case (3 alnum what d c cs)
  have c: "\<not> ascii_control c" using "3.prems" by simp
  consider "c = 91" | "c = 40" | "c = 41" | "plain_char False c" "c \<notin> {91, 93, 40, 41}" "c \<noteq> 44 \<or> d \<noteq> 0"
    using "3.prems"(2) alnum_plain [OF "3.prems"(1), of c]
    by (auto simp: bad_identifier_def char_defs split: if_splits)
  then show ?case
  proof cases
    case 1
    then show ?thesis using 3 by (simp add: sql_code_def breaks_out_def ascii_control_def)
  next
    case 2
    then show ?thesis using "3.IH"(2) "3.prems" by (auto simp: sql_code_def breaks_out_def ascii_control_def split: if_splits)
  next
    case 3
    then show ?thesis using "3.IH"(3) "3.prems" by (auto simp: sql_code_def breaks_out_def ascii_control_def bad_identifier_def Suc_diff_Suc split: if_splits)
  next
    case 4
    then have "sql_scan (Some e) Code (d + e) (c # cs) = sql_scan (Some e) Code (d + e) cs" by (intro plain_step) auto
    then show ?thesis using 4 "3.IH"(4,5) "3.prems" by (auto simp: bad_identifier_def simp del: sql_scan.simps split: if_splits)
  qed
qed

lemma validated_contained:
  assumes "ascii_faithful alnum" "validate_sql_identifier alnum what ident = Ok ()"
  shows "sql_contained one ident"
proof -
  have "identifier_scan alnum what False 0 ident = Ok (False, 0)" "list_all (\<lambda>c. \<not> ascii_control c) ident"
    using assms(2) by (auto simp: validate_sql_identifier_def bad_identifier_def list_ex_iff list_all_iff split: if_splits res.splits)
  then have scan: "\<exists>m. sql_scan (Some d) Code d ident = Some (m, d) \<and> m \<noteq> Bracketed" for d
    using identifier_scan_contained [OF assms(1), of what False 0 ident False 0 d] by simp
  have "sql_scan (Some d) Code d ident \<in> {Some (Code, d), Some (Closing, d)}" for d
  proof -
    obtain m where "sql_scan (Some d) Code d ident = Some (m, d)" "m \<noteq> Bracketed" using scan by blast
    then show ?thesis by (cases m) simp_all
  qed
  then have "sql_contained True ident" by (simp add: sql_contained_def item_sep_def)
  then show ?thesis by (rule contained_one)
qed

section \<open>The statement of a bulk insert\<close>

lemma quote_scan: "sql_scan p Bracketed d (quote_name s @ t) = sql_scan p Bracketed d t"
  by (induction s) (simp_all add: quote_name_def)

lemma contained_quoted:
  assumes "sql_contained one t"
  shows "sql_contained one (lit ''['' @ quote_name s @ lit ''] '' @ t)"
proof -
  have "sql_scan p Code d (lit ''['' @ quote_name s @ lit ''] '' @ t) = sql_scan p Code d t" if "p = item_sep one d" for p d
    using that by (simp add: lit_def sql_code_def breaks_out_def ascii_control_def quote_scan)
  then show ?thesis using assms by (simp add: sql_contained_def)
qed

lemma contained_typed:
  assumes "list_all (plain_char True) nm" "list_all (plain_char False) inner"
  shows "sql_contained True (nm @ 40 # inner @ [41])"
proof -
  have "sql_scan (Some d) Code (Suc d) inner = Some (Code, Suc d)" for d using assms(2) by (intro plain_scan) auto
  then have "sql_scan (Some d) Code d (40 # inner @ [41]) = Some (Code, d)" for d
    by (simp add: sql_scan_append sql_code_def breaks_out_def ascii_control_def)
  then have "sql_contained True (40 # inner @ [41])" by (simp add: sql_contained_def item_sep_def)
  then show ?thesis using contained_plain_append [OF assms(1)] by simp
qed

lemma digits_plain: "list_all (plain_char one) (show_nat n)"
  using show_nat_digits [of n] by (fastforce simp: list_all_iff char_defs)

lemma contained_sized: "list_all (plain_char True) (lit nm) \<Longrightarrow> sql_contained True (sized_name nm n)"
  using contained_typed [of "lit nm" "show_nat n"] digits_plain by (simp add: sized_name_def lit_def)

lemma contained_max: "list_all (plain_char True) (lit nm) \<Longrightarrow> sql_contained True (max_name nm limit n)"
  using contained_typed [of "lit nm" "lit ''max''"] contained_sized [of nm n] by (simp add: max_name_def lit_def char_defs)

lemma contained_fixed: "sql_contained True (fixed_sql_name ty)"
  by (cases ty) (simp_all add: plain_contained lit_def char_defs)

lemma contained_var: "var_sql_name ty n = Some out \<Longrightarrow> sql_contained True out"
  by (cases ty) (auto intro!: plain_contained contained_sized contained_max simp: lit_def char_defs)

definition is_udt :: "TypeInfo \<Rightarrow> bool" where
  "is_udt ty \<longleftrightarrow> (case ty of Udt _ \<Rightarrow> True | _ \<Rightarrow> False)"

lemma contained_type:
  assumes "type_sql_name ty = Some out" "\<not> is_udt ty"
  shows "sql_contained True out"
proof (cases ty)
  case (VarLenSizedPrecision t sz p sc)
  have plain: "list_all (plain_char True) (lit ''numeric'')" "list_all (plain_char True) (lit ''decimal'')"
      "list_all (plain_char False) (show_nat (unat p) @ 44 # show_nat (unat sc))"
    using digits_plain [of False] by (simp_all add: lit_def char_defs)
  have "out = lit (if t = VNumericn then ''numeric'' else ''decimal'') @ 40 # (show_nat (unat p) @ 44 # show_nat (unat sc)) @ [41]"
    using assms(1) VarLenSizedPrecision by (auto simp: lit_def)
  then show ?thesis using contained_typed [OF _ plain(3)] plain(1,2) by simp
qed (use assms in \<open>auto simp: is_udt_def lit_def char_defs intro: contained_fixed contained_var plain_contained\<close>)

lemma contained_display: "MetaDataColumn_display c = Some out \<Longrightarrow> \<not> is_udt (bmc_ty (mdc_base c)) \<Longrightarrow> sql_contained True out"
  by (auto simp: MetaDataColumn_display_def intro!: contained_quoted contained_type)

lemma contained_item:
  assumes "bulk_column_item lower collations c = Ok item" "\<not> is_udt (bmc_ty (mdc_base c))"
  shows "sql_contained True item"
proof -
  obtain out where out: "MetaDataColumn_display c = Some out" "sql_contained True out"
    using assms contained_display [of c] by (auto simp: bulk_column_item_def split: option.splits)
  have "sql_contained True (out @ lit '' COLLATE '' @ name)" if "validate_collation_name name = Ok ()" for name
  proof -
    have "list_all (plain_char True) name"
      using that by (auto simp: validate_collation_name_def list_all_iff ascii_alphanumeric_def char_defs split: if_splits)
    moreover have "list_all (plain_char True) (lit '' COLLATE '')" by (simp add: lit_def char_defs)
    ultimately show ?thesis by (intro contained_append_plain [OF out(2)] plain_contained) (simp_all add: lit_def)
  qed
  then show ?thesis using assms(1) out by (auto simp: bulk_column_item_def split: if_splits option.splits res.splits)
qed

lemma bulk_items_all:
  "bulk_items lower collations columns = Ok items \<Longrightarrow> list_all2 (\<lambda>c item. bulk_column_item lower collations c = Ok item) columns items"
  by (induction columns arbitrary: items) (auto split: res.splits)

lemma contained_items:
  assumes "bulk_items lower collations columns = Ok items" "\<forall>c\<in>set columns. \<not> is_udt (bmc_ty (mdc_base c))"
  shows "list_all (sql_contained True) items"
  using bulk_items_all [OF assms(1)] assms(2)
  by (induction rule: list_all2_induct) (auto intro: contained_item)

text \<open>The pieces of a list, cut at the commas of depth zero outside names.\<close>

fun sql_items :: "sql_mode \<Rightarrow> nat \<Rightarrow> rstring \<Rightarrow> rstring \<Rightarrow> rstring list" where
  "sql_items mode depth piece [] = [piece]"
| "sql_items mode depth piece (c # cs) =
     (case sql_step (Some 0) mode depth c of
        Some (mode', depth') \<Rightarrow> sql_items mode' depth' (piece @ [c]) cs
      | None \<Rightarrow> if c = 44 then piece # sql_items Code 0 [] cs else [piece @ c # cs])"

lemma sql_items_scan: "sql_scan (Some 0) m d s = Some (m', d') \<Longrightarrow> sql_items m d piece (s @ t) = sql_items m' d' (piece @ s) t"
  by (induction s arbitrary: m d piece) (auto split: option.splits)

lemma sql_items_one:
  assumes "sql_contained True x"
  shows "sql_items Code 0 piece x = [piece @ x]" "sql_items Code 0 piece (x @ lit '', '' @ t) = (piece @ x) # sql_items Code 0 [32] t"
proof -
  have "sql_scan (Some 0) Code 0 x \<in> {Some (Code, 0), Some (Closing, 0)}" using assms by (simp add: sql_contained_def item_sep_def)
  then obtain m where m: "sql_scan (Some 0) Code 0 x = Some (m, 0)" "m \<noteq> Bracketed" by blast
  then have "sql_items m 0 (piece @ x) (44 # 32 # t) = (piece @ x) # sql_items Code 0 [32] t"
    by (cases m) (simp_all add: sql_code_def breaks_out_def ascii_control_def)
  then show "sql_items Code 0 piece (x @ lit '', '' @ t) = (piece @ x) # sql_items Code 0 [32] t"
    using sql_items_scan [OF m(1), of piece "44 # 32 # t"] by (simp add: lit_def)
  show "sql_items Code 0 piece x = [piece @ x]" using sql_items_scan [OF m(1), of piece "[]"] by simp
qed

lemma sql_items_join:
  "list_all (sql_contained True) (x # xs) \<Longrightarrow> sql_items Code 0 piece (iterator_join (lit '', '') (x # xs)) = (piece @ x) # map ((#) 32) xs"
proof (induction xs arbitrary: x piece)
  case (Cons y ys)
  then show ?case by (simp add: sql_items_one del: sql_items.simps) 
qed (simp add: sql_items_one)

lemma contained_hint:
  assumes "ascii_faithful alnum" "validate_bulk_column_identifier alnum col = Ok ()"
  shows "sql_contained False (col @ lit '' '' @ (case order of Ascending \<Rightarrow> lit ''ASC'' | Descending \<Rightarrow> lit ''DESC''))"
proof -
  have "list_all (plain_char False) (case order of Ascending \<Rightarrow> lit ''ASC'' | Descending \<Rightarrow> lit ''DESC'')" "list_all (plain_char False) (lit '' '')"
    by (cases order) (simp_all add: lit_def char_defs)
  moreover have "sql_contained False col" using assms by (simp add: validate_bulk_column_identifier_def validated_contained)
  ultimately show ?thesis using contained_append_plain [of False col "lit '' ''"] plain_contained by (simp add: lit_def)
qed

lemma contained_clauses:
  assumes "ascii_faithful alnum" "\<forall>(col, _)\<in>set hints. validate_bulk_column_identifier alnum col = Ok ()"
  shows "list_all (sql_contained False) (bulk_clauses options hints)"
proof -
  have kw: "sql_contained False (lit ''CHECK_CONSTRAINTS'')" "sql_contained False (lit ''TABLOCK'')" "sql_contained False (lit ''KEEP_NULLS'')"
      "sql_contained False (lit ''FIRE_TRIGGERS'')"
    by (rule plain_contained, simp add: lit_def char_defs)+
  have "sql_contained False (iterator_join (lit '', '') (map (\<lambda>(col, order). col @ lit '' '' @ (case order of Ascending \<Rightarrow> lit ''ASC'' | Descending \<Rightarrow> lit ''DESC'')) hints))"
    using assms by (intro contained_join) (auto simp: list_all_iff intro!: contained_hint)
  from contained_in_parens [OF this, of "[]"]
  have "sql_contained False (lit ''ORDER'' @ 40 # iterator_join (lit '', '') (map (\<lambda>(col, order). col @ lit '' '' @ (case order of Ascending \<Rightarrow> lit ''ASC'' | Descending \<Rightarrow> lit ''DESC'')) hints) @ [41])"
    by (intro contained_plain_append) (simp_all add: lit_def char_defs sql_contained_def)
  then show ?thesis using kw by (simp add: bulk_clauses_def lit_def)
qed

lemma contained_statement:
  assumes "sql_contained False table" "sql_contained False cols" "list_all (sql_contained False) (bulk_clauses options hints)"
  shows "sql_contained False (build_insert_bulk_sql table cols options hints)"
proof -
  have clauses: "sql_contained False (lit '' WITH '' @ 40 # iterator_join (lit '', '') (bulk_clauses options hints) @ 41 # [])"
    by (intro contained_plain_append contained_in_parens contained_join assms(3)) (simp_all add: lit_def char_defs sql_contained_def)
  have "sql_contained False (lit ''INSERT BULK '' @ table @ lit '' '' @ 40 # cols @ 41 # t)" if "sql_contained False t" for t
    by (intro contained_plain_append contained_append_plain contained_in_parens assms that) (simp_all add: lit_def char_defs)
  from this [of "[]"] this [OF clauses] show ?thesis
    by (simp add: build_insert_bulk_sql_def Let_def lit_def sql_contained_def)
qed

text \<open>C7: Names cannot break out of the bulk insert statement. Take a table name and order hints that passed the check, and any columns and
  collations the server reported, none of them of a user-defined type: the \<open>INSERT BULK\<close> statement, read the way T-SQL reads it, has
  outside of bracketed names nothing that ends the statement, opens a literal or starts a comment; every bracketed name is closed, every
  parenthesis is balanced. And the column list, cut at its commas, has exactly one piece per column, so no column name, type or
  collation name can smuggle in another one.\<close>

theorem bulk_statement_contained:
  assumes "ascii_faithful alnum"
    and "validate_bulk_table_identifier alnum table = Ok ()"
    and "\<forall>(col, _)\<in>set order_hints. validate_bulk_column_identifier alnum col = Ok ()"
    and "\<forall>c\<in>set columns. \<not> is_udt (bmc_ty (mdc_base c))"
    and "bulk_column_list lower columns collations = Ok col_data"
  shows "sql_contained False (build_insert_bulk_sql table col_data options order_hints) \<and>
    (columns \<noteq> [] \<longrightarrow>
       list_all2 (\<lambda>c piece. \<exists>item. bulk_column_item lower collations c = Ok item \<and> (piece = item \<or> piece = lit '' '' @ item))
         columns (sql_items Code 0 [] col_data))"
proof -
  obtain items where items: "bulk_items lower collations columns = Ok items" "col_data = iterator_join (lit '', '') items"
    using assms(5) unfolding bulk_column_list_def by (cases "bulk_items lower collations columns") auto
  note one = contained_items [OF items(1) assms(4)]
  then have "sql_contained False col_data" unfolding items(2) by (intro contained_join) (auto simp: list_all_iff contained_one)
  moreover have "sql_contained False table" using assms(1,2) by (simp add: validate_bulk_table_identifier_def validated_contained)
  ultimately have "sql_contained False (build_insert_bulk_sql table col_data options order_hints)"
    using contained_clauses [OF assms(1,3)] by (intro contained_statement)
  moreover have "list_all2 (\<lambda>c piece. \<exists>item. bulk_column_item lower collations c = Ok item \<and> (piece = item \<or> piece = lit '' '' @ item))
      columns (sql_items Code 0 [] col_data)" if cols: "columns \<noteq> []"
  proof -
    note all = bulk_items_all [OF items(1)]
    then obtain x xs where x: "items = x # xs" using cols by (cases items) auto
    have "sql_items Code 0 [] col_data = x # map ((#) 32) xs" using sql_items_join [of x xs "[]"] one x items(2) by simp
    then show ?thesis using all x by (auto simp: lit_def list_all2_Cons2 list.rel_map intro: list_all2_mono)
  qed
  ultimately show ?thesis by blast
qed

theorem bulk_statement_contained_witness:
  "sql_contained False (build_insert_bulk_sql (lit ''[dbo].[my table]'') (lit ''[a]]b] int'') {TableLock} [(lit ''a'', Ascending)])"
proof -
  let ?c = "\<lparr>mdc_base = \<lparr>bmc_flags = 0, bmc_ty = FixedLen FInt4, bmc_table_name = None\<rparr>, mdc_col_name = lit ''a]b''\<rparr>"
  have "validate_bulk_table_identifier ascii_alphanumeric (lit ''[dbo].[my table]'') = Ok ()"
    "validate_bulk_column_identifier ascii_alphanumeric (lit ''a'') = Ok ()"
    by (simp_all add: validate_bulk_table_identifier_def validate_bulk_column_identifier_def validate_sql_identifier_def lit_def ascii_control_def ascii_alphanumeric_def)
  moreover have "bulk_column_list (\<lambda>s. s) [?c] [] = Ok (lit ''[a]]b] int'')"
    by (simp add: bulk_column_list_def bulk_column_item_def MetaDataColumn_display_def declares_collation_def quote_name_def lit_def)
  ultimately show ?thesis
    using bulk_statement_contained [of ascii_alphanumeric "lit ''[dbo].[my table]''" "[(lit ''a'', Ascending)]" "[?c]" "\<lambda>s. s" "[]" "lit ''[a]]b] int''" "{TableLock}"]
    by (simp add: ascii_faithful_def is_udt_def)
qed

section \<open>Names of several parts\<close>

lemma split_quoted: "split_parts True part (quote_name s @ 93 # t) = split_parts False (part @ s) t" if "take 1 t \<noteq> [93]"
  using that by (induction s arbitrary: part) (auto simp: quote_name_def split: list.split)

text \<open>C40: A name of several parts is taken apart as it was put together. Quoting the parts of a name in brackets and joining them with full stops is undone
  by the splitter, whatever characters the parts contain: brackets, full stops, quotes or nothing at all.\<close>

theorem multipart_roundtrip:
  assumes "parts \<noteq> []"
  shows "split_multipart_identifier (iterator_join (lit ''.'') (map quote_identifier parts)) = parts"
proof -
  have "split_parts False [] (iterator_join (lit ''.'') (map quote_identifier (p # ps))) = p # ps" for p ps
  proof (induction ps arbitrary: p)
    case Nil
    show ?case using split_quoted [of "[]" "[]" p] by (simp add: quote_identifier_def lit_def)
  next
    case (Cons q qs)
    let ?rest = "iterator_join (lit ''.'') (map quote_identifier (q # qs))"
    have "split_parts False [] (iterator_join (lit ''.'') (map quote_identifier (p # q # qs))) = split_parts True [] (quote_name p @ 93 # 46 # ?rest)"
      by (simp add: quote_identifier_def lit_def)
    also have "\<dots> = p # split_parts False [] ?rest" using split_quoted [of "46 # ?rest" "[]" p] by simp
    finally show ?case using Cons by simp
  qed
  then show ?thesis using assms by (cases parts) (auto simp: split_multipart_identifier_def)
qed

theorem multipart_roundtrip_witness:
  "split_multipart_identifier (lit ''[a]]b].[c.d]'') = [lit ''a]b'', lit ''c.d'']"
  using multipart_roundtrip [of "[lit ''a]b'', lit ''c.d'']"] by (simp add: quote_identifier_def quote_name_def lit_def)

section \<open>What the check lets through\<close>

text \<open>The type name of a user-defined type comes from the server and goes into the column list as it is.\<close>

lemma udt_name_unquoted:
  "\<exists>c col_data. bulk_column_list lower [c] [] = Ok col_data \<and>
     \<not> sql_contained False (build_insert_bulk_sql (lit ''t'') col_data {} [])"
proof -
  let ?c = "\<lparr>mdc_base = \<lparr>bmc_flags = 0, bmc_ty = Udt \<lparr>udt_max_byte_size = 0, udt_db_name = [], udt_schema_name = lit ''dbo'',
      udt_type_name = lit ''x;y'', udt_assembly_qualified_name = []\<rparr>, bmc_table_name = None\<rparr>, mdc_col_name = lit ''a''\<rparr>"
  have "bulk_column_list lower [?c] [] = Ok (lit ''[a] dbo.x;y'')"
    by (simp add: bulk_column_list_def bulk_column_item_def MetaDataColumn_display_def declares_collation_def quote_name_def lit_def)
  moreover have "\<not> sql_contained False (build_insert_bulk_sql (lit ''t'') (lit ''[a] dbo.x;y'') {} [])"
    by (simp add: sql_contained_def item_sep_def build_insert_bulk_sql_def bulk_clauses_def lit_def sql_code_def breaks_out_def ascii_control_def)
  ultimately show ?thesis by blast
qed

text \<open>A bracketed name directly after a plain one: two tokens in T-SQL.\<close>

lemma spliced_alias_accepted: "ascii_faithful alnum \<Longrightarrow> validate_bulk_table_identifier alnum (lit ''t[x]'') = Ok ()"
  by (simp add: validate_bulk_table_identifier_def validate_sql_identifier_def lit_def ascii_control_def ascii_faithful_def ascii_alphanumeric_def)

end
