(* ===== verification/Tds_Client.thy ===== *)
theory Tds_Client
  imports Tds_Requests Tds_Bulk Tds_Identifier
begin

text \<open>
  The client (\<^verbatim>\<open>client.rs\<close>), query and command objects (\<^verbatim>\<open>query.rs\<close>, \<^verbatim>\<open>command.rs\<close>): every
  operation drains what an earlier one left, sends one request in the current transaction, and reads the
  answer. A client is its connection. A stream that is returned holds the connection. The last part shows what a query and a transaction request put on the wire.
\<close>

section \<open>Requests\<close>

text \<open>The steps that every operation has: the transaction of the context goes into the request, the packet number into its header.\<close>

definition send_request :: "(u8 \<Rightarrow> PacketHeader) \<Rightarrow> (bytes \<Rightarrow> (bytes, unit) comp) \<Rightarrow> (Connection, unit) comp" where
  "send_request header req =
     with_conn_context (\<lambda>ctx. with_packet_id (\<lambda>i. send (header i) (req (ctx_transaction_desc ctx))))"

definition send_batch :: "rstring \<Rightarrow> (Connection, unit) comp" where
  "send_batch query = send_request PacketHeader_batch (\<lambda>desc. BatchRequest_encode (BatchRequest_new query desc))"

definition open_query :: "value_env \<Rightarrow> (Connection, QueryStream) comp" where
  "open_query env c =
     (case forward_to_metadata env (QueryStream_new (TokenStream_new c)) of
        (r, qs) \<Rightarrow> (map_res (\<lambda>_. qs) r, ts_conn (tk_stream (qs_tokens qs))))"

definition rpc_params :: "rstring \<Rightarrow> RpcParam list" where
  "rpc_params query =
     [\<lparr>rp_name = lit ''stmt'', rp_flags = 0, rp_value = Scalar (CString (Some query))\<rparr>,
      \<lparr>rp_name = lit ''params'', rp_flags = 0, rp_value = Scalar (CI32 (Some 0))\<rparr>]"

text \<open>The loop over the parameters: it grows the declarations and the list of values.\<close>

fun bind_params :: "nat \<Rightarrow> ColumnData list \<Rightarrow> rstring \<times> RpcParam list \<Rightarrow> rstring \<times> RpcParam list" where
  "bind_params i [] st = st"
| "bind_params i (param # ps) (param_str, params) =
     bind_params (i + 1) ps
       (param_str @ (if 0 < i then lit '','' else []) @ lit ''@P'' @ show_nat (i + 1) @ lit '' '' @ ColumnData_type_name param,
        params @ [\<lparr>rp_name = lit ''@P'' @ show_nat (i + 1), rp_flags = 0, rp_value = Scalar param\<rparr>])"

text \<open>\<^verbatim>\<open>iter_mut().find(..)\<close> and the assignment.\<close>

fun set_declarations :: "rstring \<Rightarrow> RpcParam list \<Rightarrow> RpcParam list" where
  "set_declarations s [] = []"
| "set_declarations s (p # ps) =
     (if rp_name p = lit ''params'' then p\<lparr>rp_value := Scalar (CString (Some s))\<rparr> # ps else p # set_declarations s ps)"

definition rpc_perform_query :: "value_env \<Rightarrow> RpcProcId \<Rightarrow> RpcParam list \<Rightarrow> ColumnData list \<Rightarrow> (Connection, unit) comp" where
  "rpc_perform_query env proc_id first_params params =
     (case bind_params 0 params ([], first_params) of (param_str, all_params) \<Rightarrow>
        send_request PacketHeader_rpc (\<lambda>desc.
          TokenRpcRequest_encode env (TokenRpcRequest_new (ProcId proc_id) (set_declarations param_str all_params) desc)))"

definition rpc_run_command :: "value_env \<Rightarrow> rstring \<Rightarrow> RpcParam list \<Rightarrow> (Connection, unit) comp" where
  "rpc_run_command env command_name params =
     send_request PacketHeader_rpc (\<lambda>desc. TokenRpcRequest_encode env (TokenRpcRequest_new (ProcName command_name) params desc))"

section \<open>Queries\<close>

definition client_execute :: "value_env \<Rightarrow> rstring \<Rightarrow> ColumnData list \<Rightarrow> (Connection, u64 list) comp" where
  "client_execute env query params =
     thenR flush_stream
    (thenR (rpc_perform_query env ExecuteSQL (rpc_params query) params) (on_tokens (ExecuteResult_new env)))"

definition client_query :: "value_env \<Rightarrow> rstring \<Rightarrow> ColumnData list \<Rightarrow> (Connection, QueryStream) comp" where
  "client_query env query params =
     thenR flush_stream (thenR (rpc_perform_query env ExecuteSQL (rpc_params query) params) (open_query env))"

definition simple_query :: "value_env \<Rightarrow> rstring \<Rightarrow> (Connection, QueryStream) comp" where
  "simple_query env query = thenR flush_stream (thenR (send_batch query) (open_query env))"

definition cancel_query :: "value_env \<Rightarrow> (Connection, unit) comp" where
  "cancel_query env = bindR (cancel_request env) (\<lambda>_. retR ())"

record Query =
  q_sql :: rstring
  q_params :: "ColumnData list"

definition Query_new :: "rstring \<Rightarrow> Query" where
  "Query_new sql = \<lparr>q_sql = sql, q_params = []\<rparr>"

definition Query_bind :: "ColumnData \<Rightarrow> Query \<Rightarrow> Query" where
  "Query_bind param q = q\<lparr>q_params := q_params q @ [param]\<rparr>"

definition Query_bind_iter :: "ColumnData list \<Rightarrow> Query \<Rightarrow> Query" where
  "Query_bind_iter params q = fold Query_bind params q"

definition param_count :: "Query \<Rightarrow> nat" where
  "param_count q = length (q_params q)"

definition MAX_PARAMETERS :: nat where "MAX_PARAMETERS = 2100"

text \<open>\<^verbatim>\<open>usize\<close> has 64 bits: the index and the capacity are computed with an overflow check, and a capacity beyond
  \<^verbatim>\<open>isize::MAX\<close> panics.\<close>

fun placeholders_loop :: "nat \<Rightarrow> nat list \<Rightarrow> rstring \<Rightarrow> rstring res" where
  "placeholders_loop first [] out = Ok out"
| "placeholders_loop first (index # is) out =
     (if first + index \<ge> 2 ^ 64 then Panic
      else placeholders_loop first is (out @ (if 0 < index then lit '', '' else []) @ lit ''@P'' @ show_nat (first + index)))"

definition placeholders :: "nat \<Rightarrow> nat \<Rightarrow> rstring res" where
  "placeholders first count = (if count * 6 \<ge> 2 ^ 63 then Panic else placeholders_loop first [0..<count] [])"

definition Query_execute :: "value_env \<Rightarrow> Query \<Rightarrow> (Connection, u64 list) comp" where
  "Query_execute env q =
     thenR flush_stream
    (thenR (rpc_perform_query env ExecuteSQL (rpc_params (q_sql q)) (q_params q)) (on_tokens (ExecuteResult_new env)))"

definition Query_query :: "value_env \<Rightarrow> Query \<Rightarrow> (Connection, QueryStream) comp" where
  "Query_query env q =
     thenR flush_stream (thenR (rpc_perform_query env ExecuteSQL (rpc_params (q_sql q)) (q_params q)) (open_query env))"

section \<open>Metadata\<close>

text \<open>The first result set is the one of the table, rows list the collations.\<close>

definition cell_string :: "TokenRow \<Rightarrow> nat \<Rightarrow> rstring option" where
  "cell_string row i = (if i < length row then (case row ! i of CString s \<Rightarrow> s | _ \<Rightarrow> None) else None)"

fun metadata_body :: "MetaDataColumn list option \<times> collation_rows \<Rightarrow> ReceivedToken option
    \<Rightarrow> (MetaDataColumn list option \<times> collation_rows) + (MetaDataColumn list option \<times> collation_rows) res" where
  "metadata_body st None = Inr (Ok st)"
| "metadata_body (columns, collations) (Some (NewResultset metadata)) =
     Inl (if columns = None then Some (tcm_columns metadata) else columns, collations)"
| "metadata_body (columns, collations) (Some (RowToken row)) =
     Inl (columns, case cell_string row 1 of Some name \<Rightarrow> collations @ [(name, cell_string row 3)] | None \<Rightarrow> collations)"
| "metadata_body st (Some _) = Inl st"

definition fetch_column_metadata :: "value_env \<Rightarrow> rstring \<Rightarrow> rstring list \<Rightarrow> bool \<Rightarrow> (Connection, MetaDataColumn list \<times> collation_rows) comp" where
  "fetch_column_metadata env table columns collations =
     thenR flush_stream
       (with_conn_context (\<lambda>ctx.
          let query = lit ''SELECT TOP 0 '' @ iterator_join (lit '', '') columns @ lit '' FROM '' @ table @
                (if collations then lit ''; '' @ table_collations_sql table (ctx_version ctx) else []) in
          thenR (send_batch query)
         (bindR (on_tokens (token_loop env metadata_body (None, []))) (\<lambda>(columns, collations).
          bindR (ok_or columns (Protocol (ClientMsg NoBulkMetadata))) (\<lambda>columns. retR (columns, collations))))))"

definition column_metadata :: "(rchar \<Rightarrow> bool) \<Rightarrow> value_env \<Rightarrow> rstring \<Rightarrow> rstring list \<Rightarrow> (Connection, MetaDataColumn list) comp" where
  "column_metadata alnum env table columns =
     thenR (liftR (validate_bulk_table_identifier alnum table))
    (thenR (eachR (\<lambda>column. liftR (validate_bulk_column_identifier alnum column)) columns)
    (bindR (fetch_column_metadata env table columns False) (\<lambda>(columns, _). retR columns)))"

fun layout_body :: "MetaDataColumn list option \<Rightarrow> ReceivedToken option \<Rightarrow> MetaDataColumn list option + MetaDataColumn list option res" where
  "layout_body columns None = Inr (Ok columns)"
| "layout_body columns (Some (NewResultset metadata)) = Inl (Some (tcm_columns metadata))"
| "layout_body columns (Some _) = Inl columns"

definition query_run_for_metadata :: "value_env \<Rightarrow> rstring \<Rightarrow> (Connection, MetaDataColumn list option) comp" where
  "query_run_for_metadata env query =
     thenR flush_stream (thenR (send_batch query) (on_tokens (token_loop env layout_body None)))"

section \<open>Bulk inserts\<close>

definition bulk_insert_with_options ::
  "(rchar \<Rightarrow> bool) \<Rightarrow> (rstring \<Rightarrow> rstring) \<Rightarrow> value_env \<Rightarrow> rstring \<Rightarrow> rstring list \<Rightarrow> SqlBulkCopyOptions \<Rightarrow> ColumnOrderHint list
     \<Rightarrow> (Connection, BulkLoadRequest) comp" where
  "bulk_insert_with_options alnum lower env table columns options order_hints =
     thenR (liftR (validate_bulk_table_identifier alnum table))
    (thenR (eachR (\<lambda>column. liftR (validate_bulk_column_identifier alnum column)) columns)
    (thenR (eachR (\<lambda>(column, _). liftR (validate_bulk_column_identifier alnum column)) order_hints)
    (bindR (fetch_column_metadata env table columns True) (\<lambda>(columns, collations).
       let targets = filter (\<lambda>column. bulk_column_is_target (mdc_base column) (KeepIdentity \<in> options)) columns;
           named = map (\<lambda>column. column\<lparr>mdc_base := (mdc_base column)\<lparr>bmc_table_name := Some table\<rparr>\<rparr>) targets in
       thenR flush_stream
      (bindR (liftR (bulk_column_list lower named collations)) (\<lambda>col_data.
       thenR (send_batch (build_insert_bulk_sql table col_data options order_hints))
      (bindR (on_tokens (flush_done env)) (\<lambda>_. BulkLoadRequest_new named))))))))"

definition bulk_insert_columns ::
  "(rchar \<Rightarrow> bool) \<Rightarrow> (rstring \<Rightarrow> rstring) \<Rightarrow> value_env \<Rightarrow> rstring \<Rightarrow> rstring list \<Rightarrow> (Connection, BulkLoadRequest) comp" where
  "bulk_insert_columns alnum lower env table columns = bulk_insert_with_options alnum lower env table columns {} []"

definition bulk_insert :: "(rchar \<Rightarrow> bool) \<Rightarrow> (rstring \<Rightarrow> rstring) \<Rightarrow> value_env \<Rightarrow> rstring \<Rightarrow> (Connection, BulkLoadRequest) comp" where
  "bulk_insert alnum lower env table = bulk_insert_columns alnum lower env table [lit ''*'']"

section \<open>Transactions\<close>

definition send_transaction_manager_request :: "value_env \<Rightarrow> TransactionManagerRequest \<Rightarrow> (Connection, unit) comp" where
  "send_transaction_manager_request env req =
     thenR flush_stream
    (thenR (with_packet_id (\<lambda>i. send (PacketHeader_transaction_manager i) (TransactionManagerRequest_encode req)))
    (bindR (on_tokens (flush_done env)) (\<lambda>_. retR ())))"

definition begin_transaction_with_isolation :: "value_env \<Rightarrow> IsolationLevel \<Rightarrow> (Connection, unit) comp" where
  "begin_transaction_with_isolation env level =
     with_conn_context (\<lambda>ctx. send_transaction_manager_request env (tm_begin (ctx_transaction_desc ctx) level []))"

definition begin_transaction :: "value_env \<Rightarrow> (Connection, unit) comp" where
  "begin_transaction env = begin_transaction_with_isolation env IsoUnspecified"

definition commit_transaction :: "value_env \<Rightarrow> (Connection, unit) comp" where
  "commit_transaction env = with_conn_context (\<lambda>ctx. send_transaction_manager_request env (tm_commit (ctx_transaction_desc ctx) []))"

definition rollback_transaction :: "value_env \<Rightarrow> (Connection, unit) comp" where
  "rollback_transaction env = with_conn_context (\<lambda>ctx. send_transaction_manager_request env (tm_rollback (ctx_transaction_desc ctx) []))"

definition save_transaction :: "value_env \<Rightarrow> rstring \<Rightarrow> (Connection, unit) comp" where
  "save_transaction env name = with_conn_context (\<lambda>ctx. send_transaction_manager_request env (tm_save (ctx_transaction_desc ctx) name))"

section \<open>Commands\<close>

record SqlTableData =
  td_rows :: "ColumnData list list"
  td_db_type :: rstring

datatype CommandParamData = ParamScalar ColumnData | ParamTable SqlTableData

record CommandParam =
  cp_name :: rstring
  cp_out :: bool
  cp_data :: CommandParamData

record Command =
  cmd_name :: rstring
  cmd_params :: "CommandParam list"

text \<open>\<^verbatim>\<open>TableValue::into_sql\<close>: the trait \<^verbatim>\<open>TableValueRow\<close> of the row type, implemented by the caller or a derive macro, gives
  the cells of a row and the name of the type.\<close>

definition into_table :: "('r \<Rightarrow> ColumnData list) \<Rightarrow> rstring \<Rightarrow> 'r list \<Rightarrow> SqlTableData" where
  "into_table bind_fields db_type rows = \<lparr>td_rows = map bind_fields rows, td_db_type = db_type\<rparr>"

definition Command_new :: "rstring \<Rightarrow> Command" where
  "Command_new proc_name = \<lparr>cmd_name = proc_name, cmd_params = []\<rparr>"

definition push_param :: "rstring \<Rightarrow> bool \<Rightarrow> CommandParamData \<Rightarrow> Command \<Rightarrow> Command" where
  "push_param name out dat cmd = cmd\<lparr>cmd_params := cmd_params cmd @ [\<lparr>cp_name = name, cp_out = out, cp_data = dat\<rparr>]\<rparr>"

definition bind_param :: "rstring \<Rightarrow> ColumnData \<Rightarrow> Command \<Rightarrow> Command" where
  "bind_param name dat = push_param name False (ParamScalar dat)"

definition bind_out_param :: "rstring \<Rightarrow> ColumnData \<Rightarrow> Command \<Rightarrow> Command" where
  "bind_out_param name dat = push_param name True (ParamScalar dat)"

definition bind_table :: "rstring \<Rightarrow> SqlTableData \<Rightarrow> Command \<Rightarrow> Command" where
  "bind_table name dat = push_param name False (ParamTable dat)"

definition bind_table_with_dbtype :: "rstring \<Rightarrow> rstring \<Rightarrow> SqlTableData \<Rightarrow> Command \<Rightarrow> Command" where
  "bind_table_with_dbtype name db_type dat = push_param name False (ParamTable (dat\<lparr>td_db_type := db_type\<rparr>))"

definition validate_db_type_identifier :: "(rchar \<Rightarrow> bool) \<Rightarrow> rstring \<Rightarrow> unit res" where
  "validate_db_type_identifier alnum db_type = validate_sql_identifier alnum (lit ''TVP db_type'') db_type"

fun rpc_value :: "(rchar \<Rightarrow> bool) \<Rightarrow> value_env \<Rightarrow> CommandParamData \<Rightarrow> (Connection, RpcValue) comp" where
  "rpc_value alnum env (ParamScalar col) = retR (Scalar col)"
| "rpc_value alnum env (ParamTable t) =
     thenR (liftR (validate_db_type_identifier alnum (td_db_type t)))
    (let type_info_tvp = TypeInfoTvp_new (td_db_type t) (td_rows t) in
     bindR (query_run_for_metadata env (lit ''DECLARE @P AS '' @ td_db_type t @ lit '';SELECT TOP 0 * FROM @P'')) (\<lambda>cols_metadata.
     retR (Table (case cols_metadata of Some cm \<Rightarrow> with_metadata cm type_info_tvp | None \<Rightarrow> type_info_tvp))))"

definition build_rpc_params :: "(rchar \<Rightarrow> bool) \<Rightarrow> value_env \<Rightarrow> CommandParam list \<Rightarrow> (Connection, RpcParam list) comp" where
  "build_rpc_params alnum env ps =
     forR (\<lambda>p. bindR (rpc_value alnum env (cp_data p)) (\<lambda>rpc_val.
       retR \<lparr>rp_name = cp_name p, rp_flags = (if cp_out p then RpcStatus_ByRefValue else 0), rp_value = rpc_val\<rparr>)) ps"

definition Command_exec :: "(rchar \<Rightarrow> bool) \<Rightarrow> value_env \<Rightarrow> Command \<Rightarrow> (Connection, QueryStream) comp" where
  "Command_exec alnum env cmd =
     bindR (build_rpc_params alnum env (cmd_params cmd)) (\<lambda>params.
     thenR flush_stream
    (thenR (rpc_run_command env (cmd_name cmd) params) (\<lambda>c. (Ok (QueryStream_new (TokenStream_new c)), c))))"

section \<open>What a query sends\<close>

text \<open>The placeholders are the names under which the parameters are sent, when they are counted from 1.\<close>

lemma iterator_join_snoc: "xs \<noteq> [] \<Longrightarrow> iterator_join sep (xs @ [x]) = iterator_join sep xs @ sep @ x"
  by (induction sep xs rule: iterator_join.induct) auto

lemma placeholders_loop_eq:
  "first + n \<le> 2 ^ 64 \<Longrightarrow> i \<le> n \<Longrightarrow>
     placeholders_loop first [i..<n] (iterator_join (lit '', '') (map (\<lambda>k. lit ''@P'' @ show_nat (first + k)) [0..<i])) =
       Ok (iterator_join (lit '', '') (map (\<lambda>k. lit ''@P'' @ show_nat (first + k)) [0..<n]))"
proof (induction "n - i" arbitrary: i)
  case (Suc d)
  then have lt: "i < n" "[i..<n] = i # [Suc i..<n]" by (simp_all add: upt_conv_Cons)
  have s: "iterator_join (lit '', '') (map (\<lambda>k. lit ''@P'' @ show_nat (first + k)) [0..<i]) @ (if 0 < i then lit '', '' else []) @
      lit ''@P'' @ show_nat (first + i) = iterator_join (lit '', '') (map (\<lambda>k. lit ''@P'' @ show_nat (first + k)) [0..<Suc i])"
    by (cases "i = 0") (simp_all add: iterator_join_snoc)
  show ?case using Suc.hyps(1) [of "Suc i"] Suc.hyps(2) Suc.prems lt s by simp
qed simp

lemma placeholders_eq:
  "count * 6 < 2 ^ 63 \<Longrightarrow> first + count \<le> 2 ^ 64 \<Longrightarrow>
     placeholders first count = Ok (iterator_join (lit '', '') (map (\<lambda>k. lit ''@P'' @ show_nat (first + k)) [0..<count]))"
  using placeholders_loop_eq [of first count 0] by (simp add: placeholders_def)

text \<open>The declarations and the values of the parameters, counted from 1.\<close>

definition param_decl :: "nat \<times> ColumnData \<Rightarrow> rstring" where
  "param_decl = (\<lambda>(i, v). lit ''@P'' @ show_nat (i + 1) @ lit '' '' @ ColumnData_type_name v)"

definition param_value :: "nat \<times> ColumnData \<Rightarrow> RpcParam" where
  "param_value = (\<lambda>(i, v). \<lparr>rp_name = lit ''@P'' @ show_nat (i + 1), rp_flags = 0, rp_value = Scalar v\<rparr>)"

definition query_params :: "rstring \<Rightarrow> ColumnData list \<Rightarrow> RpcParam list" where
  "query_params query params =
     \<lparr>rp_name = lit ''stmt'', rp_flags = 0, rp_value = Scalar (CString (Some query))\<rparr> #
     \<lparr>rp_name = lit ''params'', rp_flags = 0, rp_value = Scalar (CString (Some (iterator_join (lit '','') (map param_decl (enumerate 0 params)))))\<rparr> #
     map param_value (enumerate 0 params)"

lemma bind_params_eq:
  "i = length done \<Longrightarrow> bind_params i params (iterator_join (lit '','') done, ps) =
     (iterator_join (lit '','') (done @ map param_decl (enumerate i params)), ps @ map param_value (enumerate i params))"
proof (induction params arbitrary: i "done" ps)
  case (Cons v vs)
  have s: "iterator_join (lit '','') done @ (if 0 < i then lit '','' else []) @ lit ''@P'' @ show_nat (i + 1) @ lit '' '' @ ColumnData_type_name v =
      iterator_join (lit '','') (done @ [param_decl (i, v)])"
    using Cons.prems by (cases "done = []") (simp_all add: iterator_join_snoc param_decl_def)
  show ?case
    using Cons.IH [of "Suc i" "done @ [param_decl (i, v)]" "ps @ [param_value (i, v)]"] Cons.prems s
    by (simp add: param_value_def)
qed simp

lemma query_params_eq:
  "(case bind_params 0 params ([], rpc_params query) of (s, ps) \<Rightarrow> set_declarations s ps) = query_params query params"
  using bind_params_eq [of 0 "[]" params "rpc_params query"] by (simp add: rpc_params_def query_params_def lit_def)

text \<open>Draining unread packets looks at none of the tokens in them: an environment change that was not read, such as the begin or
  end of a transaction, never reaches the context, and the next request is sent in the transaction known before.\<close>

lemma flush_keeps_context: "flush_stream c = (r, c') \<Longrightarrow> conn_context c' = conn_context c"
  using only_read_drain [of "c\<lparr>conn_buf := []\<rparr>" r c']
  by (auto simp: flush_stream_def thenR_def bindR_def ensure_not_poisoned_def only_read_def Let_def retR_def errR_def split: if_splits)

text \<open>A request that was sent is one message on the wire.\<close>

lemma send_request_wire:
  assumes "send_request header req c = (Ok (), c')" "context_ok (conn_context c)"
    "req (ctx_transaction_desc (conn_context c)) [] = (Ok (), payload)" "payload \<noteq> []"
  shows "\<exists>ps. conn_out c' = conn_out c @ map (\<lambda>p. (conn_tls c, packet_bytes p)) ps @ [(conn_tls c, [])] \<and> is_message ps \<and>
    concat (map pk_payload ps) = payload \<and> (\<forall>p\<in>set ps. ph_ty (pk_header p) = ph_ty (header (ctx_packet_id (conn_context c))))"
proof -
  let ?c = "c\<lparr>conn_context := snd (next_packet_id (conn_context c))\<rparr>" and ?h = "header (ctx_packet_id (conn_context c))"
  let ?psz = "unat (ctx_packet_size (conn_context ?c)) - 8"
  have ok: "context_ok (conn_context ?c)" using context_ok_setters(1) [OF assms(2)] by simp
  have psz: "0 < ?psz" "?psz + 8 \<le> 65535" using context_payload_room [OF ok] by (auto simp: HEADER_BYTES_def)
  have s: "send ?h (req (ctx_transaction_desc (conn_context c))) ?c = (Ok (), c')"
    using assms(1) by (simp add: send_request_def with_conn_context_def with_packet_id_def next_packet_id_def)
  have np: "\<not> conn_poisoned ?c" "\<not> conn_command_desync ?c" using send_effect(2) [OF ok s] by auto
  have "conn_out c' = conn_out c @ map (\<lambda>p. (conn_tls c, packet_bytes p)) (split_packets ?h ?psz payload) @ [(conn_tls c, [])]"
    using send_effect(3) [OF ok s np assms(3)] by simp
  moreover have "is_message (split_packets ?h ?psz payload)" by (rule split_message [OF psz assms(4)])
  moreover have "concat (map pk_payload (split_packets ?h ?psz payload)) = payload" by (rule split_payload [OF psz(1)])
  ultimately show ?thesis using split_types by blast
qed

lemma send_request_payload:
  assumes "send_request header req c = (Ok (), c')" "context_ok (conn_context c)"
  shows "\<exists>payload. req (ctx_transaction_desc (conn_context c)) [] = (Ok (), payload)"
proof -
  let ?c = "c\<lparr>conn_context := snd (next_packet_id (conn_context c))\<rparr>"
  have ok: "context_ok (conn_context ?c)" using context_ok_setters(1) [OF assms(2)] by simp
  have s: "send (header (ctx_packet_id (conn_context c))) (req (ctx_transaction_desc (conn_context c))) ?c = (Ok (), c')"
    using assms(1) by (simp add: send_request_def with_conn_context_def with_packet_id_def next_packet_id_def)
  obtain q payload where q: "req (ctx_transaction_desc (conn_context c)) [] = (q, payload)" by (cases "req (ctx_transaction_desc (conn_context c)) []") auto
  have "\<not> conn_poisoned ?c" "\<not> conn_command_desync ?c" using send_effect(2) [OF ok s] by auto
  then have "q = Ok ()" using send_effect(4) [OF ok s _ _ q] by (cases "q = Ok ()") auto
  with q show ?thesis by blast
qed

text \<open>The texts the client adds are short and plain ASCII.\<close>

definition plain_text :: "rstring \<Rightarrow> nat \<Rightarrow> bool" where
  "plain_text s n \<longleftrightarrow> (\<forall>c\<in>set s. c < 128) \<and> length s \<le> n"

lemma plain_text_utf16: "plain_text s n \<Longrightarrow> valid_str s \<and> length (utf16_bytes s) \<le> 2 * n"
proof -
  have "\<forall>c\<in>set s. c < 128 \<Longrightarrow> valid_str s \<and> length (encode_utf16 s) = length s"
    by (induction s) (auto simp: valid_char_def utf16_char_def)
  then show "plain_text s n \<Longrightarrow> ?thesis" by (auto simp: plain_text_def length_utf16_bytes)
qed

lemma plain_text_append: "plain_text s m \<Longrightarrow> plain_text t n \<Longrightarrow> m + n \<le> k \<Longrightarrow> plain_text (s @ t) k"
  by (auto simp: plain_text_def)

lemma plain_show_nat: "n < 10 ^ k \<Longrightarrow> 0 < k \<Longrightarrow> plain_text (show_nat n) k"
proof (induction k arbitrary: n)
  case (Suc k)
  have c: "\<forall>c\<in>set (show_nat n). c < 128" using show_nat_digits [of n] by auto
  show ?case
  proof (cases "n < 10")
    case True
    then show ?thesis using c by (simp add: plain_text_def show_nat.simps [of n])
  next
    case False
    then have k: "0 < k" "n div 10 < 10 ^ k" using Suc.prems(1) by (auto intro: gr0I)
    from Suc.IH [OF k(2,1)] have "length (show_nat (n div 10)) \<le> k" by (simp add: plain_text_def)
    then show ?thesis using False c by (simp add: plain_text_def show_nat.simps [of n])
  qed
qed simp

lemma plain_type_name:
  assumes "typed_value v" "\<not> wide_decimal v"
  shows "plain_text (ColumnData_type_name v) 20"
proof (cases "\<exists>n. v = CNumeric (Some n)")
  case True
  then obtain n where v: "v = CNumeric (Some n)" by blast
  then have s: "num_scale n \<le> 38" using assms(1) by (simp add: typed_value_def)
  then have "precision n < 10 ^ 2" "unat (num_scale n) < 10 ^ 2" using narrow_decimal [of n] assms(2) v by (simp_all add: word_le_nat_alt)
  from this [THEN plain_show_nat] show ?thesis using v by (auto simp: plain_text_def lit_def)
next
  case False
  then show ?thesis by (cases v rule: ColumnData_type_name.cases) (simp_all add: plain_text_def lit_def)
qed

lemma plain_join: "\<forall>s\<in>set ss. plain_text s n \<Longrightarrow> plain_text (iterator_join (lit '','') ss) ((n + 1) * length ss)"
  by (induction "lit '',''" ss rule: iterator_join.induct) (auto simp: plain_text_def lit_def)

lemma query_params_ok:
  assumes "valid_str query" "length (utf16_bytes query) \<le> MAX_PLP_SIZE" "length params \<le> 1000000" "\<forall>v\<in>set params. param_ok v"
  shows "\<forall>p\<in>set (query_params query params). rpc_param_ok p"
proof -
  have num: "plain_text (lit ''@P'' @ show_nat (i + 1)) 10" if "i < length params" for i
  proof (rule plain_text_append)
    show "plain_text (lit ''@P'') 2" by (simp add: plain_text_def lit_def)
    show "plain_text (show_nat (i + 1)) 8" by (rule plain_show_nat) (use that assms(3) in auto)
  qed simp
  have decl: "plain_text (param_decl (i, v)) 31" if "i < length params" "param_ok v" for i v
  proof -
    have "plain_text (lit '' '' @ ColumnData_type_name v) 21"
      by (rule plain_text_append [OF _ plain_type_name, of _ 1]) (use that(2) in \<open>auto simp: plain_text_def lit_def param_ok_def\<close>)
    from plain_text_append [OF num [OF that(1)] this] show ?thesis by (simp add: param_decl_def)
  qed
  let ?ds = "map param_decl (enumerate 0 params)"
  have "\<forall>s\<in>set ?ds. plain_text s 31" using decl assms(4) by (auto simp: in_set_enumerate_eq)
  from plain_text_utf16 [OF plain_join [OF this]] have "valid_str (iterator_join (lit '','') ?ds)"
      "length (utf16_bytes (iterator_join (lit '','') ?ds)) \<le> MAX_PLP_SIZE"
    using assms(3) by (auto simp: MAX_PLP_SIZE_def)
  moreover have "rpc_param_ok (param_value (i, v))" if "(i, v) \<in> set (enumerate 0 params)" for i v
    using that num [of i] assms(4) plain_text_utf16 by (fastforce simp: param_value_def rpc_param_ok_def in_set_enumerate_eq)
  moreover have "valid_str (lit ''stmt'')" "valid_str (lit ''params'')" by (simp_all add: lit_def valid_char_def)
  ultimately show ?thesis using assms(1,2) by (auto simp: query_params_def rpc_param_ok_def param_ok_defs)
qed

text \<open>C11: A query arrives as it was written. Take a query and at most a million parameters, each text or binary of at most \<open>2 ^ 31 - 1\<close> bytes, none of them an empty XML document or
  a decimal of more than 38 digits. When sending it succeeds, what went out is one RPC message, and the server reads from it a call of the procedure
  that executes SQL, in the transaction the session is in, with the text of the query, one declaration for each parameter in their order, and the
  values of the parameters under the declared names; only a null without a type of its own arrives as an untyped null, and XML without the schema it was bound to.
  (The excluded values are accepted too, and the server cannot read the message then: \<open>xml_empty_desync\<close>, \<open>wide_decimal_refused\<close>.)\<close>

theorem query_on_wire:
  assumes "rpc_perform_query env ExecuteSQL (rpc_params query) params c = (Ok (), c')" "context_ok (conn_context c)"
    "valid_str query" "length (utf16_bytes query) \<le> MAX_PLP_SIZE" "length params \<le> 1000000"
    "\<forall>v\<in>set params. typed_value v \<and> value_bytes v \<le> MAX_PLP_SIZE \<and> \<not> empty_xml v \<and> \<not> wide_decimal v"
  shows "\<exists>ps qs. conn_out c' = conn_out c @ map (\<lambda>p. (conn_tls c, packet_bytes p)) ps @ [(conn_tls c, [])] \<and> is_message ps \<and>
    (\<forall>p\<in>set ps. ph_ty (pk_header p) = Rpc) \<and>
    read_rpc env (length params + 2) (concat (map pk_payload ps)) = (Ok (ctx_transaction_desc (conn_context c), Inr 10, 0, qs), []) \<and>
    list_all2 sent_as (query_params query params) qs"
proof -
  let ?req = "\<lambda>desc. TokenRpcRequest_encode env (TokenRpcRequest_new (ProcId ExecuteSQL) (query_params query params) desc)"
  let ?desc = "ctx_transaction_desc (conn_context c)"
  have ok: "\<forall>p\<in>set (query_params query params). rpc_param_ok p" using query_params_ok assms(3-6) by (simp add: param_ok_def)
  have s: "send_request PacketHeader_rpc ?req c = (Ok (), c')"
    using assms(1) query_params_eq [of params query] by (simp add: rpc_perform_query_def split: prod.splits)
  obtain payload where p: "?req ?desc [] = (Ok (), payload)" using send_request_payload [OF s assms(2)] by blast
  have len: "length ?desc = 8" using assms(2) by (simp add: context_ok_def)
  obtain qs where qs: "read_rpc env (length params + 2) payload = (Ok (?desc, Inr 10, 0, qs), [])" "list_all2 sent_as (query_params query params) qs"
    using rpc_readable [OF p] len ok by (auto simp: TokenRpcRequest_new_def query_params_def)
  have "payload \<noteq> []" using qs(1) by (auto simp: read_rpc_def read_transaction_def bindR_def wire_simps fixed_reader_defs read_le_def read_n_def)
  from send_request_wire [OF s assms(2) p this] qs show ?thesis by (fastforce simp: PacketHeader_rpc_def)
qed

lemma one_query:
  "query_params (lit ''SELECT @P1'') [CI32 (Some 7)] =
     [\<lparr>rp_name = lit ''stmt'', rp_flags = 0, rp_value = Scalar (CString (Some (lit ''SELECT @P1'')))\<rparr>,
      \<lparr>rp_name = lit ''params'', rp_flags = 0, rp_value = Scalar (CString (Some (lit ''@P1 int'')))\<rparr>,
      \<lparr>rp_name = lit ''@P1'', rp_flags = 0, rp_value = Scalar (CI32 (Some 7))\<rparr>]"
  by (simp add: query_params_def param_decl_def param_value_def show_nat.simps lit_def)

lemma one_query_encode:
  "fst (TokenRpcRequest_encode env (TokenRpcRequest_new (ProcId ExecuteSQL) (query_params (lit ''SELECT @P1'') [CI32 (Some 7)])
     (replicate 8 0)) []) = Ok ()"
  unfolding one_query
  by (simp add: TokenRpcRequest_encode_def TokenRpcRequest_new_def RpcParam_encode_def string_encode_def string_encode_untyped_def
      encode_b_varchar_def scalar_encode_def encode_all_headers_tx_eq put_bytelen_def as_bytes_def utf8_char_def
      utf16_char_def lit_def wire_simps wire_eval)

lemma one_query_ok:
  "valid_str (lit ''SELECT @P1'')" "length (utf16_bytes (lit ''SELECT @P1'')) \<le> MAX_PLP_SIZE" "length [CI32 (Some 7)] \<le> 1000000"
  "\<forall>v\<in>set [CI32 (Some 7)]. typed_value v \<and> value_bytes v \<le> MAX_PLP_SIZE \<and> \<not> empty_xml v \<and> \<not> wide_decimal v"
  using plain_text_utf16 [of "lit ''SELECT @P1''" 10] by (auto simp: plain_text_def lit_def MAX_PLP_SIZE_def param_ok_defs)

lemma one_query_read:
  "list_all2 sent_as (query_params (lit ''SELECT @P1'') [CI32 (Some 7)]) qs \<Longrightarrow>
     map rd_value qs = [CString (Some (lit ''SELECT @P1'')), CString (Some (lit ''@P1 int'')), CI32 (Some 7)]"
  unfolding one_query by (auto simp: list_all2_Cons1 sent_as_def arrives_as_def untyped_null_def)

theorem query_on_wire_witness:
  "\<forall>env. \<exists>c' ps qs. rpc_perform_query env ExecuteSQL (rpc_params (lit ''SELECT @P1'')) [CI32 (Some 7)] (Connection_new False Context_new []) = (Ok (), c') \<and>
     conn_out c' = map (\<lambda>p. (False, packet_bytes p)) ps @ [(False, [])] \<and> is_message ps \<and>
     read_rpc env 3 (concat (map pk_payload ps)) = (Ok (replicate 8 0, Inr 10, 0, qs), []) \<and> map rd_value qs =
       [CString (Some (lit ''SELECT @P1'')), CString (Some (lit ''@P1 int'')), CI32 (Some 7)]"
proof
  fix env
  let ?c = "Connection_new False Context_new []" and ?q = "lit ''SELECT @P1''"
  let ?req = "TokenRpcRequest_encode env (TokenRpcRequest_new (ProcId ExecuteSQL) (query_params ?q [CI32 (Some 7)]) (replicate 8 0))"
  have start: "context_ok (conn_context ?c)" "conn_out ?c = []" "conn_tls ?c = False" "ctx_transaction_desc (conn_context ?c) = replicate 8 0"
    using context_ok_new by (simp_all add: Connection_new_def Context_new_def)
  obtain payload where p: "?req [] = (Ok (), payload)" using one_query_encode [of env] by (cases "?req []") auto
  have "fst (rpc_perform_query env ExecuteSQL (rpc_params ?q) [CI32 (Some 7)] ?c) = Ok ()"
    using send_succeeds [of "?c\<lparr>conn_context := snd (next_packet_id (conn_context ?c))\<rparr>" ?req payload] context_ok_setters(1) [OF start(1)] p
      query_params_eq [of "[CI32 (Some 7)]" ?q] start(4)
    by (simp add: rpc_perform_query_def send_request_def with_conn_context_def with_packet_id_def next_packet_id_def Connection_new_def
        split: prod.splits)
  then obtain c' where s: "rpc_perform_query env ExecuteSQL (rpc_params ?q) [CI32 (Some 7)] ?c = (Ok (), c')"
    by (cases "rpc_perform_query env ExecuteSQL (rpc_params ?q) [CI32 (Some 7)] ?c") auto
  from query_on_wire [OF s start(1) one_query_ok] obtain ps qs where
    w: "conn_out c' = map (\<lambda>p. (False, packet_bytes p)) ps @ [(False, [])]" "is_message ps"
      "read_rpc env 3 (concat (map pk_payload ps)) = (Ok (replicate 8 0, Inr 10, 0, qs), [])"
      "list_all2 sent_as (query_params ?q [CI32 (Some 7)]) qs"
    unfolding start by (auto simp: numeral_3_eq_3)
  show "\<exists>c' ps qs. rpc_perform_query env ExecuteSQL (rpc_params ?q) [CI32 (Some 7)] ?c = (Ok (), c') \<and>
     conn_out c' = map (\<lambda>p. (False, packet_bytes p)) ps @ [(False, [])] \<and> is_message ps \<and>
     read_rpc env 3 (concat (map pk_payload ps)) = (Ok (replicate 8 0, Inr 10, 0, qs), []) \<and> map rd_value qs =
       [CString (Some (lit ''SELECT @P1'')), CString (Some (lit ''@P1 int'')), CI32 (Some 7)]"
    using s w(1-3) one_query_read [OF w(4)] by (intro exI [of _ c'] exI [of _ ps] exI [of _ qs] conjI)
qed

end
