(* ===== verification/Tds_Derive.thy ===== *)
theory Tds_Derive
  imports Tds_Client
begin

text \<open>
  Rows from Rust values: tuples (\<^verbatim>\<open>tds/codec/token/token_row/into_row.rs\<close>) for the bulk load, and the structs for which the derive macro
  (\<^verbatim>\<open>tiberius-macros\<close>) writes the trait of table-valued parameters. The conversion of each component to a cell is an argument.
\<close>

section \<open>Tuples\<close>

definition TokenRow_new :: "ColumnData list" where "TokenRow_new = []"

definition push :: "ColumnData list \<Rightarrow> ColumnData \<Rightarrow> ColumnData list" where
  "push row d = row @ [d]"

definition into_row1 :: "('a \<Rightarrow> ColumnData) \<Rightarrow> 'a \<Rightarrow> ColumnData list" where
  "into_row1 sa a = push TokenRow_new (sa a)"

definition into_row2 :: "('a \<Rightarrow> ColumnData) \<Rightarrow> ('b \<Rightarrow> ColumnData) \<Rightarrow> 'a \<times> 'b \<Rightarrow> ColumnData list" where
  "into_row2 sa sb = (\<lambda>(a, b). push (push TokenRow_new (sa a)) (sb b))"

definition into_row3 :: "('a \<Rightarrow> ColumnData) \<Rightarrow> ('b \<Rightarrow> ColumnData) \<Rightarrow> ('c \<Rightarrow> ColumnData) \<Rightarrow> 'a \<times> 'b \<times> 'c \<Rightarrow> ColumnData list" where
  "into_row3 sa sb sc = (\<lambda>(a, b, c). push (push (push TokenRow_new (sa a)) (sb b)) (sc c))"

definition into_row4 :: "('a \<Rightarrow> ColumnData) \<Rightarrow> ('b \<Rightarrow> ColumnData) \<Rightarrow> ('c \<Rightarrow> ColumnData) \<Rightarrow> ('d \<Rightarrow> ColumnData) \<Rightarrow> 'a \<times> 'b \<times> 'c \<times> 'd \<Rightarrow> ColumnData list" where
  "into_row4 sa sb sc sd = (\<lambda>(a, b, c, d). push (push (push (push TokenRow_new (sa a)) (sb b)) (sc c)) (sd d))"

definition into_row5 :: "('a \<Rightarrow> ColumnData) \<Rightarrow> ('b \<Rightarrow> ColumnData) \<Rightarrow> ('c \<Rightarrow> ColumnData) \<Rightarrow> ('d \<Rightarrow> ColumnData) \<Rightarrow> ('e \<Rightarrow> ColumnData) \<Rightarrow> 'a \<times> 'b \<times> 'c \<times> 'd \<times> 'e \<Rightarrow> ColumnData list" where
  "into_row5 sa sb sc sd se = (\<lambda>(a, b, c, d, e). push (push (push (push (push TokenRow_new (sa a)) (sb b)) (sc c)) (sd d)) (se e))"

definition into_row6 :: "('a \<Rightarrow> ColumnData) \<Rightarrow> ('b \<Rightarrow> ColumnData) \<Rightarrow> ('c \<Rightarrow> ColumnData) \<Rightarrow> ('d \<Rightarrow> ColumnData) \<Rightarrow> ('e \<Rightarrow> ColumnData) \<Rightarrow> ('f \<Rightarrow> ColumnData) \<Rightarrow> 'a \<times> 'b \<times> 'c \<times> 'd \<times> 'e \<times> 'f \<Rightarrow> ColumnData list" where
  "into_row6 sa sb sc sd se sf = (\<lambda>(a, b, c, d, e, f). push (push (push (push (push (push TokenRow_new (sa a)) (sb b)) (sc c)) (sd d)) (se e)) (sf f))"

definition into_row7 :: "('a \<Rightarrow> ColumnData) \<Rightarrow> ('b \<Rightarrow> ColumnData) \<Rightarrow> ('c \<Rightarrow> ColumnData) \<Rightarrow> ('d \<Rightarrow> ColumnData) \<Rightarrow> ('e \<Rightarrow> ColumnData) \<Rightarrow> ('f \<Rightarrow> ColumnData) \<Rightarrow> ('g \<Rightarrow> ColumnData) \<Rightarrow> 'a \<times> 'b \<times> 'c \<times> 'd \<times> 'e \<times> 'f \<times> 'g \<Rightarrow> ColumnData list" where
  "into_row7 sa sb sc sd se sf sg = (\<lambda>(a, b, c, d, e, f, g). push (push (push (push (push (push (push TokenRow_new (sa a)) (sb b)) (sc c)) (sd d)) (se e)) (sf f)) (sg g))"

definition into_row8 :: "('a \<Rightarrow> ColumnData) \<Rightarrow> ('b \<Rightarrow> ColumnData) \<Rightarrow> ('c \<Rightarrow> ColumnData) \<Rightarrow> ('d \<Rightarrow> ColumnData) \<Rightarrow> ('e \<Rightarrow> ColumnData) \<Rightarrow> ('f \<Rightarrow> ColumnData) \<Rightarrow> ('g \<Rightarrow> ColumnData) \<Rightarrow> ('h \<Rightarrow> ColumnData) \<Rightarrow> 'a \<times> 'b \<times> 'c \<times> 'd \<times> 'e \<times> 'f \<times> 'g \<times> 'h \<Rightarrow> ColumnData list" where
  "into_row8 sa sb sc sd se sf sg sh = (\<lambda>(a, b, c, d, e, f, g, h). push (push (push (push (push (push (push (push TokenRow_new (sa a)) (sb b)) (sc c)) (sd d)) (se e)) (sf f)) (sg g)) (sh h))"

definition into_row9 :: "('a \<Rightarrow> ColumnData) \<Rightarrow> ('b \<Rightarrow> ColumnData) \<Rightarrow> ('c \<Rightarrow> ColumnData) \<Rightarrow> ('d \<Rightarrow> ColumnData) \<Rightarrow> ('e \<Rightarrow> ColumnData) \<Rightarrow> ('f \<Rightarrow> ColumnData) \<Rightarrow> ('g \<Rightarrow> ColumnData) \<Rightarrow> ('h \<Rightarrow> ColumnData) \<Rightarrow> ('i \<Rightarrow> ColumnData) \<Rightarrow> 'a \<times> 'b \<times> 'c \<times> 'd \<times> 'e \<times> 'f \<times> 'g \<times> 'h \<times> 'i \<Rightarrow> ColumnData list" where
  "into_row9 sa sb sc sd se sf sg sh si = (\<lambda>(a, b, c, d, e, f, g, h, i). push (push (push (push (push (push (push (push (push TokenRow_new (sa a)) (sb b)) (sc c)) (sd d)) (se e)) (sf f)) (sg g)) (sh h)) (si i))"

definition into_row10 :: "('a \<Rightarrow> ColumnData) \<Rightarrow> ('b \<Rightarrow> ColumnData) \<Rightarrow> ('c \<Rightarrow> ColumnData) \<Rightarrow> ('d \<Rightarrow> ColumnData) \<Rightarrow> ('e \<Rightarrow> ColumnData) \<Rightarrow> ('f \<Rightarrow> ColumnData) \<Rightarrow> ('g \<Rightarrow> ColumnData) \<Rightarrow> ('h \<Rightarrow> ColumnData) \<Rightarrow> ('i \<Rightarrow> ColumnData) \<Rightarrow> ('j \<Rightarrow> ColumnData) \<Rightarrow> 'a \<times> 'b \<times> 'c \<times> 'd \<times> 'e \<times> 'f \<times> 'g \<times> 'h \<times> 'i \<times> 'j \<Rightarrow> ColumnData list" where
  "into_row10 sa sb sc sd se sf sg sh si sj = (\<lambda>(a, b, c, d, e, f, g, h, i, j). push (push (push (push (push (push (push (push (push (push TokenRow_new (sa a)) (sb b)) (sc c)) (sd d)) (se e)) (sf f)) (sg g)) (sh h)) (si i)) (sj j))"

lemma into_row_cells:
  "into_row1 sa a = [sa a]"
  "into_row2 sa sb (a, b) = [sa a, sb b]"
  "into_row3 sa sb sc (a, b, c) = [sa a, sb b, sc c]"
  "into_row4 sa sb sc sd (a, b, c, d) = [sa a, sb b, sc c, sd d]"
  "into_row5 sa sb sc sd se (a, b, c, d, e) = [sa a, sb b, sc c, sd d, se e]"
  "into_row6 sa sb sc sd se sf (a, b, c, d, e, f) = [sa a, sb b, sc c, sd d, se e, sf f]"
  "into_row7 sa sb sc sd se sf sg (a, b, c, d, e, f, g) = [sa a, sb b, sc c, sd d, se e, sf f, sg g]"
  "into_row8 sa sb sc sd se sf sg sh (a, b, c, d, e, f, g, h) = [sa a, sb b, sc c, sd d, se e, sf f, sg g, sh h]"
  "into_row9 sa sb sc sd se sf sg sh si (a, b, c, d, e, f, g, h, i) = [sa a, sb b, sc c, sd d, se e, sf f, sg g, sh h, si i]"
  "into_row10 sa sb sc sd se sf sg sh si sj (a, b, c, d, e, f, g, h, i, j) = [sa a, sb b, sc c, sd d, se e, sf f, sg g, sh h, si i, sj j]"
  by (simp_all add: TokenRow_new_def push_def into_row1_def into_row2_def into_row3_def into_row4_def into_row5_def into_row6_def into_row7_def into_row8_def into_row9_def into_row10_def)

section \<open>The derive macro\<close>

text \<open>What the macro reads of the syntax tree: for an attribute whether it is outer, its path and its value; for the struct its name, its lifetimes and
  its fields.\<close>

datatype attr_meta = NameValueStr rstring | NameValueOther | OtherMeta

record attribute =
  at_outer :: bool
  at_path :: "rstring list"
  at_meta :: attr_meta

record struct_field =
  sf_ident :: "rstring option"
  sf_attrs :: "attribute list"

datatype struct_data = NamedStruct "struct_field list" | OtherStruct | EnumData | UnionData

record derive_input =
  di_ident :: rstring
  di_lifetimes :: "rstring list"
  di_data :: struct_data

datatype derive_error =
    InvalidColname \<comment> \<open>invalid `#[colname]` attribute on a field\<close>
  | DuplicateColname \<comment> \<open>duplicate `#[colname]` attribute on a field\<close>
  | ColnameNotString \<comment> \<open>invalid `#[colname]` value on a field\<close>
  | ManyLifetimes "rstring list" \<comment> \<open>TableValueRow supports at most one lifetime parameter\<close>
  | OnlyNamedFields \<comment> \<open>TableValueRow can only be derived for structs with named fields\<close>
  | FieldsMustBeNamed \<comment> \<open>TableValueRow fields must be named\<close>
  | NotEnums | NotUnions

text \<open>\<^verbatim>\<open>FieldAttr::parse\<close>: the loop over the attributes with the name found so far.\<close>

fun FieldAttr_parse :: "attribute list \<Rightarrow> rstring option \<Rightarrow> derive_error + rstring option" where
  "FieldAttr_parse [] result = Inr result"
| "FieldAttr_parse (a # attrs) result =
     (if \<not> at_outer a then FieldAttr_parse attrs result
      else if at_path a = [] then FieldAttr_parse attrs result
      else if last (at_path a) \<noteq> lit ''colname'' then FieldAttr_parse attrs result
      else (case at_meta a of
              OtherMeta \<Rightarrow> if at_path a = [lit ''colname''] then Inl InvalidColname else FieldAttr_parse attrs result
            | meta \<Rightarrow>
                if result \<noteq> None then Inl DuplicateColname
                else (case meta of NameValueStr s \<Rightarrow> FieldAttr_parse attrs (Some s) | _ \<Rightarrow> Inl ColnameNotString)))"

record FieldExt =
  fe_attr :: "rstring option"
  fe_ident :: rstring

definition FieldExt_new :: "struct_field \<Rightarrow> derive_error + FieldExt" where
  "FieldExt_new f =
     (case sf_ident f of
        None \<Rightarrow> Inl FieldsMustBeNamed
      | Some ident \<Rightarrow>
          (case FieldAttr_parse (sf_attrs f) None of
             Inl e \<Rightarrow> Inl e | Inr attr \<Rightarrow> Inr \<lparr>fe_attr = attr, fe_ident = ident\<rparr>))"

definition get_col_name :: "FieldExt \<Rightarrow> rstring" where
  "get_col_name f = (case fe_attr f of Some colname \<Rightarrow> colname | None \<Rightarrow> fe_ident f)"

fun collect_fields :: "struct_field list \<Rightarrow> derive_error + FieldExt list" where
  "collect_fields [] = Inr []"
| "collect_fields (f # fs) =
     (case FieldExt_new f of
        Inl e \<Rightarrow> Inl e
      | Inr x \<Rightarrow> (case collect_fields fs of Inl e \<Rightarrow> Inl e | Inr xs \<Rightarrow> Inr (x # xs)))"

text \<open>The generated implementation: its lifetimes, the text of \<^verbatim>\<open>get_db_type\<close> and the fields that \<^verbatim>\<open>bind_fields\<close> adds, in order.\<close>

record row_impl =
  ri_lifetime :: rstring
  ri_struct_lifetime :: "rstring option"
  ri_db_type :: rstring
  ri_binds :: "rstring list"

definition as_bind :: "FieldExt \<Rightarrow> rstring" where
  "as_bind f = fe_ident f"

definition table_value_param_impl :: "derive_input \<Rightarrow> struct_field list \<Rightarrow> derive_error + row_impl" where
  "table_value_param_impl ast fs =
     (if 1 < length (di_lifetimes ast) then Inl (ManyLifetimes (di_lifetimes ast))
      else (case collect_fields fs of
              Inl e \<Rightarrow> Inl e
            | Inr xs \<Rightarrow> Inr
                \<lparr>ri_lifetime = (case di_lifetimes ast of [] \<Rightarrow> lit ''query'' | lt # _ \<Rightarrow> lt),
                 ri_struct_lifetime = (case di_lifetimes ast of [] \<Rightarrow> None | lt # _ \<Rightarrow> Some lt),
                 ri_db_type = di_ident ast, ri_binds = map as_bind xs\<rparr>))"

definition table_value_param :: "derive_input \<Rightarrow> derive_error + row_impl" where
  "table_value_param ast =
     (case di_data ast of
        NamedStruct fs \<Rightarrow> table_value_param_impl ast fs
      | OtherStruct \<Rightarrow> Inl OnlyNamedFields
      | EnumData \<Rightarrow> Inl NotEnums
      | UnionData \<Rightarrow> Inl NotUnions)"

text \<open>Running the generated method on a value of the struct, which is given by the cell of each field: \<^verbatim>\<open>add_field\<close> once for each.\<close>

definition add_field :: "ColumnData \<Rightarrow> ColumnData list \<Rightarrow> ColumnData list" where
  "add_field d row = row @ [d]"

definition bind_fields :: "row_impl \<Rightarrow> (rstring \<Rightarrow> ColumnData) \<Rightarrow> ColumnData list" where
  "bind_fields impl cell = fold (\<lambda>f. add_field (cell f)) (ri_binds impl) []"

section \<open>What is derived\<close>

lemma bind_fields_cells: "bind_fields impl cell = map cell (ri_binds impl)"
proof -
  have "fold (\<lambda>f. add_field (cell f)) fs row = row @ map cell fs" for fs row
    by (induction fs arbitrary: row) (simp_all add: add_field_def)
  then show ?thesis by (simp add: bind_fields_def)
qed

lemma collected: "collect_fields fs = Inr xs \<Longrightarrow> map (Some \<circ> fe_ident) xs = map sf_ident fs"
  by (induction fs arbitrary: xs) (auto simp: FieldExt_new_def split: sum.splits option.splits)

text \<open>A derived row has one cell for each field of the struct in the order of the declaration, whatever the column names are, and the table has the
  name of the struct as its type.\<close>

lemma derived_table:
  assumes "table_value_param ast = Inr impl"
  obtains fs where "di_data ast = NamedStruct fs" "length (di_lifetimes ast) \<le> 1" "map Some (ri_binds impl) = map sf_ident fs"
    "\<And>rows. into_table (bind_fields impl) (ri_db_type impl) rows =
       \<lparr>td_rows = map (\<lambda>cell. map (cell \<circ> the \<circ> sf_ident) fs) rows, td_db_type = di_ident ast\<rparr>"
proof -
  obtain fs xs where fs: "di_data ast = NamedStruct fs" "length (di_lifetimes ast) \<le> 1" "collect_fields fs = Inr xs"
      "ri_binds impl = map fe_ident xs" "ri_db_type impl = di_ident ast"
    using assms by (auto simp: table_value_param_def table_value_param_impl_def as_bind_def [abs_def] split: struct_data.splits if_splits sum.splits)
  have binds: "map Some (ri_binds impl) = map sf_ident fs" using collected [OF fs(3)] by (simp add: fs(4))
  then have "ri_binds impl = map (the \<circ> sf_ident) fs"
    by (metis (no_types, lifting) list.map_comp list.map_id map_idI option.sel comp_apply)
  then have "into_table (bind_fields impl) (ri_db_type impl) rows =
       \<lparr>td_rows = map (\<lambda>cell. map (cell \<circ> the \<circ> sf_ident) fs) rows, td_db_type = di_ident ast\<rparr>" for rows
    by (simp add: into_table_def bind_fields_cells fs(5) comp_def)
  with fs binds show thesis using that by blast
qed

text \<open>The macro succeeds exactly on structs with named fields, at most one lifetime, and at most one name for a column on each field.\<close>

definition names_column :: "attribute \<Rightarrow> bool" where
  "names_column a \<longleftrightarrow> at_outer a \<and> at_path a \<noteq> [] \<and> last (at_path a) = lit ''colname'' \<and> (at_meta a = OtherMeta \<longrightarrow> at_path a = [lit ''colname''])"

lemma attr_parse:
  "FieldAttr_parse attrs result =
     (case filter names_column attrs of
        [] \<Rightarrow> Inr result
      | a # rest \<Rightarrow>
          if at_meta a = OtherMeta then Inl InvalidColname
          else if result \<noteq> None then Inl DuplicateColname
          else (case at_meta a of
                  NameValueStr s \<Rightarrow> (case rest of [] \<Rightarrow> Inr (Some s) | b # _ \<Rightarrow> Inl (if at_meta b = OtherMeta then InvalidColname else DuplicateColname))
                | _ \<Rightarrow> Inl ColnameNotString))"
  by (induction attrs arbitrary: result)
    (auto simp: names_column_def split: attr_meta.splits list.splits)

end
