(* ===== verification/Spec2Isabelle.thy ===== *)
theory Spec2Isabelle
  imports Tds_Timeout Tds_Trust Tds_Calendar Tds_Decimal Tds_Derive
begin

text \<open>
  Tiberius is a client for Microsoft SQL Server in asynchronous Rust. This development models its sources in \<^verbatim>\<open>src/src/\<close> and
  \<^verbatim>\<open>src/tiberius-macros/src/\<close> and proves what makes them correct. Paths below are relative to \<^verbatim>\<open>src/src/\<close>.

  \<^bold>\<open>The program.\<close> A client is configured by setters or by a connection string (\<^verbatim>\<open>client/config.rs\<close>), finds its server, for a named
  instance through the browser service (\<^verbatim>\<open>sql_browser.rs\<close>), and opens a connection (\<^verbatim>\<open>client/connection.rs\<close>): prelogin messages settle
  the encryption, a TLS handshake travels inside prelogin packets (\<^verbatim>\<open>client/tls.rs\<close>), and the login message
  (\<^verbatim>\<open>tds/codec/login.rs\<close>) carries the credentials. After that the client (\<^verbatim>\<open>client.rs\<close>, \<^verbatim>\<open>query.rs\<close>, \<^verbatim>\<open>command.rs\<close>) sends requests,
  which the connection cuts into packets, and reads responses: the packets of a response are one stream of tokens
  (\<^verbatim>\<open>tds/stream/token.rs\<close>), which describe columns and carry rows, change the session context (\<^verbatim>\<open>tds/context.rs\<close>) and end with a
  DONE. The codecs of types and values are in \<^verbatim>\<open>tds/codec/\<close>, those of numbers and times in \<^verbatim>\<open>tds/numeric.rs\<close> and \<^verbatim>\<open>tds/time.rs\<close>.

  \<^bold>\<open>How the code is translated.\<close> A function with mutable state that returns a \<^verbatim>\<open>Result\<close> is a computation, a function from the state to
  an outcome and a new state (\<open>comp\<close> of \<open>Tds_Prelude\<close>, with \<open>bindR\<close>, \<open>thenR\<close>, \<open>retR\<close>, \<open>errR\<close>, \<open>eachR\<close> for the \<^verbatim>\<open>?\<close> operator and
  for loops). An outcome (\<open>res\<close> of \<open>Tds_Error\<close>) is a value, an error of the crate, \<open>Panic\<close> (a failed assertion, an \<^verbatim>\<open>unwrap\<close>,
  an index out of range, arithmetic that overflows in a checked build) or \<open>Diverge\<close> (a loop that makes no progress, or a future
  that the caller drops at a write). Machine integers are words of their width, signed ones with \<open>sint\<close> where the sign matters;
  \<^verbatim>\<open>i128\<close> is an integer with its range written out; \<^verbatim>\<open>f32\<close> and \<^verbatim>\<open>f64\<close> are bit patterns; a string is the list of its code points.
  Input is the list of bytes or packets that are still to come, whatever their cut; its end is the end of the stream, and an entry
  \<open>Diverge\<close> among the packets is a connection that stays open while nothing arrives. Output is a list of packets. Awaiting is
  invisible but where the code itself handles it (\<open>Tds_Tls\<close> and \<open>Tds_Timeout\<close> are poll by poll), and a write may be taken,
  fail or be dropped, in every possible sequence (\<open>conn_fates\<close>).

  \<^bold>\<open>Loops.\<close> There is no fuel. A loop is recursion over a list or has a termination proof by a measure: the bytes left, the packets left, the
  tokens left. Where progress depends on a value of the peer, the recursion has a guard whose failure is \<open>Diverge\<close>, and the
  theorems show that the guard never fails, or name the inputs for which the code does not return.

  \<^bold>\<open>Other people's code\<close> is an argument of the definitions that call it: \<^verbatim>\<open>encoding_rs\<close> and the powers of ten of the target
  (\<open>encoding_lib\<close>, \<open>value_env\<close>), the TLS library, the security libraries of the platform and the name of the host
  (\<open>Tds_Handshake\<close>), the JDBC parser (\<open>Tds_Config\<close>), the network (\<open>net_env\<close>), the file system with rustls and its parsers
  (\<open>tls_lib\<close>), the timer (\<open>timer\<close>), chrono and time (\<open>calendar_lib\<close>), rust\_decimal and bigdecimal (\<open>decimal_crate\<close>, \<open>bigdecimal_crate\<close>). What
  is relied on is the locale of that name, and every locale is interpreted on concrete functions.

  \<^bold>\<open>Foundations.\<close>
  \<^item> \<open>Tds_Error\<close> (\<^verbatim>\<open>error.rs\<close>): machine types, the error type with its messages as constructors, outcomes.
  \<^item> \<open>Tds_Prelude\<close>: computations, byte orders, the collections \<open>wire_simps\<close> and others, and the locale \<open>wire_codec\<close>: encoding appends the wire
    form, and decoding the wire form in front of any other bytes gives the value and leaves the other bytes. Most codecs are interpretations of it.
  \<^item> \<open>Tds_Strings\<close>: the string functions of the standard library; UTF-16 is decoded as it was encoded.
  \<^item> \<open>Tds_Wire\<close> (\<^verbatim>\<open>sql_read_bytes.rs\<close>, \<^verbatim>\<open>tds/codec/encode.rs\<close>): typed readers, bounded bulk reads, length-prefixed strings.

  \<^bold>\<open>Packets and prelogin.\<close>
  \<^item> \<open>Tds_Packet\<close> (\<^verbatim>\<open>tds/codec/header.rs\<close>, \<^verbatim>\<open>packet.rs\<close>, \<^verbatim>\<open>decode.rs\<close>, \<^verbatim>\<open>macros.rs\<close>): framing is read back, is total on every buffer and does not
    depend on how much of the input has arrived.
  \<^item> \<open>Tds_Prelogin\<close> (\<^verbatim>\<open>pre_login.rs\<close>, \<^verbatim>\<open>tds.rs\<close>, \<^verbatim>\<open>lib.rs\<close>, \<^verbatim>\<open>guid.rs\<close>): the option table is read back and safe to decode; the negotiation
    never gives less encryption than a side requires.

  \<^bold>\<open>Types and values.\<close>
  \<^item> \<open>Tds_Collation\<close>, \<open>Tds_TypeInfo\<close> (\<^verbatim>\<open>tds/collation.rs\<close>, \<^verbatim>\<open>type_info.rs\<close>, \<^verbatim>\<open>xml.rs\<close>): the built-in code pages are bijections; a type description of
    the server can be sent back.
  \<^item> \<open>Tds_Numeric\<close>, \<open>Tds_Time\<close>, \<open>Tds_Float\<close>, \<open>Tds_Money\<close>: codecs of decimals, times, money. What is written is what is read, or is an error, never a truncation.
  \<^item> \<open>Tds_Value\<close>, \<open>Tds_Variant\<close>, \<open>Tds_ColumnData\<close>, \<open>Tds_Params\<close> (\<^verbatim>\<open>column_data.rs\<close> and its directory): the decoders are safe on every input and bounded;
    a parameter describes itself, but for two kinds of values that are named: empty XML documents and decimals of more than 38 digits.
  \<^item> \<open>Tds_Calendar\<close>, \<open>Tds_Decimal\<close> (\<^verbatim>\<open>tds/time/chrono.rs\<close>, \<^verbatim>\<open>tds/time/time.rs\<close>, \<^verbatim>\<open>tds/numeric.rs\<close>): values of the date and number crates survive the way through
    a column value.

  \<^bold>\<open>Tokens and the session.\<close>
  \<^item> \<open>Tds_Tokens\<close>, \<open>Tds_Metadata\<close> (\<^verbatim>\<open>tds/codec/token/\<close>): one decoder per token; a token with a declared length consumes exactly that; a row with a
    null bitmap means the same as one without; a quoted column name is one SQL token.
  \<^item> \<open>Tds_Context\<close>, \<open>Tds_Connection\<close>, \<open>Tds_Sending\<close> (\<^verbatim>\<open>tds/context.rs\<close>, \<^verbatim>\<open>client/connection.rs\<close>): sending, reading, draining, cancelling. A
    write that did not complete leaves the connection marked, and a marked one refuses everything; a message is reassembled from its packets; reading refines reading from the concatenated payloads.
  \<^item> \<open>Tds_Stream\<close>, \<open>Tds_Responses\<close> (\<^verbatim>\<open>tds/stream/token.rs\<close>): the handlers of all tokens. For responses whose marked last packet is not empty:
    waiting ends within the response, or at a token the response does not hold; first errors are reported, the cut into
    packets is invisible, and the context is a function of the tokens seen.
  \<^item> \<open>Tds_Timeout\<close> (\<^verbatim>\<open>RoundTripTimeout\<close> there): a stalled server is noticed exactly when the bound has passed.

  \<^bold>\<open>Connecting.\<close>
  \<^item> \<open>Tds_Config\<close> (\<^verbatim>\<open>client/config.rs\<close>, \<^verbatim>\<open>client/config/\<close>, \<^verbatim>\<open>client/auth.rs\<close>): no connection string panics, and a mistyped security setting is an error.
  \<^item> \<open>Tds_Browser\<close> (\<^verbatim>\<open>sql_browser.rs\<close>, \<^verbatim>\<open>sql_browser/\<close>): no reply panics, and addresses are tried in order.
  \<^item> \<open>Tds_Login\<close>, \<open>Tds_Handshake\<close> (\<^verbatim>\<open>tds/codec/login.rs\<close>, \<^verbatim>\<open>client/connection.rs\<close>): the login message is read back by a specification of its layout; with encryption
    required no byte of it is sent before TLS.
  \<^item> \<open>Tds_Tls\<close> (\<^verbatim>\<open>client/tls.rs\<close>): below TLS, payloads of prelogin packets are one stream, and a flight that fits in a packet is sent as one.
  \<^item> \<open>Tds_Trust\<close> (\<^verbatim>\<open>client/tls_stream/\<close>): whom the three TLS backends trust, and that this is what the configuration says; a
    build without TLS refuses a configuration that asks for encryption.

  \<^bold>\<open>Requests and results.\<close>
  \<^item> \<open>Tds_Identifier\<close> (\<^verbatim>\<open>client.rs\<close>, \<^verbatim>\<open>bulk_options.rs\<close>, \<^verbatim>\<open>iterator_ext.rs\<close>): no identifier escapes from the statement of a bulk insert.
  \<^item> \<open>Tds_Requests\<close> (\<^verbatim>\<open>batch_request.rs\<close>, \<^verbatim>\<open>transaction_manager.rs\<close>, \<^verbatim>\<open>rpc_request.rs\<close>, \<^verbatim>\<open>type_info_tvp.rs\<close>), \<open>Tds_Bulk\<close> (\<^verbatim>\<open>bulk_load.rs\<close>), \<open>Tds_Client\<close>: the
    messages, the bulk load with its buffer, all operations of the client; a query arrives as it was called, a bulk load is complete or refused. The invariant that there is no
    partial message on a usable connection is in \<open>Tds_Bulk\<close>: its steps are all operations of an idle connection (\<open>conn_op\<close>) and of one that is lent to a
    bulk load, and its one exception is a load that is given up half-way.
  \<^item> \<open>Tds_Row\<close>, \<open>Tds_Query\<close> (\<^verbatim>\<open>row.rs\<close>, \<^verbatim>\<open>from_sql.rs\<close>, \<^verbatim>\<open>to_sql.rs\<close>, \<^verbatim>\<open>result.rs\<close>, \<^verbatim>\<open>tds/stream/query.rs\<close>, \<^verbatim>\<open>command.rs\<close>): rows, conversions, and the streams a caller
    reads; the results collected are those of the response, and a cell has the type of its column.
  \<^item> \<open>Tds_Derive\<close> (\<^verbatim>\<open>into_row.rs\<close> and the derive macro): rows of tuples and of structs have their cells in the order of the declaration.

  Theorems that are claims about the program are marked by their number; a theorem with hypotheses is followed by one that applies it to a concrete
  input. Lemmas that exhibit defects are under the heading they belong to: for example \<open>numeric_eq_overflow\<close>, \<open>xml_empty_desync\<close>, \<open>tail_is_lost\<close>,
  \<open>utc_reading_shifts\<close>, \<open>abandoned_load\<close>, \<open>empty_last_packet\<close>, \<open>wide_decimal_refused\<close>.

  \<^bold>\<open>Not modelled.\<close> The texts of I/O and TLS errors; the conversions of third-party errors into the error type; \<^verbatim>\<open>Debug\<close> and \<^verbatim>\<open>Display\<close>
  but for decimals, errors of the server and SQL text; logging; the wiping of secrets; closing a transport and dropping values; the conversion of a decimal to a double; the buffer wrapper
  of the bulk load, which only forwards; the variants without the feature \<^verbatim>\<open>tds73\<close>; a certificate check or a cipher, which are the TLS library's. These
  are glue or are outside the sources. Also outside are \<^verbatim>\<open>syn\<close> and \<^verbatim>\<open>quote\<close>: the derive macro is modelled on what it reads of the syntax tree.
\<close>

end
